(* ===== verification/Prelude.thy ===== *)
theory Prelude
  imports Main "HOL-Library.Sublist" "HOL-Library.List_Lexorder" "HOL-Library.Char_ord"
    "HOL-Library.Product_Lexorder"
begin

text \<open>
  What every component of the model shares: error results and the loops that stop at the first
  error, the byte strings of Go with the functions of the package \<open>strings\<close> the program calls, JSON
  values, and a small theory of state machines (reachable states, invariants as a locale).

  Strings are the byte sequences of Go: \<open>length\<close> counts bytes, \<open><\<close> compares bytes. An error return
  is \<open>Inl\<close> of an error value, a normal return \<open>Inr\<close>. A Go map that is ranged over is an association
  list in the order of the range (which Go leaves open), one that is only looked up is a partial
  function.
\<close>

section \<open>Theorem collections\<close>

named_theorems inv_intros \<open>introduction rules of the invariants\<close>
named_theorems machine_defs \<open>definitions of the state changes of the machines\<close>

section \<open>Error results\<close>

type_synonym ('e, 'a) res = "'e + 'a"

definition rbind :: "('e, 'a) res \<Rightarrow> ('a \<Rightarrow> ('e, 'b) res) \<Rightarrow> ('e, 'b) res" where
  "rbind r f = (case r of Inl e \<Rightarrow> Inl e | Inr x \<Rightarrow> f x)"

lemma rbind_simps [simp]:
  "rbind (Inl e) f = Inl e"
  "rbind (Inr x) f = f x"
  by (simp_all add: rbind_def)

lemma rbind_Inr_iff: "rbind r f = Inr y \<longleftrightarrow> (\<exists>x. r = Inr x \<and> f x = Inr y)"
  by (cases r) auto

lemma rbind_Inl_iff: "rbind r f = Inl e \<longleftrightarrow> r = Inl e \<or> (\<exists>x. r = Inr x \<and> f x = Inl e)"
  by (cases r) auto

lemma rbind_cong [fundef_cong]:
  "r = r' \<Longrightarrow> (\<And>x. r' = Inr x \<Longrightarrow> f x = g x) \<Longrightarrow> rbind r f = rbind r' g"
  by (cases r') auto

definition check :: "bool \<Rightarrow> 'e \<Rightarrow> ('e, unit) res" where
  "check b e = (if b then Inr () else Inl e)"

lemma check_Inr_iff [simp]: "check b e = Inr u \<longleftrightarrow> b"
  by (simp add: check_def)

lemma check_Inl_iff [simp]: "check b e = Inl e' \<longleftrightarrow> \<not> b \<and> e' = e"
  by (auto simp: check_def)

lemma check_True [simp]: "check True e = Inr ()"
  by (simp add: check_def)

lemma check_False [simp]: "check False e = Inl e"
  by (simp add: check_def)

text \<open>A loop over a slice whose body may return an error.\<close>

primrec loop_res :: "('a \<Rightarrow> 's \<Rightarrow> ('e, 's) res) \<Rightarrow> 'a list \<Rightarrow> 's \<Rightarrow> ('e, 's) res" where
  "loop_res f [] s = Inr s"
| "loop_res f (x # xs) s = rbind (f x s) (loop_res f xs)"

lemma loop_res_append: "loop_res f (xs @ ys) s = rbind (loop_res f xs s) (loop_res f ys)"
proof (induction xs arbitrary: s)
  case (Cons x xs)
  then show ?case by (cases "f x s") auto
qed simp

lemma loop_res_invariant:
  assumes "loop_res f xs s = Inr s'" and "P s"
    and "\<And>x s s'. x \<in> set xs \<Longrightarrow> P s \<Longrightarrow> f x s = Inr s' \<Longrightarrow> P s'"
  shows "P s'"
  using assms
proof (induction xs arbitrary: s)
  case (Cons x xs)
  from Cons.prems(1) obtain t where "f x s = Inr t" and "loop_res f xs t = Inr s'"
    by (auto simp: rbind_Inr_iff)
  with Cons.prems(2,3) show ?case by (intro Cons.IH [of t]) auto
qed simp

text \<open>A loop that fills the i-th slot of the result from the i-th element; the body sees the index.\<close>

primrec map_res :: "(nat \<Rightarrow> 'a \<Rightarrow> ('e, 'b) res) \<Rightarrow> nat \<Rightarrow> 'a list \<Rightarrow> ('e, 'b list) res" where
  "map_res f i [] = Inr []"
| "map_res f i (x # xs) = rbind (f i x) (\<lambda>y. rbind (map_res f (Suc i) xs) (\<lambda>ys. Inr (y # ys)))"

lemma map_res_length: "map_res f i xs = Inr ys \<Longrightarrow> length ys = length xs"
  by (induction xs arbitrary: i ys) (auto simp: rbind_Inr_iff)

lemma map_res_nth:
  "map_res f i xs = Inr ys \<Longrightarrow> k < length xs \<Longrightarrow> f (i + k) (xs ! k) = Inr (ys ! k)"
proof (induction xs arbitrary: i ys k)
  case (Cons x xs)
  then obtain y zs where "f i x = Inr y" "map_res f (Suc i) xs = Inr zs" "ys = y # zs"
    by (auto simp: rbind_Inr_iff)
  with Cons.IH [of "Suc i" zs "k - 1"] Cons.prems(2) show ?case
    by (cases k) auto
qed simp

lemma map_res_elem:
  assumes "map_res f i xs = Inr ys" and "y \<in> set ys"
  obtains k where "k < length xs" "f (i + k) (xs ! k) = Inr y" "y = ys ! k"
  using assms by (metis in_set_conv_nth map_res_length map_res_nth)

lemma map_res_mem_source:
  assumes "map_res f i xs = Inr ys" and "y \<in> set ys"
  obtains j x where "x \<in> set xs" "f j x = Inr y"
  using assms by (metis map_res_elem nth_mem)

lemma map_res_all:
  "map_res f i xs = Inr ys \<Longrightarrow> x \<in> set xs \<Longrightarrow> \<exists>j y. f j x = Inr y \<and> y \<in> set ys"
  by (metis in_set_conv_nth map_res_length map_res_nth)

section \<open>State machines\<close>

text \<open>
  A component whose critical sections interleave is a relation \<open>step s a s'\<close> over its states and the
  actions (the critical sections, the timers and the returns of the calls it makes). The reachable
  states are the least set that holds the initial state and is closed under steps.
\<close>

inductive reach :: "('s \<Rightarrow> bool) \<Rightarrow> ('s \<Rightarrow> 'a \<Rightarrow> 's \<Rightarrow> bool) \<Rightarrow> 's \<Rightarrow> bool" for init step where
  reach_init: "init s \<Longrightarrow> reach init step s"
| reach_step: "reach init step s \<Longrightarrow> step s a t \<Longrightarrow> reach init step t"

text \<open>
  The contract between an invariant and its machine; every component with a step relation
  interprets it, and its reachable states then satisfy the invariant.
\<close>

locale invariant_machine =
  fixes init :: "'s \<Rightarrow> bool"
    and step :: "'s \<Rightarrow> 'a \<Rightarrow> 's \<Rightarrow> bool"
    and inv :: "'s \<Rightarrow> bool"
  assumes inv_init: "init s \<Longrightarrow> inv s"
    and inv_step: "inv s \<Longrightarrow> step s a t \<Longrightarrow> inv t"
begin

lemma reach_inv: "reach init step s \<Longrightarrow> inv s"
proof (induction rule: reach.induct)
  case (reach_init s)
  then show ?case by (rule inv_init)
next
  case (reach_step s a t)
  then show ?case by (blast intro: inv_step)
qed

end

text \<open>A run of the executable form of a machine; what it reaches is reachable.\<close>

primrec play :: "('s \<Rightarrow> 'a \<Rightarrow> 's option) \<Rightarrow> 's \<Rightarrow> 'a list \<Rightarrow> 's option" where
  "play next s [] = Some s"
| "play next s (a # as) = (case next s a of None \<Rightarrow> None | Some t \<Rightarrow> play next t as)"

lemma play_reach:
  assumes "reach init step s" and "\<And>s a t. next s a = Some t \<Longrightarrow> step s a t" and "play next s as = Some t"
  shows "reach init step t"
  using assms(1,3)
proof (induction as arbitrary: s)
  case (Cons a as)
  from Cons.prems(2) obtain u where "next s a = Some u" "play next u as = Some t"
    by (auto split: option.splits)
  with Cons show ?case by (blast intro: reach_step assms(2))
qed simp

section \<open>An optional value as a list\<close>

primrec opt_list :: "'a option \<Rightarrow> 'a list" where
  "opt_list None = []"
| "opt_list (Some x) = [x]"

lemma set_opt_list [simp]: "set (opt_list x) = set_option x"
  by (cases x) auto

lemma distinct_opt_list [simp]: "distinct (opt_list x)"
  by (cases x) auto

section \<open>Distinct keys\<close>

text \<open>Association lists that stand for Go maps have distinct keys.\<close>

definition keys_distinct :: "('k \<times> 'v) list \<Rightarrow> bool" where
  "keys_distinct xs \<longleftrightarrow> distinct (map fst xs)"

lemma keys_distinct_Nil [simp]: "keys_distinct []"
  by (simp add: keys_distinct_def)

lemma keys_distinct_snoc [simp]:
  "keys_distinct (xs @ [(k, v)]) \<longleftrightarrow> keys_distinct xs \<and> k \<notin> fst ` set xs"
  by (auto simp: keys_distinct_def)

lemma keys_distinct_lookup:
  "keys_distinct xs \<Longrightarrow> map_of xs k = Some v \<longleftrightarrow> (k, v) \<in> set xs"
  by (simp add: keys_distinct_def)

lemma keys_distinct_unique:
  "keys_distinct xs \<Longrightarrow> (k, v) \<in> set xs \<Longrightarrow> (k, w) \<in> set xs \<Longrightarrow> v = w"
  by (metis keys_distinct_lookup option.inject)

lemma map_of_snoc: "map_of (xs @ [(k, v)]) = (\<lambda>x. case map_of xs x of None \<Rightarrow> (if x = k then Some v else None) | Some w \<Rightarrow> Some w)"
  by (rule ext) (simp add: map_add_def split: option.splits)

lemma map_of_None_iff: "map_of xs k = None \<longleftrightarrow> k \<notin> fst ` set xs"
  by (simp add: map_of_eq_None_iff)

end
