(* ===== verification/Go_Lib.thy ===== *)
theory Go_Lib
  imports Prelude
begin

text \<open>
  The functions of Go's standard library the program calls on strings and slices, over byte strings;
  the JSON values that pass through the program; and the two third-party services the catalog uses
  (parsing a URI, matching and expanding a URI template), gathered in a record that the definitions
  using them take as an argument.
\<close>

section \<open>Package strings\<close>

abbreviation has_prefix :: "string \<Rightarrow> string \<Rightarrow> bool" where
  "has_prefix s p \<equiv> prefix p s"

abbreviation has_suffix :: "string \<Rightarrow> string \<Rightarrow> bool" where
  "has_suffix s p \<equiv> suffix p s"

text \<open>\<open>strings.IndexByte\<close>: the first position of a byte; \<open>None\<close> stands for \<open>-1\<close>.\<close>

primrec index_byte :: "string \<Rightarrow> char \<Rightarrow> nat option" where
  "index_byte [] c = None"
| "index_byte (x # xs) c = (if x = c then Some 0 else map_option Suc (index_byte xs c))"

lemma index_byte_None: "index_byte s c = None \<longleftrightarrow> c \<notin> set s"
  by (induction s) auto

lemma index_byte_Some:
  "index_byte s c = Some n \<Longrightarrow> n < length s \<and> s ! n = c \<and> c \<notin> set (take n s)"
  by (induction s arbitrary: n) (auto split: if_splits)

lemma index_byte_append: "c \<notin> set s \<Longrightarrow> index_byte (s @ c # t) c = Some (length s)"
  by (induction s) auto

text \<open>\<open>strings.Trim\<close> with a cut set of one byte.\<close>

definition trim_byte :: "char \<Rightarrow> string \<Rightarrow> string" where
  "trim_byte c s = rev (dropWhile (\<lambda>x. x = c) (rev (dropWhile (\<lambda>x. x = c) s)))"

definition trim_suffix :: "string \<Rightarrow> string \<Rightarrow> string" where
  "trim_suffix s t = (if has_suffix s t then take (length s - length t) s else s)"

text \<open>\<open>strings.ToLower\<close> of an ASCII byte.\<close>

definition lower_byte :: "char \<Rightarrow> char" where
  "lower_byte c = (if CHR ''A'' \<le> c \<and> c \<le> CHR ''Z'' then char_of (of_char c + (32 :: nat)) else c)"

text \<open>
  \<open>strings.TrimSpace\<close> trims the characters with Unicode's White_Space property; in a byte string each
  of them is one of these UTF-8 sequences. A lead byte never occurs inside another sequence, so a
  match at either end is the first or the last character.
\<close>

definition space_runes :: "string list" where
  "space_runes = [[CHR 0x20], [CHR 0x09], [CHR 0x0A], [CHR 0x0B], [CHR 0x0C], [CHR 0x0D],
     [CHR 0xC2, CHR 0x85], [CHR 0xC2, CHR 0xA0], [CHR 0xE1, CHR 0x9A, CHR 0x80],
     [CHR 0xE2, CHR 0x80, CHR 0x80], [CHR 0xE2, CHR 0x80, CHR 0x81],
     [CHR 0xE2, CHR 0x80, CHR 0x82], [CHR 0xE2, CHR 0x80, CHR 0x83],
     [CHR 0xE2, CHR 0x80, CHR 0x84], [CHR 0xE2, CHR 0x80, CHR 0x85],
     [CHR 0xE2, CHR 0x80, CHR 0x86], [CHR 0xE2, CHR 0x80, CHR 0x87],
     [CHR 0xE2, CHR 0x80, CHR 0x88], [CHR 0xE2, CHR 0x80, CHR 0x89],
     [CHR 0xE2, CHR 0x80, CHR 0x8A], [CHR 0xE2, CHR 0x80, CHR 0xA8],
     [CHR 0xE2, CHR 0x80, CHR 0xA9], [CHR 0xE2, CHR 0x80, CHR 0xAF],
     [CHR 0xE2, CHR 0x81, CHR 0x9F], [CHR 0xE3, CHR 0x80, CHR 0x80]]"

fun strip_first :: "string list \<Rightarrow> string \<Rightarrow> string option" where
  "strip_first [] s = None"
| "strip_first (p # ps) s =
     (if p \<noteq> [] \<and> has_prefix s p then Some (drop (length p) s) else strip_first ps s)"

lemma strip_first_shorter: "strip_first ps s = Some t \<Longrightarrow> length t < length s"
  by (induction ps) (auto simp: prefix_def split: if_splits)

function trim_left_any :: "string list \<Rightarrow> string \<Rightarrow> string" where
  "trim_left_any ps s = (case strip_first ps s of None \<Rightarrow> s | Some t \<Rightarrow> trim_left_any ps t)"
  by pat_completeness auto
termination
  by (relation "measure (\<lambda>(ps, s). length s)") (auto dest: strip_first_shorter)

declare trim_left_any.simps [simp del]

definition trim_space :: "string \<Rightarrow> string" where
  "trim_space s =
     rev (trim_left_any (map rev space_runes) (rev (trim_left_any space_runes s)))"

lemma trim_left_any_fixed: "strip_first ps (trim_left_any ps s) = None"
proof (induction ps s rule: trim_left_any.induct)
  case (1 ps s)
  then show ?case
    by (cases "strip_first ps s") (auto simp: trim_left_any.simps [of ps s])
qed

lemma trim_left_any_id: "strip_first ps s = None \<Longrightarrow> trim_left_any ps s = s"
  by (simp add: trim_left_any.simps)

lemma trim_space_Nil [simp]: "trim_space [] = []"
proof -
  have "strip_first ps [] = None" for ps
    by (induction ps) auto
  then show ?thesis by (simp add: trim_space_def trim_left_any_id)
qed

section \<open>Package sort\<close>

text \<open>\<open>sort.Search\<close>: the binary search for the least index whose element satisfies the predicate.\<close>

function search_loop :: "(nat \<Rightarrow> bool) \<Rightarrow> nat \<Rightarrow> nat \<Rightarrow> nat" where
  "search_loop f i j =
     (if i < j then let h = (i + j) div 2 in if f h then search_loop f i h else search_loop f (Suc h) j
      else i)"
  by pat_completeness auto
termination
  by (relation "measure (\<lambda>(f, i, j). j - i)") auto

declare search_loop.simps [simp del]

definition search_strings :: "string list \<Rightarrow> string \<Rightarrow> nat" where
  "search_strings a x = search_loop (\<lambda>i. a ! i \<ge> x) 0 (length a)"

lemma search_loop_correct:
  assumes "i \<le> j" and "\<And>k l. k \<le> l \<Longrightarrow> f k \<Longrightarrow> l < n \<Longrightarrow> f l" and "j \<le> n"
    and "\<And>k. k < i \<Longrightarrow> \<not> f k" and "\<And>k. j \<le> k \<Longrightarrow> k < n \<Longrightarrow> f k"
  shows "search_loop f i j \<le> n \<and> (\<forall>k < search_loop f i j. \<not> f k)
    \<and> (\<forall>k. search_loop f i j \<le> k \<longrightarrow> k < n \<longrightarrow> f k)"
  using assms
proof (induction f i j rule: search_loop.induct)
  case (1 f i j)
  let ?h = "(i + j) div 2"
  show ?case
  proof (cases "i < j")
    case False
    then have "search_loop f i j = i" by (simp add: search_loop.simps [of f i j])
    with False "1.prems" show ?thesis by auto
  next
    case lt: True
    have h: "i \<le> ?h" "?h < j" using lt by auto
    show ?thesis
    proof (cases "f ?h")
      case True
      then have "f k" if "?h \<le> k" "k < n" for k
        using "1.prems"(2) that by blast
      with "1.IH"(1) [OF lt refl True] "1.prems" h lt True show ?thesis
        by (simp add: search_loop.simps [of f i j])
    next
      case False
      have "\<not> f k" if "k < Suc ?h" for k
        using "1.prems"(2) [of k ?h] "1.prems"(3) h(2) that False by auto
      with "1.IH"(2) [OF lt refl False] "1.prems" h lt False show ?thesis
        by (simp add: search_loop.simps [of f i j])
    qed
  qed
qed

lemma search_strings_nth:
  assumes "sorted_wrt (<) a" and "i < length a"
  shows "search_strings a (a ! i) = i"
proof -
  have mono: "a ! i \<le> a ! l" if "k \<le> l" "a ! i \<le> a ! k" "l < length a" for k l
  proof (cases "k = l")
    case False
    then have "a ! k < a ! l" using that by (intro sorted_wrt_nth_less [OF assms(1)]) auto
    with that(2) show ?thesis by (rule order.trans [OF _ less_imp_le])
  qed (use that in simp)
  have c: "search_strings a (a ! i) \<le> length a \<and> (\<forall>k < search_strings a (a ! i). \<not> a ! i \<le> a ! k)
    \<and> (\<forall>k. search_strings a (a ! i) \<le> k \<longrightarrow> k < length a \<longrightarrow> a ! i \<le> a ! k)"
    unfolding search_strings_def
  proof (rule search_loop_correct)
    show "a ! i \<le> a ! l" if "k \<le> l" "a ! i \<le> a ! k" "l < length a" for k l
      using that by (rule mono)
  qed simp_all
  have "\<not> i < search_strings a (a ! i)" using c by auto
  moreover have "\<not> search_strings a (a ! i) < i"
  proof
    assume lt: "search_strings a (a ! i) < i"
    then have "a ! i \<le> a ! search_strings a (a ! i)" using c assms(2) by auto
    with sorted_wrt_nth_less [OF assms(1) lt assms(2)] show False by simp
  qed
  ultimately show ?thesis by simp
qed

section \<open>JSON values\<close>

text \<open>
  The values of \<open>encoding/json\<close>: an object is the list of its members, a number its text
  (\<open>json.Number\<close>).
\<close>

datatype json = JNull | JBool bool | JNum string | JStr string | JArr "json list"
  | JObj "(string \<times> json) list"

section \<open>URIs and URI templates\<close>

text \<open>
  \<open>url_scheme\<close> is \<open>net/url\<close>'s \<open>Parse\<close> as the program uses it: \<open>None\<close> when it fails, otherwise the
  scheme of the result. The other fields are \<open>New\<close>, \<open>Match\<close> and \<open>Expand\<close> of
  \<open>github.com/yosida95/uritemplate/v3\<close>: \<open>New\<close> returns a template pointer (nil with an error) and
  whether there was no error, \<open>None\<close> is no match and an expansion error.
\<close>

record ('t, 'v) uri_lib =
  url_scheme :: "string \<Rightarrow> string option"
  tpl_new :: "string \<Rightarrow> 't \<times> bool"
  tpl_match :: "'t \<Rightarrow> string \<Rightarrow> 'v option"
  tpl_expand :: "'t \<Rightarrow> 'v \<Rightarrow> string option"

end
