(* ===== verification/Config.thy ===== *)
theory Config
  imports Go_Lib
begin

text \<open>
  The package \<open>config\<close>: the decoded YAML document (the DTO records), the runtime configuration, the
  interpolation of environment references and the checks that turn one into the other
  (\<open>interpolate\<close>, \<open>serverDTO.runtime\<close>, \<open>configDTO.runtime\<close>). YAML decoding itself is the library's; the
  model starts from the decoded document. A Go map of the document is an association list in the
  order in which the code's range visits it.

  The lemmas give the meaning of the interpolation as a tokenizer followed by substitution, and what
  every loaded configuration satisfies.
\<close>

section \<open>The runtime configuration\<close>

record tool_override =
  to_name :: string
  to_override_name :: string
  to_description :: string
  to_override_description :: string
  to_enabled :: bool

record prompt_override =
  po_name :: string
  po_override_name :: string
  po_description :: string
  po_override_description :: string
  po_enabled :: bool

record resource_override =
  ro_uri :: string
  ro_override_uri :: string
  ro_name :: string
  ro_override_name :: string
  ro_description :: string
  ro_override_description :: string
  ro_enabled :: bool

record template_override =
  xo_uri_template :: string
  xo_override_uri_template :: string
  xo_name :: string
  xo_override_name :: string
  xo_description :: string
  xo_override_description :: string
  xo_enabled :: bool

text \<open>Durations are nanoseconds.\<close>

record server =
  srv_discovery_method :: string
  srv_discovery_revision :: string
  srv_name :: string
  srv_prefix :: string
  srv_url :: string
  srv_headers :: "(string \<times> string) list"
  srv_passthrough_headers :: "string list"
  srv_command :: string
  srv_args :: "string list"
  srv_env :: "(string \<times> string) list"
  srv_working_directory :: string
  srv_timeout :: int
  srv_tools :: "tool_override list"
  srv_disable_tools :: bool
  srv_prompts :: "prompt_override list"
  srv_resources :: "resource_override list"
  srv_resource_templates :: "template_override list"

record config =
  cfg_request_scoped_discovery :: bool
  cfg_name :: string
  cfg_version :: string
  cfg_tool_search :: bool
  cfg_defer_authorization :: bool
  cfg_listen :: string
  cfg_idle_timeout :: int
  cfg_servers :: "server list"

section \<open>The decoded document\<close>

record tool_override_dto =
  tod_name :: string
  tod_override_name :: string
  tod_description :: string
  tod_override_description :: string
  tod_enabled :: "bool option"

record prompt_override_dto =
  pod_name :: string
  pod_override_name :: string
  pod_description :: string
  pod_override_description :: string
  pod_enabled :: "bool option"

record resource_override_dto =
  rod_uri :: string
  rod_override_uri :: string
  rod_name :: string
  rod_override_name :: string
  rod_description :: string
  rod_override_description :: string
  rod_enabled :: "bool option"

record template_override_dto =
  xod_uri_template :: string
  xod_override_uri_template :: string
  xod_name :: string
  xod_override_name :: string
  xod_description :: string
  xod_override_description :: string
  xod_enabled :: "bool option"

record server_dto =
  sd_discovery_method :: string
  sd_discovery_revision :: string
  sd_name :: string
  sd_prefix :: string
  sd_url :: string
  sd_headers :: "(string \<times> string) list"
  sd_passthrough_headers :: "string list"
  sd_command :: string
  sd_args :: "string list"
  sd_env :: "(string \<times> string) list"
  sd_working_directory :: string
  sd_timeout :: int
  sd_tools :: "tool_override_dto list"
  sd_disable_tools :: bool
  sd_prompts :: "prompt_override_dto list"
  sd_resources :: "resource_override_dto list"
  sd_resource_templates :: "template_override_dto list"

record config_dto =
  cd_name :: string
  cd_version :: string
  cd_tool_search :: bool
  cd_listen :: string
  cd_idle_timeout :: int
  cd_servers :: "server_dto list"

definition enabled_or_default :: "bool option \<Rightarrow> bool" where
  "enabled_or_default enabled = (case enabled of None \<Rightarrow> True | Some b \<Rightarrow> b)"

section \<open>Errors\<close>

text \<open>Where in the document an error is: the server and the field, with its index or key.\<close>

datatype field =
    F_url | F_command | F_working_directory | F_header string | F_arg nat | F_env string

datatype config_error =
    Unterminated_reference nat field
  | Empty_variable_name nat field
  | Server_name_empty nat
  | Not_exactly_one_of_url_and_command nat
  | Args_env_working_directory_require_command nat
  | Headers_require_url nat
  | Passthrough_headers_require_url nat
  | Tool_name_empty nat nat
  | Prompt_name_empty nat nat
  | Resource_uri_empty nat nat
  | Template_uri_empty nat nat
  | No_servers
  | Duplicate_component_name nat string

section \<open>Interpolation\<close>

datatype interpolation_error = Unterminated | Empty_name

text \<open>
  The loop of \<open>interpolate\<close> from byte \<open>i\<close> on; the bytes already written are the callers' business.
  \<open>lookup\<close> is the caller's function; like the code, the model drops its second result.
\<close>

function interpolate_from ::
    "(string \<Rightarrow> string \<times> bool) \<Rightarrow> string \<Rightarrow> (interpolation_error, string) res" where
  "interpolate_from lookup [] = Inr []"
| "interpolate_from lookup (c # rest) =
     (if c \<noteq> CHR ''$'' then rbind (interpolate_from lookup rest) (\<lambda>r. Inr (c # r))
      else if rest \<noteq> [] \<and> hd rest = CHR ''$'' then
        rbind (interpolate_from lookup (tl rest)) (\<lambda>r. Inr (CHR ''$'' # r))
      else if rest = [] \<or> hd rest \<noteq> CHR ''{'' then
        rbind (interpolate_from lookup rest) (\<lambda>r. Inr (CHR ''$'' # r))
      else (case index_byte (tl rest) CHR ''}'' of
              None \<Rightarrow> Inl Unterminated
            | Some e \<Rightarrow>
                if take e (tl rest) = [] then Inl Empty_name
                else rbind (interpolate_from lookup (drop (Suc e) (tl rest)))
                       (\<lambda>r. Inr (fst (lookup (take e (tl rest))) @ r))))"
  by pat_completeness auto
termination
  by (relation "measure (\<lambda>(l, s). length s)") auto

declare interpolate_from.simps(2) [simp del]

definition interpolate ::
    "(string \<Rightarrow> string \<times> bool) \<Rightarrow> nat \<Rightarrow> field \<Rightarrow> string \<Rightarrow> (config_error, string) res" where
  "interpolate lookup srv fld value =
     (case interpolate_from lookup value of
        Inl Unterminated \<Rightarrow> Inl (Unterminated_reference srv fld)
      | Inl Empty_name \<Rightarrow> Inl (Empty_variable_name srv fld)
      | Inr s \<Rightarrow> Inr s)"

section \<open>From the document to the runtime configuration\<close>

definition tool_override_runtime ::
    "nat \<Rightarrow> nat \<Rightarrow> tool_override_dto \<Rightarrow> (config_error, tool_override) res" where
  "tool_override_runtime srv i d =
     (if tod_name d = [] then Inl (Tool_name_empty srv i)
      else Inr \<lparr>to_name = tod_name d, to_override_name = tod_override_name d,
        to_description = tod_description d, to_override_description = tod_override_description d,
        to_enabled = enabled_or_default (tod_enabled d)\<rparr>)"

definition prompt_override_runtime ::
    "nat \<Rightarrow> nat \<Rightarrow> prompt_override_dto \<Rightarrow> (config_error, prompt_override) res" where
  "prompt_override_runtime srv i d =
     (if pod_name d = [] then Inl (Prompt_name_empty srv i)
      else Inr \<lparr>po_name = pod_name d, po_override_name = pod_override_name d,
        po_description = pod_description d, po_override_description = pod_override_description d,
        po_enabled = enabled_or_default (pod_enabled d)\<rparr>)"

definition resource_override_runtime ::
    "nat \<Rightarrow> nat \<Rightarrow> resource_override_dto \<Rightarrow> (config_error, resource_override) res" where
  "resource_override_runtime srv i d =
     (if rod_uri d = [] then Inl (Resource_uri_empty srv i)
      else Inr \<lparr>ro_uri = rod_uri d, ro_override_uri = rod_override_uri d, ro_name = rod_name d,
        ro_override_name = rod_override_name d, ro_description = rod_description d,
        ro_override_description = rod_override_description d,
        ro_enabled = enabled_or_default (rod_enabled d)\<rparr>)"

definition template_override_runtime ::
    "nat \<Rightarrow> nat \<Rightarrow> template_override_dto \<Rightarrow> (config_error, template_override) res" where
  "template_override_runtime srv i d =
     (if xod_uri_template d = [] then Inl (Template_uri_empty srv i)
      else Inr \<lparr>xo_uri_template = xod_uri_template d,
        xo_override_uri_template = xod_override_uri_template d, xo_name = xod_name d,
        xo_override_name = xod_override_name d, xo_description = xod_description d,
        xo_override_description = xod_override_description d,
        xo_enabled = enabled_or_default (xod_enabled d)\<rparr>)"

definition interpolate_pair ::
    "(string \<Rightarrow> string \<times> bool) \<Rightarrow> nat \<Rightarrow> (string \<Rightarrow> field) \<Rightarrow> nat \<Rightarrow> string \<times> string
       \<Rightarrow> (config_error, string \<times> string) res" where
  "interpolate_pair lookup srv fld i kv =
     rbind (interpolate lookup srv (fld (fst kv)) (snd kv)) (\<lambda>v. Inr (fst kv, v))"

definition server_runtime ::
    "(string \<Rightarrow> string \<times> bool) \<Rightarrow> nat \<Rightarrow> server_dto \<Rightarrow> (config_error, server) res" where
  "server_runtime lookup srv d =
     rbind (check (trim_space (sd_name d) \<noteq> []) (Server_name_empty srv)) (\<lambda>_.
     rbind (interpolate lookup srv F_url (sd_url d)) (\<lambda>url.
     rbind (interpolate lookup srv F_command (sd_command d)) (\<lambda>command.
     rbind (interpolate lookup srv F_working_directory (sd_working_directory d)) (\<lambda>wd.
     rbind (check ((url = []) \<noteq> (command = [])) (Not_exactly_one_of_url_and_command srv)) (\<lambda>_.
     rbind (check (\<not> (url \<noteq> [] \<and> (length (sd_args d) > 0 \<or> length (sd_env d) > 0 \<or> wd \<noteq> [])))
       (Args_env_working_directory_require_command srv)) (\<lambda>_.
     rbind (check (\<not> (command \<noteq> [] \<and> length (sd_headers d) > 0)) (Headers_require_url srv)) (\<lambda>_.
     rbind (check (\<not> (command \<noteq> [] \<and> length (sd_passthrough_headers d) > 0))
       (Passthrough_headers_require_url srv)) (\<lambda>_.
     rbind (map_res (interpolate_pair lookup srv F_header) 0 (sd_headers d)) (\<lambda>headers.
     rbind (map_res (\<lambda>i. interpolate lookup srv (F_arg i)) 0 (sd_args d)) (\<lambda>args.
     rbind (map_res (interpolate_pair lookup srv F_env) 0 (sd_env d)) (\<lambda>env.
     rbind (map_res (tool_override_runtime srv) 0 (sd_tools d)) (\<lambda>tools.
     rbind (map_res (prompt_override_runtime srv) 0 (sd_prompts d)) (\<lambda>prompts.
     rbind (map_res (resource_override_runtime srv) 0 (sd_resources d)) (\<lambda>resources.
     rbind (map_res (template_override_runtime srv) 0 (sd_resource_templates d)) (\<lambda>templates.
     Inr \<lparr>srv_discovery_method = [], srv_discovery_revision = sd_discovery_revision d,
       srv_name = trim_space (sd_name d), srv_prefix = sd_prefix d, srv_url = url,
       srv_headers = headers, srv_passthrough_headers = sd_passthrough_headers d,
       srv_command = command, srv_args = args, srv_env = env, srv_working_directory = wd,
       srv_timeout = sd_timeout d, srv_tools = tools, srv_disable_tools = sd_disable_tools d,
       srv_prompts = prompts, srv_resources = resources,
       srv_resource_templates = templates\<rparr>)))))))))))))))"

text \<open>The loop over the servers carries the names seen so far and the servers built so far.\<close>

primrec servers_loop ::
    "(string \<Rightarrow> string \<times> bool) \<Rightarrow> nat \<Rightarrow> string set \<Rightarrow> server_dto list
       \<Rightarrow> (config_error, server list) res" where
  "servers_loop lookup i seen [] = Inr []"
| "servers_loop lookup i seen (d # ds) =
     rbind (server_runtime lookup i d) (\<lambda>s.
     if srv_name s \<in> seen then Inl (Duplicate_component_name i (srv_name s))
     else rbind (servers_loop lookup (Suc i) (insert (srv_name s) seen) ds) (\<lambda>ss. Inr (s # ss)))"

definition config_runtime ::
    "(string \<Rightarrow> string \<times> bool) \<Rightarrow> config_dto \<Rightarrow> (config_error, config) res" where
  "config_runtime lookup d =
     (if length (cd_servers d) = 0 then Inl No_servers
      else rbind (servers_loop lookup 0 {} (cd_servers d)) (\<lambda>servers.
        Inr \<lparr>cfg_request_scoped_discovery = False, cfg_name = trim_space (cd_name d),
          cfg_version = trim_space (cd_version d), cfg_tool_search = cd_tool_search d,
          cfg_defer_authorization = False, cfg_listen = cd_listen d,
          cfg_idle_timeout = cd_idle_timeout d, cfg_servers = servers\<rparr>))"

section \<open>Lemmas on interpolation\<close>

text \<open>
  The abstract reading of a value: literal bytes and references. A reference names a variable by a
  nonempty text without a closing brace; a literal dollar is written twice.
\<close>

datatype token = Lit char | Ref string

fun token_text :: "token \<Rightarrow> string" where
  "token_text (Lit c) = (if c = CHR ''$'' then ''$$'' else [c])"
| "token_text (Ref n) = ''${'' @ n @ ''}''"

fun token_value :: "(string \<Rightarrow> string \<times> bool) \<Rightarrow> token \<Rightarrow> string" where
  "token_value lookup (Lit c) = [c]"
| "token_value lookup (Ref n) = fst (lookup n)"

fun token_ok :: "token \<Rightarrow> bool" where
  "token_ok (Lit c) = True"
| "token_ok (Ref n) = (n \<noteq> [] \<and> CHR ''}'' \<notin> set n)"

definition tokens_text :: "token list \<Rightarrow> string" where
  "tokens_text ts = concat (map token_text ts)"

definition tokens_value :: "(string \<Rightarrow> string \<times> bool) \<Rightarrow> token list \<Rightarrow> string" where
  "tokens_value lookup ts = concat (map (token_value lookup) ts)"

lemma interpolate_token:
  assumes "token_ok t"
  shows "interpolate_from lookup (token_text t @ s) =
     rbind (interpolate_from lookup s) (\<lambda>r. Inr (token_value lookup t @ r))"
proof (cases t)
  case (Lit c)
  then show ?thesis by (simp add: interpolate_from.simps(2))
next
  case (Ref n)
  with assms have "index_byte (n @ CHR ''}'' # s) CHR ''}'' = Some (length n)" "n \<noteq> []"
    by (auto simp: index_byte_append)
  with Ref show ?thesis by (simp add: interpolate_from.simps(2))
qed

lemma interpolate_tokens:
  assumes "\<forall>t \<in> set ts. token_ok t"
  shows "interpolate_from lookup (tokens_text ts) = Inr (tokens_value lookup ts)"
  using assms
  by (induction ts) (auto simp: tokens_text_def tokens_value_def interpolate_token)

definition reads_as :: "string \<Rightarrow> (interpolation_error, token list) res \<Rightarrow> bool" where
  "reads_as s r \<longleftrightarrow> (case r of
     Inl e \<Rightarrow> (\<forall>lookup. interpolate_from lookup s = Inl e)
   | Inr ts \<Rightarrow> (\<forall>t \<in> set ts. token_ok t) \<and> (\<forall>lookup. interpolate_from lookup s = Inr (tokens_value lookup ts)))"

lemma reads_as_cons:
  assumes "reads_as s r" and "token_ok t"
    and "\<And>lookup. interpolate_from lookup s' =
           rbind (interpolate_from lookup s) (\<lambda>v. Inr (token_value lookup t @ v))"
  shows "\<exists>r. reads_as s' r"
proof (cases r)
  case (Inl e)
  then have "reads_as s' (Inl e)" using assms by (simp add: reads_as_def)
  then show ?thesis ..
next
  case (Inr ts)
  then have "reads_as s' (Inr (t # ts))"
    using assms by (simp add: reads_as_def tokens_value_def)
  then show ?thesis ..
qed

lemma reads_as_exists: "\<exists>r. reads_as s r"
proof (induction s rule: length_induct)
  case (1 s)
  have IH: "\<exists>r. reads_as t r" if "length t < length s" for t
    using 1 that by blast
  show ?case
  proof (cases s)
    case Nil
    then have "reads_as s (Inr [])" by (simp add: reads_as_def tokens_value_def)
    then show ?thesis ..
  next
    case (Cons c rest)
    obtain r where r: "reads_as rest r" using IH [of rest] Cons by auto
    consider (lit) "c \<noteq> CHR ''$''" | (dollar) "c = CHR ''$''" "rest \<noteq> []" "hd rest = CHR ''$''"
      | (alone) "c = CHR ''$''" "rest = [] \<or> hd rest \<noteq> CHR ''$'' \<and> hd rest \<noteq> CHR ''{''"
      | (ref) "c = CHR ''$''" "rest \<noteq> []" "hd rest = CHR ''{''"
      by (cases rest) auto
    then show ?thesis
    proof cases
      case lit
      with Cons show ?thesis
        by (intro reads_as_cons [OF r, of "Lit c"]) (auto simp: interpolate_from.simps(2))
    next
      case dollar
      have "length (tl rest) < length s" using Cons by (simp add: less_Suc_eq_le)
      then obtain r' where "reads_as (tl rest) r'" using IH by blast
      with dollar Cons show ?thesis
        by (intro reads_as_cons [of "tl rest" r' "Lit CHR ''$''"]) (auto simp: interpolate_from.simps(2))
    next
      case alone
      with Cons show ?thesis
        by (intro reads_as_cons [OF r, of "Lit CHR ''$''"]) (auto simp: interpolate_from.simps(2))
    next
      case ref
      show ?thesis
      proof (cases "index_byte (tl rest) CHR ''}''")
        case None
        with ref Cons have "reads_as s (Inl Unterminated)"
          by (auto simp: reads_as_def interpolate_from.simps(2))
        then show ?thesis ..
      next
        case (Some e)
        note e = index_byte_Some [OF Some]
        show ?thesis
        proof (cases "take e (tl rest) = []")
          case True
          with ref Some Cons have "reads_as s (Inl Empty_name)"
            by (auto simp: reads_as_def interpolate_from.simps(2))
          then show ?thesis ..
        next
          case False
          have "length (drop (Suc e) (tl rest)) < length s" using Cons by simp
          then obtain r' where r': "reads_as (drop (Suc e) (tl rest)) r'"
            using IH by blast
          show ?thesis
            by (rule reads_as_cons [OF r', of "Ref (take e (tl rest))"])
               (use ref Cons Some e False in \<open>auto simp: interpolate_from.simps(2)\<close>)
        qed
      qed
    qed
  qed
qed

section \<open>Lemmas on the loaded configuration\<close>

text \<open>The invariant of a loaded server and of a loaded configuration.\<close>

definition overrides_ok :: "server \<Rightarrow> bool" where
  "overrides_ok s \<longleftrightarrow> (\<forall>v \<in> set (srv_tools s). to_name v \<noteq> []) \<and> (\<forall>v \<in> set (srv_prompts s). po_name v \<noteq> [])
     \<and> (\<forall>v \<in> set (srv_resources s). ro_uri v \<noteq> [])
     \<and> (\<forall>v \<in> set (srv_resource_templates s). xo_uri_template v \<noteq> [])"

definition transport_ok :: "server \<Rightarrow> bool" where
  "transport_ok s \<longleftrightarrow>
     (srv_url s \<noteq> [] \<and> srv_command s = [] \<and> srv_args s = [] \<and> srv_env s = [] \<and> srv_working_directory s = [])
     \<or> (srv_command s \<noteq> [] \<and> srv_url s = [] \<and> srv_headers s = [] \<and> srv_passthrough_headers s = [])"

definition server_ok :: "server \<Rightarrow> bool" where
  "server_ok s \<longleftrightarrow> srv_name s \<noteq> [] \<and> transport_ok s \<and> overrides_ok s"

definition config_ok :: "config \<Rightarrow> bool" where
  "config_ok c \<longleftrightarrow> cfg_servers c \<noteq> [] \<and> distinct (map srv_name (cfg_servers c))
     \<and> (\<forall>s \<in> set (cfg_servers c). server_ok s)"

lemma override_runtime_named:
  "tool_override_runtime srv i d1 = Inr v1 \<Longrightarrow> to_name v1 = tod_name d1 \<and> to_name v1 \<noteq> []"
  "prompt_override_runtime srv i d2 = Inr v2 \<Longrightarrow> po_name v2 = pod_name d2 \<and> po_name v2 \<noteq> []"
  "resource_override_runtime srv i d3 = Inr v3 \<Longrightarrow> ro_uri v3 = rod_uri d3 \<and> ro_uri v3 \<noteq> []"
  "template_override_runtime srv i d4 = Inr v4 \<Longrightarrow>
     xo_uri_template v4 = xod_uri_template d4 \<and> xo_uri_template v4 \<noteq> []"
  by (auto simp: tool_override_runtime_def prompt_override_runtime_def
      resource_override_runtime_def template_override_runtime_def split: if_splits)

lemma map_res_Nil [simp]: "map_res f i xs = Inr [] \<longleftrightarrow> xs = []"
  by (cases xs) (auto simp: rbind_Inr_iff)

lemma map_res_Forall:
  assumes "map_res f i xs = Inr ys" and "\<And>j x y. f j x = Inr y \<Longrightarrow> P y"
  shows "\<forall>y \<in> set ys. P y"
  using assms by (metis map_res_mem_source)

lemma map_res_of_Nil [simp]: "xs = [] \<Longrightarrow> map_res f i xs = Inr ys \<longleftrightarrow> ys = []"
  by auto

lemma server_runtime_ok:
  assumes "server_runtime lookup i d = Inr s"
  shows "server_ok s"
proof -
  note r = assms [unfolded server_runtime_def rbind_Inr_iff]
  have tools: "\<exists>j. map_res (tool_override_runtime i) j (sd_tools d) = Inr (srv_tools s)"
    and prompts: "\<exists>j. map_res (prompt_override_runtime i) j (sd_prompts d) = Inr (srv_prompts s)"
    and resources: "\<exists>j. map_res (resource_override_runtime i) j (sd_resources d) = Inr (srv_resources s)"
    and templates: "\<exists>j. map_res (template_override_runtime i) j (sd_resource_templates d)
                      = Inr (srv_resource_templates s)"
    using r by auto
  have "overrides_ok s"
    unfolding overrides_ok_def
    using tools prompts resources templates
      map_res_Forall [where P = "\<lambda>v. to_name v \<noteq> []"] map_res_Forall [where P = "\<lambda>v. po_name v \<noteq> []"]
      map_res_Forall [where P = "\<lambda>v. ro_uri v \<noteq> []"] map_res_Forall [where P = "\<lambda>v. xo_uri_template v \<noteq> []"]
    by (metis override_runtime_named)
  moreover have "transport_ok s" "srv_name s \<noteq> []"
    using r by (auto simp: transport_ok_def)
  ultimately show ?thesis by (simp add: server_ok_def)
qed

lemma server_runtime_name: "server_runtime lookup i d = Inr s \<Longrightarrow> srv_name s = trim_space (sd_name d)"
  by (auto simp: server_runtime_def rbind_Inr_iff)

lemma servers_loop_ok:
  assumes "servers_loop lookup i seen ds = Inr ss"
  shows "length ss = length ds \<and> distinct (map srv_name ss) \<and> srv_name ` set ss \<inter> seen = {}
    \<and> (\<forall>s \<in> set ss. server_ok s)"
  using assms
proof (induction ds arbitrary: i seen ss)
  case (Cons d ds)
  then obtain s ss' where "server_runtime lookup i d = Inr s" "srv_name s \<notin> seen"
    "servers_loop lookup (Suc i) (insert (srv_name s) seen) ds = Inr ss'" "ss = s # ss'"
    by (auto simp: rbind_Inr_iff split: if_splits)
  with Cons.IH [OF this(3)] server_runtime_ok [OF this(1)] show ?case by auto
qed simp

lemma map_res_success:
  assumes "\<And>j x. (\<exists>y. f j x = Inr y) \<longleftrightarrow> P x"
  shows "(\<exists>ys. map_res f i xs = Inr ys) \<longleftrightarrow> list_all P xs"
proof (induction xs arbitrary: i)
  case (Cons x xs)
  show ?case
    using Cons.IH [of "Suc i"] assms [of i x] by (auto simp: rbind_Inr_iff)
qed simp

lemma ex_rbind: "(\<exists>y. rbind r f = Inr y) \<longleftrightarrow> (\<exists>x. r = Inr x \<and> (\<exists>y. f x = Inr y))"
  by (auto simp: rbind_Inr_iff)

lemma interpolate_success: "(\<exists>v. interpolate lookup i fld s = Inr v) \<longleftrightarrow> (\<exists>v. interpolate_from lookup s = Inr v)"
  by (auto simp: interpolate_def split: sum.splits interpolation_error.splits)

lemma interpolate_Inr_iff: "interpolate lookup i fld s = Inr v \<longleftrightarrow> interpolate_from lookup s = Inr v"
  by (auto simp: interpolate_def split: sum.splits interpolation_error.splits)

definition resolves :: "(string \<Rightarrow> string \<times> bool) \<Rightarrow> string \<Rightarrow> bool" where
  "resolves lookup s \<longleftrightarrow> (\<exists>v. interpolate_from lookup s = Inr v)"

definition resolved :: "(string \<Rightarrow> string \<times> bool) \<Rightarrow> string \<Rightarrow> string" where
  "resolved lookup s = projr (interpolate_from lookup s)"

lemma interpolate_pair_success:
  "(\<exists>y. interpolate_pair lookup i fld j kv = Inr y) \<longleftrightarrow> resolves lookup (snd kv)"
  by (auto simp: interpolate_pair_def rbind_Inr_iff interpolate_Inr_iff resolves_def)

lemma override_runtime_success:
  "(\<exists>y. tool_override_runtime srv i d1 = Inr y) \<longleftrightarrow> tod_name d1 \<noteq> []"
  "(\<exists>y. prompt_override_runtime srv i d2 = Inr y) \<longleftrightarrow> pod_name d2 \<noteq> []"
  "(\<exists>y. resource_override_runtime srv i d3 = Inr y) \<longleftrightarrow> rod_uri d3 \<noteq> []"
  "(\<exists>y. template_override_runtime srv i d4 = Inr y) \<longleftrightarrow> xod_uri_template d4 \<noteq> []"
  by (auto simp: tool_override_runtime_def prompt_override_runtime_def
      resource_override_runtime_def template_override_runtime_def)

lemma interpolate_arg_success:
  "(\<exists>y. interpolate lookup srv (F_arg j) a = Inr y) \<longleftrightarrow> resolves lookup a"
  by (simp add: interpolate_Inr_iff resolves_def)

lemmas loops_success =
  map_res_success [where f = "interpolate_pair lookup srv fld" for lookup srv fld, OF interpolate_pair_success]
  map_res_success [where f = "\<lambda>i. interpolate lookup srv (F_arg i)" for lookup srv, OF interpolate_arg_success]
  map_res_success [where f = "tool_override_runtime srv" for srv, OF override_runtime_success(1)]
  map_res_success [where f = "prompt_override_runtime srv" for srv, OF override_runtime_success(2)]
  map_res_success [where f = "resource_override_runtime srv" for srv, OF override_runtime_success(3)]
  map_res_success [where f = "template_override_runtime srv" for srv, OF override_runtime_success(4)]

lemma missing_variable_is_empty:
  assumes "n \<noteq> []" "CHR ''}'' \<notin> set n" and "lookup n = ([], False)"
  shows "interpolate_from lookup (''${'' @ n @ ''}'') = Inr []"
  using interpolate_tokens [of "[Ref n]" lookup] assms
  by (simp add: tokens_text_def tokens_value_def)

section \<open>Properties\<close>

text \<open>
  Every text of literal bytes and references that is written with dollars doubled is interpolated
  to exactly those bytes and the values of those variables: doubling escapes, and a substituted value
  is not read again, whatever it contains.
\<close>

theorem interpolation_roundtrip:
  assumes "\<forall>t \<in> set ts. token_ok t"
  shows "interpolate_from lookup (tokens_text ts) = Inr (tokens_value lookup ts)"
  using assms by (rule interpolate_tokens)

theorem interpolation_roundtrip_witness:
  "tokens_text [Lit CHR ''$'', Ref ''A'', Lit CHR ''b''] = ''$$${A}b''
   \<and> interpolate_from (\<lambda>n. (''${A}$$'', True)) ''$$${A}b'' = Inr ''$${A}$$b''"
proof -
  have t: "tokens_text [Lit CHR ''$'', Ref ''A'', Lit CHR ''b''] = ''$$${A}b''"
    by (simp add: tokens_text_def)
  have "interpolate_from (\<lambda>n. (''${A}$$'', True)) (tokens_text [Lit CHR ''$'', Ref ''A'', Lit CHR ''b''])
      = Inr (tokens_value (\<lambda>n. (''${A}$$'', True)) [Lit CHR ''$'', Ref ''A'', Lit CHR ''b''])"
    by (rule interpolation_roundtrip) simp
  with t show ?thesis by (simp add: tokens_value_def)
qed

text \<open>
  Whether a value is accepted does not depend on the environment: it is either rejected with the
  same error under every environment or read once and for all as a list of literals and references
  whose values are put together.
\<close>

theorem interpolation_reading:
  "(\<exists>e. \<forall>lookup. interpolate_from lookup s = Inl e) \<or>
   (\<exists>ts. list_all token_ok ts \<and> (\<forall>lookup. interpolate_from lookup s = Inr (tokens_value lookup ts)))"
proof -
  obtain r where "reads_as s r" using reads_as_exists by blast
  then show ?thesis
    by (cases r) (auto simp: reads_as_def list_all_iff)
qed

text \<open>
  A server of the document is accepted exactly when its trimmed name is not empty, all its values
  resolve, exactly one of URL and command is not empty after the substitution, arguments, environment
  and working directory come with a command only, headers and passed-through headers with a URL only,
  and every override names its feature.
\<close>

theorem server_runtime_accepts:
  "(\<exists>s. server_runtime lookup i d = Inr s) \<longleftrightarrow>
     trim_space (sd_name d) \<noteq> [] \<and> resolves lookup (sd_url d) \<and> resolves lookup (sd_command d)
     \<and> resolves lookup (sd_working_directory d)
     \<and> (resolved lookup (sd_url d) = []) \<noteq> (resolved lookup (sd_command d) = [])
     \<and> (resolved lookup (sd_url d) = [] \<or> sd_args d = [] \<and> sd_env d = []
          \<and> resolved lookup (sd_working_directory d) = [])
     \<and> (resolved lookup (sd_command d) = [] \<or> sd_headers d = [] \<and> sd_passthrough_headers d = [])
     \<and> list_all (\<lambda>kv. resolves lookup (snd kv)) (sd_headers d) \<and> list_all (resolves lookup) (sd_args d)
     \<and> list_all (\<lambda>kv. resolves lookup (snd kv)) (sd_env d)
     \<and> list_all (\<lambda>v. tod_name v \<noteq> []) (sd_tools d) \<and> list_all (\<lambda>v. pod_name v \<noteq> []) (sd_prompts d)
     \<and> list_all (\<lambda>v. rod_uri v \<noteq> []) (sd_resources d)
     \<and> list_all (\<lambda>v. xod_uri_template v \<noteq> []) (sd_resource_templates d)"
proof -
  have r: "resolves lookup s \<Longrightarrow> interpolate_from lookup s = Inr v \<longleftrightarrow> v = resolved lookup s" for s v
    by (auto simp: resolves_def resolved_def)
  have nr: "\<not> resolves lookup s \<Longrightarrow> interpolate_from lookup s \<noteq> Inr v" for s v
    by (simp add: resolves_def)
  show ?thesis
  proof (cases "resolves lookup (sd_url d) \<and> resolves lookup (sd_command d)
      \<and> resolves lookup (sd_working_directory d)")
    case True
    then show ?thesis
      by (simp add: server_runtime_def ex_rbind interpolate_Inr_iff r loops_success) auto
  next
    case False
    then show ?thesis
      using nr by (auto simp: server_runtime_def rbind_Inr_iff interpolate_Inr_iff)
  qed
qed

text \<open>
  C5: A loaded configuration has at least one component, component names are trimmed, not empty and
  pairwise different, every component is either an HTTP or a command component with only the fields
  of its kind, and every override names a feature.
\<close>

theorem loaded_config_ok:
  assumes "config_runtime lookup d = Inr c"
  shows "config_ok c \<and> length (cfg_servers c) = length (cd_servers d)"
proof -
  obtain ss where ne: "cd_servers d \<noteq> []" and ss: "servers_loop lookup 0 {} (cd_servers d) = Inr ss"
    and c: "cfg_servers c = ss"
    using assms by (auto simp: config_runtime_def rbind_Inr_iff split: if_splits)
  from servers_loop_ok [OF ss] ne show ?thesis
    by (auto simp: config_ok_def c)
qed

definition sample_server_dto :: "string \<Rightarrow> string \<Rightarrow> server_dto" where
  "sample_server_dto n u = \<lparr>sd_discovery_method = [], sd_discovery_revision = [], sd_name = n,
     sd_prefix = [], sd_url = u, sd_headers = [(''K'', ''${T}'')], sd_passthrough_headers = [],
     sd_command = [], sd_args = [], sd_env = [], sd_working_directory = [], sd_timeout = 0,
     sd_tools = [], sd_disable_tools = False, sd_prompts = [], sd_resources = [],
     sd_resource_templates = []\<rparr>"

definition sample_config_dto :: config_dto where
  "sample_config_dto = \<lparr>cd_name = '' gw '', cd_version = [], cd_tool_search = False, cd_listen = [],
     cd_idle_timeout = 0,
     cd_servers = [sample_server_dto '' a '' ''http://a'', sample_server_dto ''b'' ''http://${T}'']\<rparr>"

theorem loaded_config_ok_witness:
  "\<exists>c. config_runtime (\<lambda>_. (''t'', True)) sample_config_dto = Inr c
     \<and> map srv_name (cfg_servers c) = [''a'', ''b''] \<and> map srv_url (cfg_servers c) = [''http://a'', ''http://t'']
     \<and> config_ok c"
proof -
  let ?r = "config_runtime (\<lambda>_. (''t'', True)) sample_config_dto"
  have ok: "isl ?r = False \<and> map srv_name (cfg_servers (projr ?r)) = [''a'', ''b'']
      \<and> map srv_url (cfg_servers (projr ?r)) = [''http://a'', ''http://t'']"
    by code_simp
  then obtain c where c: "?r = Inr c" by (cases ?r) auto
  from loaded_config_ok [OF c] ok c show ?thesis by auto
qed

end
