(* ===== verification/Component_Types.thy ===== *)
theory Component_Types
  imports Config
begin

text \<open>
  The data that crosses the boundary to the components: the MCP features (structs of the Go SDK; the
  fields the program reads or writes are named, everything else is carried along in one field), the
  snapshot \<open>Features\<close> of a discovery, and the families of features.
\<close>

section \<open>MCP features\<close>

record implementation =
  impl_name :: string
  impl_version :: string

record mcp_tool =
  tool_name :: string
  tool_description :: string
  tool_input_schema :: json
  tool_output_schema :: "json option"
  tool_rest :: json

record mcp_prompt =
  prompt_name :: string
  prompt_description :: string
  prompt_rest :: json

record mcp_resource =
  resource_uri :: string
  resource_name :: string
  resource_description :: string
  resource_rest :: json

record mcp_template =
  template_uri :: string
  template_name :: string
  template_description :: string
  template_rest :: json

section \<open>Discovery snapshots\<close>

text \<open>The lists hold pointers; \<open>None\<close> is a nil pointer.\<close>

record features =
  ft_protocol_version :: string
  ft_server_info :: "implementation option"
  ft_tools :: "mcp_tool option list"
  ft_prompts :: "mcp_prompt option list"
  ft_resources :: "mcp_resource option list"
  ft_resource_templates :: "mcp_template option list"

definition no_features :: features where
  "no_features = \<lparr>ft_protocol_version = [], ft_server_info = None, ft_tools = [], ft_prompts = [],
     ft_resources = [], ft_resource_templates = []\<rparr>"

datatype feature_family = Feature_tools | Feature_prompts | Feature_resources

section \<open>Tool results\<close>

text \<open>
  The content of results: resource links and embedded resources carry a URI (\<open>None\<close>: nil pointers),
  a nested tool result carries content, text its text; every other kind is opaque.
\<close>

datatype content =
    Resource_link "(string \<times> json) option"
  | Embedded_resource "((string \<times> json) option \<times> json) option"
  | Tool_result_content "(content list option \<times> json) option"
  | Text_content string
  | Other_content json

text \<open>A call result: whether it is an error, its content (nil or a list) and its structured content.\<close>

record call_result =
  cr_is_error :: bool
  cr_content :: "content list option"
  cr_structured :: "json option"
  cr_rest :: json

definition text_result :: "string \<Rightarrow> bool \<Rightarrow> call_result" where
  "text_result text is_error = \<lparr>cr_is_error = is_error, cr_content = Some [Text_content text],
     cr_structured = None, cr_rest = JNull\<rparr>"

end
