(* ===== verification/Tool_Search.thy ===== *)
theory Tool_Search
  imports Component_Types "HOL-Library.AList"
begin

text \<open>
  The package \<open>toolsearch\<close>, as far as it does not rank: the two public tools, the documents of an
  index and their revisions, and the parsing of the generic call's arguments. The digest of a
  revision (JSON and SHA-256) is an argument.
\<close>

section \<open>Names and definitions\<close>

definition search_tool_name :: string where
  "search_tool_name = ''search_tools''"

definition call_tool_name :: string where
  "call_tool_name = ''call_tool''"

definition schema_object :: "(string \<times> json) list \<Rightarrow> string list \<Rightarrow> json" where
  "schema_object props required =
     JObj [(''type'', JStr ''object''), (''properties'', JObj props),
       (''required'', JArr (map JStr required))]"

definition search_definitions :: "mcp_tool list" where
  "search_definitions =
    [\<lparr>tool_name = search_tool_name,
      tool_description = ''Find available tools by name, description, and input parameters. Results include schemas and references for call_tool. Use offset to retrieve further results when hasMore is true.'',
      tool_input_schema = schema_object
        [(''query'', JObj [(''type'', JStr ''string''), (''description'', JStr ''Natural-language tool search query'')]),
         (''limit'', JObj [(''type'', JStr ''integer''), (''minimum'', JNum ''1''), (''default'', JNum ''5'')]),
         (''offset'', JObj [(''type'', JStr ''integer''), (''minimum'', JNum ''0''), (''default'', JNum ''0''),
            (''description'', JStr ''Number of ranked results to skip'')])]
        [''query''],
      tool_output_schema = None, tool_rest = JNull\<rparr>,
     \<lparr>tool_name = call_tool_name,
      tool_description = ''Invoke a tool returned by search_tools using its name and revision.'',
      tool_input_schema = schema_object
        [(''name'', JObj [(''type'', JStr ''string'')]), (''revision'', JObj [(''type'', JStr ''string'')]),
         (''arguments'', JObj [(''type'', JStr ''object'')])]
        [''name'', ''revision''],
      tool_output_schema = None, tool_rest = JNull\<rparr>]"

section \<open>Documents\<close>

record reference =
  ref_name :: string

record document =
  doc_exposed_name :: string
  doc_component :: string
  doc_reference :: reference
  doc_revision :: string
  doc_tool :: mcp_tool

text \<open>
  \<open>New\<close> files the documents under their exposed names; a later document replaces an earlier one. The
  index is the resulting map; its background build belongs to the search library.
\<close>

primrec index_documents :: "document list \<Rightarrow> (string \<times> document) list \<Rightarrow> (string \<times> document) list" where
  "index_documents [] m = m"
| "index_documents (d # ds) m = index_documents ds (AList.update (doc_exposed_name d) d m)"

definition new_index :: "document list \<Rightarrow> (string \<times> document) list" where
  "new_index ds = index_documents ds []"

definition index_revision :: "(string \<times> document) list \<Rightarrow> reference \<Rightarrow> string option" where
  "index_revision ix r =
     (case map_of ix (ref_name r) of
        None \<Rightarrow> None
      | Some d \<Rightarrow> if doc_reference d \<noteq> r then None else Some (doc_revision d))"

section \<open>Arguments of the generic call\<close>

record call_arguments =
  ca_name :: string
  ca_revision :: string
  ca_arguments :: json

text \<open>
  Decoding into a struct with \<open>encoding/json\<close>: a member belongs to the field whose name it equals up to
  case folding, in which the two non-ASCII characters that fold to ASCII letters take part (the long s
  and the Kelvin sign); members are stored in order, so the last one wins; null leaves a string field
  as it is and is stored in a raw field; a value of another type is an error.
\<close>

function fold_name :: "string \<Rightarrow> string" where
  "fold_name [] = []"
| "fold_name (c # s) =
     (if has_prefix (c # s) [CHR 0xC5, CHR 0xBF] then CHR ''s'' # fold_name (drop 1 s)
      else if has_prefix (c # s) [CHR 0xE2, CHR 0x84, CHR 0xAA] then CHR ''k'' # fold_name (drop 2 s)
      else lower_byte c # fold_name s)"
  by pat_completeness auto
termination
  by (relation "measure length") auto

definition members_named :: "string \<Rightarrow> (string \<times> json) list \<Rightarrow> json list" where
  "members_named n ms = map snd (filter (\<lambda>m. fold_name (fst m) = n) ms)"

fun store_string :: "json list \<Rightarrow> string \<Rightarrow> string option" where
  "store_string [] v = Some v"
| "store_string (JNull # js) v = store_string js v"
| "store_string (JStr s # js) v = store_string js s"
| "store_string (j # js) v = None"

text \<open>The argument is the marshalled value (\<open>None\<close>: it cannot be marshalled); \<open>None\<close> is the error.\<close>

definition parse_call_arguments :: "json option \<Rightarrow> call_arguments option" where
  "parse_call_arguments arguments =
     (case arguments of
        None \<Rightarrow> None
      | Some data \<Rightarrow>
        (case (case data of JNull \<Rightarrow> Some [] | JObj ms \<Rightarrow> Some ms | _ \<Rightarrow> None) of
           None \<Rightarrow> None
         | Some ms \<Rightarrow>
           (case (store_string (members_named ''name'' ms) [],
                  store_string (members_named ''revision'' ms) []) of
              (Some name, Some revision) \<Rightarrow>
                if name = [] \<or> revision = [] then None
                else if members_named ''arguments'' ms = []
                then Some \<lparr>ca_name = name, ca_revision = revision, ca_arguments = JObj []\<rparr>
                else (case last (members_named ''arguments'' ms) of
                        JObj os \<Rightarrow> Some \<lparr>ca_name = name, ca_revision = revision, ca_arguments = JObj os\<rparr>
                      | _ \<Rightarrow> None)
            | _ \<Rightarrow> None)))"

section \<open>Lemmas\<close>

lemma index_documents_lookup:
  "map_of (index_documents ds m) n =
     (case find (\<lambda>d. doc_exposed_name d = n) (rev ds) of None \<Rightarrow> map_of m n | Some d \<Rightarrow> Some d)"
proof (induction ds arbitrary: m)
  case (Cons d ds)
  have "find P (xs @ [y]) = (case find P xs of None \<Rightarrow> (if P y then Some y else None) | Some x \<Rightarrow> Some x)"
    for P :: "document \<Rightarrow> bool" and xs y
    by (induction xs) auto
  with Cons.IH show ?case
    by (auto simp: update_conv' split: option.splits)
qed simp

lemma find_Some_mem: "find P xs = Some d \<Longrightarrow> d \<in> set xs \<and> P d"
  by (induction xs) (auto split: if_splits)

lemma new_index_lookup:
  assumes "distinct (map doc_exposed_name ds)"
  shows "map_of (new_index ds) n = Some d \<longleftrightarrow> d \<in> set ds \<and> doc_exposed_name d = n"
proof -
  have "find (\<lambda>d. doc_exposed_name d = n) (rev ds) = Some d \<longleftrightarrow> d \<in> set ds \<and> doc_exposed_name d = n"
    (is "?f = Some d \<longleftrightarrow> _")
  proof
    assume "?f = Some d"
    from find_Some_mem [OF this] show "d \<in> set ds \<and> doc_exposed_name d = n" by simp
  next
    assume d: "d \<in> set ds \<and> doc_exposed_name d = n"
    then have "?f \<noteq> None" by (auto simp: find_None_iff)
    then obtain e where e: "?f = Some e" by auto
    from find_Some_mem [OF this] have "e \<in> set ds" "doc_exposed_name e = n" by simp_all
    with d assms have "e = d" by (metis inj_on_eq_iff distinct_map)
    with e show "?f = Some d" by simp
  qed
  then show ?thesis
    by (simp add: new_index_def index_documents_lookup split: option.splits) auto
qed

lemma parse_call_arguments_object:
  "parse_call_arguments a = Some c \<Longrightarrow> ca_name c \<noteq> [] \<and> ca_revision c \<noteq> [] \<and> (\<exists>os. ca_arguments c = JObj os)"
  by (auto simp: parse_call_arguments_def split: option.splits json.splits if_splits)

end
