(* ===== verification/Namespace.thy ===== *)
theory Namespace
  imports Go_Lib
begin

text \<open>
  The package \<open>namespace\<close>: the prefix of a component (\<open>Prefix\<close>), the exposed names of tools and prompts
  (\<open>Tool\<close>, \<open>Prompt\<close>, \<open>namedFeature\<close>) and the exposed URIs of resources and templates (\<open>Resource\<close>,
  \<open>ResourceTemplate\<close>). The lemmas describe every branch, the shape of the identities, and what keeps
  identities of different components apart.

  The code ranges over the characters of a string. Every character it accepts is one ASCII byte and a
  byte of a longer (or broken) UTF-8 sequence is never ASCII, so the model ranges over bytes; an
  invalid character is reported here by its first byte.
\<close>

section \<open>Definitions\<close>

datatype part_error = Part_empty | Part_invalid_character char

datatype feature_kind = Kind_tool | Kind_prompt

datatype namespace_error =
    Invalid_prefix string part_error
  | No_prefix_character string
  | Invalid_feature_name feature_kind string part_error
  | Name_too_long feature_kind string nat
  | Invalid_resource_uri string
  | Invalid_template string
  | Template_missing_scheme string

definition max_feature_name_length :: nat where
  "max_feature_name_length = 128"

definition valid_rune :: "char \<Rightarrow> bool" where
  "valid_rune r \<longleftrightarrow> r \<ge> CHR ''a'' \<and> r \<le> CHR ''z'' \<or> r \<ge> CHR ''A'' \<and> r \<le> CHR ''Z'' \<or>
     r \<ge> CHR ''0'' \<and> r \<le> CHR ''9'' \<or> r = CHR ''_'' \<or> r = CHR ''-'' \<or> r = CHR ''.''"

fun validate_runes :: "string \<Rightarrow> (part_error, unit) res" where
  "validate_runes [] = Inr ()"
| "validate_runes (r # rs) =
     (if \<not> valid_rune r then Inl (Part_invalid_character r) else validate_runes rs)"

definition validate_part :: "string \<Rightarrow> (part_error, unit) res" where
  "validate_part value = (if value = [] then Inl Part_empty else validate_runes value)"

text \<open>The loop of \<open>Prefix\<close> over the component name, with the builder and \<open>lastSeparator\<close>.\<close>

fun prefix_loop :: "string \<Rightarrow> string \<Rightarrow> bool \<Rightarrow> string" where
  "prefix_loop [] result last_separator = result"
| "prefix_loop (r # rs) result last_separator =
     (if valid_rune r then prefix_loop rs (result @ [lower_byte r]) False
      else if length result > 0 \<and> \<not> last_separator then prefix_loop rs (result @ ''_'') True
      else prefix_loop rs result last_separator)"

definition namespace_prefix :: "string \<Rightarrow> string \<Rightarrow> (namespace_error, string) res" where
  "namespace_prefix component_name configured =
     (if configured \<noteq> [] then
        (case validate_part configured of
           Inl err \<Rightarrow> Inl (Invalid_prefix configured err)
         | Inr _ \<Rightarrow> Inr configured)
      else
        let p = trim_byte CHR ''_'' (prefix_loop component_name [] False)
        in if p = [] then Inl (No_prefix_character component_name) else Inr p)"

definition named_feature ::
    "feature_kind \<Rightarrow> string \<Rightarrow> string \<Rightarrow> (namespace_error, string) res" where
  "named_feature family pre local_name =
     (case (if pre \<noteq> [] then validate_part pre else Inr ()) of
        Inl err \<Rightarrow> Inl (Invalid_prefix pre err)
      | Inr _ \<Rightarrow>
        (case validate_part local_name of
           Inl err \<Rightarrow> Inl (Invalid_feature_name family local_name err)
         | Inr _ \<Rightarrow>
           let name = (if pre \<noteq> []
                       then (if has_suffix pre ''_'' then pre else pre @ ''__'') @ local_name
                       else local_name)
           in if length name > max_feature_name_length
              then Inl (Name_too_long family name max_feature_name_length)
              else Inr name))"

definition tool_name_of :: "string \<Rightarrow> string \<Rightarrow> (namespace_error, string) res" where
  "tool_name_of pre local_name = named_feature Kind_tool pre local_name"

definition prompt_name_of :: "string \<Rightarrow> string \<Rightarrow> (namespace_error, string) res" where
  "prompt_name_of pre local_name = named_feature Kind_prompt pre local_name"

definition resource_uri_of ::
    "('t, 'v) uri_lib \<Rightarrow> string \<Rightarrow> string \<Rightarrow> (namespace_error, string) res" where
  "resource_uri_of L pre original =
     (case (if pre \<noteq> [] then validate_part pre else Inr ()) of
        Inl err \<Rightarrow> Inl (Invalid_prefix pre err)
      | Inr _ \<Rightarrow>
        (case url_scheme L original of
           None \<Rightarrow> Inl (Invalid_resource_uri original)
         | Some scheme \<Rightarrow>
           if scheme = [] then Inl (Invalid_resource_uri original)
           else if pre = [] then Inr original
           else Inr (''mmmcp+'' @ pre @ '':'' @ original)))"

fun scheme_runes :: "nat \<Rightarrow> string \<Rightarrow> bool" where
  "scheme_runes i [] = True"
| "scheme_runes i (r # rs) =
     (if i = 0 \<and> (r < CHR ''a'' \<or> r > CHR ''z'') \<and> (r < CHR ''A'' \<or> r > CHR ''Z'') then False
      else if i > 0 \<and> (r < CHR ''a'' \<or> r > CHR ''z'') \<and> (r < CHR ''A'' \<or> r > CHR ''Z'') \<and>
              (r < CHR ''0'' \<or> r > CHR ''9'') \<and> r \<noteq> CHR ''+'' \<and> r \<noteq> CHR ''-'' \<and> r \<noteq> CHR ''.''
      then False
      else scheme_runes (Suc i) rs)"

definition has_template_scheme :: "string \<Rightarrow> bool" where
  "has_template_scheme value =
     (case index_byte value CHR '':'' of
        None \<Rightarrow> False
      | Some colon \<Rightarrow>
        if colon \<le> 0 \<or> CHR ''{'' \<in> set (take colon value) then False
        else scheme_runes 0 (take colon value))"

definition template_uri_of ::
    "('t, 'v) uri_lib \<Rightarrow> string \<Rightarrow> string \<Rightarrow> (namespace_error, string) res" where
  "template_uri_of L pre original =
     (case (if pre \<noteq> [] then validate_part pre else Inr ()) of
        Inl err \<Rightarrow> Inl (Invalid_prefix pre err)
      | Inr _ \<Rightarrow>
        if \<not> snd (tpl_new L original) then Inl (Invalid_template original)
        else if \<not> has_template_scheme original then Inl (Template_missing_scheme original)
        else if pre = [] then Inr original
        else Inr (''mmmcp+'' @ pre @ '':'' @ original))"

section \<open>Valid parts\<close>

definition part_ok :: "string \<Rightarrow> bool" where
  "part_ok s \<longleftrightarrow> s \<noteq> [] \<and> (\<forall>c \<in> set s. valid_rune c)"

lemma validate_runes_Inr: "validate_runes s = Inr () \<longleftrightarrow> (\<forall>c \<in> set s. valid_rune c)"
  by (induction s) auto

lemma validate_part_Inr [simp]: "validate_part s = Inr u \<longleftrightarrow> part_ok s"
  by (cases u) (simp add: validate_part_def part_ok_def validate_runes_Inr)

lemma validate_part_cases:
  obtains "part_ok s" "validate_part s = Inr ()" | e where "\<not> part_ok s" "validate_part s = Inl e"
  by (metis (full_types) obj_sumE old.unit.exhaust validate_part_Inr)

lemma part_ok_no_colon: "part_ok s \<Longrightarrow> CHR '':'' \<notin> set s"
  by (auto simp: part_ok_def valid_rune_def)

lemma valid_rune_underscore [simp]: "valid_rune CHR ''_''"
  by (simp add: valid_rune_def)

lemma valid_rune_x [simp]: "valid_rune CHR ''x''"
  by (simp add: valid_rune_def)

section \<open>The sanitised prefix\<close>

lemma lower_byte_nat:
  "of_char (lower_byte c) =
     (if 65 \<le> (of_char c :: nat) \<and> (of_char c :: nat) \<le> 90 then of_char c + 32 else (of_char c :: nat))"
  by (simp add: lower_byte_def less_eq_char_def)

lemma char_nat_eq_iff: "c = d \<longleftrightarrow> (of_char c :: nat) = of_char d"
  by (simp add: of_char_eq_iff)

lemma valid_rune_nat:
  "valid_rune c \<longleftrightarrow> (let n = of_char c :: nat in
     97 \<le> n \<and> n \<le> 122 \<or> 65 \<le> n \<and> n \<le> 90 \<or> 48 \<le> n \<and> n \<le> 57 \<or> n = 95 \<or> n = 45 \<or> n = 46)"
  by (simp add: valid_rune_def less_eq_char_def char_nat_eq_iff Let_def)

lemma valid_rune_lower [simp]: "valid_rune c \<Longrightarrow> valid_rune (lower_byte c)"
  by (auto simp: valid_rune_nat lower_byte_nat Let_def)

lemma lower_byte_idem [simp]: "lower_byte (lower_byte c) = lower_byte c"
  by (auto simp: char_nat_eq_iff lower_byte_nat)

lemma lower_byte_underscore [simp]: "lower_byte c = CHR ''_'' \<longleftrightarrow> c = CHR ''_''"
  by (auto simp: char_nat_eq_iff lower_byte_nat)

text \<open>What the sanitiser guarantees of its result: lower-case valid bytes, no separator at either end.\<close>

definition sanitised :: "string \<Rightarrow> bool" where
  "sanitised p \<longleftrightarrow> part_ok p \<and> (\<forall>c \<in> set p. lower_byte c = c)
     \<and> hd p \<noteq> CHR ''_'' \<and> last p \<noteq> CHR ''_''"

lemma prefix_loop_mem:
  "x \<in> set (prefix_loop s res sep) \<Longrightarrow>
     x \<in> set res \<or> x = CHR ''_'' \<or> (\<exists>c \<in> set s. valid_rune c \<and> x = lower_byte c)"
  by (induction s res sep rule: prefix_loop.induct) (auto split: if_splits)

lemma prefix_loop_keeps_result: "x \<in> set res \<Longrightarrow> x \<in> set (prefix_loop s res sep)"
  by (induction s res sep rule: prefix_loop.induct) (auto split: if_splits)

lemma prefix_loop_keeps:
  "c \<in> set s \<Longrightarrow> valid_rune c \<Longrightarrow> lower_byte c \<in> set (prefix_loop s res sep)"
  by (induction s res sep rule: prefix_loop.induct)
     (auto split: if_splits intro: prefix_loop_keeps_result)

lemma prefix_loop_id:
  assumes "\<forall>c \<in> set s. valid_rune c \<and> lower_byte c = c"
  shows "prefix_loop s res sep = res @ s"
  using assms by (induction s arbitrary: res sep) auto

lemma trim_byte_subset: "set (trim_byte c s) \<subseteq> set s"
proof -
  have d: "set (dropWhile P t) \<subseteq> set t" for P :: "char \<Rightarrow> bool" and t
    by (rule set_mono_suffix [OF suffix_dropWhile])
  show ?thesis
    using subset_trans [OF d [of "\<lambda>x. x = c" "rev (dropWhile (\<lambda>x. x = c) s)"]] d [of "\<lambda>x. x = c" s]
    by (simp add: trim_byte_def)
qed

lemma trim_byte_empty: "trim_byte c s = [] \<longleftrightarrow> (\<forall>x \<in> set s. x = c)"
proof
  let ?d = "dropWhile (\<lambda>x. x = c) s"
  assume "trim_byte c s = []"
  then have all: "\<forall>x \<in> set ?d. x = c"
    by (simp only: trim_byte_def rev_is_Nil_conv dropWhile_eq_Nil_conv set_rev)
  have "?d = []"
  proof (rule ccontr)
    assume ne: "?d \<noteq> []"
    then have "hd ?d \<noteq> c" by (rule hd_dropWhile)
    with all list.set_sel(1) [OF ne] show False by blast
  qed
  then show "\<forall>x \<in> set s. x = c" by (simp only: dropWhile_eq_Nil_conv)
next
  assume "\<forall>x \<in> set s. x = c"
  then have "dropWhile (\<lambda>x. x = c) s = []" by (simp only: dropWhile_eq_Nil_conv)
  then show "trim_byte c s = []" by (simp only: trim_byte_def dropWhile.simps rev.simps)
qed

lemma trim_byte_ends:
  assumes "trim_byte c s \<noteq> []"
  shows "hd (trim_byte c s) \<noteq> c" "last (trim_byte c s) \<noteq> c"
proof -
  obtain d where d: "dropWhile (\<lambda>x. x = c) s = d" by simp
  have t: "trim_byte c s = rev (dropWhile (\<lambda>x. x = c) (rev d))"
    by (simp add: trim_byte_def d)
  have ne: "dropWhile (\<lambda>x. x = c) (rev d) \<noteq> []" using assms unfolding t by blast
  from hd_dropWhile [OF ne] show "last (trim_byte c s) \<noteq> c"
    unfolding t last_rev .
  have "d \<noteq> []" using ne by auto
  then have hd: "hd d \<noteq> c" using hd_dropWhile [of "\<lambda>x. x = c" s] d by metis
  obtain y ys where y: "d = y # ys" using \<open>d \<noteq> []\<close> by (cases d) auto
  with hd have "y \<noteq> c" by simp
  then have "trim_byte c s = y # rev (dropWhile (\<lambda>x. x = c) (rev ys))"
    unfolding t y by (auto simp: dropWhile_append)
  with \<open>y \<noteq> c\<close> show "hd (trim_byte c s) \<noteq> c" by simp
qed

lemma trim_byte_id: "s \<noteq> [] \<Longrightarrow> hd s \<noteq> c \<Longrightarrow> last s \<noteq> c \<Longrightarrow> trim_byte c s = s"
proof -
  have "dropWhile (\<lambda>x. x = c) t = t" if "t \<noteq> []" "hd t \<noteq> c" for t
    using that by (cases t) auto
  then show "s \<noteq> [] \<Longrightarrow> hd s \<noteq> c \<Longrightarrow> last s \<noteq> c \<Longrightarrow> trim_byte c s = s"
    by (simp add: trim_byte_def hd_rev)
qed

lemma sanitise_result:
  assumes "trim_byte CHR ''_'' (prefix_loop s [] False) \<noteq> []"
  shows "sanitised (trim_byte CHR ''_'' (prefix_loop s [] False))"
proof -
  let ?p = "trim_byte CHR ''_'' (prefix_loop s [] False)"
  have "valid_rune x \<and> lower_byte x = x" if "x \<in> set ?p" for x
  proof -
    from that have "x \<in> set (prefix_loop s [] False)"
      using trim_byte_subset by blast
    from prefix_loop_mem [OF this] show ?thesis by auto
  qed
  with assms trim_byte_ends [OF assms] show ?thesis
    by (simp add: sanitised_def part_ok_def)
qed

lemma sanitised_fixed:
  assumes "sanitised p"
  shows "namespace_prefix p [] = Inr p"
proof -
  have "prefix_loop p [] False = p"
    using prefix_loop_id [of p "[]" False] assms by (simp add: sanitised_def part_ok_def)
  moreover have "trim_byte CHR ''_'' p = p"
    using assms by (intro trim_byte_id) (auto simp: sanitised_def part_ok_def)
  ultimately show ?thesis using assms
    by (simp add: namespace_prefix_def sanitised_def part_ok_def)
qed

lemma namespace_prefix_cases:
  assumes "namespace_prefix name configured = Inr p"
  shows "(configured \<noteq> [] \<and> p = configured \<and> part_ok p) \<or> (configured = [] \<and> sanitised p)"
  using assms sanitise_result [of name]
  by (auto simp: namespace_prefix_def Let_def split: if_splits sum.splits)

lemma namespace_prefix_part_ok: "namespace_prefix name configured = Inr p \<Longrightarrow> part_ok p"
  using namespace_prefix_cases by (auto simp: sanitised_def)

lemma namespace_prefix_configured:
  "part_ok p \<Longrightarrow> namespace_prefix name p = Inr p"
proof -
  assume "part_ok p"
  then have v: "validate_part p = Inr ()" by simp
  from \<open>part_ok p\<close> have "p \<noteq> []" by (simp add: part_ok_def)
  then show ?thesis by (simp add: namespace_prefix_def v del: validate_part_Inr)
qed

section \<open>Identities\<close>

text \<open>What is put in front of the local name, and the exposed URI.\<close>

definition name_marker :: "string \<Rightarrow> string" where
  "name_marker p = (if p = [] then [] else if has_suffix p ''_'' then p else p @ ''__'')"

definition exposed_uri :: "string \<Rightarrow> string \<Rightarrow> string" where
  "exposed_uri p original = (if p = [] then original else ''mmmcp+'' @ p @ '':'' @ original)"

lemma validate_part_Inl: "validate_part s = Inl e \<Longrightarrow> \<not> part_ok s"
  by (metis Inl_Inr_False validate_part_Inr)

lemma named_feature_Inr:
  "named_feature k p l = Inr n \<longleftrightarrow>
     (p = [] \<or> part_ok p) \<and> part_ok l \<and> n = name_marker p @ l \<and> length n \<le> 128"
  by (auto simp: named_feature_def name_marker_def max_feature_name_length_def Let_def
      dest: validate_part_Inl split: sum.splits if_splits)

lemma resource_uri_Inr:
  "resource_uri_of L p original = Inr u \<longleftrightarrow>
     (p = [] \<or> part_ok p) \<and> (\<exists>s. url_scheme L original = Some s \<and> s \<noteq> []) \<and> u = exposed_uri p original"
  by (auto simp: resource_uri_of_def exposed_uri_def
      dest: validate_part_Inl split: sum.splits if_splits option.splits)

lemma template_uri_Inr:
  "template_uri_of L p original = Inr u \<longleftrightarrow>
     (p = [] \<or> part_ok p) \<and> snd (tpl_new L original) \<and> has_template_scheme original
     \<and> u = exposed_uri p original"
  by (auto simp: template_uri_of_def exposed_uri_def
      dest: validate_part_Inl split: sum.splits if_splits option.splits)

lemma part_ok_nonempty: "part_ok p \<Longrightarrow> p \<noteq> []"
  by (simp add: part_ok_def)

lemma append_sep_inject:
  "c \<notin> set p \<Longrightarrow> c \<notin> set q \<Longrightarrow> p @ c # xs = q @ c # ys \<longleftrightarrow> p = q \<and> xs = ys"
proof (induction p arbitrary: q)
  case Nil
  then show ?case by (cases q) auto
next
  case (Cons x p)
  then show ?case by (cases q) auto
qed

lemma exposed_uri_inject:
  assumes "part_ok p" "part_ok q"
  shows "exposed_uri p x = exposed_uri q y \<longleftrightarrow> p = q \<and> x = y"
  using assms append_sep_inject [of "CHR '':''" p q x y]
  by (auto simp: exposed_uri_def part_ok_no_colon part_ok_nonempty)

lemma exposed_uri_inject_same: "exposed_uri p x = exposed_uri p y \<longleftrightarrow> x = y"
  by (simp add: exposed_uri_def)

lemma scheme_runes_Suc:
  "scheme_runes (Suc i) s \<longleftrightarrow> (\<forall>c \<in> set s.
     c \<ge> CHR ''a'' \<and> c \<le> CHR ''z'' \<or> c \<ge> CHR ''A'' \<and> c \<le> CHR ''Z'' \<or>
     c \<ge> CHR ''0'' \<and> c \<le> CHR ''9'' \<or> c = CHR ''+'' \<or> c = CHR ''-'' \<or> c = CHR ''.'')"
  by (induction s arbitrary: i) (auto simp: not_less)

lemma exposed_scheme:
  assumes "part_ok p"
  shows "has_template_scheme (exposed_uri p original) \<longleftrightarrow> CHR ''_'' \<notin> set p"
proof -
  have ne: "p \<noteq> []" and colon: "CHR '':'' \<notin> set p"
    using assms by (simp_all add: part_ok_nonempty part_ok_no_colon)
  have i: "index_byte (''mmmcp+'' @ p @ '':'' @ original) CHR '':'' = Some (6 + length p)"
    using index_byte_append [of "CHR '':''" "''mmmcp+'' @ p" original] colon by simp
  have brace: "CHR ''{'' \<notin> set p"
    using assms by (auto simp: part_ok_def valid_rune_def)
  have runes: "scheme_runes (Suc i) p \<longleftrightarrow> CHR ''_'' \<notin> set p" for i
    using assms by (auto simp: scheme_runes_Suc part_ok_def valid_rune_def)
  show ?thesis
    using i ne brace by (simp add: has_template_scheme_def exposed_uri_def runes)
qed

section \<open>Properties\<close>

text \<open>
  \<open>Prefix\<close> returns an explicitly configured prefix unchanged and only when it is valid; otherwise
  it sanitises the component name, and the result is a valid, lower-case prefix with no separator at
  either end, which \<open>Prefix\<close> maps to itself. It fails on a component name exactly when the name has
  no valid character besides the separator.
\<close>

theorem prefix_shape:
  "(case namespace_prefix name configured of
      Inr p \<Rightarrow> part_ok p \<and> (if configured = [] then sanitised p \<and> namespace_prefix p [] = Inr p
                           else p = configured)
    | Inl e \<Rightarrow> (if configured = []
                then e = No_prefix_character name \<and> list_all (\<lambda>c. c = CHR ''_'') (filter valid_rune name)
                else \<not> part_ok configured))"
proof (cases "configured = []")
  case conf: True
  let ?q = "prefix_loop name [] False"
  show ?thesis
  proof (cases "trim_byte CHR ''_'' ?q = []")
    case True
    have "c = CHR ''_''" if "c \<in> set name" "valid_rune c" for c
    proof -
      have "lower_byte c = CHR ''_''"
        using prefix_loop_keeps [OF that, of "[]" False] True by (auto simp: trim_byte_empty)
      then show ?thesis by simp
    qed
    with True conf show ?thesis by (auto simp: namespace_prefix_def list_all_iff)
  next
    case False
    then have "sanitised (trim_byte CHR ''_'' ?q)" by (rule sanitise_result)
    with False conf sanitised_fixed [OF this] show ?thesis
      by (auto simp: namespace_prefix_def sanitised_def)
  qed
next
  case False
  then show ?thesis
    by (auto simp: namespace_prefix_def dest: validate_part_Inl split: sum.splits)
qed

text \<open>
  \<open>Tool\<close> and \<open>Prompt\<close> succeed exactly when the prefix is empty or valid, the local name is valid
  and the whole identity has at most 128 bytes; the identity is then the prefix, the separator
  \<open>__\<close> unless the prefix already ends in an underscore, and the local name.
\<close>

theorem named_feature_spec:
  "named_feature k p l = Inr n \<longleftrightarrow>
     (p = [] \<or> part_ok p) \<and> part_ok l \<and> length n \<le> 128 \<and>
     n = (if p = [] then l else if has_suffix p ''_'' then p @ l else p @ ''__'' @ l)"
  by (auto simp: named_feature_Inr name_marker_def)

text \<open>
  C3: Exposed resource URIs and template URIs never collide between components with different
  prefixes, nor within a component: the prefix and the original URI can be read back from the
  exposed URI.
\<close>

theorem exposed_uris_injective:
  assumes "p \<noteq> []" and "q \<noteq> []"
    and "resource_uri_of L p x = Inr u \<or> template_uri_of L p x = Inr u"
    and "resource_uri_of L q y = Inr u \<or> template_uri_of L q y = Inr u"
  shows "p = q \<and> x = y"
proof -
  have "part_ok p" "u = exposed_uri p x" "part_ok q" "u = exposed_uri q y"
    using assms by (auto simp: resource_uri_Inr template_uri_Inr)
  then show ?thesis using exposed_uri_inject [of p q x y] by simp
qed

definition sample_uris :: "(string, string) uri_lib" where
  "sample_uris = \<lparr>url_scheme = (\<lambda>s. map_option (\<lambda>n. take n s) (index_byte s CHR '':'')),
     tpl_new = (\<lambda>s. (s, True)), tpl_match = (\<lambda>t s. if t = s then Some [] else None),
     tpl_expand = (\<lambda>t v. Some t)\<rparr>"

theorem exposed_uris_injective_witness:
  "''docs'' = ''docs'' \<and> ''file:///notes'' = ''file:///notes''
   \<and> resource_uri_of sample_uris ''docs'' ''file:///notes'' = Inr ''mmmcp+docs:file:///notes''"
proof -
  have r: "resource_uri_of sample_uris ''docs'' ''file:///notes'' = Inr ''mmmcp+docs:file:///notes''"
    by code_simp
  have "''docs'' = ''docs'' \<and> ''file:///notes'' = ''file:///notes''"
    by (rule exposed_uris_injective [where L = sample_uris and u = "''mmmcp+docs:file:///notes''"])
      (simp_all add: r)
  with r show ?thesis by simp
qed

text \<open>
  A prefix with an underscore, which is what the sanitiser writes for every separator, gives
  exposed URIs that are not URIs: the underscore may not occur in a scheme, so the exposed template
  of one composite is rejected (missing scheme) by the composite in front of it.
\<close>

theorem underscore_prefix_not_nestable:
  assumes "p \<noteq> []" and "template_uri_of L p original = Inr u" and "snd (tpl_new L u)"
    and "q = [] \<or> part_ok q"
  shows "(CHR ''_'' \<in> set p \<longrightarrow> template_uri_of L q u = Inl (Template_missing_scheme u))
     \<and> (CHR ''_'' \<notin> set p \<longrightarrow> template_uri_of L q u = Inr (exposed_uri q u))"
proof -
  have p: "part_ok p" and u: "u = exposed_uri p original"
    using assms(1,2) by (auto simp: template_uri_Inr)
  have "(if q \<noteq> [] then validate_part q else Inr ()) = Inr ()" using assms(4) by auto
  then show ?thesis
    using exposed_scheme [OF p, of original] assms(3) unfolding u
    by (auto simp: template_uri_of_def exposed_uri_def)
qed

theorem underscore_prefix_not_nestable_witness:
  "namespace_prefix ''local files'' [] = Inr ''local_files''
   \<and> template_uri_of sample_uris ''local_files'' ''file:///{path}'' = Inr ''mmmcp+local_files:file:///{path}''
   \<and> template_uri_of sample_uris ''gw'' ''mmmcp+local_files:file:///{path}''
       = Inl (Template_missing_scheme ''mmmcp+local_files:file:///{path}'')"
proof -
  have r: "template_uri_of sample_uris ''local_files'' ''file:///{path}''
      = Inr ''mmmcp+local_files:file:///{path}''"
    by code_simp
  have q: "part_ok ''gw''" by code_simp
  have p: "namespace_prefix ''local files'' [] = Inr ''local_files''" by code_simp
  have "(CHR ''_'' \<in> set ''local_files'' \<longrightarrow>
      template_uri_of sample_uris ''gw'' ''mmmcp+local_files:file:///{path}''
        = Inl (Template_missing_scheme ''mmmcp+local_files:file:///{path}''))
     \<and> (CHR ''_'' \<notin> set ''local_files'' \<longrightarrow>
      template_uri_of sample_uris ''gw'' ''mmmcp+local_files:file:///{path}''
        = Inr (exposed_uri ''gw'' ''mmmcp+local_files:file:///{path}''))"
    by (rule underscore_prefix_not_nestable [OF _ r]) (use q in \<open>simp_all add: sample_uris_def\<close>)
  with p r show ?thesis by simp
qed

end
