(* ===== verification/Catalog.thy ===== *)
theory Catalog
  imports Tool_Search Namespace
begin

text \<open>
  The immutable snapshot of \<open>catalog/catalog.go\<close> with the routes of \<open>catalog/routes.go\<close>, the lookups on
  it, and the references of \<open>catalog/search.go\<close>.

  Tools and prompts are routed through maps. The map of the resource routes is also ranged over (when
  a result is rewritten), so it is an association list with distinct keys. The digest of the snapshot
  and of a tool revision (JSON and SHA-256) are gathered in a record of functions.
\<close>

section \<open>Routes\<close>

record tool_route =
  tr_protocol_version :: string
  tr_component :: server
  tr_prefix :: string
  tr_tool :: mcp_tool

record prompt_route =
  pr_component :: server
  pr_prefix :: string
  pr_original_name :: string

record resource_route =
  rr_component :: server
  rr_prefix :: string
  rr_original_uri :: string
  rr_composite_uri :: string

record 't template_route =
  xr_component :: server
  xr_prefix :: string
  xr_original_template :: string
  xr_composite_template :: string
  xr_exposed :: 't
  xr_original :: 't

definition to_original :: "('t, 'v) uri_lib \<Rightarrow> 't template_route \<Rightarrow> string \<Rightarrow> string option" where
  "to_original L r uri =
     (case tpl_match L (xr_exposed r) uri of
        None \<Rightarrow> None
      | Some values \<Rightarrow> tpl_expand L (xr_original r) values)"

definition to_composite :: "('t, 'v) uri_lib \<Rightarrow> 't template_route \<Rightarrow> string \<Rightarrow> string option" where
  "to_composite L r uri =
     (case tpl_match L (xr_original r) uri of
        None \<Rightarrow> None
      | Some values \<Rightarrow> tpl_expand L (xr_exposed r) values)"

section \<open>The catalog\<close>

record 't catalog =
  cat_pending :: "string list"
  cat_id :: string
  cat_server_info :: "implementation option"
  cat_tools :: "mcp_tool list"
  cat_visible_tools :: "mcp_tool list"
  cat_tool_search :: bool
  cat_prompts :: "mcp_prompt list"
  cat_resources :: "mcp_resource list"
  cat_templates :: "mcp_template list"
  cat_tool_routes :: "string \<Rightarrow> tool_route option"
  cat_search_index :: "(string \<times> document) list option"
  cat_prompt_routes :: "string \<Rightarrow> prompt_route option"
  cat_resource_routes :: "(string \<times> resource_route) list"
  cat_template_routes :: "'t template_route list"

text \<open>What is hashed into the catalog's id.\<close>

record snapshot =
  snap_tool_protocols :: "string \<Rightarrow> string option"
  snap_tool_search :: bool
  snap_tools :: "mcp_tool list"
  snap_visible_tools :: "mcp_tool list"
  snap_prompts :: "mcp_prompt list"
  snap_resources :: "mcp_resource list"
  snap_templates :: "mcp_template list"

text \<open>
  \<open>snapshot_digest\<close> is \<open>None\<close> when the snapshot cannot be marshalled; \<open>revision_digest\<close> takes the
  reference, the component's name, the original tool name and the exposed tool.
\<close>

record digests =
  snapshot_digest :: "snapshot \<Rightarrow> string option"
  revision_digest :: "reference \<Rightarrow> string \<Rightarrow> string \<Rightarrow> mcp_tool \<Rightarrow> string"

text \<open>
  \<open>newCatalog\<close> sorts every family by its identity. \<open>sort.Slice\<close> is not stable; the identities of a
  family are distinct, so the order it leaves is unique.
\<close>

definition new_catalog :: "digests \<Rightarrow> 't catalog \<Rightarrow> 't catalog option" where
  "new_catalog H c0 =
     (let c = c0\<lparr>cat_tools := sort_key tool_name (cat_tools c0),
                 cat_visible_tools := sort_key tool_name (cat_visible_tools c0),
                 cat_prompts := sort_key prompt_name (cat_prompts c0),
                 cat_resources := sort_key resource_uri (cat_resources c0),
                 cat_templates := sort_key template_uri (cat_templates c0)\<rparr>
      in case snapshot_digest H
            \<lparr>snap_tool_protocols = (\<lambda>n. map_option tr_protocol_version (cat_tool_routes c n)),
             snap_tool_search = cat_tool_search c, snap_tools = cat_tools c,
             snap_visible_tools = cat_visible_tools c, snap_prompts = cat_prompts c,
             snap_resources = cat_resources c, snap_templates = cat_templates c\<rparr> of
           None \<Rightarrow> None
         | Some digest \<Rightarrow> Some (c\<lparr>cat_id := digest\<rparr>))"

definition server_info_of :: "'t catalog option \<Rightarrow> implementation option" where
  "server_info_of c =
     (case c of
        None \<Rightarrow> None
      | Some c \<Rightarrow> map_option (\<lambda>i. \<lparr>impl_name = impl_name i, impl_version = impl_version i\<rparr>)
                  (cat_server_info c))"

section \<open>Lookups\<close>

definition route_tool :: "'t catalog \<Rightarrow> string \<Rightarrow> tool_route option" where
  "route_tool c name = (if cat_tool_search c then None else cat_tool_routes c name)"

definition route_prompt :: "'t catalog \<Rightarrow> string \<Rightarrow> prompt_route option" where
  "route_prompt c name = cat_prompt_routes c name"

primrec route_templates ::
    "('t, 'v) uri_lib \<Rightarrow> 't template_route list \<Rightarrow> string \<Rightarrow> resource_route option" where
  "route_templates L [] uri = None"
| "route_templates L (r # rs) uri =
     (case to_original L r uri of
        Some original \<Rightarrow> Some \<lparr>rr_component = xr_component r, rr_prefix = xr_prefix r,
                           rr_original_uri = original, rr_composite_uri = []\<rparr>
      | None \<Rightarrow> route_templates L rs uri)"

definition route_resource :: "('t, 'v) uri_lib \<Rightarrow> 't catalog \<Rightarrow> string \<Rightarrow> resource_route option" where
  "route_resource L c uri =
     (case map_of (cat_resource_routes c) uri of
        Some route \<Rightarrow> Some route
      | None \<Rightarrow> route_templates L (cat_template_routes c) uri)"

section \<open>Search documents and references\<close>

text \<open>
  Every tool of a catalog that is indexed has a route; for a missing route the map gives the zero
  route, whose tool pointer is nil, and the code would panic on it: \<open>None\<close>.
\<close>

definition search_document :: "digests \<Rightarrow> 't catalog \<Rightarrow> mcp_tool \<Rightarrow> document option" where
  "search_document H c t =
     (case cat_tool_routes c (tool_name t) of
        None \<Rightarrow> None
      | Some route \<Rightarrow> Some \<lparr>doc_exposed_name = tool_name t, doc_component = srv_name (tr_component route),
           doc_reference = \<lparr>ref_name = tool_name t\<rparr>,
           doc_revision = revision_digest H \<lparr>ref_name = tool_name t\<rparr> (srv_name (tr_component route))
             (tool_name (tr_tool route)) t,
           doc_tool = t\<rparr>)"

definition search_documents :: "digests \<Rightarrow> 't catalog \<Rightarrow> document list option" where
  "search_documents H c = those (map (search_document H c) (cat_tools c))"

definition route_reference ::
    "digests \<Rightarrow> 't catalog \<Rightarrow> reference \<Rightarrow> (tool_route \<times> string) option" where
  "route_reference H c r =
     (case cat_search_index c of
        Some ix \<Rightarrow>
          (case index_revision ix r of
             None \<Rightarrow> None
           | Some revision \<Rightarrow> map_option (\<lambda>route. (route, revision)) (cat_tool_routes c (ref_name r)))
      | None \<Rightarrow>
          (case find (\<lambda>t. tool_name t = ref_name r) (cat_tools c) of
             None \<Rightarrow> None
           | Some t \<Rightarrow> map_option (\<lambda>route. (route,
                 revision_digest H r (srv_name (tr_component route)) (tool_name (tr_tool route)) t))
               (cat_tool_routes c (tool_name t))))"

end
