(* ===== verification/Compiler.thy ===== *)
theory Compiler
  imports Catalog "HOL-Library.Multiset"
begin

text \<open>
  \<open>catalog/compiler.go\<close>: one loop per feature family (\<open>compileTools\<close>, \<open>compilePrompts\<close>,
  \<open>compileResources\<close>, \<open>compileTemplates\<close>), a component (\<open>compileComponent\<close>, \<open>validateComponent\<close>) and a
  whole configuration (\<open>compile\<close>). The discovery of the components is an argument of \<open>compile\<close>.

  The four loops share one contract, the locale \<open>feature_loop\<close>; from it follow the exact result of
  each loop and the exact condition of its success.
\<close>

section \<open>Errors\<close>

datatype family = Family_tool | Family_prompt | Family_resource | Family_template

datatype compile_error =
    Duplicate_override string family string
  | Nil_feature string family
  | Duplicate_feature string family string
  | Naming_error string namespace_error
  | Collision family string string string
  | Reserved_tool_name
  | Snapshot_error
  | Nil_route_panic
  | Discovery_error string
  | Nil_features string

section \<open>Overrides\<close>

definition keyed_overrides ::
    "string \<Rightarrow> family \<Rightarrow> ('o \<Rightarrow> string) \<Rightarrow> 'o list \<Rightarrow> (compile_error, (string \<times> 'o) list) res" where
  "keyed_overrides component_name fam key values =
     loop_res (\<lambda>v result. if key v \<in> fst ` set result
                           then Inl (Duplicate_override component_name fam (key v))
                           else Inr (result @ [(key v, v)])) values []"

section \<open>The family loops\<close>

definition compile_tool ::
    "server \<Rightarrow> string \<Rightarrow> (string \<times> tool_override) list \<Rightarrow> string \<Rightarrow> mcp_tool option
       \<Rightarrow> 't catalog \<times> string set \<Rightarrow> (compile_error, 't catalog \<times> string set) res" where
  "compile_tool server pre overrides protocol_version item st =
     (case (item, st) of
        (None, _) \<Rightarrow> Inl (Nil_feature (srv_name server) Family_tool)
      | (Some tool, (c, seen)) \<Rightarrow>
        if tool_name tool \<in> seen
        then Inl (Duplicate_feature (srv_name server) Family_tool (tool_name tool))
        else let override = map_of overrides (tool_name tool) in
          if length overrides > 0 \<and> (case override of None \<Rightarrow> True | Some v \<Rightarrow> \<not> to_enabled v)
          then Inr (c, insert (tool_name tool) seen)
          else let local = (case override of
                              Some v \<Rightarrow> if to_override_name v \<noteq> [] then to_override_name v else tool_name tool
                            | None \<Rightarrow> tool_name tool) in
            (case tool_name_of pre local of
               Inl err \<Rightarrow> Inl (Naming_error (srv_name server) err)
             | Inr name \<Rightarrow>
               (case cat_tool_routes c name of
                  Some existing \<Rightarrow>
                    Inl (Collision Family_tool name (srv_name (tr_component existing)) (srv_name server))
                | None \<Rightarrow>
                  let clone = tool\<lparr>tool_name := name,
                        tool_description := (case override of
                            Some v \<Rightarrow> if to_override_description v \<noteq> [] then to_override_description v
                                      else tool_description tool
                          | None \<Rightarrow> tool_description tool)\<rparr>
                  in Inr (c\<lparr>cat_tools := cat_tools c @ [clone],
                            cat_visible_tools := (if \<not> cat_tool_search c then cat_visible_tools c @ [clone]
                                                  else cat_visible_tools c),
                            cat_tool_routes := (cat_tool_routes c)(name \<mapsto>
                              \<lparr>tr_protocol_version = protocol_version, tr_component = server,
                               tr_prefix = pre, tr_tool = tool\<rparr>)\<rparr>,
                          insert (tool_name tool) seen))))"

definition compile_tools ::
    "'t catalog \<Rightarrow> server \<Rightarrow> string \<Rightarrow> mcp_tool option list \<Rightarrow> string
       \<Rightarrow> (compile_error, 't catalog) res" where
  "compile_tools c server pre discovered protocol_version =
     (if srv_disable_tools server then Inr c
      else rbind (keyed_overrides (srv_name server) Family_tool to_name (srv_tools server)) (\<lambda>overrides.
        rbind (loop_res (compile_tool server pre overrides protocol_version) discovered (c, {}))
          (\<lambda>(c', _). Inr c')))"

definition compile_prompt ::
    "server \<Rightarrow> string \<Rightarrow> (string \<times> prompt_override) list \<Rightarrow> mcp_prompt option
       \<Rightarrow> 't catalog \<times> string set \<Rightarrow> (compile_error, 't catalog \<times> string set) res" where
  "compile_prompt server pre overrides item st =
     (case (item, st) of
        (None, _) \<Rightarrow> Inl (Nil_feature (srv_name server) Family_prompt)
      | (Some prompt, (c, seen)) \<Rightarrow>
        if prompt_name prompt \<in> seen
        then Inl (Duplicate_feature (srv_name server) Family_prompt (prompt_name prompt))
        else let override = map_of overrides (prompt_name prompt) in
          if (case override of None \<Rightarrow> False | Some v \<Rightarrow> \<not> po_enabled v)
          then Inr (c, insert (prompt_name prompt) seen)
          else let local = (case override of
                              Some v \<Rightarrow> if po_override_name v \<noteq> [] then po_override_name v
                                        else prompt_name prompt
                            | None \<Rightarrow> prompt_name prompt) in
            (case prompt_name_of pre local of
               Inl err \<Rightarrow> Inl (Naming_error (srv_name server) err)
             | Inr name \<Rightarrow>
               (case cat_prompt_routes c name of
                  Some existing \<Rightarrow>
                    Inl (Collision Family_prompt name (srv_name (pr_component existing)) (srv_name server))
                | None \<Rightarrow>
                  let clone = prompt\<lparr>prompt_name := name,
                        prompt_description := (case override of
                            Some v \<Rightarrow> if po_override_description v \<noteq> [] then po_override_description v
                                      else prompt_description prompt
                          | None \<Rightarrow> prompt_description prompt)\<rparr>
                  in Inr (c\<lparr>cat_prompts := cat_prompts c @ [clone],
                            cat_prompt_routes := (cat_prompt_routes c)(name \<mapsto>
                              \<lparr>pr_component = server, pr_prefix = pre,
                               pr_original_name = prompt_name prompt\<rparr>)\<rparr>,
                          insert (prompt_name prompt) seen))))"

definition compile_prompts ::
    "'t catalog \<Rightarrow> server \<Rightarrow> string \<Rightarrow> mcp_prompt option list \<Rightarrow> (compile_error, 't catalog) res" where
  "compile_prompts c server pre discovered =
     rbind (keyed_overrides (srv_name server) Family_prompt po_name (srv_prompts server)) (\<lambda>overrides.
       rbind (loop_res (compile_prompt server pre overrides) discovered (c, {})) (\<lambda>(c', _). Inr c'))"

definition compile_resource ::
    "('t, 'v) uri_lib \<Rightarrow> server \<Rightarrow> string \<Rightarrow> (string \<times> resource_override) list \<Rightarrow> mcp_resource option
       \<Rightarrow> 't catalog \<times> string set \<Rightarrow> (compile_error, 't catalog \<times> string set) res" where
  "compile_resource L server pre overrides item st =
     (case (item, st) of
        (None, _) \<Rightarrow> Inl (Nil_feature (srv_name server) Family_resource)
      | (Some resource, (c, seen)) \<Rightarrow>
        if resource_uri resource \<in> seen
        then Inl (Duplicate_feature (srv_name server) Family_resource (resource_uri resource))
        else let override = map_of overrides (resource_uri resource) in
          if (case override of None \<Rightarrow> False | Some v \<Rightarrow> \<not> ro_enabled v)
          then Inr (c, insert (resource_uri resource) seen)
          else let local_uri = (case override of
                              Some v \<Rightarrow> if ro_override_uri v \<noteq> [] then ro_override_uri v
                                        else resource_uri resource
                            | None \<Rightarrow> resource_uri resource) in
            (case resource_uri_of L pre local_uri of
               Inl err \<Rightarrow> Inl (Naming_error (srv_name server) err)
             | Inr uri \<Rightarrow>
               (case map_of (cat_resource_routes c) uri of
                  Some existing \<Rightarrow>
                    Inl (Collision Family_resource uri (srv_name (rr_component existing)) (srv_name server))
                | None \<Rightarrow>
                  let clone = resource\<lparr>resource_uri := uri,
                        resource_name := (case override of
                            Some v \<Rightarrow> if ro_override_name v \<noteq> [] then ro_override_name v
                                      else resource_name resource
                          | None \<Rightarrow> resource_name resource),
                        resource_description := (case override of
                            Some v \<Rightarrow> if ro_override_description v \<noteq> [] then ro_override_description v
                                      else resource_description resource
                          | None \<Rightarrow> resource_description resource)\<rparr>
                  in Inr (c\<lparr>cat_resources := cat_resources c @ [clone],
                            cat_resource_routes := cat_resource_routes c @ [(uri,
                              \<lparr>rr_component = server, rr_prefix = pre,
                               rr_original_uri = resource_uri resource, rr_composite_uri = uri\<rparr>)]\<rparr>,
                          insert (resource_uri resource) seen))))"

definition compile_resources ::
    "('t, 'v) uri_lib \<Rightarrow> 't catalog \<Rightarrow> server \<Rightarrow> string \<Rightarrow> mcp_resource option list
       \<Rightarrow> (compile_error, 't catalog) res" where
  "compile_resources L c server pre discovered =
     rbind (keyed_overrides (srv_name server) Family_resource ro_uri (srv_resources server)) (\<lambda>overrides.
       rbind (loop_res (compile_resource L server pre overrides) discovered (c, {})) (\<lambda>(c', _). Inr c'))"

text \<open>The loop over the templates also carries the owners of the exposed templates.\<close>

definition compile_template ::
    "('t, 'v) uri_lib \<Rightarrow> server \<Rightarrow> string \<Rightarrow> (string \<times> template_override) list \<Rightarrow> mcp_template option
       \<Rightarrow> ('t catalog \<times> (string \<Rightarrow> string option)) \<times> string set
       \<Rightarrow> (compile_error, ('t catalog \<times> (string \<Rightarrow> string option)) \<times> string set) res" where
  "compile_template L server pre overrides item st =
     (case (item, st) of
        (None, _) \<Rightarrow> Inl (Nil_feature (srv_name server) Family_template)
      | (Some template, ((c, owners), seen)) \<Rightarrow>
        if template_uri template \<in> seen
        then Inl (Duplicate_feature (srv_name server) Family_template (template_uri template))
        else let override = map_of overrides (template_uri template) in
          if (case override of None \<Rightarrow> False | Some v \<Rightarrow> \<not> xo_enabled v)
          then Inr ((c, owners), insert (template_uri template) seen)
          else let local_uri = (case override of
                              Some v \<Rightarrow> if xo_override_uri_template v \<noteq> [] then xo_override_uri_template v
                                        else template_uri template
                            | None \<Rightarrow> template_uri template) in
            (case template_uri_of L pre local_uri of
               Inl err \<Rightarrow> Inl (Naming_error (srv_name server) err)
             | Inr uri \<Rightarrow>
               (case owners uri of
                  Some existing \<Rightarrow> Inl (Collision Family_template uri existing (srv_name server))
                | None \<Rightarrow>
                  let clone = template\<lparr>template_uri := uri,
                        template_name := (case override of
                            Some v \<Rightarrow> if xo_override_name v \<noteq> [] then xo_override_name v
                                      else template_name template
                          | None \<Rightarrow> template_name template),
                        template_description := (case override of
                            Some v \<Rightarrow> if xo_override_description v \<noteq> [] then xo_override_description v
                                      else template_description template
                          | None \<Rightarrow> template_description template)\<rparr>
                  in Inr ((c\<lparr>cat_templates := cat_templates c @ [clone],
                             cat_template_routes := cat_template_routes c @
                               [\<lparr>xr_component = server, xr_prefix = pre,
                                 xr_original_template = template_uri template, xr_composite_template = uri,
                                 xr_exposed = fst (tpl_new L uri),
                                 xr_original = fst (tpl_new L (template_uri template))\<rparr>]\<rparr>,
                           owners(uri \<mapsto> srv_name server)),
                          insert (template_uri template) seen))))"

definition compile_templates ::
    "('t, 'v) uri_lib \<Rightarrow> 't catalog \<times> (string \<Rightarrow> string option) \<Rightarrow> server \<Rightarrow> string \<Rightarrow> mcp_template option list
       \<Rightarrow> (compile_error, 't catalog \<times> (string \<Rightarrow> string option)) res" where
  "compile_templates L st server pre discovered =
     rbind (keyed_overrides (srv_name server) Family_template xo_uri_template (srv_resource_templates server))
       (\<lambda>overrides. rbind (loop_res (compile_template L server pre overrides) discovered (st, {}))
         (\<lambda>(st', _). Inr st'))"

section \<open>A component and a configuration\<close>

text \<open>
  A component discovered for another family than its resources keeps the URI mappings its
  configuration names.
\<close>

definition resource_inventory :: "server \<Rightarrow> features \<Rightarrow> mcp_resource option list" where
  "resource_inventory server feats =
     (if srv_discovery_method server \<noteq> [] \<and> srv_discovery_method server \<noteq> ''resources''
      then ft_resources feats @ map (\<lambda>v. Some \<lparr>resource_uri = ro_uri v, resource_name = [],
             resource_description = [], resource_rest = JNull\<rparr>) (filter ro_enabled (srv_resources server))
      else ft_resources feats)"

definition template_inventory :: "server \<Rightarrow> features \<Rightarrow> mcp_template option list" where
  "template_inventory server feats =
     (if srv_discovery_method server \<noteq> [] \<and> srv_discovery_method server \<noteq> ''resources''
      then ft_resource_templates feats @ map (\<lambda>v. Some \<lparr>template_uri = xo_uri_template v,
             template_name = [], template_description = [], template_rest = JNull\<rparr>)
             (filter xo_enabled (srv_resource_templates server))
      else ft_resource_templates feats)"

definition compile_component ::
    "('t, 'v) uri_lib \<Rightarrow> server \<Rightarrow> string \<Rightarrow> features \<Rightarrow> 't catalog \<times> (string \<Rightarrow> string option)
       \<Rightarrow> (compile_error, 't catalog \<times> (string \<Rightarrow> string option)) res" where
  "compile_component L server pre feats st =
     rbind (compile_tools (fst st) server pre (ft_tools feats) (ft_protocol_version feats)) (\<lambda>c1.
     rbind (compile_prompts c1 server pre (ft_prompts feats)) (\<lambda>c2.
     rbind (compile_resources L c2 server pre (resource_inventory server feats)) (\<lambda>c3.
     compile_templates L (c3, snd st) server pre (template_inventory server feats))))"

definition new_compile_catalog :: "bool \<Rightarrow> 't catalog" where
  "new_compile_catalog tool_search =
     \<lparr>cat_pending = [], cat_id = [], cat_server_info = None, cat_tools = [],
      cat_visible_tools = (if tool_search then search_definitions else []),
      cat_tool_search = tool_search, cat_prompts = [], cat_resources = [], cat_templates = [],
      cat_tool_routes = Map.empty, cat_search_index = None, cat_prompt_routes = Map.empty,
      cat_resource_routes = [], cat_template_routes = []\<rparr>"

definition validate_component ::
    "('t, 'v) uri_lib \<Rightarrow> server \<Rightarrow> string \<Rightarrow> features \<Rightarrow> (compile_error, unit) res" where
  "validate_component L server pre feats =
     rbind (compile_component L server pre feats (new_compile_catalog False, Map.empty)) (\<lambda>_. Inr ())"

text \<open>The result of discovering one component.\<close>

record discovery_result =
  dr_features :: features
  dr_pending :: bool

definition component_prefixes :: "server list \<Rightarrow> (compile_error, string list) res" where
  "component_prefixes servers =
     map_res (\<lambda>_ s. if length servers \<le> 1 \<and> srv_prefix s = [] then Inr []
                     else (case namespace_prefix (srv_name s) (srv_prefix s) of
                             Inl err \<Rightarrow> Inl (Naming_error (srv_name s) err)
                           | Inr p \<Rightarrow> Inr p)) 0 servers"

definition authorization_tool_name :: string where
  "authorization_tool_name = ''mmmcp_auth_status''"

definition authorization_tool :: mcp_tool where
  "authorization_tool = \<lparr>tool_name = authorization_tool_name,
     tool_description = ''Configure and authenticate all MCP components before using their tools. Call this tool to request clickable setup links. After the user finishes signing in, call it again to refresh available tools without restarting the session. Opening a link is not completed authorization. Do not continuously poll.'',
     tool_input_schema = JObj [(''type'', JStr ''object''), (''properties'', JObj []),
       (''additionalProperties'', JBool False)],
     tool_output_schema = None, tool_rest = JNull\<rparr>"

text \<open>The body of \<open>compile\<close> once the prefixes and the discovery results are there.\<close>

definition compile_discovered ::
    "('t, 'v) uri_lib \<Rightarrow> digests \<Rightarrow> config \<Rightarrow> string list \<Rightarrow> discovery_result list
       \<Rightarrow> (compile_error, 't catalog) res" where
  "compile_discovered L H cfg pres discovered =
     (let info = (if length discovered = 1
                  then map_option (\<lambda>i. \<lparr>impl_name = impl_name i, impl_version = impl_version i\<rparr>)
                         (ft_server_info (dr_features (discovered ! 0)))
                  else None)
      in rbind (loop_res (\<lambda>(server, pre, d). compile_component L server pre (dr_features d))
                  (zip (cfg_servers cfg) (zip pres discovered))
                  ((new_compile_catalog (cfg_tool_search cfg))\<lparr>cat_server_info := info\<rparr>, Map.empty))
         (\<lambda>(result, _).
       if cfg_defer_authorization cfg \<and> cat_tool_routes result authorization_tool_name \<noteq> None
       then Inl Reserved_tool_name
       else let pending = map (\<lambda>(s, d). srv_name s) (filter (\<lambda>(s, d). dr_pending d)
                            (zip (cfg_servers cfg) discovered)) in
         if length pending > 0
         then (case new_catalog H ((new_compile_catalog False)\<lparr>cat_server_info := cat_server_info result,
                   cat_pending := pending, cat_tools := [authorization_tool],
                   cat_visible_tools := [authorization_tool]\<rparr>) of
                 None \<Rightarrow> Inl Snapshot_error
               | Some c \<Rightarrow> Inr c)
         else (case new_catalog H result of
                 None \<Rightarrow> Inl Snapshot_error
               | Some c \<Rightarrow>
                 if \<not> cfg_tool_search cfg then Inr c
                 else (case search_documents H c of
                         None \<Rightarrow> Inl Nil_route_panic
                       | Some docs \<Rightarrow> Inr (c\<lparr>cat_search_index := Some (new_index docs)\<rparr>)))))"

definition compile ::
    "('t, 'v) uri_lib \<Rightarrow> digests
       \<Rightarrow> (server list \<Rightarrow> string list \<Rightarrow> bool \<Rightarrow> (compile_error, discovery_result list) res)
       \<Rightarrow> config \<Rightarrow> bool \<Rightarrow> (compile_error, 't catalog) res" where
  "compile L H discover_components cfg defer_authorization =
     rbind (component_prefixes (cfg_servers cfg)) (\<lambda>pres.
     rbind (discover_components (cfg_servers cfg) pres defer_authorization) (\<lambda>discovered.
     compile_discovered L H cfg pres discovered))"

section \<open>The contract of the family loops\<close>

text \<open>The effect of adding a list of features under their names, in order.\<close>

primrec add_all ::
    "('f \<Rightarrow> string \<Rightarrow> 's \<Rightarrow> 's) \<Rightarrow> ('f \<Rightarrow> ('n, string) res) \<Rightarrow> 'f list \<Rightarrow> 's \<Rightarrow> 's" where
  "add_all add name [] s = s"
| "add_all add name (x # xs) s = add_all add name xs (add x (projr (name x)) s)"

text \<open>The entries the features \<open>xs\<close> give, those without a name left out.\<close>

definition named_entries :: "('f \<Rightarrow> ('n, string) res) \<Rightarrow> ('f \<Rightarrow> string \<Rightarrow> 'e) \<Rightarrow> 'f list \<Rightarrow> 'e list" where
  "named_entries name entry xs = concat (map (\<lambda>x. case name x of Inl _ \<Rightarrow> [] | Inr n \<Rightarrow> [entry x n]) xs)"

text \<open>When a loop over the features \<open>xs\<close> succeeds: the names exist, are new and differ.\<close>

definition names_fit ::
    "('s \<Rightarrow> string \<Rightarrow> bool) \<Rightarrow> ('f \<Rightarrow> ('n, string) res) \<Rightarrow> 'f list \<Rightarrow> 's \<Rightarrow> bool" where
  "names_fit taken name xs s \<longleftrightarrow> (\<forall>x \<in> set xs. \<exists>n. name x = Inr n)
     \<and> distinct (map (\<lambda>x. projr (name x)) xs) \<and> (\<forall>x \<in> set xs. \<not> taken s (projr (name x)))"

text \<open>
  A pass over discovered features: a nil pointer and a repeated identity stop it, a hidden feature is
  skipped, a visible one is named and added unless its name is taken.
\<close>

locale feature_loop =
  fixes step :: "'f option \<Rightarrow> 's \<times> string set \<Rightarrow> ('e, 's \<times> string set) res"
    and key :: "'f \<Rightarrow> string"
    and visible :: "'f \<Rightarrow> bool"
    and name :: "'f \<Rightarrow> ('n, string) res"
    and taken :: "'s \<Rightarrow> string \<Rightarrow> bool"
    and add :: "'f \<Rightarrow> string \<Rightarrow> 's \<Rightarrow> 's"
  assumes step_iff: "step it (s, seen) = Inr (s', seen') \<longleftrightarrow>
      (\<exists>x. it = Some x \<and> key x \<notin> seen \<and> seen' = insert (key x) seen \<and>
         (if visible x then \<exists>n. name x = Inr n \<and> \<not> taken s n \<and> s' = add x n s else s' = s))"
    and taken_add: "taken (add x n s) m \<longleftrightarrow> taken s m \<or> m = n"
begin

lemma names_fit_Cons:
  "names_fit taken name (x # xs) s \<longleftrightarrow>
     (\<exists>n. name x = Inr n \<and> \<not> taken s n \<and> names_fit taken name xs (add x n s))"
  by (cases "name x") (auto simp: names_fit_def taken_add)

lemma loop_Some_iff:
  "loop_res step (map Some xs) (s, seen) = Inr (s', seen') \<longleftrightarrow>
     distinct (map key xs) \<and> key ` set xs \<inter> seen = {} \<and> seen' = seen \<union> key ` set xs
     \<and> names_fit taken name (filter visible xs) s \<and> s' = add_all add name (filter visible xs) s"
proof (induction xs arbitrary: s seen)
  case Nil
  then show ?case by (auto simp: names_fit_def)
next
  case (Cons x xs)
  show ?case
  proof (cases "visible x")
    case True
    then show ?thesis
      by (auto simp: rbind_Inr_iff step_iff Cons.IH names_fit_Cons)
  next
    case False
    then show ?thesis
      by (auto simp: rbind_Inr_iff step_iff Cons.IH)
  qed
qed

lemma add_all_entries:
  assumes "names_fit taken name xs s" and "Q E s"
    and "\<And>x n s E. Q E s \<Longrightarrow> \<not> taken s n \<Longrightarrow> name x = Inr n \<Longrightarrow> Q (E @ [entry x n]) (add x n s)"
  shows "Q (E @ named_entries name entry xs) (add_all add name xs s)"
  using assms(1,2)
proof (induction xs arbitrary: s E)
  case (Cons x xs)
  then obtain n where n: "name x = Inr n" "\<not> taken s n" "names_fit taken name xs (add x n s)"
    by (auto simp: names_fit_Cons)
  have "Q ((E @ [entry x n]) @ named_entries name entry xs) (add_all add name xs (add x n s))"
    by (rule Cons.IH [OF n(3)]) (rule assms(3) [OF Cons.prems(2) n(2,1)])
  with n(1) show ?case by (simp add: named_entries_def)
qed (simp add: named_entries_def)

lemma names_fit_weaken:
  "names_fit taken name xs s \<Longrightarrow> (\<And>n. taken s' n \<Longrightarrow> taken s n) \<Longrightarrow> names_fit taken name xs s'"
  by (auto simp: names_fit_def)

lemma loop_all_Some: "loop_res step items (s, seen) = Inr r \<Longrightarrow> \<exists>xs. items = map Some xs"
proof (induction items arbitrary: s seen)
  case (Cons it items)
  then obtain t seen' where "step it (s, seen) = Inr (t, seen')" "loop_res step items (t, seen') = Inr r"
    by (auto simp: rbind_Inr_iff)
  with Cons.IH [OF this(2)] show ?case by (auto simp: step_iff Cons_eq_map_conv)
qed simp

lemma loop_iff:
  "loop_res step items (s, {}) = Inr (s', seen') \<longleftrightarrow>
     (\<exists>xs. items = map Some xs \<and> distinct (map key xs) \<and> seen' = key ` set xs
       \<and> names_fit taken name (filter visible xs) s \<and> s' = add_all add name (filter visible xs) s)"
  using loop_all_Some [of items s "{}"] loop_Some_iff [of _ s "{}"] by fastforce

end

section \<open>The features of the loops\<close>

text \<open>
  The overrides of a server as a map, whether a feature is shown, its local name, the exposed copy and
  its route, for every family.
\<close>

definition override_map :: "('o \<Rightarrow> string) \<Rightarrow> 'o list \<Rightarrow> (string \<times> 'o) list" where
  "override_map key vs = map (\<lambda>v. (key v, v)) vs"

lemma keyed_overrides_iff:
  "keyed_overrides cn fam key vs = Inr r \<longleftrightarrow> distinct (map key vs) \<and> r = override_map key vs"
proof -
  have "loop_res (\<lambda>v result. if key v \<in> fst ` set result
                 then Inl (Duplicate_override cn fam (key v)) else Inr (result @ [(key v, v)])) vs acc = Inr r
     \<longleftrightarrow> distinct (map key vs) \<and> key ` set vs \<inter> fst ` set acc = {} \<and> r = acc @ override_map key vs" for acc
  proof (induction vs arbitrary: acc)
    case Nil
    then show ?case by (auto simp: override_map_def)
  next
    case (Cons v vs)
    then show ?case by (auto simp: override_map_def rbind_Inr_iff)
  qed
  from this [of "[]"] show ?thesis by (simp add: keyed_overrides_def)
qed

lemma override_map_lookup:
  "distinct (map key vs) \<Longrightarrow> map_of (override_map key vs) k = Some v \<longleftrightarrow> v \<in> set vs \<and> key v = k"
  by (subst map_of_eq_Some_iff) (auto simp: override_map_def comp_def)

definition chosen :: "string \<Rightarrow> string \<Rightarrow> string" where
  "chosen override original = (if override \<noteq> [] then override else original)"

definition tool_override_of :: "server \<Rightarrow> mcp_tool \<Rightarrow> tool_override option" where
  "tool_override_of s t = map_of (override_map to_name (srv_tools s)) (tool_name t)"

definition tool_shown :: "server \<Rightarrow> mcp_tool \<Rightarrow> bool" where
  "tool_shown s t \<longleftrightarrow> srv_tools s = [] \<or> (case tool_override_of s t of None \<Rightarrow> False | Some v \<Rightarrow> to_enabled v)"

definition tool_exposed_name :: "server \<Rightarrow> string \<Rightarrow> mcp_tool \<Rightarrow> (namespace_error, string) res" where
  "tool_exposed_name s p t = tool_name_of p (case tool_override_of s t of
     None \<Rightarrow> tool_name t | Some v \<Rightarrow> chosen (to_override_name v) (tool_name t))"

definition tool_clone :: "server \<Rightarrow> mcp_tool \<Rightarrow> string \<Rightarrow> mcp_tool" where
  "tool_clone s t n = t\<lparr>tool_name := n, tool_description := (case tool_override_of s t of
     None \<Rightarrow> tool_description t | Some v \<Rightarrow> chosen (to_override_description v) (tool_description t))\<rparr>"

definition tool_route_of :: "server \<Rightarrow> string \<Rightarrow> string \<Rightarrow> mcp_tool \<Rightarrow> tool_route" where
  "tool_route_of s p pv t =
     \<lparr>tr_protocol_version = pv, tr_component = s, tr_prefix = p, tr_tool = t\<rparr>"

definition add_tool :: "server \<Rightarrow> string \<Rightarrow> string \<Rightarrow> mcp_tool \<Rightarrow> string \<Rightarrow> 't catalog \<Rightarrow> 't catalog" where
  "add_tool s p pv t n c = c\<lparr>cat_tools := cat_tools c @ [tool_clone s t n],
     cat_visible_tools := (if \<not> cat_tool_search c then cat_visible_tools c @ [tool_clone s t n]
                           else cat_visible_tools c),
     cat_tool_routes := (cat_tool_routes c)(n \<mapsto> tool_route_of s p pv t)\<rparr>"

definition prompt_override_of :: "server \<Rightarrow> mcp_prompt \<Rightarrow> prompt_override option" where
  "prompt_override_of s t = map_of (override_map po_name (srv_prompts s)) (prompt_name t)"

definition prompt_shown :: "server \<Rightarrow> mcp_prompt \<Rightarrow> bool" where
  "prompt_shown s t \<longleftrightarrow> (case prompt_override_of s t of None \<Rightarrow> True | Some v \<Rightarrow> po_enabled v)"

definition prompt_exposed_name :: "server \<Rightarrow> string \<Rightarrow> mcp_prompt \<Rightarrow> (namespace_error, string) res" where
  "prompt_exposed_name s p t = prompt_name_of p (case prompt_override_of s t of
     None \<Rightarrow> prompt_name t | Some v \<Rightarrow> chosen (po_override_name v) (prompt_name t))"

definition prompt_clone :: "server \<Rightarrow> mcp_prompt \<Rightarrow> string \<Rightarrow> mcp_prompt" where
  "prompt_clone s t n = t\<lparr>prompt_name := n, prompt_description := (case prompt_override_of s t of
     None \<Rightarrow> prompt_description t | Some v \<Rightarrow> chosen (po_override_description v) (prompt_description t))\<rparr>"

definition prompt_route_of :: "server \<Rightarrow> string \<Rightarrow> mcp_prompt \<Rightarrow> prompt_route" where
  "prompt_route_of s p t = \<lparr>pr_component = s, pr_prefix = p, pr_original_name = prompt_name t\<rparr>"

definition add_prompt :: "server \<Rightarrow> string \<Rightarrow> mcp_prompt \<Rightarrow> string \<Rightarrow> 't catalog \<Rightarrow> 't catalog" where
  "add_prompt s p t n c = c\<lparr>cat_prompts := cat_prompts c @ [prompt_clone s t n],
     cat_prompt_routes := (cat_prompt_routes c)(n \<mapsto> prompt_route_of s p t)\<rparr>"

definition resource_override_of :: "server \<Rightarrow> mcp_resource \<Rightarrow> resource_override option" where
  "resource_override_of s t = map_of (override_map ro_uri (srv_resources s)) (resource_uri t)"

definition resource_shown :: "server \<Rightarrow> mcp_resource \<Rightarrow> bool" where
  "resource_shown s t \<longleftrightarrow> (case resource_override_of s t of None \<Rightarrow> True | Some v \<Rightarrow> ro_enabled v)"

definition resource_exposed_uri ::
    "('t, 'v) uri_lib \<Rightarrow> server \<Rightarrow> string \<Rightarrow> mcp_resource \<Rightarrow> (namespace_error, string) res" where
  "resource_exposed_uri L s p t = resource_uri_of L p (case resource_override_of s t of
     None \<Rightarrow> resource_uri t | Some v \<Rightarrow> chosen (ro_override_uri v) (resource_uri t))"

definition resource_clone :: "server \<Rightarrow> mcp_resource \<Rightarrow> string \<Rightarrow> mcp_resource" where
  "resource_clone s t n = t\<lparr>resource_uri := n, resource_name := (case resource_override_of s t of
       None \<Rightarrow> resource_name t | Some v \<Rightarrow> chosen (ro_override_name v) (resource_name t)),
     resource_description := (case resource_override_of s t of
       None \<Rightarrow> resource_description t | Some v \<Rightarrow> chosen (ro_override_description v) (resource_description t))\<rparr>"

definition resource_route_of :: "server \<Rightarrow> string \<Rightarrow> mcp_resource \<Rightarrow> string \<Rightarrow> resource_route" where
  "resource_route_of s p t n = \<lparr>rr_component = s, rr_prefix = p, rr_original_uri = resource_uri t,
     rr_composite_uri = n\<rparr>"

definition add_resource :: "server \<Rightarrow> string \<Rightarrow> mcp_resource \<Rightarrow> string \<Rightarrow> 't catalog \<Rightarrow> 't catalog" where
  "add_resource s p t n c = c\<lparr>cat_resources := cat_resources c @ [resource_clone s t n],
     cat_resource_routes := cat_resource_routes c @ [(n, resource_route_of s p t n)]\<rparr>"

definition template_override_of :: "server \<Rightarrow> mcp_template \<Rightarrow> template_override option" where
  "template_override_of s t = map_of (override_map xo_uri_template (srv_resource_templates s)) (template_uri t)"

definition template_shown :: "server \<Rightarrow> mcp_template \<Rightarrow> bool" where
  "template_shown s t \<longleftrightarrow> (case template_override_of s t of None \<Rightarrow> True | Some v \<Rightarrow> xo_enabled v)"

definition template_exposed_uri ::
    "('t, 'v) uri_lib \<Rightarrow> server \<Rightarrow> string \<Rightarrow> mcp_template \<Rightarrow> (namespace_error, string) res" where
  "template_exposed_uri L s p t = template_uri_of L p (case template_override_of s t of
     None \<Rightarrow> template_uri t | Some v \<Rightarrow> chosen (xo_override_uri_template v) (template_uri t))"

definition template_clone :: "server \<Rightarrow> mcp_template \<Rightarrow> string \<Rightarrow> mcp_template" where
  "template_clone s t n = t\<lparr>template_uri := n, template_name := (case template_override_of s t of
       None \<Rightarrow> template_name t | Some v \<Rightarrow> chosen (xo_override_name v) (template_name t)),
     template_description := (case template_override_of s t of
       None \<Rightarrow> template_description t | Some v \<Rightarrow> chosen (xo_override_description v) (template_description t))\<rparr>"

definition template_route_of ::
    "('t, 'v) uri_lib \<Rightarrow> server \<Rightarrow> string \<Rightarrow> mcp_template \<Rightarrow> string \<Rightarrow> 't template_route" where
  "template_route_of L s p t n = \<lparr>xr_component = s, xr_prefix = p, xr_original_template = template_uri t,
     xr_composite_template = n, xr_exposed = fst (tpl_new L n), xr_original = fst (tpl_new L (template_uri t))\<rparr>"

definition add_template ::
    "('t, 'v) uri_lib \<Rightarrow> server \<Rightarrow> string \<Rightarrow> mcp_template \<Rightarrow> string
       \<Rightarrow> 't catalog \<times> (string \<Rightarrow> string option) \<Rightarrow> 't catalog \<times> (string \<Rightarrow> string option)" where
  "add_template L s p t n st = ((fst st)\<lparr>cat_templates := cat_templates (fst st) @ [template_clone s t n],
     cat_template_routes := cat_template_routes (fst st) @ [template_route_of L s p t n]\<rparr>,
     (snd st)(n \<mapsto> srv_name s))"

section \<open>The loops meet the contract\<close>

text \<open>The shape of one pass, with everything that depends on the family abstracted.\<close>

lemma feature_step_iff:
  "(case it of None \<Rightarrow> Inl e0
      | Some t \<Rightarrow> if key t \<in> seen then Inl (e1 t)
          else if \<not> visible t then Inr (s, insert (key t) seen)
          else (case name t of Inl e \<Rightarrow> Inl (e2 e)
                | Inr n \<Rightarrow> (case look n of
                    Some r \<Rightarrow> Inl (e3 n r) | None \<Rightarrow> Inr (add t n, insert (key t) seen)))) = Inr (s', seen')
   \<longleftrightarrow> (\<exists>x. it = Some x \<and> key x \<notin> seen \<and> seen' = insert (key x) seen \<and>
         (if visible x then \<exists>n. name x = Inr n \<and> \<not> look n \<noteq> None \<and> s' = add x n else s' = s))"
  by (cases it) (auto split: option.splits sum.splits)

lemma compile_tool_eq:
  "compile_tool server pre (override_map to_name (srv_tools server)) pv it (c, seen) =
     (case it of None \<Rightarrow> Inl (Nil_feature (srv_name server) Family_tool)
      | Some t \<Rightarrow> if tool_name t \<in> seen
          then Inl (Duplicate_feature (srv_name server) Family_tool (tool_name t))
          else if \<not> tool_shown server t then Inr (c, insert (tool_name t) seen)
          else (case tool_exposed_name server pre t of
                  Inl e \<Rightarrow> Inl (Naming_error (srv_name server) e)
                | Inr n \<Rightarrow> (case cat_tool_routes c n of
                    Some r \<Rightarrow> Inl (Collision Family_tool n (srv_name (tr_component r)) (srv_name server))
                  | None \<Rightarrow> Inr (add_tool server pre pv t n c, insert (tool_name t) seen))))"
  unfolding compile_tool_def tool_shown_def tool_override_of_def tool_exposed_name_def add_tool_def
    tool_clone_def tool_route_of_def chosen_def Let_def
  by (cases it; cases "srv_tools server";
      simp add: override_map_def split: option.splits sum.splits)

interpretation tools_loop: feature_loop
  "compile_tool server pre (override_map to_name (srv_tools server)) pv" tool_name "tool_shown server"
  "tool_exposed_name server pre" "\<lambda>c n. cat_tool_routes c n \<noteq> None" "add_tool server pre pv"
  for server pre pv
  by unfold_locales (simp only: compile_tool_eq feature_step_iff, simp add: add_tool_def)

lemma compile_prompt_eq:
  "compile_prompt server pre (override_map po_name (srv_prompts server)) it (c, seen) =
     (case it of None \<Rightarrow> Inl (Nil_feature (srv_name server) Family_prompt)
      | Some t \<Rightarrow> if prompt_name t \<in> seen
          then Inl (Duplicate_feature (srv_name server) Family_prompt (prompt_name t))
          else if \<not> prompt_shown server t then Inr (c, insert (prompt_name t) seen)
          else (case prompt_exposed_name server pre t of
                  Inl e \<Rightarrow> Inl (Naming_error (srv_name server) e)
                | Inr n \<Rightarrow> (case cat_prompt_routes c n of
                    Some r \<Rightarrow> Inl (Collision Family_prompt n (srv_name (pr_component r)) (srv_name server))
                  | None \<Rightarrow> Inr (add_prompt server pre t n c, insert (prompt_name t) seen))))"
  unfolding compile_prompt_def prompt_shown_def prompt_override_of_def prompt_exposed_name_def
    add_prompt_def prompt_clone_def prompt_route_of_def chosen_def Let_def
  by (cases it; cases "map_of (override_map po_name (srv_prompts server)) (prompt_name (the it))") simp_all

interpretation prompts_loop: feature_loop
  "compile_prompt server pre (override_map po_name (srv_prompts server))" prompt_name
  "prompt_shown server" "prompt_exposed_name server pre" "\<lambda>c n. cat_prompt_routes c n \<noteq> None"
  "add_prompt server pre"
  for server pre
  by unfold_locales (simp only: compile_prompt_eq feature_step_iff, simp add: add_prompt_def)

lemma compile_resource_eq:
  "compile_resource L server pre (override_map ro_uri (srv_resources server)) it (c, seen) =
     (case it of None \<Rightarrow> Inl (Nil_feature (srv_name server) Family_resource)
      | Some t \<Rightarrow> if resource_uri t \<in> seen
          then Inl (Duplicate_feature (srv_name server) Family_resource (resource_uri t))
          else if \<not> resource_shown server t then Inr (c, insert (resource_uri t) seen)
          else (case resource_exposed_uri L server pre t of
                  Inl e \<Rightarrow> Inl (Naming_error (srv_name server) e)
                | Inr n \<Rightarrow> (case map_of (cat_resource_routes c) n of
                    Some r \<Rightarrow> Inl (Collision Family_resource n (srv_name (rr_component r)) (srv_name server))
                  | None \<Rightarrow> Inr (add_resource server pre t n c, insert (resource_uri t) seen))))"
  unfolding compile_resource_def resource_shown_def resource_override_of_def resource_exposed_uri_def
    add_resource_def resource_clone_def resource_route_of_def chosen_def Let_def
  by (cases it; cases "map_of (override_map ro_uri (srv_resources server)) (resource_uri (the it))") simp_all

interpretation resources_loop: feature_loop
  "compile_resource L server pre (override_map ro_uri (srv_resources server))" resource_uri
  "resource_shown server" "resource_exposed_uri L server pre"
  "\<lambda>c n. map_of (cat_resource_routes c) n \<noteq> None" "add_resource server pre"
  for L server pre
  by unfold_locales (simp only: compile_resource_eq feature_step_iff, simp add: add_resource_def map_add_def split: option.splits)

lemma compile_template_eq:
  "compile_template L server pre (override_map xo_uri_template (srv_resource_templates server)) it (st, seen) =
     (case it of None \<Rightarrow> Inl (Nil_feature (srv_name server) Family_template)
      | Some t \<Rightarrow> if template_uri t \<in> seen
          then Inl (Duplicate_feature (srv_name server) Family_template (template_uri t))
          else if \<not> template_shown server t then Inr (st, insert (template_uri t) seen)
          else (case template_exposed_uri L server pre t of
                  Inl e \<Rightarrow> Inl (Naming_error (srv_name server) e)
                | Inr n \<Rightarrow> (case snd st n of
                    Some r \<Rightarrow> Inl (Collision Family_template n r (srv_name server))
                  | None \<Rightarrow> Inr (add_template L server pre t n st, insert (template_uri t) seen))))"
  unfolding compile_template_def template_shown_def template_override_of_def template_exposed_uri_def
    add_template_def template_clone_def template_route_of_def chosen_def Let_def
  by (cases it; cases st) (simp_all split: option.splits sum.splits)

interpretation templates_loop: feature_loop
  "compile_template L server pre (override_map xo_uri_template (srv_resource_templates server))"
  template_uri "template_shown server" "template_exposed_uri L server pre"
  "\<lambda>st n. snd st n \<noteq> None" "add_template L server pre"
  for L server pre
  by unfold_locales (simp only: compile_template_eq feature_step_iff, simp add: add_template_def)

lemma compile_tools_iff:
  "compile_tools c server pre items pv = Inr c' \<longleftrightarrow>
     (if srv_disable_tools server then c' = c
      else distinct (map to_name (srv_tools server)) \<and>
        (\<exists>xs. items = map Some xs \<and> distinct (map tool_name xs)
          \<and> names_fit (\<lambda>c n. cat_tool_routes c n \<noteq> None) (tool_exposed_name server pre)
              (filter (tool_shown server) xs) c
          \<and> c' = add_all (add_tool server pre pv) (tool_exposed_name server pre)
                   (filter (tool_shown server) xs) c))"
  unfolding compile_tools_def
  by (auto simp: rbind_Inr_iff keyed_overrides_iff tools_loop.loop_iff)

lemma compile_prompts_iff:
  "compile_prompts c server pre items = Inr c' \<longleftrightarrow>
     distinct (map po_name (srv_prompts server)) \<and>
       (\<exists>xs. items = map Some xs \<and> distinct (map prompt_name xs)
          \<and> names_fit (\<lambda>c n. cat_prompt_routes c n \<noteq> None) (prompt_exposed_name server pre)
              (filter (prompt_shown server) xs) c
          \<and> c' = add_all (add_prompt server pre) (prompt_exposed_name server pre)
                   (filter (prompt_shown server) xs) c)"
  unfolding compile_prompts_def
  by (auto simp: rbind_Inr_iff keyed_overrides_iff prompts_loop.loop_iff)

lemma compile_resources_iff:
  "compile_resources L c server pre items = Inr c' \<longleftrightarrow>
     distinct (map ro_uri (srv_resources server)) \<and>
       (\<exists>xs. items = map Some xs \<and> distinct (map resource_uri xs)
          \<and> names_fit (\<lambda>c n. map_of (cat_resource_routes c) n \<noteq> None) (resource_exposed_uri L server pre)
              (filter (resource_shown server) xs) c
          \<and> c' = add_all (add_resource server pre) (resource_exposed_uri L server pre)
                   (filter (resource_shown server) xs) c)"
  unfolding compile_resources_def
  by (auto simp: rbind_Inr_iff keyed_overrides_iff resources_loop.loop_iff)

lemma compile_templates_iff:
  "compile_templates L st server pre items = Inr st' \<longleftrightarrow>
     distinct (map xo_uri_template (srv_resource_templates server)) \<and>
       (\<exists>xs. items = map Some xs \<and> distinct (map template_uri xs)
          \<and> names_fit (\<lambda>st n. snd st n \<noteq> None) (template_exposed_uri L server pre)
              (filter (template_shown server) xs) st
          \<and> st' = add_all (add_template L server pre) (template_exposed_uri L server pre)
                   (filter (template_shown server) xs) st)"
  unfolding compile_templates_def
  by (auto simp: rbind_Inr_iff keyed_overrides_iff templates_loop.loop_iff) (metis surj_pair)

section \<open>What a configuration exposes\<close>

text \<open>
  The features a component contributes, each paired with its route: the specification the compiled
  catalog is compared with.
\<close>

definition somes :: "'f option list \<Rightarrow> 'f list" where
  "somes xs = concat (map (\<lambda>x. case x of None \<Rightarrow> [] | Some f \<Rightarrow> [f]) xs)"

lemma somes_map_Some [simp]: "somes (map Some xs) = xs"
  by (induction xs) (simp_all add: somes_def)

lemma somes_mem [simp]: "f \<in> set (somes xs) \<longleftrightarrow> Some f \<in> set xs"
  by (force simp: somes_def split: option.splits)

definition tool_entries :: "server \<Rightarrow> string \<Rightarrow> features \<Rightarrow> (mcp_tool \<times> tool_route) list" where
  "tool_entries s p f = (if srv_disable_tools s then []
     else named_entries (tool_exposed_name s p)
            (\<lambda>t n. (tool_clone s t n, tool_route_of s p (ft_protocol_version f) t))
            (filter (tool_shown s) (somes (ft_tools f))))"

definition prompt_entries :: "server \<Rightarrow> string \<Rightarrow> features \<Rightarrow> (mcp_prompt \<times> prompt_route) list" where
  "prompt_entries s p f = named_entries (prompt_exposed_name s p)
     (\<lambda>t n. (prompt_clone s t n, prompt_route_of s p t)) (filter (prompt_shown s) (somes (ft_prompts f)))"

definition resource_entries ::
    "('t, 'v) uri_lib \<Rightarrow> server \<Rightarrow> string \<Rightarrow> features \<Rightarrow> (mcp_resource \<times> resource_route) list" where
  "resource_entries L s p f = named_entries (resource_exposed_uri L s p)
     (\<lambda>t n. (resource_clone s t n, resource_route_of s p t n))
     (filter (resource_shown s) (somes (resource_inventory s f)))"

definition template_entries ::
    "('t, 'v) uri_lib \<Rightarrow> server \<Rightarrow> string \<Rightarrow> features \<Rightarrow> (mcp_template \<times> 't template_route) list" where
  "template_entries L s p f = named_entries (template_exposed_uri L s p)
     (\<lambda>t n. (template_clone s t n, template_route_of L s p t n))
     (filter (template_shown s) (somes (template_inventory s f)))"

lemma named_entries_mem:
  "e \<in> set (named_entries name entry xs) \<longleftrightarrow> (\<exists>x n. x \<in> set xs \<and> name x = Inr n \<and> e = entry x n)"
  by (auto simp: named_entries_def eq_commute [of "Inr n" "name x" for n x] split: sum.splits)

text \<open>A catalog under construction that holds exactly the given entries.\<close>

record 't entries =
  en_tools :: "(mcp_tool \<times> tool_route) list"
  en_prompts :: "(mcp_prompt \<times> prompt_route) list"
  en_resources :: "(mcp_resource \<times> resource_route) list"
  en_templates :: "(mcp_template \<times> 't template_route) list"

definition tools_built :: "(mcp_tool \<times> tool_route) list \<Rightarrow> 't catalog \<Rightarrow> bool" where
  "tools_built E c \<longleftrightarrow> cat_tools c = map fst E
     \<and> cat_visible_tools c = (if cat_tool_search c then search_definitions else map fst E)
     \<and> cat_tool_routes c = map_of (map (\<lambda>e. (tool_name (fst e), snd e)) E)
     \<and> distinct (map (\<lambda>e. tool_name (fst e)) E)"

definition prompts_built :: "(mcp_prompt \<times> prompt_route) list \<Rightarrow> 't catalog \<Rightarrow> bool" where
  "prompts_built E c \<longleftrightarrow> cat_prompts c = map fst E
     \<and> cat_prompt_routes c = map_of (map (\<lambda>e. (prompt_name (fst e), snd e)) E)
     \<and> distinct (map (\<lambda>e. prompt_name (fst e)) E)"

definition resources_built :: "(mcp_resource \<times> resource_route) list \<Rightarrow> 't catalog \<Rightarrow> bool" where
  "resources_built E c \<longleftrightarrow> cat_resources c = map fst E
     \<and> cat_resource_routes c = map (\<lambda>e. (resource_uri (fst e), snd e)) E
     \<and> distinct (map (\<lambda>e. resource_uri (fst e)) E)"

definition templates_built ::
    "(mcp_template \<times> 't template_route) list \<Rightarrow> 't catalog \<times> (string \<Rightarrow> string option) \<Rightarrow> bool" where
  "templates_built E st \<longleftrightarrow> cat_templates (fst st) = map fst E
     \<and> cat_template_routes (fst st) = map snd E
     \<and> dom (snd st) = set (map (\<lambda>e. template_uri (fst e)) E)
     \<and> distinct (map (\<lambda>e. template_uri (fst e)) E)"

definition built :: "'t entries \<Rightarrow> 't catalog \<times> (string \<Rightarrow> string option) \<Rightarrow> bool" where
  "built E st \<longleftrightarrow> tools_built (en_tools E) (fst st) \<and> prompts_built (en_prompts E) (fst st)
     \<and> resources_built (en_resources E) (fst st) \<and> templates_built (en_templates E) st"

lemma clone_simps [simp]:
  "tool_name (tool_clone s t n) = n" "prompt_name (prompt_clone s p n) = n"
  "resource_uri (resource_clone s r n) = n" "template_uri (template_clone s x n) = n"
  by (simp_all add: tool_clone_def prompt_clone_def resource_clone_def template_clone_def)

lemma route_of_simps [simp]:
  "tr_component (tool_route_of s p pv t) = s" "tr_prefix (tool_route_of s p pv t) = p"
  "tr_tool (tool_route_of s p pv t) = t" "tr_protocol_version (tool_route_of s p pv t) = pv"
  "pr_component (prompt_route_of s p q) = s" "pr_prefix (prompt_route_of s p q) = p"
  "pr_original_name (prompt_route_of s p q) = prompt_name q"
  "rr_component (resource_route_of s p r n) = s" "rr_prefix (resource_route_of s p r n) = p"
  "rr_original_uri (resource_route_of s p r n) = resource_uri r"
  "rr_composite_uri (resource_route_of s p r n) = n"
  "xr_component (template_route_of L s p x n) = s" "xr_prefix (template_route_of L s p x n) = p"
  by (simp_all add: tool_route_of_def prompt_route_of_def resource_route_of_def template_route_of_def)

lemma map_of_new_key:
  assumes "k \<notin> fst ` set xs"
  shows "[k \<mapsto> v] ++ map_of xs = (map_of xs)(k \<mapsto> v)"
proof -
  from assms have "map_of xs k = None" by (simp add: map_of_eq_None_iff)
  then show ?thesis by (auto simp: map_add_def fun_eq_iff split: option.splits)
qed

lemma tools_built_add:
  "tools_built E c \<Longrightarrow> cat_tool_routes c n = None
     \<Longrightarrow> tools_built (E @ [(tool_clone s t n, tool_route_of s p pv t)]) (add_tool s p pv t n c)"
  by (auto simp: tools_built_def add_tool_def map_of_eq_None_iff map_of_new_key image_image)

lemma prompts_built_add:
  "prompts_built E c \<Longrightarrow> cat_prompt_routes c n = None
     \<Longrightarrow> prompts_built (E @ [(prompt_clone s t n, prompt_route_of s p t)]) (add_prompt s p t n c)"
  by (auto simp: prompts_built_def add_prompt_def map_of_eq_None_iff map_of_new_key image_image)

lemma resources_built_add:
  "resources_built E c \<Longrightarrow> map_of (cat_resource_routes c) n = None
     \<Longrightarrow> resources_built (E @ [(resource_clone s t n, resource_route_of s p t n)]) (add_resource s p t n c)"
  by (auto simp: resources_built_def add_resource_def map_of_eq_None_iff image_image)

lemma templates_built_add:
  "templates_built E st \<Longrightarrow> snd st n = None
     \<Longrightarrow> templates_built (E @ [(template_clone s t n, template_route_of L s p t n)]) (add_template L s p t n st)"
  by (auto simp: templates_built_def add_template_def domIff)

text \<open>Each family leaves the others alone.\<close>

lemma add_frames [simp]:
  "prompts_built E (add_tool s p pv t n c) = prompts_built E c"
  "resources_built F (add_tool s p pv t n c) = resources_built F c"
  "templates_built G (add_tool s p pv t n c, w) = templates_built G (c, w)"
  "tools_built T (add_prompt s p q n c) = tools_built T c"
  "resources_built F (add_prompt s p q n c) = resources_built F c"
  "templates_built G (add_prompt s p q n c, w) = templates_built G (c, w)"
  "tools_built T (add_resource s p r n c) = tools_built T c"
  "prompts_built E (add_resource s p r n c) = prompts_built E c"
  "templates_built G (add_resource s p r n c, w) = templates_built G (c, w)"
  "tools_built T (fst (add_template L s p x n st)) = tools_built T (fst st)"
  "prompts_built E (fst (add_template L s p x n st)) = prompts_built E (fst st)"
  "resources_built F (fst (add_template L s p x n st)) = resources_built F (fst st)"
  by (simp_all add: tools_built_def prompts_built_def resources_built_def templates_built_def
      add_tool_def add_prompt_def add_resource_def add_template_def)

definition component_entries :: "('t, 'v) uri_lib \<Rightarrow> server \<Rightarrow> string \<Rightarrow> features \<Rightarrow> 't entries \<Rightarrow> 't entries" where
  "component_entries L s p f E = \<lparr>en_tools = en_tools E @ tool_entries s p f,
     en_prompts = en_prompts E @ prompt_entries s p f,
     en_resources = en_resources E @ resource_entries L s p f,
     en_templates = en_templates E @ template_entries L s p f\<rparr>"

lemma compile_tools_built:
  assumes "compile_tools c s p (ft_tools f) (ft_protocol_version f) = Inr c'" and "built E (c, w)"
  shows "built (E\<lparr>en_tools := en_tools E @ tool_entries s p f\<rparr>) (c', w)"
proof (cases "srv_disable_tools s")
  case True
  with assms show ?thesis by (simp add: compile_tools_iff tool_entries_def)
next
  case False
  with assms(1) obtain xs where xs: "ft_tools f = map Some xs"
    and fit: "names_fit (\<lambda>c n. cat_tool_routes c n \<noteq> None) (tool_exposed_name s p) (filter (tool_shown s) xs) c"
    and c': "c' = add_all (add_tool s p (ft_protocol_version f)) (tool_exposed_name s p) (filter (tool_shown s) xs) c"
    by (auto simp: compile_tools_iff)
  let ?Q = "\<lambda>T c. tools_built T c \<and> prompts_built (en_prompts E) c \<and> resources_built (en_resources E) c
     \<and> templates_built (en_templates E) (c, w)"
  have "?Q (en_tools E @ named_entries (tool_exposed_name s p)
          (\<lambda>t n. (tool_clone s t n, tool_route_of s p (ft_protocol_version f) t)) (filter (tool_shown s) xs)) c'"
    unfolding c' using fit assms(2)
    by (intro tools_loop.add_all_entries [where Q = ?Q and server = s and pre = p and pv = "ft_protocol_version f"
          and entry = "\<lambda>t n. (tool_clone s t n, tool_route_of s p (ft_protocol_version f) t)"])
      (auto simp: built_def tools_built_add)
  with False xs show ?thesis
    by (simp add: built_def tool_entries_def comp_def)
qed

lemma compile_prompts_built:
  assumes "compile_prompts c s p (ft_prompts f) = Inr c'" and "built E (c, w)"
  shows "built (E\<lparr>en_prompts := en_prompts E @ prompt_entries s p f\<rparr>) (c', w)"
proof -
  from assms(1) obtain xs where xs: "ft_prompts f = map Some xs"
    and fit: "names_fit (\<lambda>c n. cat_prompt_routes c n \<noteq> None) (prompt_exposed_name s p) (filter (prompt_shown s) xs) c"
    and c': "c' = add_all (add_prompt s p) (prompt_exposed_name s p) (filter (prompt_shown s) xs) c"
    by (auto simp: compile_prompts_iff)
  let ?Q = "\<lambda>T c. prompts_built T c \<and> tools_built (en_tools E) c \<and> resources_built (en_resources E) c
     \<and> templates_built (en_templates E) (c, w)"
  have "?Q (en_prompts E @ named_entries (prompt_exposed_name s p)
          (\<lambda>t n. (prompt_clone s t n, prompt_route_of s p t)) (filter (prompt_shown s) xs)) c'"
    unfolding c' using fit assms(2)
    by (intro prompts_loop.add_all_entries [where Q = ?Q and server = s and pre = p
          and entry = "\<lambda>t n. (prompt_clone s t n, prompt_route_of s p t)"])
      (auto simp: built_def prompts_built_add)
  with xs show ?thesis
    by (simp add: built_def prompt_entries_def comp_def)
qed

lemma compile_resources_built:
  assumes "compile_resources L c s p (resource_inventory s f) = Inr c'" and "built E (c, w)"
  shows "built (E\<lparr>en_resources := en_resources E @ resource_entries L s p f\<rparr>) (c', w)"
proof -
  from assms(1) obtain xs where xs: "resource_inventory s f = map Some xs"
    and fit: "names_fit (\<lambda>c n. map_of (cat_resource_routes c) n \<noteq> None) (resource_exposed_uri L s p)
                (filter (resource_shown s) xs) c"
    and c': "c' = add_all (add_resource s p) (resource_exposed_uri L s p) (filter (resource_shown s) xs) c"
    by (auto simp: compile_resources_iff)
  let ?Q = "\<lambda>T c. resources_built T c \<and> tools_built (en_tools E) c \<and> prompts_built (en_prompts E) c
     \<and> templates_built (en_templates E) (c, w)"
  have "?Q (en_resources E @ named_entries (resource_exposed_uri L s p)
          (\<lambda>t n. (resource_clone s t n, resource_route_of s p t n)) (filter (resource_shown s) xs)) c'"
    unfolding c' using fit assms(2)
    by (intro resources_loop.add_all_entries [where Q = ?Q and server = s and pre = p and L = L
          and entry = "\<lambda>t n. (resource_clone s t n, resource_route_of s p t n)"])
      (auto simp: built_def resources_built_add)
  with xs show ?thesis
    by (simp add: built_def resource_entries_def comp_def)
qed

lemma compile_templates_built:
  assumes "compile_templates L st s p (template_inventory s f) = Inr st'" and "built E st"
  shows "built (E\<lparr>en_templates := en_templates E @ template_entries L s p f\<rparr>) st'"
proof -
  from assms(1) obtain xs where xs: "template_inventory s f = map Some xs"
    and fit: "names_fit (\<lambda>st n. snd st n \<noteq> None) (template_exposed_uri L s p) (filter (template_shown s) xs) st"
    and c': "st' = add_all (add_template L s p) (template_exposed_uri L s p) (filter (template_shown s) xs) st"
    by (auto simp: compile_templates_iff)
  let ?Q = "\<lambda>T st. templates_built T st \<and> tools_built (en_tools E) (fst st) \<and> prompts_built (en_prompts E) (fst st)
     \<and> resources_built (en_resources E) (fst st)"
  have "?Q (en_templates E @ named_entries (template_exposed_uri L s p)
          (\<lambda>t n. (template_clone s t n, template_route_of L s p t n)) (filter (template_shown s) xs)) st'"
    unfolding c' using fit assms(2)
    by (intro templates_loop.add_all_entries [where Q = ?Q and server = s and pre = p and L = L
          and entry = "\<lambda>t n. (template_clone s t n, template_route_of L s p t n)"])
      (auto simp: built_def templates_built_add)
  with xs show ?thesis
    by (simp add: built_def template_entries_def comp_def)
qed

lemma compile_component_built:
  assumes "compile_component L s p f st = Inr st'" and "built E st"
  shows "built (component_entries L s p f E) st'"
proof -
  from assms(1) obtain c1 c2 c3 where
    1: "compile_tools (fst st) s p (ft_tools f) (ft_protocol_version f) = Inr c1"
    and 2: "compile_prompts c1 s p (ft_prompts f) = Inr c2"
    and 3: "compile_resources L c2 s p (resource_inventory s f) = Inr c3"
    and 4: "compile_templates L (c3, snd st) s p (template_inventory s f) = Inr st'"
    by (auto simp: compile_component_def rbind_Inr_iff)
  from compile_tools_built [OF 1, of E "snd st"] assms(2)
  have "built (E\<lparr>en_tools := en_tools E @ tool_entries s p f\<rparr>) (c1, snd st)" by simp
  from compile_templates_built [OF 4 compile_resources_built [OF 3 compile_prompts_built [OF 2 this]]]
  show ?thesis by (cases E) (simp add: component_entries_def)
qed

section \<open>Whole configurations\<close>

definition no_entries :: "'t entries" where
  "no_entries = \<lparr>en_tools = [], en_prompts = [], en_resources = [], en_templates = []\<rparr>"

definition config_entries ::
    "('t, 'v) uri_lib \<Rightarrow> (server \<times> string \<times> discovery_result) list \<Rightarrow> 't entries" where
  "config_entries L parts = fold (\<lambda>(s, p, d). component_entries L s p (dr_features d)) parts no_entries"

lemma add_all_keeps: "(\<And>x n s. h (add x n s) = h s) \<Longrightarrow> h (add_all add name xs s) = h s"
  by (induction xs arbitrary: s) simp_all

definition frame_of :: "'t catalog \<Rightarrow> bool \<times> implementation option \<times> string list \<times> (string \<times> document) list option" where
  "frame_of c = (cat_tool_search c, cat_server_info c, cat_pending c, cat_search_index c)"

lemma frame_of_adds [simp]:
  "frame_of (add_tool s p pv t n c) = frame_of c" "frame_of (add_prompt s p q n c) = frame_of c"
  "frame_of (add_resource s p r n c) = frame_of c" "frame_of (fst (add_template L s p x n st)) = frame_of (fst st)"
  by (simp_all add: frame_of_def add_tool_def add_prompt_def add_resource_def add_template_def)

lemma compile_component_frame:
  assumes "compile_component L s p f st = Inr st'"
  shows "frame_of (fst st') = frame_of (fst st)"
proof -
  from assms obtain c1 c2 c3 where
    1: "compile_tools (fst st) s p (ft_tools f) (ft_protocol_version f) = Inr c1"
    and 2: "compile_prompts c1 s p (ft_prompts f) = Inr c2"
    and 3: "compile_resources L c2 s p (resource_inventory s f) = Inr c3"
    and 4: "compile_templates L (c3, snd st) s p (template_inventory s f) = Inr st'"
    by (auto simp: compile_component_def rbind_Inr_iff)
  have "frame_of c1 = frame_of (fst st)"
    using 1 by (auto simp: compile_tools_iff add_all_keeps [where h = frame_of] split: if_splits)
  moreover have "frame_of c2 = frame_of c1"
    using 2 by (auto simp: compile_prompts_iff add_all_keeps [where h = frame_of])
  moreover have "frame_of c3 = frame_of c2"
    using 3 by (auto simp: compile_resources_iff add_all_keeps [where h = frame_of])
  moreover have "frame_of (fst st') = frame_of c3"
    using 4 by (auto simp: compile_templates_iff add_all_keeps [where h = "\<lambda>st. frame_of (fst st)"])
  ultimately show ?thesis by simp
qed

lemma compile_components_built:
  assumes "loop_res (\<lambda>(s, p, d). compile_component L s p (dr_features d)) parts st = Inr st'"
    and "built E st"
  shows "built (fold (\<lambda>(s, p, d). component_entries L s p (dr_features d)) parts E) st'
     \<and> frame_of (fst st') = frame_of (fst st)"
  using assms
proof (induction parts arbitrary: st E)
  case (Cons part parts)
  obtain s p d where part: "part = (s, p, d)" by (cases part)
  from Cons.prems(1) obtain st1 where 1: "compile_component L s p (dr_features d) st = Inr st1"
    and 2: "loop_res (\<lambda>(s, p, d). compile_component L s p (dr_features d)) parts st1 = Inr st'"
    by (auto simp: part rbind_Inr_iff)
  from Cons.IH [OF 2 compile_component_built [OF 1 Cons.prems(2)]] compile_component_frame [OF 1]
  show ?case by (simp add: part)
qed simp

lemma built_empty: "built no_entries ((new_compile_catalog b)\<lparr>cat_server_info := i\<rparr>, Map.empty)"
  by (simp add: built_def no_entries_def new_compile_catalog_def tools_built_def prompts_built_def
      resources_built_def templates_built_def)

text \<open>What the success of a compilation says: the catalog before sorting, and the two outcomes.\<close>

definition pending_names :: "server list \<Rightarrow> discovery_result list \<Rightarrow> string list" where
  "pending_names servers ds = map (\<lambda>(s, d). srv_name s) (filter (\<lambda>(s, d). dr_pending d) (zip servers ds))"

definition setup_catalog :: "string list \<Rightarrow> implementation option \<Rightarrow> 't catalog" where
  "setup_catalog names i = (new_compile_catalog False)\<lparr>cat_server_info := i, cat_pending := names,
     cat_tools := [authorization_tool], cat_visible_tools := [authorization_tool]\<rparr>"

lemma compile_discovered_cases:
  assumes "compile_discovered L H cfg pres ds = Inr c"
  obtains (pending) i where "pending_names (cfg_servers cfg) ds \<noteq> []"
      "new_catalog H (setup_catalog (pending_names (cfg_servers cfg) ds) i) = Some c"
  | (ready) raw w c0 where "pending_names (cfg_servers cfg) ds = []"
      "built (config_entries L (zip (cfg_servers cfg) (zip pres ds))) (raw, w)"
      "cat_tool_search raw = cfg_tool_search cfg" "cat_pending raw = []" "cat_search_index raw = None"
      "cfg_defer_authorization cfg \<Longrightarrow> cat_tool_routes raw authorization_tool_name = None"
      "new_catalog H raw = Some c0"
      "if cfg_tool_search cfg then \<exists>docs. search_documents H c0 = Some docs
          \<and> c = c0\<lparr>cat_search_index := Some (new_index docs)\<rparr> else c = c0"
proof -
  let ?parts = "zip (cfg_servers cfg) (zip pres ds)"
  define info where "info = (if length ds = 1
      then map_option (\<lambda>i. \<lparr>impl_name = impl_name i, impl_version = impl_version i\<rparr>)
             (ft_server_info (dr_features (ds ! 0))) else None)"
  define start where "start = (((new_compile_catalog (cfg_tool_search cfg))\<lparr>cat_server_info := info\<rparr>,
      Map.empty) :: 'a catalog \<times> (string \<Rightarrow> string option))"
  from assms obtain raw w where loop:
      "loop_res (\<lambda>(s, p, d). compile_component L s p (dr_features d)) ?parts start = Inr (raw, w)"
    and rest: "(if cfg_defer_authorization cfg \<and> cat_tool_routes raw authorization_tool_name \<noteq> None
       then Inl Reserved_tool_name
       else if length (pending_names (cfg_servers cfg) ds) > 0
         then (case new_catalog H (setup_catalog (pending_names (cfg_servers cfg) ds) (cat_server_info raw)) of
                 None \<Rightarrow> Inl Snapshot_error | Some c \<Rightarrow> Inr c)
         else (case new_catalog H raw of None \<Rightarrow> Inl Snapshot_error
               | Some c \<Rightarrow> if \<not> cfg_tool_search cfg then Inr c
                 else (case search_documents H c of None \<Rightarrow> Inl Nil_route_panic
                       | Some docs \<Rightarrow> Inr (c\<lparr>cat_search_index := Some (new_index docs)\<rparr>)))) = Inr c"
    unfolding compile_discovered_def info_def [symmetric] start_def pending_names_def setup_catalog_def Let_def
      rbind_Inr_iff
    by auto
  have b: "built (config_entries L ?parts) (raw, w) \<and> frame_of raw = frame_of (fst start)"
    using compile_components_built [OF loop, of no_entries]
    by (simp add: start_def config_entries_def built_empty)
  then have fr: "cat_tool_search raw = cfg_tool_search cfg" "cat_pending raw = []" "cat_search_index raw = None"
    by (simp_all add: start_def frame_of_def new_compile_catalog_def)
  show thesis
  proof (cases "pending_names (cfg_servers cfg) ds = []")
    case True
    with rest obtain c0 where "new_catalog H raw = Some c0"
      "if cfg_tool_search cfg then \<exists>docs. search_documents H c0 = Some docs
          \<and> c = c0\<lparr>cat_search_index := Some (new_index docs)\<rparr> else c = c0"
      by (auto split: if_splits option.splits)
    moreover have "cfg_defer_authorization cfg \<Longrightarrow> cat_tool_routes raw authorization_tool_name = None"
      using rest by (auto split: if_splits)
    ultimately show thesis using True b fr by (intro ready [of raw w c0]) auto
  next
    case False
    with rest show thesis by (intro pending) (auto split: if_splits option.splits)
  qed
qed

lemma new_catalog_fields:
  assumes "new_catalog H raw = Some c"
  shows "cat_tools c = sort_key tool_name (cat_tools raw)"
    and "cat_visible_tools c = sort_key tool_name (cat_visible_tools raw)"
    and "cat_prompts c = sort_key prompt_name (cat_prompts raw)"
    and "cat_resources c = sort_key resource_uri (cat_resources raw)"
    and "cat_templates c = sort_key template_uri (cat_templates raw)"
    and "cat_tool_routes c = cat_tool_routes raw" and "cat_prompt_routes c = cat_prompt_routes raw"
    and "cat_resource_routes c = cat_resource_routes raw"
    and "cat_template_routes c = cat_template_routes raw"
    and "cat_tool_search c = cat_tool_search raw" and "cat_pending c = cat_pending raw"
    and "cat_search_index c = cat_search_index raw" and "cat_server_info c = cat_server_info raw"
  using assms by (auto simp: new_catalog_def Let_def split: option.splits)

lemma sort_key_strict:
  assumes "distinct (map f xs)"
  shows "sorted_wrt (<) (map f (sort_key f xs))"
proof -
  have "distinct (map f (sort_key f xs))"
    using assms by (simp add: distinct_map)
  then show ?thesis by (simp add: strict_sorted_iff)
qed

lemma compiled_built:
  assumes "compile_discovered L H cfg pres ds = Inr c" and "pending_names (cfg_servers cfg) ds = []"
  obtains raw w where "built (config_entries L (zip (cfg_servers cfg) (zip pres ds))) (raw, w)"
    "cat_tools c = sort_key tool_name (cat_tools raw)"
    "cat_visible_tools c = sort_key tool_name (cat_visible_tools raw)"
    "cat_prompts c = sort_key prompt_name (cat_prompts raw)"
    "cat_resources c = sort_key resource_uri (cat_resources raw)"
    "cat_templates c = sort_key template_uri (cat_templates raw)"
    "cat_tool_routes c = cat_tool_routes raw" "cat_prompt_routes c = cat_prompt_routes raw"
    "cat_resource_routes c = cat_resource_routes raw" "cat_template_routes c = cat_template_routes raw"
    "cat_tool_search raw = cfg_tool_search cfg" "cat_tool_search c = cfg_tool_search cfg" "cat_pending c = []"
proof (rule compile_discovered_cases [OF assms(1)])
  fix raw w c0
  assume b: "built (config_entries L (zip (cfg_servers cfg) (zip pres ds))) (raw, w)"
    and r: "cat_tool_search raw = cfg_tool_search cfg" "cat_pending raw = []" "cat_search_index raw = None"
    and n: "new_catalog H raw = Some c0"
    and c: "if cfg_tool_search cfg then \<exists>docs. search_documents H c0 = Some docs
          \<and> c = c0\<lparr>cat_search_index := Some (new_index docs)\<rparr> else c = c0"
  show thesis
    using c r new_catalog_fields [OF n]
    by (intro that [OF b]) (auto split: if_splits)
qed (use assms(2) in simp)

lemma compiled_fields:
  assumes "compile_discovered L H cfg pres ds = Inr c" and "pending_names (cfg_servers cfg) ds = []"
  defines "E \<equiv> config_entries L (zip (cfg_servers cfg) (zip pres ds))"
  shows "cat_tools c = sort_key tool_name (map fst (en_tools E))"
    and "cat_visible_tools c = sort_key tool_name
           (if cfg_tool_search cfg then search_definitions else map fst (en_tools E))"
    and "cat_prompts c = sort_key prompt_name (map fst (en_prompts E))"
    and "cat_resources c = sort_key resource_uri (map fst (en_resources E))"
    and "cat_templates c = sort_key template_uri (map fst (en_templates E))"
    and "cat_tool_routes c = map_of (map (\<lambda>e. (tool_name (fst e), snd e)) (en_tools E))"
    and "cat_prompt_routes c = map_of (map (\<lambda>e. (prompt_name (fst e), snd e)) (en_prompts E))"
    and "cat_resource_routes c = map (\<lambda>e. (resource_uri (fst e), snd e)) (en_resources E)"
    and "cat_template_routes c = map snd (en_templates E)"
    and "cat_tool_search c = cfg_tool_search cfg" and "cat_pending c = []"
    and "distinct (map (\<lambda>e. tool_name (fst e)) (en_tools E))"
    and "distinct (map (\<lambda>e. prompt_name (fst e)) (en_prompts E))"
    and "distinct (map (\<lambda>e. resource_uri (fst e)) (en_resources E))"
    and "distinct (map (\<lambda>e. template_uri (fst e)) (en_templates E))"
  unfolding E_def
  by (rule compiled_built [OF assms(1,2)],
      simp add: built_def tools_built_def prompts_built_def resources_built_def templates_built_def)+

end
