(* ===== verification/Compiled.thy ===== *)
theory Compiled
  imports Compiler
begin

text \<open>
  What a compiled catalog guarantees: which features it exposes and under which identities, where each
  of them is routed, what a catalog that waits for authorization shows, the completeness of the search
  index, and that a component which compiles with others also validates alone.
\<close>

section \<open>Tools\<close>

definition config_parts ::
    "config \<Rightarrow> string list \<Rightarrow> discovery_result list \<Rightarrow> (server \<times> string \<times> discovery_result) list" where
  "config_parts cfg pres ds = zip (cfg_servers cfg) (zip pres ds)"

lemma config_entries_fold:
  fixes E :: "'t entries"
  shows "en_tools (fold (\<lambda>(s, p, d). component_entries L s p (dr_features d)) parts E) =
       en_tools E @ concat (map (\<lambda>(s, p, d). tool_entries s p (dr_features d)) parts)"
    and "en_prompts (fold (\<lambda>(s, p, d). component_entries L s p (dr_features d)) parts E) =
       en_prompts E @ concat (map (\<lambda>(s, p, d). prompt_entries s p (dr_features d)) parts)"
    and "en_resources (fold (\<lambda>(s, p, d). component_entries L s p (dr_features d)) parts E) =
       en_resources E @ concat (map (\<lambda>(s, p, d). resource_entries L s p (dr_features d)) parts)"
    and "en_templates (fold (\<lambda>(s, p, d). component_entries L s p (dr_features d)) parts E) =
       en_templates E @ concat (map (\<lambda>(s, p, d). template_entries L s p (dr_features d)) parts)"
  by (induction parts arbitrary: E) (auto simp: component_entries_def)

lemma config_entries_simps:
  "en_tools (config_entries L parts) = concat (map (\<lambda>(s, p, d). tool_entries s p (dr_features d)) parts)"
  "en_prompts (config_entries L parts) = concat (map (\<lambda>(s, p, d). prompt_entries s p (dr_features d)) parts)"
  "en_resources (config_entries L parts) = concat (map (\<lambda>(s, p, d). resource_entries L s p (dr_features d)) parts)"
  "en_templates (config_entries L parts) = concat (map (\<lambda>(s, p, d). template_entries L s p (dr_features d)) parts)"
  by (simp_all add: config_entries_def no_entries_def config_entries_fold)

lemma map_of_keyed:
  assumes "distinct (map (\<lambda>e. f (fst e)) E)"
  shows "map_of (map (\<lambda>e. (f (fst e), snd e)) E) n = Some r \<longleftrightarrow> (\<exists>t. (t, r) \<in> set E \<and> f t = n)"
proof -
  have "distinct (map fst (map (\<lambda>e. (f (fst e), snd e)) E))"
    using assms by (simp add: comp_def)
  then show ?thesis
    by (subst map_of_eq_Some_iff) force+
qed

lemma map_of_keyed_pair:
  assumes "distinct (map (\<lambda>e. f (fst e)) E)"
  shows "map_of (map (\<lambda>(t, r). (f t, r)) E) n = Some r \<longleftrightarrow> (\<exists>t. (t, r) \<in> set E \<and> f t = n)"
proof -
  have eq: "map (\<lambda>(t, r). (f t, r)) E = map (\<lambda>e. (f (fst e), snd e)) E" by (simp add: case_prod_beta)
  show ?thesis unfolding eq by (rule map_of_keyed [OF assms])
qed

lemma sort_key_strict_fst:
  "distinct (map (\<lambda>e. f (fst e)) E) \<Longrightarrow> sorted_wrt (<) (map f (sort_key f (map fst E)))"
  using sort_key_strict [of f "map fst E"] by (simp add: comp_def)

text \<open>A sample: two components that both have a tool and a resource of the same name.\<close>

definition plain_server :: "string \<Rightarrow> server" where
  "plain_server n = \<lparr>srv_discovery_method = [], srv_discovery_revision = [], srv_name = n, srv_prefix = [],
     srv_url = ''http://h'', srv_headers = [], srv_passthrough_headers = [], srv_command = [], srv_args = [],
     srv_env = [], srv_working_directory = [], srv_timeout = 0, srv_tools = [], srv_disable_tools = False,
     srv_prompts = [], srv_resources = [], srv_resource_templates = []\<rparr>"

definition sample_tool :: "string \<Rightarrow> mcp_tool" where
  "sample_tool n = \<lparr>tool_name = n, tool_description = [], tool_input_schema = JNull,
     tool_output_schema = None, tool_rest = JNull\<rparr>"

definition sample_features :: features where
  "sample_features = no_features\<lparr>ft_tools := [Some (sample_tool ''run'')],
     ft_prompts := [Some \<lparr>prompt_name = ''ask'', prompt_description = [], prompt_rest = JNull\<rparr>],
     ft_resources := [Some \<lparr>resource_uri = ''file:///n'', resource_name = ''n'', resource_description = [],
        resource_rest = JNull\<rparr>]\<rparr>"

definition sample_config :: "bool \<Rightarrow> server list \<Rightarrow> config" where
  "sample_config search ss = \<lparr>cfg_request_scoped_discovery = False, cfg_name = ''gw'', cfg_version = [],
     cfg_tool_search = search, cfg_defer_authorization = False, cfg_listen = [], cfg_idle_timeout = 0,
     cfg_servers = ss\<rparr>"

definition sample_digests :: digests where
  "sample_digests = \<lparr>snapshot_digest = (\<lambda>_. Some ''id''), revision_digest = (\<lambda>_ _ _ _. ''rev'')\<rparr>"

definition sample_found :: "bool \<Rightarrow> discovery_result" where
  "sample_found pending = \<lparr>dr_features = (if pending then no_features else sample_features), dr_pending = pending\<rparr>"

definition sample_parts :: "bool \<Rightarrow> (server \<times> string \<times> discovery_result) list" where
  "sample_parts search = config_parts (sample_config search [plain_server ''a'', plain_server ''b''])
     [''a'', ''b''] [sample_found False, sample_found False]"

definition sample_compiled :: "bool \<Rightarrow> bool \<Rightarrow> (compile_error, string catalog) res" where
  "sample_compiled search pending = compile_discovered sample_uris sample_digests
     (sample_config search [plain_server ''a'', plain_server ''b'']) [''a'', ''b'']
     [sample_found False, sample_found pending]"

lemma sample_compiled_ok:
  "\<exists>c. sample_compiled search pending = Inr c"
  "pending_names (cfg_servers (sample_config search [plain_server ''a'', plain_server ''b'']))
     [sample_found False, sample_found pending] = (if pending then [''b''] else [])"
proof -
  have "\<not> isl (sample_compiled False False) \<and> \<not> isl (sample_compiled False True)
      \<and> \<not> isl (sample_compiled True False) \<and> \<not> isl (sample_compiled True True)"
    by code_simp
  then show "\<exists>c. sample_compiled search pending = Inr c"
    by (cases search; cases pending; auto simp: isl_def; metis obj_sumE)
  show "pending_names (cfg_servers (sample_config search [plain_server ''a'', plain_server ''b'']))
     [sample_found False, sample_found pending] = (if pending then [''b''] else [])"
    by (simp add: pending_names_def sample_config_def sample_found_def plain_server_def)
qed

text \<open>
  C1: A compiled catalog lists exactly the tools its components contribute, sorted by their exposed
  names, which are pairwise different; an exposed name is routed exactly to the tool it stands for.
\<close>

theorem compiled_tools:
  assumes "compile_discovered L H cfg pres ds = Inr c" and "pending_names (cfg_servers cfg) ds = []"
  shows "let E = concat (map (\<lambda>(s, p, d). tool_entries s p (dr_features d)) (config_parts cfg pres ds)) in
    cat_tools c = sort_key tool_name (map fst E)
    \<and> sorted_wrt (<) (map tool_name (cat_tools c))
    \<and> (cat_tool_routes c n = Some r \<longleftrightarrow> (\<exists>t. (t, r) \<in> set E \<and> tool_name t = n))"
proof -
  note f = compiled_fields [OF assms, unfolded config_parts_def [symmetric] config_entries_simps]
  show ?thesis
    unfolding Let_def f(1,6) map_of_keyed [OF f(12)]
    using sort_key_strict_fst [OF f(12)] by simp
qed

theorem compiled_tools_witness:
  "\<exists>c r. sample_compiled False False = Inr c \<and> map tool_name (cat_tools c) = [''a__run'', ''b__run'']
     \<and> cat_tool_routes c ''b__run'' = Some r \<and> srv_name (tr_component r) = ''b''
     \<and> tool_name (tr_tool r) = ''run''"
proof -
  obtain c where c: "sample_compiled False False = Inr c" using sample_compiled_ok by blast
  let ?E = "concat (map (\<lambda>(s, p, d). tool_entries s p (dr_features d)) (sample_parts False))"
  have t: "let E = ?E in cat_tools c = sort_key tool_name (map fst E)
      \<and> sorted_wrt (<) (map tool_name (cat_tools c))
      \<and> (cat_tool_routes c ''b__run'' = Some r \<longleftrightarrow> (\<exists>t. (t, r) \<in> set E \<and> tool_name t = ''b__run''))" for r
    unfolding sample_parts_def
    by (rule compiled_tools [OF c [unfolded sample_compiled_def]]) (simp add: sample_compiled_ok)
  have e: "map tool_name (sort_key tool_name (map fst ?E)) = [''a__run'', ''b__run'']
      \<and> length ?E = 2 \<and> tool_name (fst (?E ! 1)) = ''b__run'' \<and> srv_name (tr_component (snd (?E ! 1))) = ''b''
      \<and> tool_name (tr_tool (snd (?E ! 1))) = ''run''"
    by code_simp
  then have "(fst (?E ! 1), snd (?E ! 1)) \<in> set ?E"
    using nth_mem [of 1 ?E] by (simp del: set_concat)
  with e t [of "snd (?E ! 1)"] c show ?thesis by (auto simp: Let_def simp del: set_concat)
qed

lemma routed_tool:
  assumes "compile_discovered L H cfg pres ds = Inr c" and "pending_names (cfg_servers cfg) ds = []"
    and "cat_tool_routes c n = Some r"
  shows "\<exists>d. (tr_component r, tr_prefix r, d) \<in> set (config_parts cfg pres ds)
     \<and> Some (tr_tool r) \<in> set (ft_tools (dr_features d)) \<and> \<not> srv_disable_tools (tr_component r)
     \<and> tool_shown (tr_component r) (tr_tool r)
     \<and> tool_exposed_name (tr_component r) (tr_prefix r) (tr_tool r) = Inr n
     \<and> tr_protocol_version r = ft_protocol_version (dr_features d)"
proof -
  note f = compiled_fields [OF assms(1,2), unfolded config_parts_def [symmetric] config_entries_simps]
  from assms(3) obtain t where
    "(t, r) \<in> set (concat (map (\<lambda>(s, p, d). tool_entries s p (dr_features d)) (config_parts cfg pres ds)))"
    "tool_name t = n"
    unfolding f(6) map_of_keyed [OF f(12)] by blast
  then show ?thesis
    by (fastforce simp: tool_entries_def named_entries_mem split: if_splits)
qed

lemma listed_tool_routed:
  assumes "compile_discovered L H cfg pres ds = Inr c" and "pending_names (cfg_servers cfg) ds = []"
    and "t \<in> set (cat_tools c)"
  shows "cat_tool_routes c (tool_name t) \<noteq> None"
proof -
  note f = compiled_fields [OF assms(1,2), unfolded config_parts_def [symmetric] config_entries_simps]
  let ?E = "concat (map (\<lambda>(s, p, d). tool_entries s p (dr_features d)) (config_parts cfg pres ds))"
  from assms(3) obtain e where "e \<in> set ?E" "t = fst e" unfolding f(1) by (auto simp del: set_concat)
  then have "tool_name t \<in> fst ` set (map (\<lambda>e. (tool_name (fst e), snd e)) ?E)"
    by (force simp del: set_concat)
  then show ?thesis unfolding f(6) map_of_eq_None_iff by (simp only: not_not)
qed

text \<open>
  C2: Every tool a catalog routes was discovered in a configured component whose tools are not
  disabled, is allowed by the overrides of that component, and carries the name the overrides and the
  prefix of the component give it; nothing else can be called.
\<close>

theorem routed_tool_allowed:
  assumes "compile_discovered L H cfg pres ds = Inr c" and "pending_names (cfg_servers cfg) ds = []"
    and "cat_tool_routes c n = Some r"
  shows "\<exists>d. (tr_component r, tr_prefix r, d) \<in> set (config_parts cfg pres ds)
     \<and> Some (tr_tool r) \<in> set (ft_tools (dr_features d)) \<and> \<not> srv_disable_tools (tr_component r)
     \<and> tool_shown (tr_component r) (tr_tool r)
     \<and> tool_exposed_name (tr_component r) (tr_prefix r) (tr_tool r) = Inr n
     \<and> tr_protocol_version r = ft_protocol_version (dr_features d)"
  using assms by (rule routed_tool)

theorem routed_tool_allowed_witness:
  "\<exists>c r d. sample_compiled False False = Inr c \<and> cat_tool_routes c ''a__run'' = Some r
     \<and> (tr_component r, tr_prefix r, d) \<in> set (sample_parts False)
     \<and> Some (tr_tool r) \<in> set (ft_tools (dr_features d))
     \<and> tool_exposed_name (tr_component r) (tr_prefix r) (tr_tool r) = Inr ''a__run''"
proof -
  obtain c where c: "sample_compiled False False = Inr c" using sample_compiled_ok by blast
  have "cat_tool_routes (projr (sample_compiled False False)) ''a__run'' \<noteq> None" by code_simp
  with c obtain r where r: "cat_tool_routes c ''a__run'' = Some r" by auto
  from routed_tool_allowed [OF c [unfolded sample_compiled_def] _ r] c r
  show ?thesis by (auto simp: sample_compiled_ok sample_parts_def)
qed

section \<open>Prompts, resources and templates\<close>

text \<open>
  A compiled catalog lists exactly the prompts its components contribute, sorted under distinct
  names, and routes every name to the component and the original name of its prompt.
\<close>

theorem compiled_prompts:
  assumes "compile_discovered L H cfg pres ds = Inr c" and "pending_names (cfg_servers cfg) ds = []"
  shows "let E = concat (map (\<lambda>(s, p, d). prompt_entries s p (dr_features d)) (config_parts cfg pres ds)) in
    cat_prompts c = sort_key prompt_name (map fst E)
    \<and> sorted_wrt (<) (map prompt_name (cat_prompts c))
    \<and> (route_prompt c n = Some r \<longleftrightarrow> (\<exists>t. (t, r) \<in> set E \<and> prompt_name t = n))"
proof -
  note f = compiled_fields [OF assms, unfolded config_parts_def [symmetric] config_entries_simps]
  show ?thesis
    unfolding Let_def route_prompt_def f(3,7) map_of_keyed [OF f(13)]
    using sort_key_strict_fst [OF f(13)] by simp
qed

theorem compiled_prompts_witness:
  "\<exists>c. sample_compiled False False = Inr c \<and> sorted_wrt (<) (map prompt_name (cat_prompts c))
     \<and> map prompt_name (cat_prompts c) = [''a__ask'', ''b__ask'']"
proof -
  obtain c where c: "sample_compiled False False = Inr c" using sample_compiled_ok by blast
  let ?E = "concat (map (\<lambda>(s, p, d). prompt_entries s p (dr_features d)) (sample_parts False))"
  have "let E = ?E in cat_prompts c = sort_key prompt_name (map fst E)
      \<and> sorted_wrt (<) (map prompt_name (cat_prompts c))
      \<and> (route_prompt c ''a__ask'' = Some r \<longleftrightarrow> (\<exists>t. (t, r) \<in> set E \<and> prompt_name t = ''a__ask''))" for r
    unfolding sample_parts_def
    by (rule compiled_prompts [OF c [unfolded sample_compiled_def]]) (simp add: sample_compiled_ok)
  moreover have "map prompt_name (sort_key prompt_name (map fst ?E)) = [''a__ask'', ''b__ask'']"
    by code_simp
  ultimately show ?thesis using c by (simp add: Let_def)
qed

text \<open>
  C4: The resources and the templates of a compiled catalog are exactly those its components
  contribute, sorted under distinct URIs; a listed URI is routed to the component that owns the
  resource and to its original URI, before any template is tried.
\<close>

theorem compiled_resources:
  assumes "compile_discovered L H cfg pres ds = Inr c" and "pending_names (cfg_servers cfg) ds = []"
  shows "let E = concat (map (\<lambda>(s, p, d). resource_entries L s p (dr_features d)) (config_parts cfg pres ds));
             T = concat (map (\<lambda>(s, p, d). template_entries L s p (dr_features d)) (config_parts cfg pres ds)) in
    cat_resources c = sort_key resource_uri (map fst E) \<and> sorted_wrt (<) (map resource_uri (cat_resources c))
    \<and> cat_templates c = sort_key template_uri (map fst T) \<and> sorted_wrt (<) (map template_uri (cat_templates c))
    \<and> route_resource L c u = (case map_of (map (\<lambda>(t, r). (resource_uri t, r)) E) u of
         Some r \<Rightarrow> Some r | None \<Rightarrow> route_templates L (map snd T) u)
    \<and> list_all (\<lambda>(t, r). route_resource L c (resource_uri t) = Some r \<and> rr_composite_uri r = resource_uri t) E"
proof -
  note f = compiled_fields [OF assms, unfolded config_parts_def [symmetric] config_entries_simps]
  let ?E = "concat (map (\<lambda>(s, p, d). resource_entries L s p (dr_features d)) (config_parts cfg pres ds))"
  have r: "map_of (map (\<lambda>(t, r). (resource_uri t, r)) ?E) v = Some r \<longleftrightarrow> (\<exists>t. (t, r) \<in> set ?E \<and> resource_uri t = v)"
    for v r by (rule map_of_keyed_pair [OF f(14)])
  have c: "cat_resource_routes c = map (\<lambda>(t, r). (resource_uri t, r)) ?E"
    unfolding f(8) by (simp add: case_prod_beta)
  have own: "rr_composite_uri (snd e) = resource_uri (fst e)" if "e \<in> set ?E" for e
    using that by (auto simp: resource_entries_def named_entries_mem)
  have "list_all (\<lambda>(t, r). route_resource L c (resource_uri t) = Some r \<and> rr_composite_uri r = resource_uri t) ?E"
    unfolding list_all_iff
  proof (intro ballI)
    fix e assume e: "e \<in> set ?E"
    have "map_of (cat_resource_routes c) (resource_uri (fst e)) = Some (snd e)"
      unfolding c r using e by (intro exI [of _ "fst e"]) simp
    with own [OF e] show "case e of (t, r) \<Rightarrow> route_resource L c (resource_uri t) = Some r \<and> rr_composite_uri r = resource_uri t"
      by (simp add: route_resource_def case_prod_beta)
  qed
  moreover have "route_resource L c u = (case map_of (map (\<lambda>(t, r). (resource_uri t, r)) ?E) u of
         Some r \<Rightarrow> Some r | None \<Rightarrow> route_templates L (map snd (concat
           (map (\<lambda>(s, p, d). template_entries L s p (dr_features d)) (config_parts cfg pres ds)))) u)"
    by (simp only: route_resource_def c f(9))
  ultimately show ?thesis
    using sort_key_strict_fst [OF f(14)] sort_key_strict_fst [OF f(15)]
    unfolding Let_def f(4,5) by simp
qed

theorem compiled_resources_witness:
  "\<exists>c r. sample_compiled False False = Inr c
     \<and> route_resource sample_uris c ''mmmcp+b:file:///n'' = Some r \<and> rr_original_uri r = ''file:///n''
     \<and> srv_name (rr_component r) = ''b''"
proof -
  obtain c where c: "sample_compiled False False = Inr c" using sample_compiled_ok by blast
  let ?E = "concat (map (\<lambda>(s, p, d). resource_entries sample_uris s p (dr_features d)) (sample_parts False))"
  let ?T = "concat (map (\<lambda>(s, p, d). template_entries sample_uris s p (dr_features d)) (sample_parts False))"
  have "let E = ?E; T = ?T in
    cat_resources c = sort_key resource_uri (map fst E) \<and> sorted_wrt (<) (map resource_uri (cat_resources c))
    \<and> cat_templates c = sort_key template_uri (map fst T) \<and> sorted_wrt (<) (map template_uri (cat_templates c))
    \<and> route_resource sample_uris c ''mmmcp+b:file:///n'' =
        (case map_of (map (\<lambda>(t, r). (resource_uri t, r)) E) ''mmmcp+b:file:///n'' of
         Some r \<Rightarrow> Some r | None \<Rightarrow> route_templates sample_uris (map snd T) ''mmmcp+b:file:///n'')
    \<and> list_all (\<lambda>(t, r). route_resource sample_uris c (resource_uri t) = Some r
         \<and> rr_composite_uri r = resource_uri t) E"
    unfolding sample_parts_def
    by (rule compiled_resources [OF c [unfolded sample_compiled_def]]) (simp add: sample_compiled_ok)
  moreover have "case map_of (map (\<lambda>(t, r). (resource_uri t, r)) ?E) ''mmmcp+b:file:///n'' of
      None \<Rightarrow> False | Some r \<Rightarrow> rr_original_uri r = ''file:///n'' \<and> srv_name (rr_component r) = ''b''"
    by code_simp
  ultimately show ?thesis using c unfolding Let_def by (auto split: option.splits)
qed

section \<open>Waiting for authorization\<close>

lemma pending_catalog:
  assumes "compile_discovered L H cfg pres ds = Inr c" and "pending_names (cfg_servers cfg) ds \<noteq> []"
  shows "cat_pending c = pending_names (cfg_servers cfg) ds
     \<and> cat_tools c = [authorization_tool] \<and> cat_visible_tools c = [authorization_tool]
     \<and> cat_prompts c = [] \<and> cat_resources c = [] \<and> cat_templates c = [] \<and> \<not> cat_tool_search c
     \<and> route_tool c n = None \<and> route_prompt c n = None \<and> route_resource L c n = None
     \<and> route_reference H c ref = None"
proof (rule compile_discovered_cases [OF assms(1)])
  fix i
  assume n: "new_catalog H (setup_catalog (pending_names (cfg_servers cfg) ds) i) = Some c"
  note f = new_catalog_fields [OF n, unfolded setup_catalog_def new_compile_catalog_def, simplified]
  have "cat_search_index c = None" using f by simp
  then show ?thesis
    using f
    by (simp add: route_tool_def route_prompt_def route_resource_def route_reference_def setup_catalog_def
        new_compile_catalog_def split: option.splits)
qed (use assms(2) in simp)

text \<open>
  While any component waits for authorization the catalog shows the authorization tool and
  nothing else, routes nothing, and names the components that wait.
\<close>

theorem pending_catalog_hides_everything:
  assumes "compile_discovered L H cfg pres ds = Inr c" and "pending_names (cfg_servers cfg) ds \<noteq> []"
  shows "cat_pending c = pending_names (cfg_servers cfg) ds
     \<and> cat_tools c = [authorization_tool] \<and> cat_visible_tools c = [authorization_tool]
     \<and> cat_prompts c = [] \<and> cat_resources c = [] \<and> cat_templates c = [] \<and> \<not> cat_tool_search c
     \<and> route_tool c n = None \<and> route_prompt c n = None \<and> route_resource L c n = None
     \<and> route_reference H c ref = None"
  using assms by (rule pending_catalog)

theorem pending_catalog_hides_everything_witness:
  "\<exists>c. sample_compiled True True = Inr c \<and> cat_pending c = [''b''] \<and> cat_visible_tools c = [authorization_tool]
     \<and> route_tool c ''a__run'' = None"
proof -
  obtain c where c: "sample_compiled True True = Inr c" using sample_compiled_ok by blast
  from pending_catalog_hides_everything [OF c [unfolded sample_compiled_def]] c
  show ?thesis by (simp add: sample_compiled_ok)
qed

section \<open>The search index\<close>

lemma those_Some_iff: "those xs = Some ys \<longleftrightarrow> xs = map Some ys"
  by (induction xs arbitrary: ys) (auto split: option.splits simp: Cons_eq_map_conv)

lemma search_documents_iff:
  "search_documents H c = Some docs \<longleftrightarrow> map (search_document H c) (cat_tools c) = map Some docs"
  by (simp add: search_documents_def those_Some_iff)

lemma search_documents_total:
  assumes "\<forall>t \<in> set (cat_tools c). cat_tool_routes c (tool_name t) \<noteq> None"
  shows "\<exists>docs. search_documents H c = Some docs"
proof -
  have "\<forall>t \<in> set (cat_tools c). \<exists>d. search_document H c t = Some d"
    using assms by (auto simp: search_document_def split: option.splits)
  then have "map (search_document H c) (cat_tools c) = map Some (map (\<lambda>t. the (search_document H c t)) (cat_tools c))"
    by auto
  then show ?thesis unfolding search_documents_iff by blast
qed

lemma search_document_name: "search_document H c t = Some d \<Longrightarrow> doc_exposed_name d = tool_name t"
  by (auto simp: search_document_def split: option.splits)

lemma search_documents_names:
  assumes "search_documents H c = Some docs"
  shows "map doc_exposed_name docs = map tool_name (cat_tools c)"
proof -
  have "map (search_document H c) ts = map Some ds \<Longrightarrow> map doc_exposed_name ds = map tool_name ts" for ts ds
    by (induction ts arbitrary: ds) (auto simp: Cons_eq_map_conv dest: search_document_name)
  with assms show ?thesis by (simp add: search_documents_iff)
qed

text \<open>
  With tool search every tool of the catalog can be called through the index: its reference leads
  to its route and to the revision computed from exactly the tool the catalog lists.
\<close>

theorem indexed_tools_callable:
  assumes "compile_discovered L H cfg pres ds = Inr c" and "pending_names (cfg_servers cfg) ds = []"
    and "cfg_tool_search cfg" and "t \<in> set (cat_tools c)"
  shows "\<exists>r. cat_tool_routes c (tool_name t) = Some r \<and> route_tool c (tool_name t) = None
     \<and> route_reference H c \<lparr>ref_name = tool_name t\<rparr> = Some (r,
         revision_digest H \<lparr>ref_name = tool_name t\<rparr> (srv_name (tr_component r)) (tool_name (tr_tool r)) t)"
proof (rule compile_discovered_cases [OF assms(1)])
  fix raw w c0
  assume b: "built (config_entries L (zip (cfg_servers cfg) (zip pres ds))) (raw, w)"
    and n: "new_catalog H raw = Some c0"
    and "if cfg_tool_search cfg then \<exists>docs. search_documents H c0 = Some docs
          \<and> c = c0\<lparr>cat_search_index := Some (new_index docs)\<rparr> else c = c0"
  then obtain docs where d: "search_documents H c0 = Some docs"
    and c: "c = c0\<lparr>cat_search_index := Some (new_index docs)\<rparr>"
    using assms(3) by auto
  note f = compiled_fields [OF assms(1,2)]
  have dist: "distinct (map tool_name (cat_tools c))"
    using sort_key_strict_fst [OF f(12)] f(1) by (simp add: strict_sorted_iff)
  have "search_document H c0 t \<in> set (map (search_document H c0) (cat_tools c0))"
    using assms(4) c by simp
  also have "\<dots> = Some ` set docs"
    using d by (simp add: search_documents_iff del: set_map list.set_map) simp
  finally obtain doc where doc: "search_document H c0 t = Some doc" "doc \<in> set docs" by auto
  then obtain r where r: "cat_tool_routes c0 (tool_name t) = Some r"
    and eq: "doc = \<lparr>doc_exposed_name = tool_name t, doc_component = srv_name (tr_component r),
       doc_reference = \<lparr>ref_name = tool_name t\<rparr>, doc_revision = revision_digest H \<lparr>ref_name = tool_name t\<rparr>
         (srv_name (tr_component r)) (tool_name (tr_tool r)) t, doc_tool = t\<rparr>"
    by (auto simp: search_document_def split: option.splits)
  have "map_of (new_index docs) (tool_name t) = Some doc"
    using dist doc(2) search_documents_names [OF d] c eq by (subst new_index_lookup) simp_all
  then have "route_reference H c \<lparr>ref_name = tool_name t\<rparr> = Some (r, doc_revision doc)"
    using r eq by (simp add: route_reference_def index_revision_def c)
  with r eq show ?thesis
    using f(10) assms(3) by (auto simp: c route_tool_def)
qed (use assms(2) in simp)

theorem indexed_tools_callable_witness:
  "\<exists>c t r. sample_compiled True False = Inr c \<and> t \<in> set (cat_tools c)
     \<and> route_tool c (tool_name t) = None
     \<and> route_reference sample_digests c \<lparr>ref_name = tool_name t\<rparr> = Some (r, ''rev'')"
proof -
  obtain c where c: "sample_compiled True False = Inr c" using sample_compiled_ok by blast
  have "cat_tools (projr (sample_compiled True False)) \<noteq> []" by code_simp
  with c obtain t where t: "t \<in> set (cat_tools c)" by (cases "cat_tools c") auto
  have "revision_digest sample_digests = (\<lambda>_ _ _ _. ''rev'')" by (simp add: sample_digests_def)
  moreover have "cfg_tool_search (sample_config True [plain_server ''a'', plain_server ''b''])"
    by (simp add: sample_config_def)
  ultimately obtain r where "route_tool c (tool_name t) = None"
      "route_reference sample_digests c \<lparr>ref_name = tool_name t\<rparr> = Some (r, ''rev'')"
    using indexed_tools_callable [OF c [unfolded sample_compiled_def] _ _ t]
    by (auto simp: sample_compiled_ok)
  with c t show ?thesis by blast
qed

lemma loop_res_Inl: "loop_res f xs s = Inl e \<Longrightarrow> \<exists>x \<in> set xs. \<exists>t. f x t = Inl e"
  by (induction xs arbitrary: s) (auto simp: rbind_Inl_iff)

lemma keyed_overrides_Inl:
  "keyed_overrides cn fam key vs = Inl e \<Longrightarrow> \<exists>k. e = Duplicate_override cn fam k"
  by (auto simp: keyed_overrides_def dest!: loop_res_Inl split: if_splits)

lemma compile_tool_Inl: "compile_tool s p ov pv it st \<noteq> Inl Nil_route_panic"
  by (auto simp: compile_tool_def Let_def split: option.splits sum.splits if_splits prod.splits)

lemma compile_prompt_Inl: "compile_prompt s p ov it st \<noteq> Inl Nil_route_panic"
  by (auto simp: compile_prompt_def Let_def split: option.splits sum.splits if_splits prod.splits)

lemma compile_resource_Inl: "compile_resource L s p ov it st \<noteq> Inl Nil_route_panic"
  by (auto simp: compile_resource_def Let_def split: option.splits sum.splits if_splits prod.splits)

lemma compile_template_Inl: "compile_template L s p ov it st \<noteq> Inl Nil_route_panic"
  by (auto simp: compile_template_def Let_def split: option.splits sum.splits if_splits prod.splits)

lemma compile_component_Inl: "compile_component L s p f st \<noteq> Inl Nil_route_panic"
  by (auto simp: compile_component_def compile_tools_def compile_prompts_def compile_resources_def
      compile_templates_def rbind_Inl_iff compile_tool_Inl compile_prompt_Inl compile_resource_Inl
      compile_template_Inl dest!: keyed_overrides_Inl loop_res_Inl split: if_splits)

text \<open>
  Indexing never meets a tool without a route: the nil dereference that \<open>searchDocuments\<close> would
  then run into cannot happen, whatever the components report.
\<close>

theorem indexing_never_panics: "compile_discovered L H cfg pres ds \<noteq> Inl Nil_route_panic"
proof
  assume panic: "compile_discovered L H cfg pres ds = Inl Nil_route_panic"
  let ?parts = "zip (cfg_servers cfg) (zip pres ds)"
  define info where "info = (if length ds = 1
      then map_option (\<lambda>i. \<lparr>impl_name = impl_name i, impl_version = impl_version i\<rparr>)
             (ft_server_info (dr_features (ds ! 0))) else None)"
  have no: "loop_res (\<lambda>(s, p, d). compile_component L s p (dr_features d)) ?parts st \<noteq> Inl Nil_route_panic" for st
    using loop_res_Inl compile_component_Inl by (fastforce split: prod.splits)
  from panic obtain raw w c where
    loop: "loop_res (\<lambda>(s, p, d). compile_component L s p (dr_features d)) ?parts
      ((new_compile_catalog (cfg_tool_search cfg))\<lparr>cat_server_info := info\<rparr>, Map.empty) = Inr (raw, w)"
    and n: "new_catalog H raw = Some c" and d: "search_documents H c = None"
    unfolding compile_discovered_def info_def [symmetric] Let_def rbind_Inl_iff
    by (auto simp: no split: if_splits option.splits)
  have "built (config_entries L ?parts) (raw, w)"
    using compile_components_built [OF loop, of no_entries] by (simp add: config_entries_def built_empty)
  then have "\<forall>t \<in> set (cat_tools c). cat_tool_routes c (tool_name t) \<noteq> None"
    using new_catalog_fields [OF n]
    by (auto simp: built_def tools_built_def map_of_eq_None_iff image_image)
  from search_documents_total [OF this, of H] d show False by simp
qed

section \<open>Validation of one component\<close>

text \<open>What a family loop looks at, and what it leaves alone.\<close>

lemma other_routes_kept:
  "compile_tools c s p items pv = Inr c' \<Longrightarrow> cat_prompt_routes c' = cat_prompt_routes c
     \<and> cat_resource_routes c' = cat_resource_routes c"
  "compile_prompts c s p pitems = Inr c' \<Longrightarrow> cat_resource_routes c' = cat_resource_routes c"
  by (auto simp: compile_tools_iff compile_prompts_iff add_tool_def add_prompt_def
      add_all_keeps [where h = cat_prompt_routes] add_all_keeps [where h = cat_resource_routes] split: if_splits)

lemma names_fit_fewer:
  "names_fit taken name xs c \<Longrightarrow> \<forall>n. taken d n \<longrightarrow> taken c n \<Longrightarrow> names_fit taken name xs d"
  by (auto simp: names_fit_def)

lemma compile_tools_fewer:
  fixes c d :: "'t catalog"
  assumes "compile_tools c s p items pv = Inr c'"
    and "\<forall>n. cat_tool_routes d n \<noteq> None \<longrightarrow> cat_tool_routes c n \<noteq> None"
  shows "\<exists>d'. compile_tools d s p items pv = Inr d'"
  using assms unfolding compile_tools_iff
  by (auto simp del: not_None_eq intro: names_fit_fewer split: if_splits)

lemma compile_prompts_fewer:
  fixes c d :: "'t catalog"
  assumes "compile_prompts c s p items = Inr c'"
    and "\<forall>n. cat_prompt_routes d n \<noteq> None \<longrightarrow> cat_prompt_routes c n \<noteq> None"
  shows "\<exists>d'. compile_prompts d s p items = Inr d'"
  using assms unfolding compile_prompts_iff
  by (auto simp del: not_None_eq intro: names_fit_fewer split: if_splits)

lemma compile_resources_fewer:
  fixes c d :: "'t catalog"
  assumes "compile_resources L c s p items = Inr c'"
    and "\<forall>n. map_of (cat_resource_routes d) n \<noteq> None \<longrightarrow> map_of (cat_resource_routes c) n \<noteq> None"
  shows "\<exists>d'. compile_resources L d s p items = Inr d'"
  using assms unfolding compile_resources_iff
  by (auto simp del: not_None_eq intro: names_fit_fewer split: if_splits)

lemma compile_templates_fewer:
  fixes st d :: "'t catalog \<times> (string \<Rightarrow> string option)"
  assumes "compile_templates L st s p items = Inr st'"
    and "\<forall>n. snd d n \<noteq> None \<longrightarrow> snd st n \<noteq> None"
  shows "\<exists>d'. compile_templates L d s p items = Inr d'"
  using assms unfolding compile_templates_iff
  by (auto simp del: not_None_eq split_paired_Ex intro: names_fit_fewer)

text \<open>
  A component that compiles into any catalog, whatever is in it already, also validates on its
  own: the validation of a refreshed component never rejects one the whole configuration would accept.
\<close>

theorem compiled_component_validates:
  fixes L :: "('t, 'v) uri_lib"
  assumes "compile_component L s p f st = Inr st'"
  shows "validate_component L s p f = Inr ()"
proof -
  from assms obtain c1 c2 c3 where
    1: "compile_tools (fst st) s p (ft_tools f) (ft_protocol_version f) = Inr c1"
    and 2: "compile_prompts c1 s p (ft_prompts f) = Inr c2"
    and 3: "compile_resources L c2 s p (resource_inventory s f) = Inr c3"
    and 4: "compile_templates L (c3, snd st) s p (template_inventory s f) = Inr st'"
    by (auto simp: compile_component_def rbind_Inr_iff)
  let ?d = "new_compile_catalog False :: 't catalog"
  have "\<exists>d1. compile_tools ?d s p (ft_tools f) (ft_protocol_version f) = Inr d1"
    by (rule compile_tools_fewer [OF 1]) (simp_all add: new_compile_catalog_def)
  then obtain d1 where d1: "compile_tools ?d s p (ft_tools f) (ft_protocol_version f) = Inr d1" ..
  have "\<exists>d2. compile_prompts d1 s p (ft_prompts f) = Inr d2"
    by (rule compile_prompts_fewer [OF 2])
      (use other_routes_kept(1) [OF d1] in \<open>simp_all add: new_compile_catalog_def\<close>)
  then obtain d2 where d2: "compile_prompts d1 s p (ft_prompts f) = Inr d2" ..
  have "\<exists>d3. compile_resources L d2 s p (resource_inventory s f) = Inr d3"
    by (rule compile_resources_fewer [OF 3])
      (use other_routes_kept(1) [OF d1] other_routes_kept(2) [OF d2] in \<open>simp_all add: new_compile_catalog_def\<close>)
  then obtain d3 where d3: "compile_resources L d2 s p (resource_inventory s f) = Inr d3" ..
  have "\<exists>d4. compile_templates L (d3, Map.empty) s p (template_inventory s f) = Inr d4"
    by (rule compile_templates_fewer [OF 4]) simp_all
  then obtain d4 where d4: "compile_templates L (d3, Map.empty) s p (template_inventory s f) = Inr d4" ..
  show ?thesis
    by (simp add: validate_component_def compile_component_def d1 d2 d3 d4)
qed

theorem compiled_component_validates_witness:
  "validate_component sample_uris (plain_server ''a'') ''a'' sample_features = Inr ()"
proof -
  have "\<not> isl (compile_component sample_uris (plain_server ''a'') ''a'' sample_features
      (new_compile_catalog False, Map.empty))"
    by code_simp
  then obtain st' where "compile_component sample_uris (plain_server ''a'') ''a'' sample_features
      (new_compile_catalog False, Map.empty) = Inr st'"
    by (metis obj_sumE isl_def)
  then show ?thesis by (rule compiled_component_validates)
qed

section \<open>One component\<close>

text \<open>
  A composite of one component without a prefix and without overrides is transparent: it exposes
  the tools of that component as they are, under their own names, and routes them to it.
\<close>

theorem single_component_transparent:
  assumes "compile L H discover cfg defer = Inr c"
    and "cfg_servers cfg = [s]" and "srv_prefix s = []" and "srv_tools s = []" and "\<not> srv_disable_tools s"
    and "discover [s] [[]] defer = Inr [d]" and "\<not> dr_pending d"
  shows "cat_tools c = sort_key tool_name (somes (ft_tools (dr_features d)))
     \<and> (cat_tool_routes c n = Some r \<longleftrightarrow>
          (\<exists>t. Some t \<in> set (ft_tools (dr_features d)) \<and> tool_name t = n
             \<and> r = tool_route_of s [] (ft_protocol_version (dr_features d)) t))"
proof -
  have p: "component_prefixes [s] = Inr [[]]"
    using assms(3) by (simp add: component_prefixes_def)
  have c: "compile_discovered L H cfg [[]] [d] = Inr c"
    using assms(1,2,6) by (simp add: compile_def p)
  have pend: "pending_names (cfg_servers cfg) [d] = []"
    using assms(2,7) by (simp add: pending_names_def)
  note f = compiled_fields [OF c pend, unfolded config_entries_simps assms(2)]
  have named: "tool_exposed_name s [] t = Inr n \<Longrightarrow> n = tool_name t" for t n
    using assms(4) by (auto simp: tool_exposed_name_def tool_override_of_def override_map_def tool_name_of_def
        named_feature_Inr name_marker_def)
  have clone: "tool_clone s t (tool_name t) = t" for t
    using assms(4) by (simp add: tool_clone_def tool_override_of_def override_map_def)
  obtain w raw where b: "compile_component L s [] (dr_features d) (raw, Map.empty) = Inr w"
    "cat_tool_routes raw = Map.empty"
    using c assms(2) unfolding compile_discovered_def Let_def rbind_Inr_iff
    by (auto simp: rbind_Inr_iff new_compile_catalog_def)
  then obtain xs where xs: "ft_tools (dr_features d) = map Some xs"
    and fit: "names_fit (\<lambda>c n. cat_tool_routes c n \<noteq> None) (tool_exposed_name s []) xs raw"
    using assms(4,5) by (auto simp: compile_component_def rbind_Inr_iff compile_tools_iff tool_shown_def)
  have all: "\<forall>t \<in> set xs. tool_exposed_name s [] t = Inr (tool_name t)"
    using fit named unfolding names_fit_def by blast
  have shown: "filter (tool_shown s) xs = xs"
    using assms(4) by (simp add: tool_shown_def)
  have entries: "tool_entries s [] (dr_features d) =
      map (\<lambda>t. (t, tool_route_of s [] (ft_protocol_version (dr_features d)) t)) xs"
    using all unfolding tool_entries_def xs somes_map_Some shown
    by (induction xs) (auto simp: assms(5) named_entries_def clone)
  have "cat_tools c = sort_key tool_name xs"
    using f(1) by (simp add: entries comp_def)
  moreover have "cat_tool_routes c n = Some r \<longleftrightarrow> (\<exists>t. t \<in> set xs \<and> tool_name t = n
             \<and> r = tool_route_of s [] (ft_protocol_version (dr_features d)) t)"
    unfolding f(6) map_of_keyed [OF f(12)] by (auto simp: entries)
  ultimately show ?thesis by (auto simp: xs)
qed

theorem single_component_transparent_witness:
  "\<exists>c. compile sample_uris sample_digests (\<lambda>_ _ _. Inr [sample_found False])
       (sample_config False [plain_server ''a'']) False = Inr c
     \<and> cat_tools c = [sample_tool ''run'']"
proof -
  let ?r = "compile sample_uris sample_digests (\<lambda>_ _ _. Inr [sample_found False])
       (sample_config False [plain_server ''a'']) False"
  have "\<not> isl ?r" by code_simp
  then obtain c where c: "?r = Inr c" by (metis obj_sumE isl_def)
  have "cat_tools c = sort_key tool_name (somes (ft_tools (dr_features (sample_found False))))
     \<and> (cat_tool_routes c ''run'' = Some r \<longleftrightarrow>
          (\<exists>t. Some t \<in> set (ft_tools (dr_features (sample_found False))) \<and> tool_name t = ''run''
             \<and> r = tool_route_of (plain_server ''a'') [] (ft_protocol_version (dr_features (sample_found False))) t))" for r
    by (rule single_component_transparent [OF c])
      (simp_all add: sample_config_def plain_server_def sample_found_def)
  with c show ?thesis
    by (auto simp: sample_found_def sample_features_def no_features_def somes_def)
qed

end
