(* ===== verification/Rewrite.thy ===== *)
theory Rewrite
  imports Compiled
begin

text \<open>
  \<open>catalog/rewrite.go\<close>: the results of a component are cloned and the resource URIs in them are mapped
  to the URIs the composite exposes. The map of the resource routes is ranged over in the order of its
  association list, which Go leaves open.
\<close>

section \<open>Results\<close>

record prompt_message =
  pm_content :: "content option"
  pm_rest :: json

record prompt_result =
  pgr_messages :: "prompt_message option list"
  pgr_rest :: json

record resource_contents =
  rc_uri :: string
  rc_rest :: json

record read_result =
  rdr_contents :: "resource_contents option list"
  rdr_rest :: json

section \<open>Rewriting\<close>

primrec composite_of_templates ::
    "('t, 'v) uri_lib \<Rightarrow> string \<Rightarrow> 't template_route list \<Rightarrow> string \<Rightarrow> string option" where
  "composite_of_templates L pre [] original = None"
| "composite_of_templates L pre (r # rs) original =
     (if xr_prefix r = pre
      then (case to_composite L r original of
              Some u \<Rightarrow> Some u
            | None \<Rightarrow> composite_of_templates L pre rs original)
      else composite_of_templates L pre rs original)"

definition to_composite_uri :: "('t, 'v) uri_lib \<Rightarrow> 't catalog \<Rightarrow> string \<Rightarrow> string \<Rightarrow> string" where
  "to_composite_uri L c pre original =
     (case find (\<lambda>(u, r). rr_prefix r = pre \<and> rr_original_uri r = original) (cat_resource_routes c) of
        Some (u, r) \<Rightarrow> u
      | None \<Rightarrow>
        (case composite_of_templates L pre (cat_template_routes c) original of
           Some u \<Rightarrow> u
         | None \<Rightarrow> if pre = [] then original else ''mmmcp+'' @ pre @ '':'' @ original))"

primrec rewrite_one_content :: "(string \<Rightarrow> string) \<Rightarrow> content \<Rightarrow> content" where
  "rewrite_one_content f (Resource_link r) = Resource_link (map_option (map_prod f id) r)"
| "rewrite_one_content f (Embedded_resource r) =
     Embedded_resource (map_option (map_prod (map_option (map_prod f id)) id) r)"
| "rewrite_one_content f (Tool_result_content r) =
     Tool_result_content (map_option (map_prod (map_option (map (rewrite_one_content f))) id) r)"
| "rewrite_one_content f (Text_content t) = Text_content t"
| "rewrite_one_content f (Other_content j) = Other_content j"

definition rewrite_content :: "(string \<Rightarrow> string) \<Rightarrow> content list option \<Rightarrow> content list option" where
  "rewrite_content f values = map_option (map (rewrite_one_content f)) values"

definition rewrite_call_tool_result ::
    "('t, 'v) uri_lib \<Rightarrow> 't catalog \<Rightarrow> string \<Rightarrow> call_result option \<Rightarrow> call_result option" where
  "rewrite_call_tool_result L c pre result =
     map_option (\<lambda>r. r\<lparr>cr_content := rewrite_content (to_composite_uri L c pre) (cr_content r)\<rparr>) result"

definition rewrite_get_prompt_result ::
    "('t, 'v) uri_lib \<Rightarrow> 't catalog \<Rightarrow> string \<Rightarrow> prompt_result option \<Rightarrow> prompt_result option" where
  "rewrite_get_prompt_result L c pre result =
     map_option (\<lambda>r. r\<lparr>pgr_messages := map (map_option (\<lambda>m. m\<lparr>pm_content :=
         map_option (rewrite_one_content (to_composite_uri L c pre)) (pm_content m)\<rparr>)) (pgr_messages r)\<rparr>) result"

definition rewrite_read_resource_result ::
    "('t, 'v) uri_lib \<Rightarrow> 't catalog \<Rightarrow> string \<Rightarrow> read_result option \<Rightarrow> read_result option" where
  "rewrite_read_resource_result L c pre result =
     map_option (\<lambda>r. r\<lparr>rdr_contents := map (map_option (\<lambda>x. x\<lparr>rc_uri :=
         to_composite_uri L c pre (rc_uri x)\<rparr>)) (rdr_contents r)\<rparr>) result"

section \<open>The URIs in a result\<close>

text \<open>The specification of the rewriting: the list of all URIs in a content, in order.\<close>

primrec content_uris :: "content \<Rightarrow> string list" where
  "content_uris (Resource_link r) = (case r of None \<Rightarrow> [] | Some (u, _) \<Rightarrow> [u])"
| "content_uris (Embedded_resource r) = (case r of Some (Some (u, _), _) \<Rightarrow> [u] | _ \<Rightarrow> [])"
| "content_uris (Tool_result_content r) =
     concat (case map_option (map_prod (map_option (map content_uris)) id) r of
       Some (Some uss, _) \<Rightarrow> uss | _ \<Rightarrow> [])"
| "content_uris (Text_content t) = []"
| "content_uris (Other_content j) = []"

lemma rewrite_one_uris: "content_uris (rewrite_one_content f x) = map f (content_uris x)"
proof (induction x)
  case (Tool_result_content r)
  then show ?case
    by (cases r) (auto simp: map_concat map_prod_def split: option.splits prod.splits intro!: arg_cong [of _ _ concat])
qed (auto split: option.splits)

lemma option_pair_cases:
  obtains "r = None" | j where "r = Some (None, j)" | xs j where "r = Some (Some xs, j)"
  by (metis option.exhaust surj_pair)

lemma rewrite_one_comp: "rewrite_one_content f (rewrite_one_content g x) = rewrite_one_content (f \<circ> g) x"
proof (induction x)
  case (Resource_link r)
  then show ?case by (cases r) auto
next
  case (Embedded_resource r)
  then show ?case by (cases r rule: option_pair_cases) auto
next
  case (Tool_result_content r)
  then show ?case by (cases r rule: option_pair_cases) auto
qed simp_all

lemma rewrite_one_id: "(\<And>u. u \<in> set (content_uris x) \<Longrightarrow> f u = u) \<Longrightarrow> rewrite_one_content f x = x"
proof (induction x)
  case (Resource_link r)
  then show ?case by (cases r) auto
next
  case (Embedded_resource r)
  then show ?case by (cases r rule: option_pair_cases) auto
next
  case (Tool_result_content r)
  show ?case
  proof (cases r rule: option_pair_cases)
    case (3 xs j)
    have "rewrite_one_content f x = x" if "x \<in> set xs" for x
      using Tool_result_content.IH [of "(Some xs, j)" "Some xs" xs x] Tool_result_content.prems that 3 by auto
    then show ?thesis by (simp add: 3 map_idI)
  qed auto
qed simp_all

section \<open>Rewriting is well-defined\<close>

lemma find_unique:
  assumes "\<And>x y. x \<in> set xs \<Longrightarrow> y \<in> set xs \<Longrightarrow> P x \<Longrightarrow> P y \<Longrightarrow> x = y" and "x \<in> set xs" and "P x"
  shows "find P xs = Some x"
proof -
  have "find P xs \<noteq> None" using assms(2,3) by (auto simp: find_None_iff)
  then obtain y where y: "find P xs = Some y" by auto
  from find_Some_mem [OF this] assms have "y = x" by blast
  with y show ?thesis by simp
qed

lemma find_permuted:
  assumes "set xs = set ys" and "\<And>x y. x \<in> set xs \<Longrightarrow> y \<in> set xs \<Longrightarrow> P x \<Longrightarrow> P y \<Longrightarrow> x = y"
  shows "find P xs = find P ys"
proof (cases "\<exists>x \<in> set xs. P x")
  case True
  then obtain x where x: "x \<in> set xs" "P x" by blast
  have "find P xs = Some x" by (rule find_unique) (use assms(2) x in auto)
  moreover have "find P ys = Some x"
    by (rule find_unique) (use assms x in auto)
  ultimately show ?thesis by simp
next
  case False
  then have "find P xs = None" "find P ys = None" using assms(1) by (auto simp: find_None_iff)
  then show ?thesis by simp
qed

text \<open>Within one component every original URI is exposed at most once.\<close>

definition routes_unique :: "(string \<times> resource_route) list \<Rightarrow> bool" where
  "routes_unique rs \<longleftrightarrow> (\<forall>x \<in> set rs. \<forall>y \<in> set rs. rr_prefix (snd x) = rr_prefix (snd y)
     \<and> rr_original_uri (snd x) = rr_original_uri (snd y) \<longrightarrow> x = y)"

lemma routes_uniqueD:
  assumes "routes_unique rs" and "x \<in> set rs" and "y \<in> set rs"
    and "rr_prefix (snd x) = rr_prefix (snd y)" and "rr_original_uri (snd x) = rr_original_uri (snd y)"
  shows "x = y"
  using assms unfolding routes_unique_def by blast

lemma resource_entries_source:
  assumes "e \<in> set (resource_entries L s p f)"
  obtains t u where "Some t \<in> set (resource_inventory s f)" "resource_exposed_uri L s p t = Inr u"
    "e = (resource_clone s t u, resource_route_of s p t u)"
  using assms by (auto simp: resource_entries_def named_entries_mem)

lemma resource_entries_same:
  assumes "distinct (map resource_uri xs)" and "resource_inventory s f = map Some xs"
    and "e \<in> set (resource_entries L s p f)" and "e' \<in> set (resource_entries L s p f)"
    and "rr_original_uri (snd e) = rr_original_uri (snd e')"
  shows "e = e'"
proof -
  obtain t u where t: "Some t \<in> set (resource_inventory s f)" "resource_exposed_uri L s p t = Inr u"
    "e = (resource_clone s t u, resource_route_of s p t u)"
    by (rule resource_entries_source [OF assms(3)])
  obtain t' u' where t': "Some t' \<in> set (resource_inventory s f)" "resource_exposed_uri L s p t' = Inr u'"
    "e' = (resource_clone s t' u', resource_route_of s p t' u')"
    by (rule resource_entries_source [OF assms(4)])
  have "resource_uri t = resource_uri t'"
    using assms(5) by (simp add: t(3) t'(3))
  then have "t = t'"
    using assms(1,2) t(1) t'(1) by (auto simp: distinct_map inj_on_def)
  with t t' show ?thesis by simp
qed

lemma loop_res_all: "loop_res f xs s = Inr s' \<Longrightarrow> x \<in> set xs \<Longrightarrow> \<exists>t t'. f x t = Inr t'"
  by (induction xs arbitrary: s) (auto simp: rbind_Inr_iff)

lemma compiled_component_ok:
  assumes "compile_discovered L H cfg pres ds = Inr c" and "(s, p, d) \<in> set (config_parts cfg pres ds)"
  obtains st st' where "compile_component L s p (dr_features d) st = Inr st'"
proof -
  from assms(1) obtain st st' where "loop_res (\<lambda>(s, p, d). compile_component L s p (dr_features d))
      (config_parts cfg pres ds) st = Inr st'"
    unfolding compile_discovered_def config_parts_def Let_def rbind_Inr_iff by blast
  from loop_res_all [OF this assms(2)] show thesis by (auto intro: that)
qed

lemma component_inventory_distinct:
  assumes "compile_component L s p f st = Inr st'"
  shows "\<exists>xs. resource_inventory s f = map Some xs \<and> distinct (map resource_uri xs)"
  using assms by (auto simp: compile_component_def rbind_Inr_iff compile_resources_iff)

lemma compiled_routes_unique:
  assumes "compile_discovered L H cfg pres ds = Inr c" and "pending_names (cfg_servers cfg) ds = []"
    and "distinct (map (\<lambda>(s, p, d). p) (config_parts cfg pres ds))"
  shows "routes_unique (cat_resource_routes c)"
proof -
  note f = compiled_fields [OF assms(1,2), unfolded config_parts_def [symmetric] config_entries_simps]
  have "e = e'"
    if m: "(s, p, d) \<in> set (config_parts cfg pres ds)" "e \<in> set (resource_entries L s p (dr_features d))"
      and m': "(s', p', d') \<in> set (config_parts cfg pres ds)" "e' \<in> set (resource_entries L s' p' (dr_features d'))"
      and eq: "rr_prefix (snd e) = rr_prefix (snd e')" "rr_original_uri (snd e) = rr_original_uri (snd e')"
    for s p d s' p' d' e e'
  proof -
    have "rr_prefix (snd e) = p" "rr_prefix (snd e') = p'"
      using m(2) m'(2) by (auto elim!: resource_entries_source)
    with eq have "p = p'" by simp
    with assms(3) m(1) m'(1) have same: "(s, p, d) = (s', p', d')"
      unfolding distinct_map inj_on_def by fastforce
    obtain st st' where "compile_component L s p (dr_features d) st = Inr st'"
      by (rule compiled_component_ok [OF assms(1) m(1)])
    from component_inventory_distinct [OF this] obtain xs where
      "resource_inventory s (dr_features d) = map Some xs" "distinct (map resource_uri xs)" by blast
    with m(2) m'(2) eq(2) same show ?thesis
      by (intro resource_entries_same [where xs = xs and L = L and s = s and p = p and f = "dr_features d"]) auto
  qed
  then have "\<forall>e \<in> set (concat (map (\<lambda>(s, p, d). resource_entries L s p (dr_features d)) (config_parts cfg pres ds))).
      \<forall>e' \<in> set (concat (map (\<lambda>(s, p, d). resource_entries L s p (dr_features d)) (config_parts cfg pres ds))).
      rr_prefix (snd e) = rr_prefix (snd e') \<and> rr_original_uri (snd e) = rr_original_uri (snd e') \<longrightarrow> e = e'"
    by auto
  then show ?thesis
    unfolding routes_unique_def f(8) set_map ball_simps(9) snd_conv by metis
qed

text \<open>
  When the prefixes of the components differ, the composite URI of a component's URI does not
  depend on the order in which the map of the resource routes is ranged over.
\<close>

theorem composite_uri_order_independent:
  assumes "compile_discovered L H cfg pres ds = Inr c" and "pending_names (cfg_servers cfg) ds = []"
    and "distinct (map (\<lambda>(s, p, d). p) (config_parts cfg pres ds))"
    and "set rs = set (cat_resource_routes c)"
  shows "to_composite_uri L (c\<lparr>cat_resource_routes := rs\<rparr>) pre original = to_composite_uri L c pre original"
proof -
  have "find (\<lambda>(u, r). rr_prefix r = pre \<and> rr_original_uri r = original) rs =
      find (\<lambda>(u, r). rr_prefix r = pre \<and> rr_original_uri r = original) (cat_resource_routes c)"
    by (rule find_permuted)
      (use routes_uniqueD [OF compiled_routes_unique [OF assms(1-3)]] assms(4) in
        \<open>simp_all add: case_prod_beta\<close>)
  then show ?thesis by (simp add: to_composite_uri_def cong: option.case_cong)
qed

lemma sample_prefixes_distinct:
  "distinct (map (\<lambda>(s, p, d). p) (config_parts (sample_config False [plain_server ''a'', plain_server ''b''])
     [''a'', ''b''] [sample_found False, sample_found False]))"
  by (simp add: config_parts_def sample_config_def)

theorem composite_uri_order_independent_witness:
  "\<exists>c. sample_compiled False False = Inr c \<and> length (cat_resource_routes c) = 2
     \<and> to_composite_uri sample_uris (c\<lparr>cat_resource_routes := rev (cat_resource_routes c)\<rparr>) ''b'' ''file:///n''
         = ''mmmcp+b:file:///n''"
proof -
  obtain c where c: "sample_compiled False False = Inr c" using sample_compiled_ok by blast
  have "length (cat_resource_routes (projr (sample_compiled False False))) = 2
      \<and> to_composite_uri sample_uris (projr (sample_compiled False False)) ''b'' ''file:///n'' = ''mmmcp+b:file:///n''"
    by code_simp
  moreover have "to_composite_uri sample_uris (c\<lparr>cat_resource_routes := rev (cat_resource_routes c)\<rparr>) ''b'' ''file:///n''
      = to_composite_uri sample_uris c ''b'' ''file:///n''"
    by (rule composite_uri_order_independent [OF c [unfolded sample_compiled_def] _ sample_prefixes_distinct])
      (simp_all add: sample_compiled_ok)
  ultimately show ?thesis using c by simp
qed

text \<open>
  C7: When no two components have the same prefix, rewriting and routing are inverse on the listed
  resources: the original URI of the route of a listed URI is rewritten, for its component's prefix, to
  that listed URI. Nothing is said of URIs that only a template matches, nor of URIs of no known
  resource; and the code does not enforce that prefixes differ.
\<close>

theorem composite_uri_roundtrip:
  assumes "compile_discovered L H cfg pres ds = Inr c" and "pending_names (cfg_servers cfg) ds = []"
    and "distinct (map (\<lambda>(s, p, d). p) (config_parts cfg pres ds))"
    and "route_resource L c u = Some r" and "rr_composite_uri r \<noteq> []"
  shows "to_composite_uri L c (rr_prefix r) (rr_original_uri r) = u \<and> rr_composite_uri r = u"
proof -
  note f = compiled_fields [OF assms(1,2), unfolded config_parts_def [symmetric] config_entries_simps]
  have templates: "route_templates L ts u = Some r \<Longrightarrow> rr_composite_uri r = []" for ts
    by (induction ts) (auto split: option.splits)
  from assms(4,5) have m: "map_of (cat_resource_routes c) u = Some r"
    by (auto simp: route_resource_def dest: templates split: option.splits)
  then have mem: "(u, r) \<in> set (cat_resource_routes c)" by (rule map_of_SomeD)
  have "find (\<lambda>(v, q). rr_prefix q = rr_prefix r \<and> rr_original_uri q = rr_original_uri r)
      (cat_resource_routes c) = Some (u, r)"
    by (rule find_unique)
      (use routes_uniqueD [OF compiled_routes_unique [OF assms(1-3)]] mem in \<open>simp_all add: case_prod_beta\<close>)
  moreover have "rr_composite_uri r = u"
    using mem unfolding f(8) by (auto elim!: resource_entries_source)
  ultimately show ?thesis by (simp add: to_composite_uri_def)
qed

theorem composite_uri_roundtrip_witness:
  "\<exists>c r. sample_compiled False False = Inr c
     \<and> route_resource sample_uris c ''mmmcp+a:file:///n'' = Some r \<and> rr_composite_uri r = ''mmmcp+a:file:///n''
     \<and> to_composite_uri sample_uris c (rr_prefix r) (rr_original_uri r) = ''mmmcp+a:file:///n''"
proof -
  obtain c where c: "sample_compiled False False = Inr c" using sample_compiled_ok by blast
  have "case route_resource sample_uris (projr (sample_compiled False False)) ''mmmcp+a:file:///n'' of
      None \<Rightarrow> False | Some r \<Rightarrow> rr_composite_uri r \<noteq> []"
    by code_simp
  with c obtain r where r: "route_resource sample_uris c ''mmmcp+a:file:///n'' = Some r" "rr_composite_uri r \<noteq> []"
    by (auto split: option.splits)
  have "to_composite_uri sample_uris c (rr_prefix r) (rr_original_uri r) = ''mmmcp+a:file:///n''
      \<and> rr_composite_uri r = ''mmmcp+a:file:///n''"
    by (rule composite_uri_roundtrip [OF c [unfolded sample_compiled_def] _ sample_prefixes_distinct r])
      (simp add: sample_compiled_ok)
  with c r show ?thesis by blast
qed

text \<open>
  Rewriting a tool result changes nothing but the URIs in its content: they are mapped one by one
  in order, at every nesting depth, and everything else stays.
\<close>

definition erase_uris :: "content list option \<Rightarrow> content list option" where
  "erase_uris = rewrite_content (\<lambda>_. [])"

theorem rewriting_changes_only_uris:
  "case rewrite_call_tool_result L c pre (Some r) of
     None \<Rightarrow> False
   | Some r' \<Rightarrow> r'\<lparr>cr_content := cr_content r\<rparr> = r \<and> erase_uris (cr_content r') = erase_uris (cr_content r)
       \<and> map_option (\<lambda>xs. concat (map content_uris xs)) (cr_content r')
           = map_option (\<lambda>xs. map (to_composite_uri L c pre) (concat (map content_uris xs))) (cr_content r)"
proof -
  have erase: "rewrite_one_content (\<lambda>_. []) (rewrite_one_content f x) = rewrite_one_content (\<lambda>_. []) x" for f x
    by (simp add: rewrite_one_comp comp_def)
  have uris: "concat (map (content_uris \<circ> rewrite_one_content f) xs) = map f (concat (map content_uris xs))" for f xs
    by (induction xs) (simp_all add: rewrite_one_uris)
  show ?thesis
    by (cases "cr_content r")
      (simp_all add: rewrite_call_tool_result_def erase_uris_def rewrite_content_def comp_def erase
        uris [unfolded comp_def])
qed

end
