(* ===== verification/Translation.thy ===== *)
theory Translation
  imports Rewrite
begin

text \<open>
  \<open>result_translation.go\<close>: the results of components are brought into the form the frontend's protocol
  version knows; with \<open>DownstreamMeta\<close> of \<open>component/component.go\<close>. The functions go through the wire
  form of a result, the members of its JSON object; \<open>marshal\<close> and \<open>unmarshal\<close> are \<open>encoding/json\<close> on the
  types of the SDK. The names of the metadata the SDK reserves are an argument.
\<close>

section \<open>Requests\<close>

record meta_keys =
  mk_protocol_version :: string
  mk_client_info :: string
  mk_client_capabilities :: string
  mk_server_info :: string

text \<open>
  What the translation asks of a frontend request: the negotiated version (\<open>None\<close>: the request has no
  \<open>ProtocolVersion\<close>), and the version in its metadata (\<open>None\<close>: it has no parameters).
\<close>

record frontend =
  fe_protocol_version :: "string option"
  fe_meta_version :: "string option"

definition needs_legacy_tool_output_translation :: "frontend \<Rightarrow> string \<Rightarrow> bool" where
  "needs_legacy_tool_output_translation fe upstream \<longleftrightarrow>
     upstream = ''2026-07-28'' \<and> fe_protocol_version fe = Some ''2025-11-25''"

definition frontend_uses_current_protocol :: "frontend \<Rightarrow> bool" where
  "frontend_uses_current_protocol fe =
     (case fe_meta_version fe of None \<Rightarrow> False | Some v \<Rightarrow> v \<ge> ''2026-07-28'')"

text \<open>Metadata is a map; its members are listed under distinct keys.\<close>

type_synonym meta = "(string \<times> json) list"

definition downstream_meta :: "meta_keys \<Rightarrow> meta \<Rightarrow> meta" where
  "downstream_meta K m =
     (if map_of m (mk_protocol_version K) = None \<and> map_of m (mk_client_info K) = None
         \<and> map_of m (mk_client_capabilities K) = None
      then m
      else filter (\<lambda>(k, v). k \<noteq> mk_protocol_version K \<and> k \<noteq> mk_client_info K
                         \<and> k \<noteq> mk_client_capabilities K) m)"

lemma downstream_meta_lookup:
  "map_of (downstream_meta K m) k =
     (if k \<in> {mk_protocol_version K, mk_client_info K, mk_client_capabilities K} then None else map_of m k)"
proof -
  have "map_of (filter (\<lambda>(k, v). P k) m) k = (if P k then map_of m k else None)" for P
    by (induction m) auto
  from this [of "\<lambda>k. k \<noteq> mk_protocol_version K \<and> k \<noteq> mk_client_info K \<and> k \<noteq> mk_client_capabilities K"]
  show ?thesis by (auto simp: downstream_meta_def)
qed

section \<open>Tool definitions\<close>

definition omit_modern_tool_output_schema :: "frontend \<Rightarrow> mcp_tool \<Rightarrow> 't catalog \<Rightarrow> mcp_tool" where
  "omit_modern_tool_output_schema fe tool c =
     (if tool_output_schema tool = None then tool
      else (case route_tool c (tool_name tool) of
              None \<Rightarrow> tool
            | Some route \<Rightarrow>
              if \<not> needs_legacy_tool_output_translation fe (tr_protocol_version route) then tool
              else tool\<lparr>tool_output_schema := None\<rparr>))"

text \<open>The list is copied when its first definition changes; the copy has no other observable effect.\<close>

definition omit_modern_tool_output_schemas :: "frontend \<Rightarrow> mcp_tool list \<Rightarrow> 't catalog \<Rightarrow> mcp_tool list" where
  "omit_modern_tool_output_schemas fe tools c = map (\<lambda>t. omit_modern_tool_output_schema fe t c) tools"

section \<open>Results\<close>

type_synonym wire = "(string \<times> json) list"

definition wire_put :: "string \<Rightarrow> json \<Rightarrow> wire \<Rightarrow> wire" where
  "wire_put k v w = filter (\<lambda>(k', v'). k' \<noteq> k) w @ [(k, v)]"

definition wire_delete :: "string \<Rightarrow> wire \<Rightarrow> wire" where
  "wire_delete k w = filter (\<lambda>(k', v'). k' \<noteq> k) w"

lemma wire_lookup [simp]:
  "map_of (wire_delete k w) k' = (if k' = k then None else map_of w k')"
  "map_of (wire_put k v w) k' = (if k' = k then Some v else map_of w k')"
proof -
  show del: "map_of (wire_delete k w) k' = (if k' = k then None else map_of w k')" for w
    by (induction w) (auto simp: wire_delete_def)
  from del [of w] show "map_of (wire_put k v w) k' = (if k' = k then Some v else map_of w k')"
    by (auto simp: wire_put_def wire_delete_def map_add_def split: option.split)
qed

text \<open>A \<open>_meta\<close> that is null decodes to the nil map, and is deleted; one that is not an object stays.\<close>

definition strip_server_info :: "meta_keys \<Rightarrow> wire \<Rightarrow> wire" where
  "strip_server_info K w =
     (case map_of w ''_meta'' of
        None \<Rightarrow> w
      | Some raw \<Rightarrow>
        (case (case raw of JObj m \<Rightarrow> Some m | JNull \<Rightarrow> Some [] | _ \<Rightarrow> None) of
           None \<Rightarrow> w
         | Some m \<Rightarrow>
           let m = wire_delete (mk_server_info K) m
           in if length m = 0 then wire_delete ''_meta'' w else wire_put ''_meta'' (JObj m) w))"

definition wire_default :: "string \<Rightarrow> (json \<Rightarrow> bool) \<Rightarrow> json \<Rightarrow> wire \<Rightarrow> wire" where
  "wire_default k missing v w =
     (case map_of w k of None \<Rightarrow> wire_put k v w | Some old \<Rightarrow> if missing old then wire_put k v w else w)"

definition typed_wire :: "bool \<Rightarrow> bool \<Rightarrow> bool \<Rightarrow> wire \<Rightarrow> wire" where
  "typed_wire current needs_input cacheable w =
     (if current
      then
        let w = wire_put ''resultType'' (JStr (if needs_input then ''input_required'' else ''complete'')) w
        in if cacheable
           then wire_default ''ttlMs'' (\<lambda>_. False) (JNum ''0'')
                  (wire_default ''cacheScope'' (\<lambda>scope. scope = JStr [] \<or> scope = JNull) (JStr ''public'') w)
           else w
      else wire_delete ''resultType'' w)"

definition normalized_wire :: "meta_keys \<Rightarrow> bool \<Rightarrow> bool \<Rightarrow> bool \<Rightarrow> wire \<Rightarrow> wire" where
  "normalized_wire K current needs_input cacheable w =
     strip_server_info K (typed_wire current needs_input cacheable w)"

text \<open>
  A codec also says what \<open>NeedsInput\<close> answers on a nil pointer (\<open>None\<close>: it panics) and what null decodes to.
  The check for a nil result at the start of \<open>normalizeOperationResult\<close> never holds, since the interface
  value of a nil pointer is not nil: a nil result goes on, and for a current frontend the code then
  writes into a nil map.
\<close>

datatype translation_error = Input_required_for_legacy | Marshal_failed | Decode_failed | Nil_panic

record 'r codec =
  cd_marshal :: "'r \<Rightarrow> wire option"
  cd_unmarshal :: "wire \<Rightarrow> 'r option"
  cd_needs_input :: "'r \<Rightarrow> bool"
  cd_nil_needs_input :: "bool option"
  cd_null :: 'r

definition normalize_operation_result ::
    "meta_keys \<Rightarrow> 'r codec \<Rightarrow> frontend \<Rightarrow> 'r option \<Rightarrow> bool \<Rightarrow> (translation_error, 'r option) res" where
  "normalize_operation_result K D fe result cacheable =
     (case result of
        None \<Rightarrow>
          if frontend_uses_current_protocol fe then Inl Nil_panic
          else (case cd_nil_needs_input D of
                  None \<Rightarrow> Inl Nil_panic
                | Some True \<Rightarrow> Inl Input_required_for_legacy
                | Some False \<Rightarrow> Inr (Some (cd_null D)))
      | Some r \<Rightarrow>
        let current = frontend_uses_current_protocol fe
        in if \<not> current \<and> cd_needs_input D r then Inl Input_required_for_legacy
           else (case cd_marshal D r of
                   None \<Rightarrow> Inl Marshal_failed
                 | Some w \<Rightarrow>
                   (case cd_unmarshal D (normalized_wire K current (cd_needs_input D r) cacheable w) of
                      None \<Rightarrow> Inl Decode_failed
                    | Some r' \<Rightarrow> Inr (Some r'))))"

text \<open>
  \<open>parse\<close> is \<open>json.Valid\<close> with the decoder (\<open>None\<close>: not valid): objects come out with their members in one
  order, so that equality is \<open>reflect.DeepEqual\<close>.
\<close>

definition legacy_tool_content ::
    "(string \<Rightarrow> json option) \<Rightarrow> content list option \<Rightarrow> string \<Rightarrow> content list option" where
  "legacy_tool_content parse content structured =
     (let blocks = (case content of None \<Rightarrow> [] | Some bs \<Rightarrow> bs) in
      if parse structured \<noteq> None \<and> list_ex (\<lambda>b. case b of Text_content t \<Rightarrow> parse t = parse structured | _ \<Rightarrow> False) blocks
      then content
      else Some (blocks @ [Text_content structured]))"

definition normalize_call_tool_result ::
    "meta_keys \<Rightarrow> call_result codec \<Rightarrow> (string \<Rightarrow> json option) \<Rightarrow> (json \<Rightarrow> string option) \<Rightarrow> frontend
       \<Rightarrow> call_result option \<Rightarrow> string \<Rightarrow> (translation_error, call_result option) res" where
  "normalize_call_tool_result K D parse print fe result upstream =
     (case result of
        Some r \<Rightarrow>
          (case cr_structured r of
             Some structured \<Rightarrow>
               if needs_legacy_tool_output_translation fe upstream
               then (case print structured of
                       None \<Rightarrow> Inl Marshal_failed
                     | Some text \<Rightarrow>
                       if hd text \<noteq> CHR 0x7B
                       then normalize_operation_result K D fe (Some (r\<lparr>
                              cr_content := legacy_tool_content parse (cr_content r) text,
                              cr_structured := None\<rparr>)) False
                       else normalize_operation_result K D fe result False)
               else normalize_operation_result K D fe result False
           | None \<Rightarrow> normalize_operation_result K D fe result False)
      | None \<Rightarrow> normalize_operation_result K D fe result False)"

definition normalize_get_prompt_result ::
    "meta_keys \<Rightarrow> prompt_result codec \<Rightarrow> frontend \<Rightarrow> prompt_result option
       \<Rightarrow> (translation_error, prompt_result option) res" where
  "normalize_get_prompt_result K D fe result = normalize_operation_result K D fe result False"

definition normalize_read_resource_result ::
    "meta_keys \<Rightarrow> read_result codec \<Rightarrow> frontend \<Rightarrow> read_result option
       \<Rightarrow> (translation_error, read_result option) res" where
  "normalize_read_resource_result K D fe result = normalize_operation_result K D fe result True"

section \<open>Properties\<close>

lemma strip_server_info_other: "k \<noteq> ''_meta'' \<Longrightarrow> map_of (strip_server_info K w) k = map_of w k"
  by (simp add: strip_server_info_def Let_def split: option.split json.split)

lemma strip_server_info_meta: "case map_of (strip_server_info K v) ''_meta'' of
    Some (JObj m) \<Rightarrow> map_of m (mk_server_info K) = None \<and> m \<noteq> [] | _ \<Rightarrow> True"
proof (cases "map_of v ''_meta''")
  case (Some raw)
  then show ?thesis by (cases raw) (simp_all add: strip_server_info_def Let_def)
qed (simp add: strip_server_info_def)

lemma wire_default_lookup: "map_of (wire_default k missing v w) k' =
    (if k' = k then (case map_of w k of None \<Rightarrow> Some v | Some old \<Rightarrow> Some (if missing old then v else old)) else map_of w k')"
  by (simp add: wire_default_def split: option.split)

text \<open>
  Normalising a result touches nothing but the members the protocol versions differ in: the frontend
  gets a result type exactly when its version knows one, a readable resource then also gets a cache scope
  and a lifetime, metadata of the component's server never goes through, and every other member is kept.
\<close>

theorem normalized_wire_members:
  "let w' = normalized_wire K current needs_input cacheable w in
     map_of w' ''resultType'' =
       (if current then Some (JStr (if needs_input then ''input_required'' else ''complete'')) else None)
     \<and> (current \<and> cacheable \<longrightarrow> map_of w' ''ttlMs'' \<noteq> None
          \<and> map_of w' ''cacheScope'' \<notin> {None, Some JNull, Some (JStr [])})
     \<and> (case map_of w' ''_meta'' of Some (JObj m) \<Rightarrow> map_of m (mk_server_info K) = None \<and> m \<noteq> [] | _ \<Rightarrow> True)
     \<and> (k \<notin> {''resultType'', ''_meta''} \<and> \<not> (current \<and> cacheable \<and> k \<in> {''ttlMs'', ''cacheScope''})
          \<longrightarrow> map_of w' k = map_of w k)"
proof -
  let ?w = "typed_wire current needs_input cacheable w" and ?n = "normalized_wire K current needs_input cacheable w"
  have n: "?n = strip_server_info K ?w" by (simp add: normalized_wire_def)
  have other: "map_of ?n k = map_of ?w k" if "k \<noteq> ''_meta''" for k
    unfolding n by (rule strip_server_info_other [OF that])
  have typed: "map_of ?w ''resultType'' =
       (if current then Some (JStr (if needs_input then ''input_required'' else ''complete'')) else None)"
    by (simp add: typed_wire_def Let_def wire_default_lookup)
  have cache: "map_of ?w ''ttlMs'' \<noteq> None \<and> map_of ?w ''cacheScope'' \<notin> {None, Some JNull, Some (JStr [])}"
    if "current" "cacheable"
    using that by (simp add: typed_wire_def Let_def wire_default_lookup split: option.split)
  have kept: "map_of ?w k = map_of w k"
    if "k \<noteq> ''resultType''" "\<not> (current \<and> cacheable \<and> k \<in> {''ttlMs'', ''cacheScope''})"
    using that by (cases "current \<and> cacheable") (auto simp: typed_wire_def Let_def wire_default_lookup)
  have meta: "case map_of ?n ''_meta'' of Some (JObj m) \<Rightarrow> map_of m (mk_server_info K) = None \<and> m \<noteq> [] | _ \<Rightarrow> True"
    unfolding n by (rule strip_server_info_meta)
  show ?thesis
    unfolding Let_def
  proof (intro conjI impI)
    have same: "map_of ?n ''resultType'' = map_of ?w ''resultType''" "map_of ?n ''ttlMs'' = map_of ?w ''ttlMs''"
      "map_of ?n ''cacheScope'' = map_of ?w ''cacheScope''" by (rule other, simp)+
    show "map_of ?n ''resultType'' =
       (if current then Some (JStr (if needs_input then ''input_required'' else ''complete'')) else None)"
      unfolding same by (rule typed)
    show "map_of ?n ''ttlMs'' \<noteq> None" "map_of ?n ''cacheScope'' \<notin> {None, Some JNull, Some (JStr [])}"
      if "current \<and> cacheable"
      unfolding same using cache that by blast+
    show "map_of ?n k = map_of w k"
      if "k \<notin> {''resultType'', ''_meta''} \<and> \<not> (current \<and> cacheable \<and> k \<in> {''ttlMs'', ''cacheScope''})"
    proof -
      from that have k: "k \<noteq> ''resultType''" "\<not> (current \<and> cacheable \<and> k \<in> {''ttlMs'', ''cacheScope''})" "k \<noteq> ''_meta''"
        by auto
      show ?thesis using other [OF k(3)] kept [OF k(1,2)] by simp
    qed
  qed (rule meta)
qed

definition sdk_keys :: meta_keys where
  "sdk_keys = \<lparr>mk_protocol_version = ''io.modelcontextprotocol/protocolVersion'',
     mk_client_info = ''io.modelcontextprotocol/clientInfo'',
     mk_client_capabilities = ''io.modelcontextprotocol/clientCapabilities'',
     mk_server_info = ''io.modelcontextprotocol/serverInfo''\<rparr>"

theorem normalized_wire_members_witness:
  "let w' = normalized_wire sdk_keys True False True
       [(''_meta'', JObj [(mk_server_info sdk_keys, JNull), (''kept'', JNull)]), (''contents'', JArr [])]
   in map_of w' ''contents'' = Some (JArr []) \<and> map_of w' ''resultType'' = Some (JStr ''complete'')
     \<and> map_of w' ''_meta'' = Some (JObj [(''kept'', JNull)])"
proof -
  let ?w = "[(''_meta'', JObj [(mk_server_info sdk_keys, JNull), (''kept'', JNull)]), (''contents'', JArr [])]"
  have "map_of (normalized_wire sdk_keys True False True ?w) ''_meta'' = Some (JObj [(''kept'', JNull)])"
    by code_simp
  with normalized_wire_members [of sdk_keys True False True ?w "''contents''"]
  show ?thesis by (simp add: Let_def)
qed

end
