(* ===== verification/Pagination.thy ===== *)
theory Pagination
  imports Compiled
begin

text \<open>
  \<open>catalog/pagination.go\<close>: the cursors (a JSON object in unpadded base64 with the URL alphabet) and the
  pages of the four feature families. The text of JSON values and its parser are a record of functions;
  base64 is written out. Page sizes are 64-bit integers and the sum that ends a page wraps around.
\<close>

section \<open>Base64\<close>

definition b64_alphabet :: string where
  "b64_alphabet = ''ABCDEFGHIJKLMNOPQRSTUVWXYZabcdefghijklmnopqrstuvwxyz0123456789-_''"

fun b64_digits :: "nat list \<Rightarrow> nat list" where
  "b64_digits [] = []"
| "b64_digits [a] = [a div 4, a mod 4 * 16]"
| "b64_digits [a, b] = [a div 4, a mod 4 * 16 + b div 16, b mod 16 * 4]"
| "b64_digits (a # b # c # r) =
     a div 4 # (a mod 4 * 16 + b div 16) # (b mod 16 * 4 + c div 64) # c mod 64 # b64_digits r"

text \<open>Decoding is not strict: the bits after the last byte are dropped.\<close>

fun b64_bytes :: "nat list \<Rightarrow> nat list option" where
  "b64_bytes [] = Some []"
| "b64_bytes [p] = None"
| "b64_bytes [p, q] = Some [p * 4 + q div 16]"
| "b64_bytes [p, q, r] = Some [p * 4 + q div 16, q mod 16 * 16 + r div 4]"
| "b64_bytes (p # q # r # t # ds) =
     map_option (\<lambda>bs. (p * 4 + q div 16) # (q mod 16 * 16 + r div 4) # (r mod 4 * 64 + t) # bs) (b64_bytes ds)"

definition b64_encode :: "string \<Rightarrow> string" where
  "b64_encode s = map (\<lambda>d. b64_alphabet ! d) (b64_digits (map of_char s))"

text \<open>The decoder skips line breaks, and fails on any other byte outside the alphabet.\<close>

definition b64_decode :: "string \<Rightarrow> string option" where
  "b64_decode s =
     (case those (map (index_byte b64_alphabet)
             (filter (\<lambda>c. c \<noteq> CHR 0x0A \<and> c \<noteq> CHR 0x0D) s)) of
        None \<Rightarrow> None
      | Some ds \<Rightarrow> map_option (map char_of) (b64_bytes ds))"

section \<open>Cursors\<close>

record json_lib =
  json_text :: "json \<Rightarrow> string"
  json_parse :: "string \<Rightarrow> json option"

datatype page_family = Page_tools | Page_prompts | Page_resources | Page_templates

fun family_name :: "page_family \<Rightarrow> string" where
  "family_name Page_tools = ''tools''"
| "family_name Page_prompts = ''prompts''"
| "family_name Page_resources = ''resources''"
| "family_name Page_templates = ''resourceTemplates''"

record cursor =
  cur_catalog :: string
  cur_family :: string
  cur_after :: string

definition cursor_json :: "cursor \<Rightarrow> json" where
  "cursor_json c = JObj [(''catalog'', JStr (cur_catalog c)), (''family'', JStr (cur_family c)),
     (''after'', JStr (cur_after c))]"

definition encode_cursor :: "json_lib \<Rightarrow> cursor \<Rightarrow> string" where
  "encode_cursor J c = b64_encode (json_text J (cursor_json c))"

definition decode_cursor :: "json_lib \<Rightarrow> string \<Rightarrow> cursor option" where
  "decode_cursor J value =
     (case b64_decode value of
        None \<Rightarrow> None
      | Some data \<Rightarrow>
        (case json_parse J data of
           None \<Rightarrow> None
         | Some v \<Rightarrow>
           (case (case v of JNull \<Rightarrow> Some [] | JObj ms \<Rightarrow> Some ms | _ \<Rightarrow> None) of
              None \<Rightarrow> None
            | Some ms \<Rightarrow>
              (case (store_string (members_named ''catalog'' ms) [],
                     store_string (members_named ''family'' ms) [],
                     store_string (members_named ''after'' ms) []) of
                 (Some c, Some f, Some a) \<Rightarrow> Some \<lparr>cur_catalog = c, cur_family = f, cur_after = a\<rparr>
               | _ \<Rightarrow> None))))"

section \<open>Pages\<close>

text \<open>The identities of a family, in the order of the catalog.\<close>

fun identities :: "'t catalog \<Rightarrow> page_family \<Rightarrow> string list" where
  "identities c Page_tools = map tool_name (cat_visible_tools c)"
| "identities c Page_prompts = map prompt_name (cat_prompts c)"
| "identities c Page_resources = map resource_uri (cat_resources c)"
| "identities c Page_templates = map template_uri (cat_templates c)"

text \<open>A page that cannot be sliced is a run-time panic.\<close>

datatype page_error = Invalid_cursor | Slice_panic

definition wrap_int64 :: "int \<Rightarrow> int" where
  "wrap_int64 x = (x + 2 ^ 63) mod 2 ^ 64 - 2 ^ 63"

definition page_start ::
    "json_lib \<Rightarrow> 't catalog \<Rightarrow> page_family \<Rightarrow> string list \<Rightarrow> string \<Rightarrow> (page_error, nat) res" where
  "page_start J c family ids requested =
     (if requested = [] then Inr 0
      else (case decode_cursor J requested of
              None \<Rightarrow> Inl Invalid_cursor
            | Some d \<Rightarrow>
              if cur_catalog d \<noteq> cat_id c \<or> cur_family d \<noteq> family_name family \<or> cur_after d = []
              then Inl Invalid_cursor
              else let start = search_strings ids (cur_after d) in
                if start \<ge> length ids \<or> ids ! start \<noteq> cur_after d
                then Inl Invalid_cursor else Inr (start + 1)))"

definition page ::
    "json_lib \<Rightarrow> 't catalog \<Rightarrow> page_family \<Rightarrow> string list \<Rightarrow> string \<Rightarrow> int
       \<Rightarrow> (page_error, int \<times> int \<times> string) res" where
  "page J c family ids requested page_size =
     rbind (page_start J c family ids requested) (\<lambda>start.
       let width = (if page_size \<le> 0 then int (length ids) else page_size);
           end = min (wrap_int64 (int start + width)) (int (length ids))
       in if end < int (length ids)
          then if end \<le> 0 then Inl Slice_panic
            else Inr (int start, end, encode_cursor J \<lparr>cur_catalog = cat_id c,
                   cur_family = family_name family, cur_after = ids ! nat (end - 1)\<rparr>)
          else Inr (int start, end, []))"

definition slice_page :: "'a list \<Rightarrow> int \<times> int \<times> string \<Rightarrow> (page_error, 'a list \<times> string) res" where
  "slice_page xs r = (case r of (start, end, next) \<Rightarrow>
     if 0 \<le> start \<and> start \<le> end \<and> end \<le> int (length xs)
     then Inr (take (nat (end - start)) (drop (nat start) xs), next) else Inl Slice_panic)"

definition page_tools ::
    "json_lib \<Rightarrow> 't catalog \<Rightarrow> string \<Rightarrow> int \<Rightarrow> (page_error, mcp_tool list \<times> string) res" where
  "page_tools J c cur page_size =
     rbind (page J c Page_tools (identities c Page_tools) cur page_size)
       (slice_page (cat_visible_tools c))"

definition page_prompts ::
    "json_lib \<Rightarrow> 't catalog \<Rightarrow> string \<Rightarrow> int \<Rightarrow> (page_error, mcp_prompt list \<times> string) res" where
  "page_prompts J c cur page_size =
     rbind (page J c Page_prompts (identities c Page_prompts) cur page_size) (slice_page (cat_prompts c))"

definition page_resources ::
    "json_lib \<Rightarrow> 't catalog \<Rightarrow> string \<Rightarrow> int \<Rightarrow> (page_error, mcp_resource list \<times> string) res" where
  "page_resources J c cur page_size =
     rbind (page J c Page_resources (identities c Page_resources) cur page_size)
       (slice_page (cat_resources c))"

definition page_templates ::
    "json_lib \<Rightarrow> 't catalog \<Rightarrow> string \<Rightarrow> int \<Rightarrow> (page_error, mcp_template list \<times> string) res" where
  "page_templates J c cur page_size =
     rbind (page J c Page_templates (identities c Page_templates) cur page_size)
       (slice_page (cat_templates c))"

section \<open>Round trip of the cursors\<close>

lemma b64_digits_bound: "\<forall>b \<in> set bs. b < 256 \<Longrightarrow> d \<in> set (b64_digits bs) \<Longrightarrow> d < 64"
  by (induction bs rule: b64_digits.induct) auto

lemma b64_bytes_digits: "\<forall>b \<in> set bs. b < 256 \<Longrightarrow> b64_bytes (b64_digits bs) = Some bs"
  by (induction bs rule: b64_digits.induct) auto

lemma b64_alphabet_ok:
  "length b64_alphabet = 64" "distinct b64_alphabet"
  "CHR 0x0A \<notin> set b64_alphabet" "CHR 0x0D \<notin> set b64_alphabet"
  by (simp_all add: b64_alphabet_def)

lemma index_byte_nth: "distinct s \<Longrightarrow> i < length s \<Longrightarrow> index_byte s (s ! i) = Some i"
proof (induction s arbitrary: i)
  case (Cons x s)
  then show ?case by (cases i) auto
qed simp

lemma those_index_nth:
  "distinct s \<Longrightarrow> \<forall>d\<in>set ds. d < length s \<Longrightarrow> those (map (index_byte s) (map (\<lambda>d. s ! d) ds)) = Some ds"
  by (induction ds) (simp_all add: index_byte_nth)

lemma b64_roundtrip: "b64_decode (b64_encode s) = Some s"
proof -
  let ?bs = "map of_char s :: nat list"
  have b: "\<forall>b \<in> set ?bs. b < 256" by auto
  have lt: "\<forall>d\<in>set (b64_digits ?bs). d < length b64_alphabet"
    using b64_digits_bound [OF b] b64_alphabet_ok(1) by simp
  then have "set (map (\<lambda>d. b64_alphabet ! d) (b64_digits ?bs)) \<subseteq> set b64_alphabet" by auto
  then have "filter (\<lambda>c. c \<noteq> CHR 0x0A \<and> c \<noteq> CHR 0x0D) (b64_encode s) = b64_encode s"
    using b64_alphabet_ok(3,4) unfolding b64_encode_def by (intro filter_True) blast
  with those_index_nth [OF b64_alphabet_ok(2) lt] show ?thesis
    by (simp add: b64_decode_def b64_encode_def b64_bytes_digits [OF b] comp_def)
qed

text \<open>What the round trip of a cursor needs of the JSON functions.\<close>

definition json_keeps :: "json_lib \<Rightarrow> json \<Rightarrow> bool" where
  "json_keeps J v \<longleftrightarrow> json_text J v \<noteq> [] \<and> json_parse J (json_text J v) = Some v"

lemma members_named_cursor:
  "members_named ''catalog'' [(''catalog'', x), (''family'', y), (''after'', z)] = [x]"
  "members_named ''family'' [(''catalog'', x), (''family'', y), (''after'', z)] = [y]"
  "members_named ''after'' [(''catalog'', x), (''family'', y), (''after'', z)] = [z]"
  by (simp_all add: members_named_def; code_simp)+

lemma cursor_roundtrip: "json_keeps J (cursor_json c) \<Longrightarrow> decode_cursor J (encode_cursor J c) = Some c"
  by (simp add: json_keeps_def decode_cursor_def encode_cursor_def b64_roundtrip)
     (simp add: cursor_json_def members_named_cursor)

lemma cursor_nonempty: "json_keeps J (cursor_json c) \<Longrightarrow> encode_cursor J c \<noteq> []"
  using b64_roundtrip [of "json_text J (cursor_json c)"]
  by (auto simp: json_keeps_def encode_cursor_def b64_decode_def)

section \<open>Walking through the pages\<close>

text \<open>A client that follows the cursors; the fuel bounds the number of its requests.\<close>

fun walk :: "(string \<Rightarrow> (page_error, 'a list \<times> string) res) \<Rightarrow> nat \<Rightarrow> string \<Rightarrow> 'a list option" where
  "walk fetch 0 cur = None"
| "walk fetch (Suc fuel) cur =
     (case fetch cur of
        Inl _ \<Rightarrow> None
      | Inr (items, next) \<Rightarrow>
        if next = [] then Some items else map_option (\<lambda>rest. items @ rest) (walk fetch fuel next))"

text \<open>What the families of a compiled catalog have in common: increasing identities, none empty.\<close>

definition listing_ok :: "json_lib \<Rightarrow> 't catalog \<Rightarrow> page_family \<Rightarrow> string list \<Rightarrow> bool" where
  "listing_ok J c family ids \<longleftrightarrow> sorted_wrt (<) ids \<and> [] \<notin> set ids \<and> length ids < 2 ^ 62
     \<and> (\<forall>a \<in> set ids. json_keeps J (cursor_json \<lparr>cur_catalog = cat_id c, cur_family = family_name family,
           cur_after = a\<rparr>))"

definition cursor_at :: "json_lib \<Rightarrow> 't catalog \<Rightarrow> page_family \<Rightarrow> string list \<Rightarrow> nat \<Rightarrow> string" where
  "cursor_at J c family ids i = (if i = 0 then [] else encode_cursor J
     \<lparr>cur_catalog = cat_id c, cur_family = family_name family, cur_after = ids ! (i - 1)\<rparr>)"

lemma cursor_at_0: "cursor_at J c family ids 0 = []"
  by (simp add: cursor_at_def)

lemma page_start_at:
  assumes "listing_ok J c family ids" and "i \<le> length ids"
  shows "page_start J c family ids (cursor_at J c family ids i) = Inr i"
proof (cases "i = 0")
  case False
  let ?a = "ids ! (i - 1)"
  have mem: "?a \<in> set ids" using False assms(2) by simp
  then have ne: "?a \<noteq> []" using assms(1) by (auto simp: listing_ok_def)
  have dec: "decode_cursor J (cursor_at J c family ids i) = Some \<lparr>cur_catalog = cat_id c,
      cur_family = family_name family, cur_after = ?a\<rparr>"
    using False mem assms(1) by (simp add: cursor_at_def cursor_roundtrip listing_ok_def)
  have nonempty: "cursor_at J c family ids i \<noteq> []"
    using False mem assms(1) by (simp add: cursor_at_def cursor_nonempty listing_ok_def)
  have "search_strings ids ?a = i - 1"
    using assms False by (intro search_strings_nth) (auto simp: listing_ok_def)
  with dec nonempty ne False assms(2) show ?thesis
    by (simp add: page_start_def Let_def)
qed (simp add: cursor_at_def page_start_def)

lemma wrap_int64_id: "0 \<le> x \<Longrightarrow> x < 2 ^ 63 \<Longrightarrow> wrap_int64 x = x"
  by (simp add: wrap_int64_def)

lemma page_at:
  assumes ok: "listing_ok J c family (map f xs)" and i: "i \<le> length xs" and n: "n < 2 ^ 62"
    and some: "0 < n \<or> i = 0"
  defines "k \<equiv> (if n \<le> 0 then length xs else min (i + nat n) (length xs))"
  shows "rbind (page J c family (map f xs) (cursor_at J c family (map f xs) i) n) (slice_page xs) =
      Inr (take (k - i) (drop i xs), if k < length xs then cursor_at J c family (map f xs) k else [])"
proof -
  have len: "length xs < 2 ^ 62" using ok by (simp add: listing_ok_def)
  show ?thesis
  proof (cases "n \<le> 0")
    case True
    with some have "i = 0" by simp
    with True len show ?thesis
      using page_start_at [OF ok, of 0] i
      by (simp add: page_def Let_def slice_page_def wrap_int64_id k_def)
  next
    case False
    have w: "wrap_int64 (int i + n) = int i + n" using False i len n by (intro wrap_int64_id) auto
    have k: "k = min (i + nat n) (length xs)" "int k = min (int i + n) (int (length xs))" using False by (auto simp: k_def)
    have kpos: "0 < k" if "k < length xs" using that False k by auto
    show ?thesis
      using page_start_at [OF ok] i False k(2) [symmetric] kpos
      by (auto simp: page_def Let_def w slice_page_def cursor_at_def nat_diff_distrib nat_add_distrib k(1))
  qed
qed

lemma walk_at:
  assumes ok: "listing_ok J c family (map f xs)" and "0 < n" "n < 2 ^ 62" and "i \<le> length xs"
    and "length xs - i < fuel"
  shows "walk (\<lambda>cur. rbind (page J c family (map f xs) cur n) (slice_page xs)) fuel
      (cursor_at J c family (map f xs) i) = Some (drop i xs)"
  using assms(4,5)
proof (induction fuel arbitrary: i)
  case (Suc fuel)
  let ?k = "min (i + nat n) (length xs)"
  have p: "rbind (page J c family (map f xs) (cursor_at J c family (map f xs) i) n) (slice_page xs) =
      Inr (take (?k - i) (drop i xs), if ?k < length xs then cursor_at J c family (map f xs) ?k else [])"
    using page_at [OF ok Suc.prems(1) assms(3)] assms(2) by simp
  show ?case
  proof (cases "?k < length xs")
    case True
    have ne: "cursor_at J c family (map f xs) ?k \<noteq> []"
      using ok True assms(2) by (simp add: cursor_at_def cursor_nonempty listing_ok_def)
    have "walk (\<lambda>cur. rbind (page J c family (map f xs) cur n) (slice_page xs)) fuel
        (cursor_at J c family (map f xs) ?k) = Some (drop ?k xs)"
      using Suc.prems True assms(2) by (intro Suc.IH) auto
    moreover have "take (?k - i) (drop i xs) @ drop ?k xs = drop i xs"
      using append_take_drop_id [of "?k - i" "drop i xs"] True Suc.prems by (simp add: add.commute)
    ultimately show ?thesis using True ne by (simp add: p)
  next
    case False
    then show ?thesis by (simp add: p)
  qed
qed simp

section \<open>The identities of a compiled catalog\<close>

lemma named_feature_nonempty [simp]: "named_feature k p l \<noteq> Inr []"
  by (auto simp: named_feature_Inr part_ok_def)

lemma resource_uri_nonempty: "\<forall>s. url_scheme L [] = Some s \<longrightarrow> s = [] \<Longrightarrow> resource_uri_of L p u \<noteq> Inr []"
  by (auto simp: resource_uri_Inr exposed_uri_def)

lemma template_uri_nonempty [simp]: "template_uri_of L p u \<noteq> Inr []"
  by (auto simp: template_uri_Inr exposed_uri_def has_template_scheme_def)

lemma entries_nonempty:
  assumes "\<forall>s. url_scheme L [] = Some s \<longrightarrow> s = []"
  shows "[] \<notin> tool_name ` fst ` set (tool_entries s p f)" "[] \<notin> prompt_name ` fst ` set (prompt_entries s p f)"
    "[] \<notin> resource_uri ` fst ` set (resource_entries L s p f)"
    "[] \<notin> template_uri ` fst ` set (template_entries L s p f)"
  using resource_uri_nonempty [OF assms]
  by (auto simp: tool_entries_def prompt_entries_def resource_entries_def template_entries_def named_entries_mem
      tool_exposed_name_def prompt_exposed_name_def resource_exposed_uri_def template_exposed_uri_def
      tool_name_of_def prompt_name_of_def)

lemma search_definitions_names: "map tool_name (sort_key tool_name search_definitions) = [''call_tool'', ''search_tools'']"
  by code_simp

lemma compiled_identities:
  assumes "compile_discovered L H cfg pres ds = Inr c" and "\<forall>s. url_scheme L [] = Some s \<longrightarrow> s = []"
  shows "sorted_wrt (<) (identities c family) \<and> [] \<notin> set (identities c family)"
proof (cases "pending_names (cfg_servers cfg) ds = []")
  case True
  note f = compiled_fields [OF assms(1) True, unfolded config_entries_simps]
  note e = entries_nonempty [OF assms(2)]
  note s = sort_key_strict_fst [OF f(12)] sort_key_strict_fst [OF f(13)] sort_key_strict_fst [OF f(14)]
    sort_key_strict_fst [OF f(15)]
  show ?thesis
  proof (cases family)
    case Page_tools
    show ?thesis
    proof (cases "cfg_tool_search cfg")
      case True
      then have "identities c family = [''call_tool'', ''search_tools'']"
        by (simp add: Page_tools f(2) search_definitions_names)
      then show ?thesis by simp
    next
      case False
      then show ?thesis using s(1) e(1) by (force simp: Page_tools f(2))
    qed
  next
    case Page_prompts
    then show ?thesis using s(2) e(2) by (force simp: f(3))
  next
    case Page_resources
    then show ?thesis using s(3) e(3) by (force simp: f(4))
  next
    case Page_templates
    then show ?thesis using s(4) e(4) by (force simp: f(5))
  qed
next
  case False
  have "cat_visible_tools c = [authorization_tool] \<and> cat_prompts c = [] \<and> cat_resources c = [] \<and> cat_templates c = []"
  proof (rule compile_discovered_cases [OF assms(1)])
    fix i assume "new_catalog H (setup_catalog (pending_names (cfg_servers cfg) ds) i) = Some c"
    from new_catalog_fields [OF this] show ?thesis
      by (simp add: setup_catalog_def new_compile_catalog_def)
  qed (use False in simp)
  then show ?thesis
    by (cases family) (simp_all add: authorization_tool_def authorization_tool_name_def)
qed

text \<open>A sample of the JSON functions: the cursors of one snapshot.\<close>

definition sample_json :: json_lib where
  "sample_json = \<lparr>
     json_text = (\<lambda>v. case v of JObj [_, (_, JStr f), (_, JStr a)] \<Rightarrow> f @ CHR '','' # a | _ \<Rightarrow> ''?''),
     json_parse = (\<lambda>s. case index_byte s CHR '','' of None \<Rightarrow> None
        | Some n \<Rightarrow> Some (cursor_json \<lparr>cur_catalog = ''id'', cur_family = take n s, cur_after = drop (n + 1) s\<rparr>))\<rparr>"

lemma sample_json_keeps:
  "json_keeps sample_json (cursor_json \<lparr>cur_catalog = ''id'', cur_family = family_name family, cur_after = a\<rparr>)"
proof -
  have "CHR '','' \<notin> set (family_name family)" by (cases family) simp_all
  then show ?thesis
    by (simp add: json_keeps_def sample_json_def cursor_json_def index_byte_append)
qed

lemma sample_listing:
  assumes "sample_compiled False False = Inr c"
  shows "cat_id c = ''id'' \<and> length (identities c family) < 2 ^ 62
     \<and> identities c Page_tools = [''a__run'', ''b__run'']"
proof -
  have "let c = projr (sample_compiled False False) in cat_id c = ''id'' \<and> length (identities c Page_tools) = 2
      \<and> length (identities c Page_prompts) = 2 \<and> length (identities c Page_resources) = 2
      \<and> length (identities c Page_templates) = 0 \<and> identities c Page_tools = [''a__run'', ''b__run'']"
    by code_simp
  with assms show ?thesis by (cases family) (simp_all add: Let_def)
qed

text \<open>
  C6: A client that follows the cursors from the first page on, with any positive page size, receives
  every tool, prompt, resource and template of the catalog exactly once, in order, in at most one
  request more than there are items: no cursor the catalog hands out is rejected and no page panics.
\<close>

theorem pages_cover_catalog:
  assumes "compile_discovered L H cfg pres ds = Inr c"
    and "\<forall>s. url_scheme L [] = Some s \<longrightarrow> s = []"
    and "\<forall>family. length (identities c family) < 2 ^ 62 \<and> (\<forall>a \<in> set (identities c family).
           json_keeps J (cursor_json \<lparr>cur_catalog = cat_id c, cur_family = family_name family, cur_after = a\<rparr>))"
    and "0 < n" and "n < 2 ^ 62"
  shows "walk (\<lambda>cur. page_tools J c cur n) (length (cat_visible_tools c) + 1) [] = Some (cat_visible_tools c)
     \<and> walk (\<lambda>cur. page_prompts J c cur n) (length (cat_prompts c) + 1) [] = Some (cat_prompts c)
     \<and> walk (\<lambda>cur. page_resources J c cur n) (length (cat_resources c) + 1) [] = Some (cat_resources c)
     \<and> walk (\<lambda>cur. page_templates J c cur n) (length (cat_templates c) + 1) [] = Some (cat_templates c)"
proof -
  have ok: "listing_ok J c family (identities c family)" for family
    using compiled_identities [OF assms(1,2)] assms(3) by (auto simp: listing_ok_def)
  note w = walk_at [where i = 0, unfolded cursor_at_0 drop_0, OF _ assms(4,5)]
  have "walk (\<lambda>cur. page_tools J c cur n) (length (cat_visible_tools c) + 1) [] = Some (cat_visible_tools c)"
    unfolding page_tools_def identities.simps by (rule w [OF ok [of Page_tools, unfolded identities.simps]]) simp_all
  moreover have "walk (\<lambda>cur. page_prompts J c cur n) (length (cat_prompts c) + 1) [] = Some (cat_prompts c)"
    unfolding page_prompts_def identities.simps by (rule w [OF ok [of Page_prompts, unfolded identities.simps]]) simp_all
  moreover have "walk (\<lambda>cur. page_resources J c cur n) (length (cat_resources c) + 1) [] = Some (cat_resources c)"
    unfolding page_resources_def identities.simps by (rule w [OF ok [of Page_resources, unfolded identities.simps]]) simp_all
  moreover have "walk (\<lambda>cur. page_templates J c cur n) (length (cat_templates c) + 1) [] = Some (cat_templates c)"
    unfolding page_templates_def identities.simps by (rule w [OF ok [of Page_templates, unfolded identities.simps]]) simp_all
  ultimately show ?thesis by blast
qed

theorem pages_cover_catalog_witness:
  "\<exists>c. sample_compiled False False = Inr c \<and> walk (\<lambda>cur. page_tools sample_json c cur 1) 3 [] = Some (cat_visible_tools c)"
proof -
  obtain c where c: "sample_compiled False False = Inr c" using sample_compiled_ok by blast
  note l = sample_listing [OF c]
  have "length (cat_visible_tools c) = 2" using arg_cong [of _ _ length, OF conjunct2 [OF conjunct2 [OF l]]] by simp
  moreover have "walk (\<lambda>cur. page_tools sample_json c cur 1) (length (cat_visible_tools c) + 1) [] = Some (cat_visible_tools c)"
    by (rule conjunct1 [OF pages_cover_catalog [OF c [unfolded sample_compiled_def]]])
      (use l in \<open>simp_all add: sample_json_keeps sample_uris_def\<close>)
  ultimately show ?thesis using c by simp
qed

text \<open>
  A cursor is accepted exactly when it decodes to the id of this catalog, to the family that is
  listed and to an identity the family has: cursors of another snapshot, of another family or of a
  feature that is gone are rejected.
\<close>

theorem cursor_accepted_iff:
  assumes "compile_discovered L H cfg pres ds = Inr c"
    and "\<forall>s. url_scheme L [] = Some s \<longrightarrow> s = []"
    and "cur \<noteq> []"
  shows "(\<exists>start. page_start J c family (identities c family) cur = Inr start) \<longleftrightarrow>
     (\<exists>a \<in> set (identities c family). decode_cursor J cur =
        Some \<lparr>cur_catalog = cat_id c, cur_family = family_name family, cur_after = a\<rparr>)"
proof -
  note s = compiled_identities [OF assms(1,2), of family]
  have found: "search_strings (identities c family) a < length (identities c family)
      \<and> identities c family ! search_strings (identities c family) a = a" if "a \<in> set (identities c family)" for a
    using s that by (auto simp: in_set_conv_nth search_strings_nth)
  show ?thesis
  proof
    assume "\<exists>start. page_start J c family (identities c family) cur = Inr start"
    then obtain d where d: "decode_cursor J cur = Some d" "cur_catalog d = cat_id c"
        "cur_family d = family_name family"
      and i: "search_strings (identities c family) (cur_after d) < length (identities c family)"
        "identities c family ! search_strings (identities c family) (cur_after d) = cur_after d"
      using assms(3) by (auto simp: page_start_def Let_def not_le split: option.splits if_splits)
    from i have "cur_after d \<in> set (identities c family)" by (metis nth_mem)
    moreover have "d = \<lparr>cur_catalog = cat_id c, cur_family = family_name family, cur_after = cur_after d\<rparr>"
      using d(2,3) by (cases d) simp
    ultimately show "\<exists>a \<in> set (identities c family). decode_cursor J cur =
        Some \<lparr>cur_catalog = cat_id c, cur_family = family_name family, cur_after = a\<rparr>"
      using d(1) by metis
  next
    assume "\<exists>a \<in> set (identities c family). decode_cursor J cur =
        Some \<lparr>cur_catalog = cat_id c, cur_family = family_name family, cur_after = a\<rparr>"
    then obtain a where a: "a \<in> set (identities c family)" and d: "decode_cursor J cur =
        Some \<lparr>cur_catalog = cat_id c, cur_family = family_name family, cur_after = a\<rparr>" by blast
    from a s have "a \<noteq> []" by auto
    with found [OF a] d assms(3)
    show "\<exists>start. page_start J c family (identities c family) cur = Inr start"
      by (simp add: page_start_def Let_def)
  qed
qed

theorem cursor_accepted_iff_witness:
  "\<exists>c cur. sample_compiled False False = Inr c \<and> cur \<noteq> []
     \<and> (\<exists>start. page_start sample_json c Page_tools (identities c Page_tools) cur = Inr start)
     \<and> (\<nexists>start. page_start sample_json c Page_prompts (identities c Page_prompts) cur = Inr start)"
proof -
  obtain c where c: "sample_compiled False False = Inr c" using sample_compiled_ok by blast
  let ?d = "\<lparr>cur_catalog = ''id'', cur_family = family_name Page_tools, cur_after = ''a__run''\<rparr>"
  let ?cur = "encode_cursor sample_json ?d"
  have k: "json_keeps sample_json (cursor_json ?d)" by (rule sample_json_keeps)
  have ids: "identities c Page_tools = [''a__run'', ''b__run'']" and id: "cat_id c = ''id''"
    using sample_listing [OF c] by blast+
  note acc = cursor_accepted_iff [OF c [unfolded sample_compiled_def] _ cursor_nonempty [OF k],
      where J = sample_json]
  show ?thesis
    using c cursor_nonempty [OF k] acc [where family = Page_tools] acc [where family = Page_prompts]
      cursor_roundtrip [OF k]
    by (intro exI [of _ c] exI [of _ ?cur]) (simp add: sample_uris_def ids id del: identities.simps)
qed

end
