(* ===== verification/Search_Index.thy ===== *)
theory Search_Index
  imports Pagination
begin

text \<open>
  The index of \<open>toolsearch/search.go\<close>: the texts that are indexed (\<open>searchText\<close>, \<open>schemaTerms\<close>), a page of
  ranked results (\<open>Search\<close>) and the search tool (\<open>Call\<close>). Its background build is \<open>Index_Life\<close>. The ranking belongs to bleve: the function that answers a request
  for the first \<open>k\<close> hits is an argument. \<open>strings.ToLower\<close> is an argument too.
\<close>

section \<open>Indexed text\<close>

definition lower_or_digit :: "char \<Rightarrow> bool" where
  "lower_or_digit c \<longleftrightarrow> c \<ge> CHR ''a'' \<and> c \<le> CHR ''z'' \<or> c \<ge> CHR ''0'' \<and> c \<le> CHR ''9''"

definition upper :: "char \<Rightarrow> bool" where
  "upper c \<longleftrightarrow> c \<ge> CHR ''A'' \<and> c \<le> CHR ''Z''"

text \<open>The second character of a match cannot be the first of the next one, so no match is skipped.\<close>

fun split_camel_case :: "string \<Rightarrow> string" where
  "split_camel_case (c # d # s) =
     (if lower_or_digit c \<and> upper d then c # CHR '' '' # d # split_camel_case s
      else c # split_camel_case (d # s))"
| "split_camel_case s = s"

definition split_separators :: "string \<Rightarrow> string" where
  "split_separators s = map (\<lambda>c. if c \<in> set ''_-/.'' then CHR '' '' else c) s"

definition search_text :: "(string \<Rightarrow> string) \<Rightarrow> string \<Rightarrow> string" where
  "search_text to_lower value =
     to_lower value @ '' '' @ to_lower (split_separators (split_camel_case value))"

text \<open>
  \<open>schemaTerms\<close> decodes the schema into Go maps (the last of several members of the same name stays)
  and walks it; every step of the walk stops when 256 parts are collected.
\<close>

definition max_parts :: nat where
  "max_parts = 256"

definition go_map :: "(string \<times> json) list \<Rightarrow> (string \<times> json) list" where
  "go_map ms = sort_key fst (fold (\<lambda>(k, v). AList.update k v) ms [])"

text \<open>The loops of the walk, over the walk of a child \<open>w\<close>.\<close>

primrec walk_values :: "(json \<Rightarrow> string list \<Rightarrow> string list) \<Rightarrow> json list \<Rightarrow> string list \<Rightarrow> string list" where
  "walk_values w [] parts = parts"
| "walk_values w (j # js) parts = (if length parts \<ge> max_parts then parts else walk_values w js (w j parts))"

primrec walk_fields ::
    "(string \<Rightarrow> string) \<Rightarrow> (json \<Rightarrow> string list \<Rightarrow> string list) \<Rightarrow> (string \<times> json) list \<Rightarrow> string list \<Rightarrow> string list" where
  "walk_fields to_lower w [] parts = parts"
| "walk_fields to_lower w (f # fs) parts =
     (if length parts \<ge> max_parts then parts
      else walk_fields to_lower w fs (w (snd f) (parts @ [search_text to_lower (fst f)])))"

definition walk_member ::
    "(string \<Rightarrow> string) \<Rightarrow> (json \<Rightarrow> string list \<Rightarrow> string list) \<Rightarrow> string \<Rightarrow> json \<Rightarrow> string list \<Rightarrow> string list" where
  "walk_member to_lower w key child parts =
     (if key \<in> {''properties'', ''$defs'', ''definitions''}
      then (case child of JObj props \<Rightarrow> walk_fields to_lower w (go_map props) parts | _ \<Rightarrow> parts)
      else if key \<in> {''title'', ''description''}
      then (case child of JStr text \<Rightarrow> parts @ [text] | _ \<Rightarrow> parts)
      else if key \<in> {''items'', ''anyOf'', ''oneOf'', ''allOf''} then w child parts
      else parts)"

primrec walk_members ::
    "(string \<Rightarrow> string) \<Rightarrow> (json \<Rightarrow> string list \<Rightarrow> string list) \<Rightarrow> (string \<times> json) list \<Rightarrow> string list \<Rightarrow> string list" where
  "walk_members to_lower w [] parts = parts"
| "walk_members to_lower w (m # ms) parts =
     (if length parts \<ge> max_parts then parts
      else walk_members to_lower w ms (walk_member to_lower w (fst m) (snd m) parts))"

text \<open>The recursion is on the levels that are left: a call at depth 12 is the last to do anything.\<close>

primrec walk_schema :: "(string \<Rightarrow> string) \<Rightarrow> nat \<Rightarrow> json \<Rightarrow> string list \<Rightarrow> string list" where
  "walk_schema to_lower 0 value parts = parts"
| "walk_schema to_lower (Suc levels) value parts =
     (if length parts \<ge> max_parts then parts
      else (case value of
              JObj ms \<Rightarrow> walk_members to_lower (walk_schema to_lower levels) (go_map ms) parts
            | JArr js \<Rightarrow> walk_values (walk_schema to_lower levels) js parts
            | _ \<Rightarrow> parts))"

fun join_words :: "string list \<Rightarrow> string" where
  "join_words [] = []"
| "join_words [s] = s"
| "join_words (s # ss) = s @ '' '' @ join_words ss"

definition schema_parts :: "(string \<Rightarrow> string) \<Rightarrow> json \<Rightarrow> string list" where
  "schema_parts to_lower schema = walk_schema to_lower 13 schema []"

definition schema_terms :: "(string \<Rightarrow> string) \<Rightarrow> json option \<Rightarrow> string" where
  "schema_terms to_lower data = (case data of None \<Rightarrow> [] | Some schema \<Rightarrow> join_words (schema_parts to_lower schema))"

text \<open>The fields of one document of the index.\<close>

definition indexed_fields :: "(string \<Rightarrow> string) \<Rightarrow> document \<Rightarrow> (string \<times> string) list" where
  "indexed_fields to_lower d = [(''name'', search_text to_lower (doc_exposed_name d)),
     (''component'', search_text to_lower (doc_component d)),
     (''description'', tool_description (doc_tool d)),
     (''parameters'', schema_terms to_lower (Some (tool_input_schema (doc_tool d))))]"

section \<open>A page of results\<close>

record hit =
  hit_reference :: reference
  hit_revision :: string
  hit_component :: string
  hit_tool :: "mcp_tool option"

record search_results =
  sr_tools :: "hit list"
  sr_has_more :: bool

datatype search_error = Bad_search | Index_not_ready | Search_cancelled | Search_failed

text \<open>What \<open>await\<close> returns.\<close>

datatype awaited = Index_ready | Awaited_not_ready | Awaited_cancelled

definition hit_of :: "(string \<times> document) list \<Rightarrow> string \<Rightarrow> hit" where
  "hit_of docs i = (case map_of docs i of
     None \<Rightarrow> \<lparr>hit_reference = \<lparr>ref_name = []\<rparr>, hit_revision = [], hit_component = [], hit_tool = None\<rparr>
   | Some d \<Rightarrow> \<lparr>hit_reference = doc_reference d, hit_revision = doc_revision d,
       hit_component = doc_component d, hit_tool = Some (doc_tool d)\<rparr>)"

definition hit_order :: "string \<Rightarrow> string \<times> int \<Rightarrow> bool \<times> int \<times> string" where
  "hit_order text h = (fst h \<noteq> text, - snd h, fst h)"

definition search_index ::
    "(string \<times> document) list \<Rightarrow> (string \<Rightarrow> nat \<Rightarrow> (string \<times> int) list option) \<Rightarrow> awaited \<Rightarrow> string \<Rightarrow> int \<Rightarrow> int
       \<Rightarrow> (search_error, search_results) res" where
  "search_index docs rank waited text limit offset =
     (if trim_space text = [] \<or> limit < 1 \<or> offset < 0 then Inl Bad_search
      else (case waited of
        Awaited_not_ready \<Rightarrow> Inl Index_not_ready
      | Awaited_cancelled \<Rightarrow> Inl Search_cancelled
      | Index_ready \<Rightarrow>
        let n = int (length docs) in
        if offset \<ge> n then Inr \<lparr>sr_tools = [], sr_has_more = False\<rparr>
        else
          let stop = offset + min limit (n - offset);
              fetch = (if stop < n then stop + 1 else stop)
          in (case rank text (nat fetch) of
                None \<Rightarrow> Inl Search_failed
              | Some found \<Rightarrow>
                let hits = (if map_of docs text \<noteq> None \<and> \<not> (\<exists>h \<in> set found. fst h = text)
                            then found @ [(text, 0)] else found);
                    ranked = sort_key (hit_order text) hits;
                    len = int (length ranked)
                in Inr \<lparr>sr_tools = map (\<lambda>h. hit_of docs (fst h))
                          (drop (nat (min offset len)) (take (nat (min stop len)) ranked)),
                        sr_has_more = len > stop\<rparr>)))"

section \<open>The search tool\<close>

definition parse_int64 :: "string \<Rightarrow> int option" where
  "parse_int64 s =
     (let (neg, ds) = (case s of [] \<Rightarrow> (False, []) | c # r \<Rightarrow> if c = CHR ''-'' then (True, r) else (False, s));
          n = foldl (\<lambda>n d. n * 10 + (of_char d - 48)) 0 ds;
          v = (if neg then - n else n)
      in if ds = [] \<or> \<not> list_all (\<lambda>c. c \<ge> CHR ''0'' \<and> c \<le> CHR ''9'') ds then None
         else if v < - (2 ^ 63) \<or> v \<ge> 2 ^ 63 then None else Some v)"

fun store_int :: "json list \<Rightarrow> int \<Rightarrow> int option" where
  "store_int [] v = Some v"
| "store_int (JNull # js) v = store_int js v"
| "store_int (JNum s # js) v = (case parse_int64 s of None \<Rightarrow> None | Some n \<Rightarrow> store_int js n)"
| "store_int (j # js) v = None"

definition tool_error :: "string \<Rightarrow> call_result" where
  "tool_error message = text_result message True"

text \<open>
  The arguments are the marshalled value (\<open>None\<close>: it cannot be marshalled); \<open>results_json\<close> is the JSON
  value of the results and \<open>json_text\<close> its text, \<open>None\<close> an error of the marshaller.
\<close>

definition call_search ::
    "(string \<Rightarrow> int \<Rightarrow> int \<Rightarrow> (search_error, search_results) res) \<Rightarrow> (search_results \<Rightarrow> (json \<times> string) option)
       \<Rightarrow> json option \<Rightarrow> (search_error, call_result) res" where
  "call_search search marshal arguments =
     (let invalid = Inr (tool_error ''INVALID_ARGUMENTS: expected query and optional limit and offset'') in
      case (case arguments of Some JNull \<Rightarrow> Some [] | Some (JObj ms) \<Rightarrow> Some ms | _ \<Rightarrow> None) of
        None \<Rightarrow> invalid
      | Some ms \<Rightarrow>
        (case (store_string (members_named ''query'' ms) [], store_int (members_named ''limit'' ms) 0,
               store_int (members_named ''offset'' ms) 0) of
           (Some text, Some limit0, Some offset) \<Rightarrow>
             let limit = (if limit0 = 0 then 5 else limit0) in
             if trim_space text = [] \<or> limit < 1 \<or> offset < 0
             then Inr (tool_error ''INVALID_ARGUMENTS: query must be nonempty, limit must be positive, and offset must be nonnegative'')
             else (case search text limit offset of
                     Inl Index_not_ready \<Rightarrow>
                       Inr (tool_error ''SEARCH_INDEX_NOT_READY: Tool search is still indexing; retry shortly.'')
                   | Inl err \<Rightarrow> Inl err
                   | Inr results \<Rightarrow>
                     (case marshal results of
                        None \<Rightarrow> Inl Search_failed
                      | Some (j, text) \<Rightarrow> Inr \<lparr>cr_is_error = False, cr_content = Some [Text_content text],
                          cr_structured = Some j, cr_rest = JNull\<rparr>))
         | _ \<Rightarrow> invalid))"

section \<open>The parts of a schema are bounded\<close>

lemma walk_fields_bound:
  assumes "\<And>j ps. length ps \<le> max_parts \<Longrightarrow> length (w j ps) \<le> max_parts"
  shows "length parts \<le> max_parts \<Longrightarrow> length (walk_fields low w fs parts) \<le> max_parts"
proof (induction fs arbitrary: parts)
  case (Cons f fs)
  have "length (w (snd f) (parts @ [search_text low (fst f)])) \<le> max_parts" if "length parts < max_parts"
    using that by (intro assms) simp
  with Cons show ?case by auto
qed simp

lemma walk_values_bound:
  assumes "\<And>j ps. length ps \<le> max_parts \<Longrightarrow> length (w j ps) \<le> max_parts"
  shows "length parts \<le> max_parts \<Longrightarrow> length (walk_values w js parts) \<le> max_parts"
  by (induction js arbitrary: parts) (auto intro: assms)

lemma walk_members_bound:
  assumes "\<And>j ps. length ps \<le> max_parts \<Longrightarrow> length (w j ps) \<le> max_parts"
  shows "length parts \<le> max_parts \<Longrightarrow> length (walk_members low w ms parts) \<le> max_parts"
proof (induction ms arbitrary: parts)
  case (Cons m ms)
  have "length (walk_member low w (fst m) (snd m) parts) \<le> max_parts" if "length parts < max_parts"
    using that assms walk_fields_bound [OF assms]
    by (auto simp: walk_member_def split: json.splits)
  with Cons show ?case by auto
qed simp

lemma walk_schema_bound:
  "length parts \<le> max_parts \<Longrightarrow> length (walk_schema low levels v parts) \<le> max_parts"
proof (induction levels arbitrary: v parts)
  case (Suc levels)
  note members = walk_members_bound [OF Suc.IH] and elements = walk_values_bound [OF Suc.IH]
  from Suc.prems show ?case
    by (cases v) (auto intro: members elements)
qed simp

text \<open>
  However large and deep a tool's input schema is, and whatever its members repeat, the index
  takes at most 256 parts of it.
\<close>

theorem schema_parts_bounded: "length (schema_parts to_lower schema) \<le> 256"
  using walk_schema_bound [of "[]" to_lower 13 schema]
  unfolding schema_parts_def max_parts_def by simp

section \<open>Pages of the ranking\<close>

text \<open>
  What bleve documents of a request sorted by falling score and then by id: a ranking of some of the
  documents, of which a request for \<open>k\<close> hits returns the first \<open>k\<close>.
\<close>

definition ranking_ok :: "(string \<times> document) list \<Rightarrow> (string \<times> int) list \<Rightarrow> bool" where
  "ranking_ok docs R \<longleftrightarrow> sorted (map (\<lambda>h. (- snd h, fst h)) R) \<and> distinct (map fst R)
     \<and> fst ` set R \<subseteq> fst ` set docs"

text \<open>The ranking with the document whose name is the query moved, or added, to the front.\<close>

definition promoted :: "(string \<times> document) list \<Rightarrow> (string \<times> int) list \<Rightarrow> string \<Rightarrow> string list" where
  "promoted docs R text =
     (if map_of docs text \<noteq> None then text # filter (\<lambda>i. i \<noteq> text) (map fst R) else map fst R)"

lemma ranking_take: "ranking_ok docs R \<Longrightarrow> ranking_ok docs (take k R)"
  unfolding ranking_ok_def
  by (metis (no_types, lifting) distinct_take image_mono order_trans set_take_subset sorted_wrt_take take_map)

lemma sorted_order_others:
  assumes "sorted (map (\<lambda>h. (- snd h, fst h)) R)"
  shows "sorted (map (hit_order text) (filter (\<lambda>h. fst h \<noteq> text) R))"
  using assms by (induction R) (auto simp: hit_order_def less_eq_prod_def)

lemma filter_key: "distinct (map fst R) \<Longrightarrow> h \<in> set R \<Longrightarrow> filter (\<lambda>x. fst x = fst h) R = [h]"
  by (induction R) (auto simp: filter_empty_conv rev_image_eqI)

lemma sort_hits_found:
  assumes "ranking_ok docs R" and "h \<in> set R" and "fst h = text"
  shows "sort_key (hit_order text) R = h # filter (\<lambda>x. fst x \<noteq> text) R"
proof (rule sort_key_inj_key_eq)
  have one: "filter (\<lambda>x. fst x = text) R = [h]"
    using assms filter_key [of R h] by (simp add: ranking_ok_def)
  have "mset R = mset (filter (\<lambda>x. fst x = text) R) + mset (filter (\<lambda>x. \<not> fst x = text) R)"
    by (simp add: mset_filter multiset_partition [symmetric])
  then show "mset R = mset (h # filter (\<lambda>x. fst x \<noteq> text) R)" unfolding one by simp
  show "inj_on (hit_order text) (set R)"
    by (auto simp: inj_on_def hit_order_def prod_eq_iff)
  show "sorted (map (hit_order text) (h # filter (\<lambda>x. fst x \<noteq> text) R))"
    using sorted_order_others [of R "text"] assms by (auto simp: ranking_ok_def hit_order_def less_eq_prod_def)
qed

lemma sort_hits_added:
  assumes "ranking_ok docs R" and "\<forall>x \<in> set R. fst x \<noteq> text" and "fst h = text"
  shows "sort_key (hit_order text) (R @ [h]) = h # R"
proof (rule sort_key_inj_key_eq)
  show "inj_on (hit_order text) (set (R @ [h]))"
    by (auto simp: inj_on_def hit_order_def prod_eq_iff)
  have "filter (\<lambda>x. fst x \<noteq> text) R = R" using assms(2) by (simp add: filter_id_conv)
  then show "sorted (map (hit_order text) (h # R))"
    using sorted_order_others [of R "text"] assms by (auto simp: ranking_ok_def hit_order_def less_eq_prod_def)
qed simp

lemma sort_hits_absent:
  assumes "ranking_ok docs R" and "\<forall>x \<in> set R. fst x \<noteq> text"
  shows "sort_key (hit_order text) R = R"
proof (rule sort_key_inj_key_eq)
  show "inj_on (hit_order text) (set R)"
    by (auto simp: inj_on_def hit_order_def prod_eq_iff)
  have "filter (\<lambda>x. fst x \<noteq> text) R = R" using assms(2) by (simp add: filter_id_conv)
  then show "sorted (map (hit_order text) R)"
    using sorted_order_others [of R "text"] assms by (simp add: ranking_ok_def)
qed simp

lemma filter_absent: "x \<notin> set xs \<Longrightarrow> filter (\<lambda>i. i \<noteq> x) xs = xs"
  by (induction xs) auto

lemma filter_one_out: "distinct zs \<Longrightarrow> length zs \<le> length (filter (\<lambda>i. i \<noteq> x) zs) + 1"
proof (induction zs)
  case (Cons z zs)
  then show ?case by (cases "z = x") (auto simp: filter_absent)
qed simp

lemma filter_other_length: "distinct xs \<Longrightarrow> x \<in> set xs \<Longrightarrow> Suc (length (filter (\<lambda>i. i \<noteq> x) xs)) = length xs"
proof (induction xs)
  case (Cons y xs)
  then show ?case by (cases "y = x") (auto simp: filter_absent)
qed simp

lemma take_filter_take:
  assumes "distinct xs" and "k \<le> n"
  shows "take k (x # filter (\<lambda>i. i \<noteq> x) (take n xs)) = take k (x # filter (\<lambda>i. i \<noteq> x) xs)"
proof (cases "n \<le> length xs")
  case True
  have "filter (\<lambda>i. i \<noteq> x) xs = filter (\<lambda>i. i \<noteq> x) (take n xs) @ filter (\<lambda>i. i \<noteq> x) (drop n xs)"
    by (simp flip: filter_append)
  moreover have "k \<le> Suc (length (filter (\<lambda>i. i \<noteq> x) (take n xs)))"
    using filter_one_out [of "take n xs" x] assms True by simp
  ultimately show ?thesis by (cases k) simp_all
qed simp

lemma promoted_bound:
  assumes "distinct (map fst docs)" and "ranking_ok docs R"
  shows "length (promoted docs R q) \<le> length docs"
proof -
  have sub: "set (promoted docs R q) \<subseteq> set (map fst docs)"
    using assms(2) by (auto simp: promoted_def ranking_ok_def map_of_eq_None_iff split: if_splits)
  have "distinct (promoted docs R q)"
    using assms(2) by (auto simp: promoted_def ranking_ok_def)
  then have "length (promoted docs R q) = card (set (promoted docs R q))" by (simp add: distinct_card)
  also have "\<dots> \<le> card (set (map fst docs))" using sub by (intro card_mono) simp_all
  also have "\<dots> = length docs" using assms(1) by (subst distinct_card) simp_all
  finally show ?thesis .
qed

text \<open>The hits of one request after sorting, and what they say about the promoted ranking.\<close>

lemma sorted_hits:
  fixes q :: string
  assumes "ranking_ok docs R" and "stop \<le> fetch"
    and "fetch = length docs \<and> stop = fetch \<or> fetch = stop + 1" and "distinct (map fst docs)"
  defines "found \<equiv> take fetch R"
  defines "ranked \<equiv> sort_key (hit_order q) (if map_of docs q \<noteq> None \<and> \<not> (\<exists>h \<in> set found. fst h = q)
      then found @ [(q, 0)] else found)"
  shows "take stop (map fst ranked) = take stop (promoted docs R q)
     \<and> (stop < length ranked \<longleftrightarrow> stop < length (promoted docs R q))"
proof -
  have ok: "ranking_ok docs found" unfolding found_def by (rule ranking_take [OF assms(1)])
  have dist: "distinct (map fst R)" and sub: "fst ` set R \<subseteq> fst ` set docs"
    using assms(1) by (simp_all add: ranking_ok_def)
  have bound: "length (promoted docs R q) \<le> length docs" by (rule promoted_bound [OF assms(4,1)])
  have mapf: "map fst (filter (\<lambda>x. fst x \<noteq> q) xs) = filter (\<lambda>i. i \<noteq> q) (map fst xs)" for xs :: "(string \<times> int) list"
    by (simp add: filter_map comp_def)
  have fm: "map fst found = take fetch (map fst R)" by (simp add: found_def take_map)
  show ?thesis
  proof (cases "map_of docs q = None")
    case True
    then have out: "\<forall>x \<in> set R. fst x \<noteq> q" using sub by (auto simp: map_of_eq_None_iff)
    then have "\<forall>x \<in> set found. fst x \<noteq> q" by (auto simp: found_def dest: in_set_takeD)
    then have r: "ranked = found" unfolding ranked_def using True by (simp add: sort_hits_absent [OF ok])
    have len: "length R \<le> length docs" using bound True by (simp add: promoted_def)
    from r True assms(2,3) len show ?thesis
      by (auto simp: promoted_def fm found_def min_def take_map)
  next
    case False
    show ?thesis
    proof (cases "\<exists>h \<in> set found. fst h = q")
      case True
      then obtain h where h: "h \<in> set found" "fst h = q" by blast
      have r: "map fst ranked = q # filter (\<lambda>i. i \<noteq> q) (take fetch (map fst R))"
        unfolding ranked_def using True sort_hits_found [OF ok h] h(2) by (simp add: mapf fm)
      have inR: "q \<in> set (map fst R)" using h by (auto simp: found_def dest: in_set_takeD)
      have lenR: "length (promoted docs R q) = length R"
        using filter_other_length [OF dist inR] False by (simp add: promoted_def)
      have "length ranked = length found" unfolding ranked_def using True by simp
      then have "stop < length ranked \<longleftrightarrow> stop < length (promoted docs R q)"
        using assms(3) bound lenR by (auto simp: found_def)
      then show ?thesis
        using take_filter_take [OF dist assms(2), of q] False r by (simp add: promoted_def)
    next
      case none: False
      have r: "ranked = (q, 0) # found"
        unfolding ranked_def using none False by (simp add: sort_hits_added [OF ok])
      have "filter (\<lambda>i. i \<noteq> q) (take fetch (map fst R)) = take fetch (map fst R)"
        using none by (auto simp: filter_id_conv fm [symmetric])
      then have t: "take stop (map fst ranked) = take stop (promoted docs R q)"
        using take_filter_take [OF dist assms(2), of q] False by (simp add: promoted_def r fm)
      have "stop < length ranked \<longleftrightarrow> stop < length (promoted docs R q)"
      proof (cases "fetch < length R")
        case True
        have "length R \<le> length (promoted docs R q)"
          using filter_one_out [OF dist, of q] False by (simp add: promoted_def)
        with True assms(2,3) bound r show ?thesis by (auto simp: found_def)
      next
        case short: False
        then have "found = R" by (simp add: found_def)
        with none have "filter (\<lambda>i. i \<noteq> q) (map fst R) = map fst R" by (auto simp: filter_id_conv)
        then show ?thesis using False by (simp add: promoted_def r \<open>found = R\<close>)
      qed
      with t show ?thesis by blast
    qed
  qed
qed

text \<open>
  C8: A page of the search is exactly the requested window of the promoted ranking, in which a tool
  named like the query comes first, and \<open>hasMore\<close> says exactly whether the ranking goes on: pages that
  follow each other show every match once, whatever the page sizes are.
\<close>

theorem search_pages_exact:
  assumes "distinct (map fst docs)" and "ranking_ok docs R" and "\<forall>k. rank q k = Some (take k R)"
    and "trim_space q \<noteq> []" and "1 \<le> limit" and "0 \<le> offset"
  shows "search_index docs rank Index_ready q limit offset = Inr
     \<lparr>sr_tools = map (hit_of docs) (take (nat limit) (drop (nat offset) (promoted docs R q))),
      sr_has_more = offset + limit < int (length (promoted docs R q))\<rparr>"
proof (cases "int (length docs) \<le> offset")
  case True
  with promoted_bound [OF assms(1,2), of q] assms(4-6) show ?thesis
    by (simp add: search_index_def)
next
  case False
  define stop where "stop = nat (offset + min limit (int (length docs) - offset))"
  define fetch where "fetch = (if stop < length docs then stop + 1 else stop)"
  define found where "found = take fetch R"
  define ranked where "ranked = sort_key (hit_order q)
    (if map_of docs q \<noteq> None \<and> \<not> (\<exists>h \<in> set found. fst h = q) then found @ [(q, 0)] else found)"
  have stop: "int stop = offset + min limit (int (length docs) - offset)"
    using assms(5,6) False by (simp add: stop_def)
  have fetch: "int fetch = (if int stop < int (length docs) then int stop + 1 else int stop)"
    by (simp add: fetch_def)
  have run: "search_index docs rank Index_ready q limit offset = Inr
     \<lparr>sr_tools = map (\<lambda>h. hit_of docs (fst h)) (drop (nat (min offset (int (length ranked))))
         (take (nat (min (int stop) (int (length ranked)))) ranked)),
      sr_has_more = int (length ranked) > int stop\<rparr>"
  proof -
    have args: "(trim_space q = [] \<or> limit < 1 \<or> offset < 0) = False" "(int (length docs) \<le> offset) = False"
      using assms(4-6) False by auto
    have "rank q fetch = Some found" using assms(3) by (simp add: found_def)
    then show ?thesis
      unfolding search_index_def Let_def args stop [symmetric] fetch [symmetric] ranked_def
      by (simp only: if_False awaited.case nat_int option.case)
  qed
  have "take stop (map fst ranked) = take stop (promoted docs R q)
      \<and> (stop < length ranked \<longleftrightarrow> stop < length (promoted docs R q))"
    unfolding ranked_def found_def
    by (rule sorted_hits [OF assms(2) _ _ assms(1)]) (use stop in \<open>auto simp: fetch_def\<close>)
  moreover have "map (\<lambda>h. hit_of docs (fst h)) (drop (nat (min offset (int (length ranked))))
         (take (nat (min (int stop) (int (length ranked)))) ranked))
      = map (hit_of docs) (drop (nat offset) (take stop (map fst ranked)))"
    by (auto simp: drop_map take_map min_def nat_int_add comp_def)
  moreover have "take (nat limit) (drop (nat offset) (promoted docs R q)) = drop (nat offset) (take stop (promoted docs R q))"
  proof -
    have "take stop (promoted docs R q) = take (nat offset + nat limit) (promoted docs R q)"
    proof (cases "limit \<le> int (length docs) - offset")
      case True
      then have "stop = nat offset + nat limit" using stop assms(5,6) by simp
      then show ?thesis by simp
    next
      case False
      then have "length docs \<le> stop" "length docs \<le> nat offset + nat limit" using stop assms(5,6) by auto
      then show ?thesis using promoted_bound [OF assms(1,2), of q] by simp
    qed
    then show ?thesis by (simp add: drop_take)
  qed
  moreover have "stop < length (promoted docs R q) \<longleftrightarrow> offset + limit < int (length (promoted docs R q))"
    using stop promoted_bound [OF assms(1,2), of q] by (auto simp: min_def split: if_splits)
  ultimately show ?thesis unfolding run by simp
qed

text \<open>A sample: three tools, of which the query names the one that the ranking puts last.\<close>

definition sample_doc :: "string \<Rightarrow> document" where
  "sample_doc n = \<lparr>doc_exposed_name = n, doc_component = ''a'', doc_reference = \<lparr>ref_name = n\<rparr>,
     doc_revision = n @ ''1'', doc_tool = sample_tool n\<rparr>"

definition sample_docs :: "(string \<times> document) list" where
  "sample_docs = new_index [sample_doc ''x'', sample_doc ''y'', sample_doc ''z'']"

definition sample_ranking :: "(string \<times> int) list" where
  "sample_ranking = [(''x'', 9), (''z'', 9), (''y'', 2)]"

theorem search_pages_exact_witness:
  "map hit_revision (sr_tools (projr (search_index sample_docs (\<lambda>_ k. Some (take k sample_ranking))
     Index_ready ''y'' 2 0))) = [''y1'', ''x1'']
   \<and> search_index sample_docs (\<lambda>_ k. Some (take k sample_ranking)) Index_ready ''y'' 2 2
     = Inr \<lparr>sr_tools = [hit_of sample_docs ''z''], sr_has_more = False\<rparr>"
proof -
  have d: "distinct (map fst sample_docs)" by code_simp
  have r: "ranking_ok sample_docs sample_ranking"
    by (simp add: ranking_ok_def sample_ranking_def sample_docs_def new_index_def sample_doc_def less_eq_prod_def
        less_eq_list_code less_eq_char_def)
  have t: "trim_space ''y'' \<noteq> []" by code_simp
  have p: "promoted sample_docs sample_ranking ''y'' = [''y'', ''x'', ''z'']" by code_simp
  have h: "map hit_revision (map (hit_of sample_docs) [''y'', ''x'']) = [''y1'', ''x1'']" by code_simp
  show ?thesis
    using search_pages_exact [OF d r, where rank = "\<lambda>_ k. Some (take k sample_ranking)" and q = "''y''"
        and limit = 2 and offset = 0]
      search_pages_exact [OF d r, where rank = "\<lambda>_ k. Some (take k sample_ranking)" and q = "''y''"
        and limit = 2 and offset = 2] t p h
    by (simp add: numeral_2_eq_2)
qed

end
