(* ===== verification/Tool_Calls.thy ===== *)
theory Tool_Calls
  imports Rewrite Search_Index
begin

text \<open>
  \<open>catalog/tool_calls.go\<close> with \<open>SearchTool\<close> of \<open>catalog/search.go\<close>: what a \<open>tools/call\<close> request means for a
  catalog. Arguments are decoded JSON values (\<open>None\<close>: the raw message cannot be decoded).
\<close>

section \<open>Resolution\<close>

record resolved_tool_call =
  rs_route :: "tool_route option"
  rs_arguments :: "json option"
  rs_result :: "call_result option"

datatype tool_search_error = Search_disabled | Search_error search_error

definition search_tool ::
    "'t catalog \<Rightarrow> (json option \<Rightarrow> (search_error, call_result) res) \<Rightarrow> json option
       \<Rightarrow> (tool_search_error, call_result) res" where
  "search_tool c call arguments =
     (if cat_search_index c = None then Inl Search_disabled
      else (case call arguments of Inl e \<Rightarrow> Inl (Search_error e) | Inr r \<Rightarrow> Inr r))"

definition no_tool_call :: resolved_tool_call where
  "no_tool_call = \<lparr>rs_route = None, rs_arguments = None, rs_result = None\<rparr>"

definition failed_tool_call :: "string \<Rightarrow> string \<Rightarrow> resolved_tool_call" where
  "failed_tool_call code message =
     no_tool_call\<lparr>rs_result := Some (text_result (code @ '': '' @ message) True)\<rparr>"

text \<open>The result is the resolved call, whether the name is callable, and the error.\<close>

definition resolve_tool_call ::
    "digests \<Rightarrow> 't catalog \<Rightarrow> (json option \<Rightarrow> (search_error, call_result) res) \<Rightarrow> string \<Rightarrow> json option
       \<Rightarrow> resolved_tool_call \<times> bool \<times> tool_search_error option" where
  "resolve_tool_call H c call name arguments =
     (if \<not> cat_tool_search c
      then (case route_tool c name of
              None \<Rightarrow> (no_tool_call, False, None)
            | Some route \<Rightarrow>
              (\<lparr>rs_route = Some route, rs_arguments = arguments, rs_result = None\<rparr>, True, None))
      else if name = search_tool_name
      then (case search_tool c call arguments of
              Inl err \<Rightarrow> (no_tool_call, True, Some err)
            | Inr r \<Rightarrow> (no_tool_call\<lparr>rs_result := Some r\<rparr>, True, None))
      else if name = call_tool_name
      then (case parse_call_arguments arguments of
              None \<Rightarrow> (failed_tool_call ''INVALID_ARGUMENTS''
                ''name and revision are required; arguments must be an object when provided'', True, None)
            | Some args \<Rightarrow>
              (case route_reference H c \<lparr>ref_name = ca_name args\<rparr> of
                 None \<Rightarrow> (failed_tool_call ''TOOL_UNAVAILABLE'' ''tool is unavailable'', True, None)
               | Some (route, revision) \<Rightarrow>
                 if revision \<noteq> ca_revision args
                 then (failed_tool_call ''STALE_TOOL_REFERENCE'' ''tool changed; search again'', True, None)
                 else (\<lparr>rs_route = Some route, rs_arguments = Some (ca_arguments args), rs_result = None\<rparr>,
                       True, None)))
      else (no_tool_call, False, None))"

section \<open>Properties\<close>

text \<open>
  A resolution that is callable and has no error is either a downstream route or a local result,
  never both and never neither; one that is not callable has neither.
\<close>

theorem resolution_exclusive:
  "case resolve_tool_call H c call name arguments of
     (r, ok, None) \<Rightarrow> (ok \<longleftrightarrow> (rs_route r \<noteq> None) \<noteq> (rs_result r \<noteq> None)) \<and> (rs_route r = None \<or> rs_result r = None)
   | (r, ok, Some _) \<Rightarrow> ok \<and> cat_tool_search c \<and> name = search_tool_name \<and> r = no_tool_call"
  unfolding resolve_tool_call_def
  by (simp add: no_tool_call_def failed_tool_call_def split: option.split sum.split prod.split)

text \<open>
  C9: With tool search on, a call reaches a component only through the generic tool, with a reference
  to a tool of the catalog and the revision of exactly the definition the catalog lists: a reference to
  a changed, removed or never listed tool is answered locally with an error the client can recover from.
\<close>

theorem generic_call_current:
  assumes "compile_discovered L H cfg pres ds = Inr c" and "pending_names (cfg_servers cfg) ds = []"
    and "cfg_tool_search cfg"
    and "resolve_tool_call H c call name arguments = (r, ok, err)" and "rs_route r = Some route"
  shows "\<exists>args t. name = call_tool_name \<and> parse_call_arguments arguments = Some args
     \<and> t \<in> set (cat_tools c) \<and> tool_name t = ca_name args \<and> cat_tool_routes c (ca_name args) = Some route
     \<and> ca_revision args = revision_digest H \<lparr>ref_name = ca_name args\<rparr> (srv_name (tr_component route))
         (tool_name (tr_tool route)) t
     \<and> rs_arguments r = Some (ca_arguments args)"
proof -
  note f = compiled_fields [OF assms(1,2)]
  have search: "cat_tool_search c" using f(10) assms(3) by simp
  with assms(4,5) obtain args where n: "name = call_tool_name" and a: "parse_call_arguments arguments = Some args"
    and rr: "route_reference H c \<lparr>ref_name = ca_name args\<rparr> = Some (route, ca_revision args)"
    and ra: "rs_arguments r = Some (ca_arguments args)"
    by (auto simp: resolve_tool_call_def no_tool_call_def failed_tool_call_def split: if_splits option.splits sum.splits)
  from rr have "cat_tool_routes c (ca_name args) = Some route"
    by (auto simp: route_reference_def find_Some_iff split: option.splits)
  moreover obtain t where t: "t \<in> set (cat_tools c)" "tool_name t = ca_name args"
    using calculation unfolding f(1,6) map_of_keyed [OF f(12)] by force
  moreover from indexed_tools_callable [OF assms(1-3) t(1)] rr t(2)
  have "ca_revision args = revision_digest H \<lparr>ref_name = ca_name args\<rparr> (srv_name (tr_component route))
         (tool_name (tr_tool route)) t" by auto
  ultimately show ?thesis using n a ra by blast
qed

lemma sample_ready:
  "pending_names (cfg_servers (sample_config search [plain_server ''a'', plain_server ''b'']))
     [sample_found False, sample_found False] = []"
  "cfg_tool_search (sample_config search ss) = search"
  using sample_compiled_ok(2) [where pending = False] by (simp_all add: sample_config_def)

definition sample_call :: "json option" where
  "sample_call = Some (JObj [(''name'', JStr ''a__run''), (''revision'', JStr ''rev'')])"

theorem generic_call_current_witness:
  "\<exists>c r route t. sample_compiled True False = Inr c
     \<and> resolve_tool_call sample_digests c (\<lambda>_. Inl Search_failed) ''call_tool'' sample_call = (r, True, None)
     \<and> rs_route r = Some route \<and> rs_arguments r = Some (JObj [])
     \<and> t \<in> set (cat_tools c) \<and> tool_name t = ''a__run''"
proof -
  obtain c where c: "sample_compiled True False = Inr c" using sample_compiled_ok by blast
  let ?r = "resolve_tool_call sample_digests c (\<lambda>_. Inl Search_failed) ''call_tool'' sample_call"
  have "let r = resolve_tool_call sample_digests (projr (sample_compiled True False)) (\<lambda>_. Inl Search_failed)
       ''call_tool'' sample_call in rs_route (fst r) \<noteq> None \<and> snd r = (True, None)"
    by code_simp
  then obtain r route where r: "?r = (r, True, None)" "rs_route r = Some route"
    using c by (cases ?r) (auto simp: Let_def)
  have "parse_call_arguments sample_call = Some \<lparr>ca_name = ''a__run'', ca_revision = ''rev'', ca_arguments = JObj []\<rparr>"
    by code_simp
  with generic_call_current [OF c [unfolded sample_compiled_def] sample_ready(1) _ r] show ?thesis
    using c r by (auto simp: sample_ready(2))
qed

text \<open>
  Every tool of a search catalog can be invoked with the reference and the revision its search
  result shows, with any object of arguments; the object is passed on as it is.
\<close>

theorem generic_call_complete:
  assumes "compile_discovered L H cfg pres ds = Inr c" and "pending_names (cfg_servers cfg) ds = []"
    and "cfg_tool_search cfg" and "t \<in> set (cat_tools c)" and "cat_tool_routes c (tool_name t) = Some route"
    and "tool_name t \<noteq> []" and "revision \<noteq> []"
    and "revision = revision_digest H \<lparr>ref_name = tool_name t\<rparr> (srv_name (tr_component route)) (tool_name (tr_tool route)) t"
  shows "resolve_tool_call H c call call_tool_name (Some (JObj
      [(''name'', JStr (tool_name t)), (''revision'', JStr revision), (''arguments'', JObj object)]))
    = (\<lparr>rs_route = Some route, rs_arguments = Some (JObj object), rs_result = None\<rparr>, True, None)"
proof -
  have search: "cat_tool_search c" using compiled_fields(10) [OF assms(1,2)] assms(3) by simp
  have m: "members_named ''name'' [(''name'', x), (''revision'', y), (''arguments'', z)] = [x]"
    "members_named ''revision'' [(''name'', x), (''revision'', y), (''arguments'', z)] = [y]"
    "members_named ''arguments'' [(''name'', x), (''revision'', y), (''arguments'', z)] = [z]" for x y z
    by (simp_all add: members_named_def; code_simp)+
  have "parse_call_arguments (Some (JObj [(''name'', JStr (tool_name t)), (''revision'', JStr revision),
      (''arguments'', JObj object)])) = Some \<lparr>ca_name = tool_name t, ca_revision = revision, ca_arguments = JObj object\<rparr>"
    using assms(6,7) by (simp add: parse_call_arguments_def m)
  moreover have "call_tool_name \<noteq> search_tool_name" by code_simp
  moreover have "route_reference H c \<lparr>ref_name = tool_name t\<rparr> = Some (route, revision)"
    using indexed_tools_callable [OF assms(1-4)] assms(5,8) by auto
  ultimately show ?thesis using search by (simp add: resolve_tool_call_def)
qed

theorem generic_call_complete_witness:
  "\<exists>c t route. sample_compiled True False = Inr c \<and> t \<in> set (cat_tools c) \<and> tool_name t = ''a__run''
     \<and> resolve_tool_call sample_digests c (\<lambda>_. Inl Search_failed) ''call_tool'' (Some (JObj
         [(''name'', JStr (tool_name t)), (''revision'', JStr ''rev''), (''arguments'', JObj [(''k'', JNull)])]))
       = (\<lparr>rs_route = Some route, rs_arguments = Some (JObj [(''k'', JNull)]), rs_result = None\<rparr>, True, None)"
proof -
  obtain c where c: "sample_compiled True False = Inr c" using sample_compiled_ok by blast
  have "let c = projr (sample_compiled True False); t = hd (cat_tools c) in cat_tools c \<noteq> []
      \<and> tool_name t = ''a__run'' \<and> cat_tool_routes c (tool_name t) \<noteq> None"
    by code_simp
  then obtain route where "hd (cat_tools c) \<in> set (cat_tools c)" "tool_name (hd (cat_tools c)) = ''a__run''"
      "cat_tool_routes c (tool_name (hd (cat_tools c))) = Some route"
    using c by (auto simp: Let_def)
  then obtain t where t: "t \<in> set (cat_tools c)" "tool_name t = ''a__run''"
      "cat_tool_routes c (tool_name t) = Some route" by blast
  have call: "''call_tool'' = call_tool_name" by (simp add: call_tool_name_def)
  have "resolve_tool_call sample_digests c (\<lambda>_. Inl Search_failed) call_tool_name (Some (JObj
         [(''name'', JStr (tool_name t)), (''revision'', JStr ''rev''), (''arguments'', JObj [(''k'', JNull)])]))
       = (\<lparr>rs_route = Some route, rs_arguments = Some (JObj [(''k'', JNull)]), rs_result = None\<rparr>, True, None)"
    by (rule generic_call_complete [OF c [unfolded sample_compiled_def] sample_ready(1) _ t(1,3)])
      (simp_all add: t(2) sample_ready(2) sample_digests_def)
  with c t show ?thesis unfolding call by blast
qed

end
