(* ===== verification/Request_Catalog.thy ===== *)
theory Request_Catalog
  imports Tool_Calls
begin

text \<open>
  \<open>request_catalog.go\<close>: the configuration that is discovered for one request of a gateway with
  request-scoped discovery; it keeps every component that may own the called tool. The catalogs cached
  by the registry are an argument. \<open>frontendImplementation\<close> of \<open>composite.go\<close> names the server.
\<close>

section \<open>The narrowed configuration\<close>

definition before_slash :: "string \<Rightarrow> string" where
  "before_slash s = (case index_byte s CHR ''/'' of None \<Rightarrow> s | Some n \<Rightarrow> take n s)"

definition request_family :: "string \<Rightarrow> string" where
  "request_family method =
     (let family = (if method = ''subscriptions/listen'' then ''tools'' else before_slash method)
      in if family = ''tools'' \<or> family = ''prompts'' \<or> family = ''resources'' then family else ''initialize'')"

text \<open>One iteration over the servers of the clone; \<open>configured\<close> is the number of configured servers.\<close>

definition candidate :: "nat \<Rightarrow> string \<Rightarrow> server \<Rightarrow> server option" where
  "candidate configured name server =
     (if configured > 1 \<or> srv_prefix server \<noteq> []
      then (case namespace_prefix (srv_name server) (srv_prefix server) of
              Inl _ \<Rightarrow> None
            | Inr pre \<Rightarrow>
              (case tool_name_of pre ''x'' of
                 Inl _ \<Rightarrow> None
               | Inr marker \<Rightarrow>
                 if has_prefix name (trim_suffix marker ''x'') then Some (server\<lparr>srv_prefix := pre\<rparr>) else None))
      else Some server)"

definition candidates :: "nat \<Rightarrow> string \<Rightarrow> server list \<Rightarrow> server list" where
  "candidates configured name servers = somes (map (candidate configured name) servers)"

text \<open>The owner a cached catalog names, the unnarrowed configuration first.\<close>

fun cached_owner ::
    "digests \<Rightarrow> (config \<Rightarrow> 't catalog option) \<Rightarrow> string \<Rightarrow> config list \<Rightarrow> server option" where
  "cached_owner H cached name [] = None"
| "cached_owner H cached name (cfg # cfgs) =
     (case cached cfg of
        None \<Rightarrow> cached_owner H cached name cfgs
      | Some compiled \<Rightarrow>
        (case route_reference H compiled \<lparr>ref_name = name\<rparr> of
           None \<Rightarrow> cached_owner H cached name cfgs
         | Some (route, _) \<Rightarrow> Some ((tr_component route)\<lparr>srv_prefix := tr_prefix route\<rparr>)))"

definition scoped_config :: "config \<Rightarrow> string \<Rightarrow> config" where
  "scoped_config cfg method = cfg\<lparr>cfg_servers := map (\<lambda>s. s\<lparr>srv_discovery_method := request_family method\<rparr>)
     (cfg_servers cfg)\<rparr>"

definition narrow_to_tool ::
    "digests \<Rightarrow> (config \<Rightarrow> 't catalog option) \<Rightarrow> config \<Rightarrow> string \<Rightarrow> config" where
  "narrow_to_tool H cached clone name =
     (let cs = candidates (length (cfg_servers clone)) name (cfg_servers clone);
          selected = (if length cs > 0 then clone\<lparr>cfg_servers := cs\<rparr> else clone)
      in case cached_owner H cached name [clone, selected] of
           None \<Rightarrow> selected
         | Some server \<Rightarrow> selected\<lparr>cfg_servers := [server]\<rparr>)"

definition request_catalog_config ::
    "digests \<Rightarrow> (config \<Rightarrow> 't catalog option) \<Rightarrow> config \<Rightarrow> string \<Rightarrow> string \<Rightarrow> json option \<Rightarrow> config" where
  "request_catalog_config H cached cfg method name arguments =
     (if \<not> cfg_request_scoped_discovery cfg then cfg
      else let clone = scoped_config cfg method in
        if method \<noteq> ''tools/call'' \<or> cfg_defer_authorization cfg then clone
        else if cfg_tool_search cfg
        then (if name \<noteq> call_tool_name then clone
              else (case parse_call_arguments arguments of
                      None \<Rightarrow> clone\<lparr>cfg_servers := []\<rparr>
                    | Some args \<Rightarrow> narrow_to_tool H cached clone (ca_name args)))
        else narrow_to_tool H cached clone name)"

section \<open>The frontend's name\<close>

definition frontend_implementation :: "config \<Rightarrow> 't catalog option \<Rightarrow> implementation" where
  "frontend_implementation cfg discovered =
     (let base = \<lparr>impl_name = ''mmmcp'', impl_version = ''dev''\<rparr> in
      if length (cfg_servers cfg) = 1
      then (case server_info_of discovered of
              Some info \<Rightarrow> \<lparr>impl_name = impl_name info, impl_version = impl_version info\<rparr>
            | None \<Rightarrow> base)
      else \<lparr>impl_name = (if cfg_name cfg \<noteq> [] then cfg_name cfg else impl_name base),
            impl_version = (if cfg_version cfg \<noteq> [] then cfg_version cfg else impl_version base)\<rparr>)"

section \<open>The candidates\<close>

lemma marker_of:
  assumes "named_feature Kind_tool p ''x'' = Inr marker"
  shows "trim_suffix marker ''x'' = name_marker p"
  using assms by (auto simp: named_feature_Inr trim_suffix_def)

lemma marker_exists:
  assumes "tool_name_of p l = Inr n"
  shows "\<exists>marker. tool_name_of p ''x'' = Inr marker"
proof -
  have "part_ok ''x''" by (simp add: part_ok_def)
  moreover have "1 \<le> length l" using assms by (cases l) (auto simp: tool_name_of_def named_feature_Inr part_ok_def)
  ultimately show ?thesis using assms by (auto simp: tool_name_of_def named_feature_Inr)
qed

text \<open>The prefixes of a configuration, component by component.\<close>

definition prefix_of :: "nat \<Rightarrow> server \<Rightarrow> (namespace_error, string) res" where
  "prefix_of configured s = (if configured \<le> 1 \<and> srv_prefix s = [] then Inr [] else namespace_prefix (srv_name s) (srv_prefix s))"

lemma component_prefixes_nth:
  assumes "component_prefixes ss = Inr pres" and "(s, p) \<in> set (zip ss pres)"
  shows "prefix_of (length ss) s = Inr p"
proof -
  let ?f = "\<lambda>_ s. if length ss \<le> 1 \<and> srv_prefix s = [] then Inr []
     else (case namespace_prefix (srv_name s) (srv_prefix s) of Inl err \<Rightarrow> Inl (Naming_error (srv_name s) err) | Inr p \<Rightarrow> Inr p)"
  from assms(1) have m: "map_res ?f 0 ss = Inr pres" by (simp only: component_prefixes_def)
  from assms(2) obtain k where k: "k < length ss" "ss ! k = s" "pres ! k = p" by (auto simp: in_set_zip)
  from map_res_nth [OF m k(1)] k(2,3) show ?thesis
    by (auto simp: prefix_of_def split: if_splits sum.splits)
qed

lemma candidate_of_owner:
  assumes "prefix_of configured s = Inr p" and "tool_name_of p l = Inr n"
  shows "candidate configured n s = Some (s\<lparr>srv_prefix := p\<rparr>)"
proof (cases "configured > 1 \<or> srv_prefix s \<noteq> []")
  case True
  then have p: "namespace_prefix (srv_name s) (srv_prefix s) = Inr p"
    using assms(1) by (auto simp: prefix_of_def split: if_splits)
  obtain marker where marker: "tool_name_of p ''x'' = Inr marker" using marker_exists [OF assms(2)] by blast
  have "trim_suffix marker ''x'' = name_marker p"
    using marker by (intro marker_of) (simp add: tool_name_of_def)
  moreover have "has_prefix n (name_marker p)"
    using assms(2) by (auto simp: tool_name_of_def named_feature_Inr)
  ultimately show ?thesis using True by (simp add: candidate_def p marker)
next
  case False
  with assms(1) have "p = []" by (auto simp: prefix_of_def split: if_splits)
  with False show ?thesis by (simp add: candidate_def)
qed

text \<open>The owner of a name is among the candidates, with its prefix spelled out.\<close>

lemma owner_is_candidate:
  assumes "component_prefixes (cfg_servers cfg) = Inr pres" and "(s, p) \<in> set (zip (cfg_servers cfg) pres)"
    and "tool_name_of p l = Inr n"
  shows "s\<lparr>srv_discovery_method := ''tools'', srv_prefix := p\<rparr>
     \<in> set (candidates (length (cfg_servers cfg)) n (cfg_servers (scoped_config cfg ''tools/call'')))"
proof -
  have fam: "request_family ''tools/call'' = ''tools''" by code_simp
  have "prefix_of (length (cfg_servers cfg)) (s\<lparr>srv_discovery_method := ''tools''\<rparr>) = Inr p"
    using component_prefixes_nth [OF assms(1,2)] by (auto simp: prefix_of_def split: if_splits)
  from candidate_of_owner [OF this assms(3)]
  have "candidate (length (cfg_servers cfg)) n (s\<lparr>srv_discovery_method := ''tools''\<rparr>)
      = Some (s\<lparr>srv_discovery_method := ''tools'', srv_prefix := p\<rparr>)" by simp
  moreover have "s \<in> set (cfg_servers cfg)" using assms(2) by (auto dest: set_zip_leftD)
  ultimately show ?thesis
    by (force simp: candidates_def scoped_config_def fam image_iff)
qed

text \<open>The narrowed configuration gives every candidate the prefix the full configuration gives it.\<close>

lemma narrowed_prefixes_kept:
  assumes "component_prefixes servers = Inr pres" and "cs = candidates (length servers) name servers"
    and "cs \<noteq> []"
  shows "component_prefixes cs = Inr (map srv_prefix cs)
     \<and> list_all (\<lambda>c. prefix_of (length servers) c = Inr (srv_prefix c)) cs"
proof -
  have c: "prefix_of (length servers) c = Inr (srv_prefix c) \<and> prefix_of (length cs) c = Inr (srv_prefix c)"
    if mem: "c \<in> set cs" for c
  proof -
    from mem assms(2) obtain s where s: "candidate (length servers) name s = Some c"
      by (auto simp: candidates_def)
    show ?thesis
    proof (cases "length servers > 1 \<or> srv_prefix s \<noteq> []")
      case True
      with s obtain p where p: "namespace_prefix (srv_name s) (srv_prefix s) = Inr p" "c = s\<lparr>srv_prefix := p\<rparr>"
        by (auto simp: candidate_def split: sum.splits if_splits)
      from namespace_prefix_part_ok [OF p(1)] have "part_ok p" .
      with p(2) show ?thesis
        by (simp add: prefix_of_def namespace_prefix_configured part_ok_nonempty)
    next
      case False
      with s have "c = s" by (simp add: candidate_def)
      moreover have "length cs \<le> 1"
        using False assms(2) by (cases servers) (auto simp: candidates_def somes_def split: option.splits)
      ultimately show ?thesis using False by (simp add: prefix_of_def)
    qed
  qed
  have "map_res (\<lambda>_ s. if length cs \<le> 1 \<and> srv_prefix s = [] then Inr []
     else (case namespace_prefix (srv_name s) (srv_prefix s) of Inl err \<Rightarrow> Inl (Naming_error (srv_name s) err) | Inr p \<Rightarrow> Inr p))
     i xs = Inr (map srv_prefix xs)" if "set xs \<subseteq> set cs" for i xs
    using that
  proof (induction xs arbitrary: i)
    case (Cons x xs)
    then have "(if length cs \<le> 1 \<and> srv_prefix x = [] then Inr []
       else (case namespace_prefix (srv_name x) (srv_prefix x) of Inl err \<Rightarrow> Inl (Naming_error (srv_name x) err)
             | Inr p \<Rightarrow> Inr p)) = Inr (srv_prefix x)"
      using c [of x] by (auto simp: prefix_of_def split: if_splits)
    with Cons show ?case by (simp del: One_nat_def)
  qed simp
  then have "component_prefixes cs = Inr (map srv_prefix cs)"
    by (simp only: component_prefixes_def order_refl)
  with c show ?thesis by (simp add: list_all_iff)
qed

lemma component_prefixes_scoped:
  "component_prefixes (map (\<lambda>s. s\<lparr>srv_discovery_method := m\<rparr>) ss) = component_prefixes ss"
proof -
  have "map_res (\<lambda>_ s. if k \<le> 1 \<and> srv_prefix s = [] then Inr []
        else (case namespace_prefix (srv_name s) (srv_prefix s) of Inl err \<Rightarrow> Inl (Naming_error (srv_name s) err) | Inr p \<Rightarrow> Inr p))
      i (map (\<lambda>s. s\<lparr>srv_discovery_method := m\<rparr>) ss)
    = map_res (\<lambda>_ s. if k \<le> 1 \<and> srv_prefix s = [] then Inr []
        else (case namespace_prefix (srv_name s) (srv_prefix s) of Inl err \<Rightarrow> Inl (Naming_error (srv_name s) err) | Inr p \<Rightarrow> Inr p))
      i ss" for k i
    by (induction ss arbitrary: i) (simp_all split: sum.split)
  then show ?thesis unfolding component_prefixes_def length_map .
qed

section \<open>What the request calls, and what the components expose\<close>

text \<open>The tool a request calls: with tool search, calls go through the call tool, which names the tool.\<close>

definition called_tool :: "config \<Rightarrow> string \<Rightarrow> json option \<Rightarrow> string option" where
  "called_tool cfg name arguments =
     (if cfg_tool_search cfg \<and> name = call_tool_name then map_option ca_name (parse_call_arguments arguments)
      else Some name)"

text \<open>
  \<open>tools\<close> says which tools each component has. A component with prefix \<open>p\<close> exposes one of them under a name;
  a catalog of a configuration was compiled from discoveries that found nothing else.
\<close>

definition exposes :: "(string \<Rightarrow> mcp_tool set) \<Rightarrow> server \<Rightarrow> string \<Rightarrow> mcp_tool \<Rightarrow> string \<Rightarrow> bool" where
  "exposes tools s p t n \<longleftrightarrow> t \<in> tools (srv_name s) \<and> \<not> srv_disable_tools s \<and> tool_shown s t
     \<and> tool_exposed_name s p t = Inr n"

definition catalog_of ::
    "('t, 'v) uri_lib \<Rightarrow> digests \<Rightarrow> (string \<Rightarrow> mcp_tool set) \<Rightarrow> config \<Rightarrow> 't catalog \<Rightarrow> bool" where
  "catalog_of L H tools cfg c \<longleftrightarrow> (\<exists>pres ds. component_prefixes (cfg_servers cfg) = Inr pres
     \<and> compile_discovered L H cfg pres ds = Inr c \<and> pending_names (cfg_servers cfg) ds = []
     \<and> (\<forall>(s, p, d)\<in>set (config_parts cfg pres ds). \<forall>t. Some t \<in> set (ft_tools (dr_features d)) \<longrightarrow> t \<in> tools (srv_name s)))"

text \<open>The same component, up to the fields narrowing sets.\<close>

definition same_component :: "server \<Rightarrow> server \<Rightarrow> bool" where
  "same_component s' s \<longleftrightarrow> s'\<lparr>srv_prefix := srv_prefix s, srv_discovery_method := srv_discovery_method s\<rparr> = s"

lemma same_component_fields:
  assumes "same_component s' s"
  shows "srv_name s' = srv_name s" "srv_disable_tools s' = srv_disable_tools s" "srv_tools s' = srv_tools s"
proof -
  have "srv_name (s'\<lparr>srv_prefix := srv_prefix s, srv_discovery_method := srv_discovery_method s\<rparr>) = srv_name s"
    "srv_disable_tools (s'\<lparr>srv_prefix := srv_prefix s, srv_discovery_method := srv_discovery_method s\<rparr>) = srv_disable_tools s"
    "srv_tools (s'\<lparr>srv_prefix := srv_prefix s, srv_discovery_method := srv_discovery_method s\<rparr>) = srv_tools s"
    using assms unfolding same_component_def by simp_all
  then show "srv_name s' = srv_name s" "srv_disable_tools s' = srv_disable_tools s" "srv_tools s' = srv_tools s"
    by simp_all
qed

lemma same_component_updates:
  "same_component (s\<lparr>srv_discovery_method := m\<rparr>) s" "same_component (s\<lparr>srv_discovery_method := m, srv_prefix := p\<rparr>) s"
  "same_component s s"
  by (simp_all add: same_component_def)

lemma same_component_prefix: "same_component s' s \<Longrightarrow> same_component (s'\<lparr>srv_prefix := p\<rparr>) s"
  by (simp add: same_component_def)

lemma exposes_same: "same_component s' s \<Longrightarrow> exposes tools s' p t n = exposes tools s p t n"
  using same_component_fields [of s' s]
  by (simp add: exposes_def tool_shown_def tool_exposed_name_def tool_override_of_def)

lemma same_component_trans: "same_component a b \<Longrightarrow> same_component b c \<Longrightarrow> same_component a c"
proof -
  assume "same_component a b" and bc: "same_component b c"
  then have "b = a\<lparr>srv_prefix := srv_prefix b, srv_discovery_method := srv_discovery_method b\<rparr>"
    by (simp add: same_component_def)
  then obtain q m where "b = a\<lparr>srv_prefix := q, srv_discovery_method := m\<rparr>" by blast
  with bc show "same_component a c" by (simp add: same_component_def)
qed

section \<open>The owner a cached catalog names\<close>

lemma route_reference_routed: "route_reference H c \<lparr>ref_name = n\<rparr> = Some (r, v) \<Longrightarrow> cat_tool_routes c n = Some r"
  by (auto simp: route_reference_def find_Some_iff split: option.splits)

lemma catalog_of_owner:
  assumes "catalog_of L H tools cfg c" and "route_reference H c \<lparr>ref_name = n\<rparr> = Some (r, v)"
  obtains pres where "component_prefixes (cfg_servers cfg) = Inr pres"
    and "(tr_component r, tr_prefix r) \<in> set (zip (cfg_servers cfg) pres)"
    and "exposes tools (tr_component r) (tr_prefix r) (tr_tool r) n"
proof -
  obtain pres ds where c: "component_prefixes (cfg_servers cfg) = Inr pres"
    "compile_discovered L H cfg pres ds = Inr c" "pending_names (cfg_servers cfg) ds = []"
    "\<And>s p d t. (s, p, d) \<in> set (config_parts cfg pres ds) \<Longrightarrow> Some t \<in> set (ft_tools (dr_features d)) \<Longrightarrow> t \<in> tools (srv_name s)"
    using assms(1) unfolding catalog_of_def by fast
  from routed_tool [OF c(2,3) route_reference_routed [OF assms(2)]] obtain d where
    d: "(tr_component r, tr_prefix r, d) \<in> set (config_parts cfg pres ds)"
    and e: "exposes tools (tr_component r) (tr_prefix r) (tr_tool r) n"
    using c(4) unfolding exposes_def by blast
  from d have "(tr_component r, tr_prefix r) \<in> set (zip (cfg_servers cfg) pres)"
    unfolding config_parts_def by (force simp: set_zip)
  from that [OF c(1) this e] show thesis .
qed

lemma cached_owner_from:
  assumes "cached_owner H cached name cfgs = Some server"
  obtains cfg c r v where "cfg \<in> set cfgs" and "cached cfg = Some c"
    and "route_reference H c \<lparr>ref_name = name\<rparr> = Some (r, v)" and "server = (tr_component r)\<lparr>srv_prefix := tr_prefix r\<rparr>"
  using assms by (induction cfgs) (auto split: option.splits)

text \<open>The components of the two configurations whose catalogs may be cached are those of the full one.\<close>

lemma scoped_servers: "cfg_servers (scoped_config cfg method)
    = map (\<lambda>s. s\<lparr>srv_discovery_method := request_family method\<rparr>) (cfg_servers cfg)"
  by (simp add: scoped_config_def)

lemma scoped_component:
  assumes "component_prefixes (cfg_servers cfg) = Inr pres"
    and "component_prefixes (cfg_servers (scoped_config cfg method)) = Inr pres'"
    and "(s', p) \<in> set (zip (cfg_servers (scoped_config cfg method)) pres')"
  obtains s where "(s, p) \<in> set (zip (cfg_servers cfg) pres)" and "same_component s' s"
proof -
  have "pres' = pres" using assms(1,2) by (simp add: scoped_servers component_prefixes_scoped)
  with assms(3) obtain s where "(s, p) \<in> set (zip (cfg_servers cfg) pres)"
    "s' = s\<lparr>srv_discovery_method := request_family method\<rparr>"
    by (auto simp: scoped_servers zip_map1)
  with that same_component_updates(1) show thesis by blast
qed

lemma component_prefixes_length: "component_prefixes ss = Inr pres \<Longrightarrow> length pres = length ss"
  unfolding component_prefixes_def by (rule map_res_length)

lemma candidate_component:
  assumes "component_prefixes servers = Inr pres" and "cs = candidates (length servers) name servers"
    and "component_prefixes cs = Inr pres'" and "(c, p) \<in> set (zip cs pres')"
  obtains s where "(s, p) \<in> set (zip servers pres)" and "c = s\<lparr>srv_prefix := p\<rparr>"
proof -
  have "c \<in> set cs" using assms(4) by (rule set_zip_leftD)
  then have ne: "cs \<noteq> []" by auto
  from narrowed_prefixes_kept [OF assms(1,2) ne] assms(3) have p': "pres' = map srv_prefix cs"
    and k: "list_all (\<lambda>c. prefix_of (length servers) c = Inr (srv_prefix c)) cs" by simp_all
  have p: "p = srv_prefix c" using assms(4) unfolding p' by (auto simp: zip_map2 zip_same_conv_map)
  obtain s where s: "s \<in> set servers" "candidate (length servers) name s = Some c"
    using \<open>c \<in> set cs\<close> assms(2) by (auto simp: candidates_def)
  then obtain q where q: "(s, q) \<in> set (zip servers pres)"
    using component_prefixes_length [OF assms(1)] by (metis in_set_impl_in_set_zip1)
  from component_prefixes_nth [OF assms(1) q] have pq: "prefix_of (length servers) s = Inr q" .
  have "c = s\<lparr>srv_prefix := q\<rparr>"
    using s(2) pq by (auto simp: candidate_def prefix_of_def split: sum.splits if_splits)
  with p q that show thesis by simp
qed

lemma single_prefix:
  assumes "prefix_of configured s = Inr p" and "srv_prefix s' = p"
  shows "component_prefixes [s'] = Inr [p]"
proof (cases "p = []")
  case True
  with assms(2) show ?thesis by (simp add: component_prefixes_def)
next
  case False
  with assms(1) have "namespace_prefix (srv_name s) (srv_prefix s) = Inr p"
    by (auto simp: prefix_of_def split: if_splits)
  from namespace_prefix_part_ok [OF this] show ?thesis
    using False assms(2) by (simp add: component_prefixes_def namespace_prefix_configured)
qed

lemma narrowed_to_owner:
  assumes pres: "component_prefixes (cfg_servers cfg) = Inr pres" and s: "(s, p) \<in> set (zip (cfg_servers cfg) pres)"
    and expo: "exposes tools s p t n"
    and only: "\<And>s' p' t'. (s', p') \<in> set (zip (cfg_servers cfg) pres) \<Longrightarrow> exposes tools s' p' t' n \<Longrightarrow> s' = s \<and> p' = p"
    and sound: "\<And>x c. cached x = Some c \<Longrightarrow> catalog_of L H tools x c"
  shows "\<exists>owner pres'. component_prefixes (cfg_servers (narrow_to_tool H cached (scoped_config cfg ''tools/call'') n)) = Inr pres'
    \<and> (owner, p) \<in> set (zip (cfg_servers (narrow_to_tool H cached (scoped_config cfg ''tools/call'') n)) pres')
    \<and> same_component owner s"
proof -
  let ?clone = "scoped_config cfg ''tools/call''"
  let ?cs = "candidates (length (cfg_servers ?clone)) n (cfg_servers ?clone)"
  let ?selected = "?clone\<lparr>cfg_servers := ?cs\<rparr>"
  let ?owner = "s\<lparr>srv_discovery_method := ''tools'', srv_prefix := p\<rparr>"
  have len: "length (cfg_servers ?clone) = length (cfg_servers cfg)" by (simp add: scoped_servers)
  have cpres: "component_prefixes (cfg_servers ?clone) = Inr pres"
    using pres by (simp add: scoped_servers component_prefixes_scoped)
  obtain l where "tool_name_of p l = Inr n" using expo by (auto simp: exposes_def tool_exposed_name_def)
  from owner_is_candidate [OF pres s this] have mem: "?owner \<in> set ?cs" by (simp add: len)
  then have ne: "?cs \<noteq> []" by auto
  note kept = narrowed_prefixes_kept [OF cpres refl ne]
  show ?thesis
  proof (cases "cached_owner H cached n [?clone, ?selected]")
    case None
    then have n: "cfg_servers (narrow_to_tool H cached ?clone n) = ?cs"
      using ne by (simp add: narrow_to_tool_def Let_def)
    have "(?owner, p) \<in> set (zip ?cs (map srv_prefix ?cs))"
      using mem by (auto simp: zip_map2 zip_same_conv_map image_iff intro!: bexI [of _ ?owner])
    then show ?thesis unfolding n using kept same_component_updates(2) by blast
  next
    case (Some server)
    then have n: "cfg_servers (narrow_to_tool H cached ?clone n) = [server]"
      using ne by (simp add: narrow_to_tool_def Let_def)
    obtain x c r v where x: "x \<in> {?clone, ?selected}" "cached x = Some c"
      "route_reference H c \<lparr>ref_name = n\<rparr> = Some (r, v)" "server = (tr_component r)\<lparr>srv_prefix := tr_prefix r\<rparr>"
      by (rule cached_owner_from [OF Some]) auto
    obtain xpres where xp: "component_prefixes (cfg_servers x) = Inr xpres"
      "(tr_component r, tr_prefix r) \<in> set (zip (cfg_servers x) xpres)"
      "exposes tools (tr_component r) (tr_prefix r) (tr_tool r) n"
      by (rule catalog_of_owner [OF sound [OF x(2)] x(3)])
    have "\<exists>s'. (s', tr_prefix r) \<in> set (zip (cfg_servers ?clone) pres) \<and> same_component (tr_component r) s'"
    proof (cases "x = ?clone")
      case True
      with xp(1,2) cpres same_component_updates(3) show ?thesis by auto
    next
      case False
      with x(1) have cs: "cfg_servers x = ?cs" by auto
      obtain s' where "(s', tr_prefix r) \<in> set (zip (cfg_servers ?clone) pres)" "tr_component r = s'\<lparr>srv_prefix := tr_prefix r\<rparr>"
        by (rule candidate_component [OF cpres cs xp(1,2)])
      with same_component_prefix [OF same_component_updates(3)] show ?thesis by metis
    qed
    then obtain s' where s': "(s', tr_prefix r) \<in> set (zip (cfg_servers ?clone) pres)" "same_component (tr_component r) s'"
      by blast
    obtain s2 where s2: "(s2, tr_prefix r) \<in> set (zip (cfg_servers cfg) pres)" "same_component s' s2"
      by (rule scoped_component [OF pres cpres s'(1)])
    from only [OF s2(1)] xp(3) s'(2) s2(2) have eq: "s2 = s" "tr_prefix r = p"
      by (simp_all add: exposes_same)
    have "same_component server s"
      using same_component_prefix [OF same_component_trans [OF s'(2) s2(2)]] by (simp add: x(4) eq)
    moreover have "component_prefixes [server] = Inr [p]"
      by (rule single_prefix [OF component_prefixes_nth [OF pres s]]) (simp add: x(4) eq)
    ultimately show ?thesis unfolding n by auto
  qed
qed

section \<open>Narrowing twice\<close>

text \<open>
  An HTTP request is narrowed when it comes in and again when its catalog is looked up. The second time
  changes nothing, as long as the cached catalogs are catalogs of their configurations.
\<close>

lemma scoped_config_id:
  assumes "\<And>s. s \<in> set (cfg_servers cfg) \<Longrightarrow> srv_discovery_method s = request_family method"
  shows "scoped_config cfg method = cfg"
proof -
  have "map (\<lambda>s. s\<lparr>srv_discovery_method := request_family method\<rparr>) (cfg_servers cfg) = cfg_servers cfg"
    by (rule map_idI) (metis assms server.surjective server.update_convs(1))
  then show ?thesis by (simp add: scoped_config_def)
qed

lemma scoped_method: "s \<in> set (cfg_servers (scoped_config cfg method)) \<Longrightarrow> srv_discovery_method s = request_family method"
  by (auto simp: scoped_servers)

lemma candidate_method: "candidate k name s = Some c \<Longrightarrow> srv_discovery_method c = srv_discovery_method s"
  by (auto simp: candidate_def split: if_splits sum.splits)

lemma candidate_again:
  assumes "candidate k name s = Some c" and "k' > 1 \<Longrightarrow> k > 1"
  shows "candidate k' name c = Some c"
proof (cases "k > 1 \<or> srv_prefix s \<noteq> []")
  case True
  with assms(1) obtain p marker where p: "namespace_prefix (srv_name s) (srv_prefix s) = Inr p" "tool_name_of p ''x'' = Inr marker"
    "has_prefix name (trim_suffix marker ''x'')" "c = s\<lparr>srv_prefix := p\<rparr>"
    by (auto simp: candidate_def split: if_splits sum.splits)
  from namespace_prefix_part_ok [OF p(1)] have "part_ok p" .
  with p show ?thesis by (simp add: candidate_def namespace_prefix_configured part_ok_nonempty)
next
  case False
  with assms show ?thesis by (auto simp: candidate_def)
qed

lemma candidates_again: "candidates (length (candidates (length ss) name ss)) name (candidates (length ss) name ss)
    = candidates (length ss) name ss"
proof -
  let ?cs = "candidates (length ss) name ss"
  have "length (candidates k name xs) \<le> length xs" for k and xs :: "server list"
    by (induction xs) (auto simp: candidates_def somes_def split: option.split)
  then have len: "length ?cs \<le> length ss" .
  have "candidate (length ?cs) name c = Some c" if "c \<in> set ?cs" for c
    using that len by (auto simp: candidates_def intro: candidate_again)
  then have again: "map (candidate (length ?cs) name) ?cs = map Some ?cs" by simp
  show ?thesis unfolding candidates_def [of "length ?cs"] again by (rule somes_map_Some)
qed

lemma cached_owner_None_Cons:
  "cached_owner H cached name (cfg # cfgs) = None \<longleftrightarrow> cached_owner H cached name [cfg] = None \<and> cached_owner H cached name cfgs = None"
  by (auto split: option.splits)

lemma cached_owner_single:
  assumes "cached_owner H cached n [cfg] = Some server'" and "cfg_servers cfg = [server]"
    and "component_prefixes [server] = Inr [srv_prefix server]"
    and "\<And>x c. cached x = Some c \<Longrightarrow> catalog_of L H tools x c"
  shows "server' = server"
proof -
  obtain c r v where c: "cached cfg = Some c" "route_reference H c \<lparr>ref_name = n\<rparr> = Some (r, v)"
    "server' = (tr_component r)\<lparr>srv_prefix := tr_prefix r\<rparr>"
    by (rule cached_owner_from [OF assms(1)]) auto
  obtain pres where "component_prefixes (cfg_servers cfg) = Inr pres" "(tr_component r, tr_prefix r) \<in> set (zip (cfg_servers cfg) pres)"
    by (rule catalog_of_owner [OF assms(4) [OF c(1)] c(2)])
  with assms(2,3) have "(tr_component r, tr_prefix r) \<in> set (zip [server] [srv_prefix server])" by simp
  with c(3) show ?thesis by simp
qed

lemma narrow_to_tool_again:
  assumes sound: "\<And>x c. cached x = Some c \<Longrightarrow> catalog_of L H tools x c"
  shows "narrow_to_tool H cached (scoped_config (narrow_to_tool H cached (scoped_config cfg m) n) m) n
    = narrow_to_tool H cached (scoped_config cfg m) n"
proof -
  let ?clone = "scoped_config cfg m"
  let ?cs = "candidates (length (cfg_servers ?clone)) n (cfg_servers ?clone)"
  define selected where "selected = (if length ?cs > 0 then ?clone\<lparr>cfg_servers := ?cs\<rparr> else ?clone)"
  have m_family: "srv_discovery_method s = request_family m" if "s \<in> set (cfg_servers selected)" for s
  proof (cases "?cs = []")
    case True
    with that scoped_method show ?thesis by (simp add: selected_def)
  next
    case False
    with that have "s \<in> set ?cs" by (simp add: selected_def)
    then obtain s' where "s' \<in> set (cfg_servers ?clone)" "candidate (length (cfg_servers ?clone)) n s' = Some s"
      by (auto simp: candidates_def)
    with candidate_method scoped_method show ?thesis by metis
  qed
  have cs: "(if length (candidates (length (cfg_servers selected)) n (cfg_servers selected)) > 0
      then selected\<lparr>cfg_servers := candidates (length (cfg_servers selected)) n (cfg_servers selected)\<rparr> else selected) = selected"
    using candidates_again [of "cfg_servers ?clone" n] by (auto simp: selected_def)
  have first: "narrow_to_tool H cached ?clone n = (case cached_owner H cached n [?clone, selected] of
      None \<Rightarrow> selected | Some server \<Rightarrow> selected\<lparr>cfg_servers := [server]\<rparr>)"
    by (simp only: narrow_to_tool_def Let_def selected_def)
  show ?thesis
  proof (cases "cached_owner H cached n [?clone, selected]")
    case None
    then have none: "cached_owner H cached n [selected, selected] = None"
      using cached_owner_None_Cons by metis
    have "scoped_config selected m = selected" by (rule scoped_config_id) (rule m_family)
    moreover have "narrow_to_tool H cached selected n = selected"
      unfolding narrow_to_tool_def Let_def cs none by simp
    ultimately show ?thesis unfolding first None by simp
  next
    case (Some server)
    obtain x c r v where x: "x \<in> {?clone, selected}" "cached x = Some c"
      "route_reference H c \<lparr>ref_name = n\<rparr> = Some (r, v)" "server = (tr_component r)\<lparr>srv_prefix := tr_prefix r\<rparr>"
      by (rule cached_owner_from [OF Some]) auto
    obtain xpres where xp: "component_prefixes (cfg_servers x) = Inr xpres"
      "(tr_component r, tr_prefix r) \<in> set (zip (cfg_servers x) xpres)"
      "exposes tools (tr_component r) (tr_prefix r) (tr_tool r) n"
      by (rule catalog_of_owner [OF sound [OF x(2)] x(3)])
    have single: "component_prefixes [server] = Inr [srv_prefix server]"
      using single_prefix [OF component_prefixes_nth [OF xp(1,2)], of server] by (simp add: x(4))
    then have "prefix_of (length [server]) server = Inr (srv_prefix server)"
      by (rule component_prefixes_nth) simp
    moreover obtain l where "tool_name_of (srv_prefix server) l = Inr n"
      using xp(3) by (auto simp: exposes_def tool_exposed_name_def x(4))
    ultimately have cand: "candidate (length [server]) n server = Some server"
      using candidate_of_owner by fastforce
    let ?cfg = "selected\<lparr>cfg_servers := [server]\<rparr>"
    have "tr_component r \<in> set (cfg_servers x)" using xp(2) by (rule set_zip_leftD)
    with x(1) m_family scoped_method [of _ cfg m] have "srv_discovery_method server = request_family m"
      by (auto simp: x(4))
    then have "scoped_config ?cfg m = ?cfg" by (intro scoped_config_id) simp
    moreover have "narrow_to_tool H cached ?cfg n = ?cfg"
    proof -
      have sel: "candidates (length (cfg_servers ?cfg)) n (cfg_servers ?cfg) = [server]"
        using cand by (simp add: candidates_def somes_def)
      have "cached_owner H cached n [?cfg, ?cfg] = None \<or> cached_owner H cached n [?cfg, ?cfg] = Some server"
      proof (cases "cached_owner H cached n [?cfg]")
        case None
        then show ?thesis using cached_owner_None_Cons by metis
      next
        case (Some server')
        then have "cached_owner H cached n [?cfg, ?cfg] = Some server'" by (auto split: option.splits)
        with cached_owner_single [OF Some _ single sound] show ?thesis by simp
      qed
      then show ?thesis unfolding narrow_to_tool_def Let_def sel by auto
    qed
    ultimately show ?thesis unfolding first Some by simp
  qed
qed

lemma narrow_to_tool_flags:
  "cfg_request_scoped_discovery (narrow_to_tool H cached clone n) = cfg_request_scoped_discovery clone"
  "cfg_defer_authorization (narrow_to_tool H cached clone n) = cfg_defer_authorization clone"
  "cfg_tool_search (narrow_to_tool H cached clone n) = cfg_tool_search clone"
  by (simp_all add: narrow_to_tool_def Let_def split: option.split)

lemma scoped_config_flags [simp]:
  "cfg_request_scoped_discovery (scoped_config cfg m) = cfg_request_scoped_discovery cfg"
  "cfg_defer_authorization (scoped_config cfg m) = cfg_defer_authorization cfg"
  "cfg_tool_search (scoped_config cfg m) = cfg_tool_search cfg"
  by (simp_all add: scoped_config_def)

lemma narrowing_settled:
  assumes sound: "\<And>x c. cached x = Some c \<Longrightarrow> catalog_of L H tools x c"
  shows "request_catalog_config H cached (request_catalog_config H cached cfg ''tools/call'' name arguments) ''tools/call'' name arguments
    = request_catalog_config H cached cfg ''tools/call'' name arguments"
proof -
  have twice: "scoped_config (scoped_config cfg m) m = scoped_config cfg m" for m
    by (rule scoped_config_id) (rule scoped_method)
  have none: "(scoped_config ((scoped_config cfg m)\<lparr>cfg_servers := []\<rparr>) m)\<lparr>cfg_servers := []\<rparr> = (scoped_config cfg m)\<lparr>cfg_servers := []\<rparr>" for m
    by (simp add: scoped_config_def)
  show ?thesis
    using narrow_to_tool_again [where cfg = cfg and m = "''tools/call''", OF sound]
    by (auto simp: request_catalog_config_def Let_def twice none narrow_to_tool_flags split: option.split)
qed

section \<open>The owner stays\<close>

text \<open>
  C10: Narrowing a tool call never loses the tool. Take a configuration that exposes the called name -
  directly, or through the call tool of a search configuration - in exactly one of its components, and
  any cached catalogs, as long as they were compiled from discoveries that found no tools the
  components do not have. Then the configuration discovered for the request holds that component, with
  the same prefix, and exposes the tool under the same name: whether it was narrowed to the candidates,
  to the owner a cached catalog names, or not at all.
\<close>

theorem narrowed_config_serves_call:
  assumes "called_tool cfg name arguments = Some n"
    and "component_prefixes (cfg_servers cfg) = Inr pres" and "(s, p) \<in> set (zip (cfg_servers cfg) pres)"
    and "exposes tools s p t n"
    and "\<And>s' p' t'. (s', p') \<in> set (zip (cfg_servers cfg) pres) \<Longrightarrow> exposes tools s' p' t' n \<Longrightarrow> s' = s \<and> p' = p"
    and "\<And>x c. cached x = Some c \<Longrightarrow> catalog_of L H tools x c"
  shows "let narrowed = request_catalog_config H cached cfg ''tools/call'' name arguments in
    \<exists>owner pres'. component_prefixes (cfg_servers narrowed) = Inr pres'
      \<and> (owner, p) \<in> set (zip (cfg_servers narrowed) pres') \<and> same_component owner s \<and> exposes tools owner p t n"
proof -
  let ?narrowed = "request_catalog_config H cached cfg ''tools/call'' name arguments"
  let ?clone = "scoped_config cfg ''tools/call''"
  have "?narrowed = cfg \<or> ?narrowed = ?clone \<or> ?narrowed = narrow_to_tool H cached ?clone n"
  proof (cases "cfg_tool_search cfg \<and> name = call_tool_name")
    case True
    with assms(1) obtain args where "parse_call_arguments arguments = Some args" "ca_name args = n"
      by (auto simp: called_tool_def)
    with True show ?thesis by (simp add: request_catalog_config_def Let_def)
  next
    case False
    with assms(1) have "name = n" by (auto simp: called_tool_def split: if_splits)
    with False show ?thesis by (simp add: request_catalog_config_def Let_def)
  qed
  then consider "?narrowed = cfg" | "?narrowed = ?clone" | "?narrowed = narrow_to_tool H cached ?clone n" by blast
  then have "\<exists>owner pres'. component_prefixes (cfg_servers ?narrowed) = Inr pres'
      \<and> (owner, p) \<in> set (zip (cfg_servers ?narrowed) pres') \<and> same_component owner s"
  proof cases
    case 1
    with assms(2,3) same_component_updates(3) show ?thesis by auto
  next
    case 2
    have "(s\<lparr>srv_discovery_method := request_family ''tools/call''\<rparr>, p) \<in> set (zip (cfg_servers ?clone) pres)"
      using assms(3) by (force simp: scoped_servers zip_map1)
    moreover have "component_prefixes (cfg_servers ?clone) = Inr pres"
      using assms(2) by (simp add: scoped_servers component_prefixes_scoped)
    ultimately show ?thesis unfolding 2 using same_component_updates(1) by blast
  next
    case 3
    with narrowed_to_owner [OF assms(2-6)] show ?thesis by simp
  qed
  with assms(4) show ?thesis unfolding Let_def using exposes_same by blast
qed

definition scoped_sample :: config where
  "scoped_sample = (sample_config False [plain_server ''a'', plain_server ''a__b'', plain_server ''c''])
     \<lparr>cfg_request_scoped_discovery := True\<rparr>"

text \<open>
  The witness: the components \<open>a\<close> and \<open>a__b\<close> both match the name, each has the one tool \<open>run\<close>, and the
  registry holds a compiled catalog of the whole configuration scoped to tools.
\<close>

definition scoped_found :: discovery_result where
  "scoped_found = \<lparr>dr_features = no_features\<lparr>ft_tools := [Some (sample_tool ''run'')]\<rparr>, dr_pending = False\<rparr>"

definition scoped_catalog :: "string catalog" where
  "scoped_catalog = projr (compile_discovered sample_uris sample_digests (scoped_config scoped_sample ''tools/call'')
     [''a'', ''a__b'', ''c''] [scoped_found, scoped_found, scoped_found])"

definition scoped_cache :: "config \<Rightarrow> string catalog option" where
  "scoped_cache cfg = (if cfg = scoped_config scoped_sample ''tools/call'' then Some scoped_catalog else None)"

lemma scoped_catalog_compiled:
  "compile_discovered sample_uris sample_digests (scoped_config scoped_sample ''tools/call'')
     [''a'', ''a__b'', ''c''] [scoped_found, scoped_found, scoped_found] = Inr scoped_catalog"
proof -
  have "\<not> isl (compile_discovered sample_uris sample_digests (scoped_config scoped_sample ''tools/call'')
     [''a'', ''a__b'', ''c''] [scoped_found, scoped_found, scoped_found])" by code_simp
  then show ?thesis by (simp add: scoped_catalog_def)
qed

lemma scoped_cache_sound:
  assumes "scoped_cache cfg = Some c"
  shows "catalog_of sample_uris sample_digests (\<lambda>_. {sample_tool ''run''}) cfg c"
proof -
  have cfg: "cfg = scoped_config scoped_sample ''tools/call''" and c: "c = scoped_catalog"
    using assms by (auto simp: scoped_cache_def split: if_splits)
  have p: "component_prefixes (cfg_servers cfg) = Inr [''a'', ''a__b'', ''c'']" unfolding cfg by code_simp
  have pend: "pending_names (cfg_servers cfg) [scoped_found, scoped_found, scoped_found] = []" unfolding cfg by code_simp
  have "t = sample_tool ''run''"
    if "(s, p, d) \<in> set (config_parts cfg [''a'', ''a__b'', ''c''] [scoped_found, scoped_found, scoped_found])"
      "Some t \<in> set (ft_tools (dr_features d))" for s p d t
    using that by (auto simp: config_parts_def set_zip nth_Cons' scoped_found_def split: if_splits)
  with p pend scoped_catalog_compiled show ?thesis unfolding catalog_of_def cfg c by fast
qed

theorem narrowed_config_serves_call_witness:
  "map srv_name (cfg_servers (request_catalog_config sample_digests scoped_cache scoped_sample ''tools/call''
      ''a__b__run'' None)) = [''a__b'']
   \<and> map srv_name (cfg_servers (request_catalog_config sample_digests (\<lambda>_. None :: string catalog option) scoped_sample
      ''tools/call'' ''a__b__run'' None)) = [''a'', ''a__b'']
   \<and> (\<exists>owner pres'. component_prefixes (cfg_servers (request_catalog_config sample_digests scoped_cache scoped_sample
        ''tools/call'' ''a__b__run'' None)) = Inr pres'
      \<and> (owner, ''a__b'') \<in> set (zip (cfg_servers (request_catalog_config sample_digests scoped_cache scoped_sample
        ''tools/call'' ''a__b__run'' None)) pres') \<and> same_component owner (plain_server ''a__b''))"
proof -
  let ?tools = "\<lambda>_ :: string. {sample_tool ''run''}"
  have names: "map srv_name (cfg_servers (request_catalog_config sample_digests scoped_cache scoped_sample ''tools/call''
      ''a__b__run'' None)) = [''a__b'']"
    "map srv_name (cfg_servers (request_catalog_config sample_digests (\<lambda>_. None :: string catalog option) scoped_sample
      ''tools/call'' ''a__b__run'' None)) = [''a'', ''a__b'']"
    by code_simp+
  have called: "called_tool scoped_sample ''a__b__run'' None = Some ''a__b__run''" by code_simp
  have p: "component_prefixes (cfg_servers scoped_sample) = Inr [''a'', ''a__b'', ''c'']" by code_simp
  have z: "zip (cfg_servers scoped_sample) [''a'', ''a__b'', ''c''] = [(plain_server ''a'', ''a''), (plain_server ''a__b'', ''a__b''), (plain_server ''c'', ''c'')]"
    by (simp add: scoped_sample_def sample_config_def)
  then have m: "(plain_server ''a__b'', ''a__b'') \<in> set (zip (cfg_servers scoped_sample) [''a'', ''a__b'', ''c''])" by simp
  have n: "tool_exposed_name (plain_server ''a__b'') ''a__b'' (sample_tool ''run'') = Inr ''a__b__run''"
    "tool_exposed_name (plain_server ''a'') ''a'' (sample_tool ''run'') = Inr ''a__run''"
    "tool_exposed_name (plain_server ''c'') ''c'' (sample_tool ''run'') = Inr ''c__run''"
    "tool_shown (plain_server ''a__b'') (sample_tool ''run'')" "\<not> srv_disable_tools (plain_server ''a__b'')"
    by code_simp+
  have e: "exposes ?tools (plain_server ''a__b'') ''a__b'' (sample_tool ''run'') ''a__b__run''"
    by (simp add: exposes_def n)
  have only: "s' = plain_server ''a__b'' \<and> p' = ''a__b''"
    if "(s', p') \<in> set (zip (cfg_servers scoped_sample) [''a'', ''a__b'', ''c''])" "exposes ?tools s' p' t' ''a__b__run''" for s' p' t'
    using that unfolding z by (auto simp: exposes_def n)
  have w: "\<exists>owner pres'. component_prefixes (cfg_servers (request_catalog_config sample_digests scoped_cache scoped_sample
        ''tools/call'' ''a__b__run'' None)) = Inr pres'
      \<and> (owner, ''a__b'') \<in> set (zip (cfg_servers (request_catalog_config sample_digests scoped_cache scoped_sample
        ''tools/call'' ''a__b__run'' None)) pres') \<and> same_component owner (plain_server ''a__b'')
      \<and> exposes ?tools owner ''a__b'' (sample_tool ''run'') ''a__b__run''"
    using narrowed_config_serves_call [OF called p m e only scoped_cache_sound] by (simp only: Let_def)
  show ?thesis by (intro conjI names) (use w in blast)
qed

end
