(* ===== verification/Authorization.thy ===== *)
theory Authorization
  imports Go_Lib
begin

text \<open>
  Authorization challenges of components: \<open>component/authorization.go\<close> (which errors are challenges, how
  an HTTP response is read as challenges) and \<open>http_authorization.go\<close> (the header the frontend gets, and
  the two response writers that turn a captured challenge into the response of the request).
\<close>

section \<open>Challenges\<close>

record auth_error =
  ae_component :: string
  ae_url :: string
  ae_status :: int
  ae_realm :: string
  ae_error_uri :: string
  ae_resource_metadata :: string
  ae_scope :: string
  ae_scopes :: "string list"
  ae_code :: string
  ae_description :: string

text \<open>
  The tree of a Go error: an \<open>*AuthorizationError\<close> (perhaps a nil pointer), an error that wraps several
  (\<open>Unwrap() []error\<close>), or any other, with what its \<open>Unwrap() error\<close> returns. \<open>None\<close> is a nil error.
\<close>

datatype go_error = Auth_error "auth_error option" | Joined "go_error option list"
  | Other_error string "go_error option"

definition reported :: "auth_error \<Rightarrow> bool" where
  "reported e \<longleftrightarrow> ae_status e = 401 \<or> ae_status e = 403 \<and> ae_code e = ''insufficient_scope''"

fun visit_error :: "go_error \<Rightarrow> auth_error list" where
  "visit_error (Auth_error challenge) =
     (case challenge of None \<Rightarrow> [] | Some e \<Rightarrow> if reported e then [e] else [])"
| "visit_error (Joined children) =
     concat (map (\<lambda>c. case c of None \<Rightarrow> [] | Some e \<Rightarrow> visit_error e) children)"
| "visit_error (Other_error msg wrapped) = (case wrapped of None \<Rightarrow> [] | Some e \<Rightarrow> visit_error e)"

definition authorization_errors :: "go_error option \<Rightarrow> auth_error list" where
  "authorization_errors err = (case err of None \<Rightarrow> [] | Some e \<Rightarrow> visit_error e)"

text \<open>The challenges in an error tree, from left to right: those not below another challenge.\<close>

inductive challenge_in :: "auth_error \<Rightarrow> go_error \<Rightarrow> bool" where
  here: "challenge_in e (Auth_error (Some e))"
| joined: "Some c \<in> set children \<Longrightarrow> challenge_in e c \<Longrightarrow> challenge_in e (Joined children)"
| wrapped: "challenge_in e c \<Longrightarrow> challenge_in e (Other_error msg (Some c))"

inductive_simps challenge_in_simps [simp]: "challenge_in e (Auth_error c)" "challenge_in e (Joined cs)"
  "challenge_in e (Other_error msg c)"

lemma visit_error_set: "set (visit_error err) = {e. challenge_in e err \<and> reported e}"
proof (induction err rule: visit_error.induct)
  case (1 challenge)
  then show ?case by (cases challenge) auto
next
  case (2 children)
  show ?case using 2 by (fastforce split: option.splits)
next
  case (3 msg wrapped)
  then show ?case by (cases wrapped) auto
qed

text \<open>
  \<open>AuthorizationChallenges\<close>. The parser of \<open>WWW-Authenticate\<close> values (\<open>oauthex\<close>) is an argument: \<open>None\<close>
  is an error, otherwise the schemes with their parameters, where a missing one reads as empty.
\<close>

function fields_from :: "string \<Rightarrow> string \<Rightarrow> string list" where
  "fields_from word s =
     (case strip_first space_runes s of
        Some t \<Rightarrow> (if word = [] then [] else [rev word]) @ fields_from [] t
      | None \<Rightarrow> (case s of
                  [] \<Rightarrow> (if word = [] then [] else [rev word])
                | c # t \<Rightarrow> fields_from (c # word) t))"
  by pat_completeness auto
termination
  by (relation "measure (\<lambda>(word, s). length s)") (auto dest: strip_first_shorter)

declare fields_from.simps [simp del]

definition fields :: "string \<Rightarrow> string list" where
  "fields s = fields_from [] s"

text \<open>An HTTP header: the values of every name, names in the order they were added.\<close>

type_synonym header = "(string \<times> string list) list"

definition header_values :: "header \<Rightarrow> string \<Rightarrow> string list" where
  "header_values h name = (case map_of h name of None \<Rightarrow> [] | Some vs \<Rightarrow> vs)"

definition header_del :: "string \<Rightarrow> header \<Rightarrow> header" where
  "header_del name h = filter (\<lambda>(n, vs). n \<noteq> name) h"

definition header_set :: "string \<Rightarrow> string list \<Rightarrow> header \<Rightarrow> header" where
  "header_set name vs h = header_del name h @ [(name, vs)]"

definition header_add :: "string \<Rightarrow> string \<Rightarrow> header \<Rightarrow> header" where
  "header_add name v h = header_set name (header_values h name @ [v]) h"

type_synonym challenge = "string \<times> (string \<times> string) list"

definition param :: "challenge \<Rightarrow> string \<Rightarrow> string" where
  "param ch name = (case map_of (snd ch) name of None \<Rightarrow> [] | Some v \<Rightarrow> v)"

definition challenge_error :: "int \<Rightarrow> challenge \<Rightarrow> auth_error" where
  "challenge_error status ch =
     \<lparr>ae_component = [], ae_url = [], ae_status = status, ae_realm = param ch ''realm'',
      ae_error_uri = param ch ''error_uri'', ae_resource_metadata = param ch ''resource_metadata'',
      ae_scope = param ch ''scope'', ae_scopes = fields (param ch ''scope''),
      ae_code = param ch ''error'', ae_description = param ch ''error_description''\<rparr>"

definition bare_error :: "int \<Rightarrow> auth_error" where
  "bare_error status =
     \<lparr>ae_component = [], ae_url = [], ae_status = status, ae_realm = [], ae_error_uri = [],
      ae_resource_metadata = [], ae_scope = [], ae_scopes = [], ae_code = [], ae_description = []\<rparr>"

definition authorization_challenges ::
    "(string list \<Rightarrow> challenge list option) \<Rightarrow> int \<Rightarrow> header \<Rightarrow> auth_error list" where
  "authorization_challenges parse status h =
     (if status \<noteq> 401 \<and> status \<noteq> 403 then []
      else
        let result = (case parse (header_values h ''WWW-Authenticate'') of
               None \<Rightarrow> []
             | Some parsed \<Rightarrow> map (challenge_error status) (filter (\<lambda>ch.
                 \<not> (map lower_byte (fst ch) \<noteq> ''bearer''
                    \<or> status = 403 \<and> param ch ''error'' \<noteq> ''insufficient_scope'')) parsed))
        in if result = [] \<and> status = 401 then [bare_error status] else result)"

text \<open>
  Whatever the response says, the two functions agree: a challenge read from a response is one that the
  error walk reports, and a 401 is never lost.
\<close>

lemma challenges_reported:
  "e \<in> set (authorization_challenges parse status h) \<Longrightarrow> reported e \<and> ae_status e = status"
  by (auto simp: authorization_challenges_def challenge_error_def bare_error_def reported_def Let_def
      split: if_splits option.splits)

lemma unauthorized_not_lost: "authorization_challenges parse 401 h \<noteq> []"
  by (simp add: authorization_challenges_def Let_def)

section \<open>The header of the frontend\<close>

text \<open>
  \<open>strconv.Quote\<close>. The escapes of ASCII are written out; what a rune beyond ASCII is written as depends on
  Unicode's tables, so it is an argument: the text, and how many bytes of the string it stands for.
\<close>

type_synonym rune_quoter = "string \<Rightarrow> string \<times> nat"

definition hex_digit :: "nat \<Rightarrow> char" where
  "hex_digit n = ''0123456789abcdef'' ! n"

definition quote_byte :: "char \<Rightarrow> string" where
  "quote_byte c =
     (if c = CHR 0x22 \<or> c = CHR 0x5C then [CHR 0x5C, c]
      else if CHR 0x20 \<le> c \<and> c < CHR 0x7F then [c]
      else if c = CHR 0x07 then [CHR 0x5C, CHR ''a''] else if c = CHR 0x08 then [CHR 0x5C, CHR ''b'']
      else if c = CHR 0x0C then [CHR 0x5C, CHR ''f''] else if c = CHR 0x0A then [CHR 0x5C, CHR ''n'']
      else if c = CHR 0x0D then [CHR 0x5C, CHR ''r''] else if c = CHR 0x09 then [CHR 0x5C, CHR ''t'']
      else if c = CHR 0x0B then [CHR 0x5C, CHR ''v'']
      else [CHR 0x5C, CHR ''x'', hex_digit (of_char c div 16), hex_digit (of_char c mod 16)])"

function quote_runes :: "rune_quoter \<Rightarrow> string \<Rightarrow> string" where
  "quote_runes Q [] = []"
| "quote_runes Q (c # s) =
     (if c < CHR 0x80 then quote_byte c @ quote_runes Q s
      else fst (Q (c # s)) @ quote_runes Q (drop (snd (Q (c # s)) - 1) s))"
  by pat_completeness auto
termination
  by (relation "measure (\<lambda>(Q, s). length s)") auto

definition go_quote :: "rune_quoter \<Rightarrow> string \<Rightarrow> string" where
  "go_quote Q s = CHR 0x22 # quote_runes Q s @ [CHR 0x22]"

primrec join :: "string \<Rightarrow> string list \<Rightarrow> string" where
  "join sep [] = []"
| "join sep (x # xs) = (if xs = [] then x else x @ sep @ join sep xs)"

definition scope_text :: "auth_error \<Rightarrow> string" where
  "scope_text e = (if ae_scope e = [] then join '' '' (ae_scopes e) else ae_scope e)"

definition challenge_params :: "auth_error \<Rightarrow> (string \<times> string) list" where
  "challenge_params e = filter (\<lambda>(n, v). v \<noteq> [])
     [(''realm'', ae_realm e), (''error_uri'', ae_error_uri e),
      (''resource_metadata'', ae_resource_metadata e), (''scope'', scope_text e),
      (''error'', ae_code e), (''error_description'', ae_description e)]"

definition authorization_challenge :: "rune_quoter \<Rightarrow> auth_error \<Rightarrow> string" where
  "authorization_challenge Q e =
     (let params = map (\<lambda>(n, v). n @ ''='' @ go_quote Q v) (challenge_params e)
      in if params = [] then ''Bearer'' else ''Bearer '' @ join '', '' params)"

text \<open>
  How a client reads the header back: a parameter's name ends at the first equals sign, its value at the
  first quote that no backslash escapes, and the next parameter follows a comma and a space.
\<close>

fun scan_quoted :: "string \<Rightarrow> (string \<times> string) option" where
  "scan_quoted [] = None"
| "scan_quoted [c] = (if c = CHR 0x22 then Some ([], []) else None)"
| "scan_quoted (c # d # s) =
     (if c = CHR 0x22 then Some ([], d # s)
      else if c = CHR 0x5C then map_option (apfst (\<lambda>r. c # d # r)) (scan_quoted s)
      else map_option (apfst (Cons c)) (scan_quoted (d # s)))"

lemma scan_quoted_shorter: "scan_quoted s = Some (raw, rest) \<Longrightarrow> length rest < length s"
  by (induction s arbitrary: raw rule: scan_quoted.induct) (fastforce split: if_splits)+

definition read_param :: "string \<Rightarrow> (string \<times> string \<times> string) option" where
  "read_param s =
     (case index_byte s (CHR ''='') of
        None \<Rightarrow> None
      | Some n \<Rightarrow>
          (case drop (Suc n) s of
             [] \<Rightarrow> None
           | q # t \<Rightarrow> if q \<noteq> CHR 0x22 then None
                      else map_option (\<lambda>(raw, rest). (take n s, raw, rest)) (scan_quoted t)))"

lemma read_param_shorter: "read_param s = Some (n, raw, rest) \<Longrightarrow> length rest < length s"
proof -
  assume "read_param s = Some (n, raw, rest)"
  then obtain k q t where "drop (Suc k) s = q # t" "scan_quoted t = Some (raw, rest)"
    by (auto simp: read_param_def split: option.splits list.splits if_splits)
  from scan_quoted_shorter [OF this(2)] arg_cong [OF this(1), of length] show ?thesis by simp
qed

function parse_params :: "string \<Rightarrow> (string \<times> string) list option" where
  "parse_params s =
     (case read_param s of
        None \<Rightarrow> None
      | Some (n, raw, rest) \<Rightarrow>
          if rest = [] then Some [(n, raw)]
          else if has_prefix rest '', '' then map_option (Cons (n, raw)) (parse_params (drop 2 rest))
          else None)"
  by pat_completeness auto
termination
  by (relation "measure length") (auto dest: read_param_shorter)

declare parse_params.simps [simp del]

definition read_challenge :: "string \<Rightarrow> (string \<times> string) list option" where
  "read_challenge s =
     (if s = ''Bearer'' then Some []
      else if has_prefix s ''Bearer '' then parse_params (drop 7 s) else None)"

text \<open>Text that a reader passes over whole: no bare quote, no bare backslash at its end, no control byte.\<close>

fun safe_text :: "string \<Rightarrow> bool" where
  "safe_text [] = True"
| "safe_text [c] \<longleftrightarrow> c \<noteq> CHR 0x22 \<and> c \<noteq> CHR 0x5C \<and> CHR 0x20 \<le> c \<and> c \<noteq> CHR 0x7F"
| "safe_text (c # d # s) \<longleftrightarrow> CHR 0x20 \<le> c \<and> c \<noteq> CHR 0x7F
     \<and> (if c = CHR 0x5C then CHR 0x20 \<le> d \<and> d \<noteq> CHR 0x7F \<and> safe_text s else c \<noteq> CHR 0x22 \<and> safe_text (d # s))"

definition quotes_safely :: "rune_quoter \<Rightarrow> bool" where
  "quotes_safely Q \<longleftrightarrow> (\<forall>c s. CHR 0x80 \<le> c \<longrightarrow> safe_text (fst (Q (c # s))))"

lemma safe_text_append: "safe_text u \<Longrightarrow> safe_text v \<Longrightarrow> safe_text (u @ v)"
proof (induction u rule: safe_text.induct)
  case (2 c)
  then show ?case by (cases v) auto
qed (auto split: if_splits)

lemma scan_quoted_close [simp]: "scan_quoted (CHR 0x22 # rest) = Some ([], rest)"
  by (cases rest) simp_all

lemma safe_text_scan: "safe_text u \<Longrightarrow> scan_quoted (u @ CHR 0x22 # rest) = Some (u, rest)"
proof (induction u rule: safe_text.induct)
  case 1
  then show ?case by (cases rest) auto
qed (auto split: if_splits)

lemma safe_text_line: "safe_text u \<Longrightarrow> c \<in> set u \<Longrightarrow> CHR 0x20 \<le> c"
  by (induction u rule: safe_text.induct) (auto split: if_splits)

lemma quote_bytes_safe: "list_all (\<lambda>c. safe_text (quote_byte c)) (map char_of [0..<128 :: nat])"
  by code_simp

lemma quote_byte_safe: "c < CHR 0x80 \<Longrightarrow> safe_text (quote_byte c)"
proof -
  assume "c < CHR 0x80"
  then have "of_char c < (128 :: nat)" by (simp add: less_char_def)
  then have "c \<in> set (map char_of [0..<128 :: nat])"
    by (auto intro!: image_eqI [of _ _ "of_char c"])
  with quote_bytes_safe show ?thesis by (simp only: list.pred_set)
qed

lemma quote_runes_safe: "quotes_safely Q \<Longrightarrow> safe_text (quote_runes Q s)"
proof (induction Q s rule: quote_runes.induct)
  case (2 Q c s)
  then show ?case
    by (auto simp: quotes_safely_def not_less intro!: safe_text_append quote_byte_safe)
qed simp

definition param_text :: "rune_quoter \<Rightarrow> string \<times> string \<Rightarrow> string" where
  "param_text Q p = fst p @ ''='' @ go_quote Q (snd p)"

lemma param_text_eq: "(\<lambda>(n, v). n @ ''='' @ go_quote Q v) = param_text Q"
  by (auto simp: param_text_def)

lemma read_param_text:
  assumes "quotes_safely Q" and "CHR ''='' \<notin> set n"
  shows "read_param (param_text Q (n, v) @ rest) = Some (n, quote_runes Q v, rest)"
proof -
  have "param_text Q (n, v) @ rest = n @ CHR ''='' # CHR 0x22 # (quote_runes Q v @ CHR 0x22 # rest)"
    by (simp add: param_text_def go_quote_def)
  then show ?thesis
    using safe_text_scan [OF quote_runes_safe [OF assms(1)]] index_byte_append [OF assms(2)]
    by (simp add: read_param_def)
qed

lemma parse_params_join:
  assumes "quotes_safely Q" and "\<forall>p\<in>set ps. CHR ''='' \<notin> set (fst p)" and "ps \<noteq> []"
  shows "parse_params (join '', '' (map (param_text Q) ps)) = Some (map (\<lambda>(n, v). (n, quote_runes Q v)) ps)"
  using assms(2,3)
proof (induction ps)
  case (Cons p ps)
  obtain n v where p: "p = (n, v)" by (cases p)
  with Cons.prems have n: "CHR ''='' \<notin> set n" by simp
  show ?case
  proof (cases "ps = []")
    case True
    with read_param_text [OF assms(1) n, of v "[]"] p show ?thesis by (simp add: parse_params.simps)
  next
    case False
    with read_param_text [OF assms(1) n, of v "'', '' @ join '', '' (map (param_text Q) ps)"] Cons p
    show ?thesis by (simp add: parse_params.simps [of "param_text Q (n, v) @ _"])
  qed
qed simp

lemma challenge_raw:
  assumes "quotes_safely Q"
  shows "read_challenge (authorization_challenge Q e)
      = Some (map (\<lambda>(n, v). (n, quote_runes Q v)) (challenge_params e))
    \<and> list_all (\<lambda>c. CHR 0x20 \<le> c) (authorization_challenge Q e)"
proof -
  let ?ps = "challenge_params e"
  have names: "CHR ''='' \<notin> set n \<and> list_all (\<lambda>c. CHR 0x20 \<le> c) n" if "(n, v) \<in> set ?ps" for n v
  proof -
    from that have "n \<in> set [''realm'', ''error_uri'', ''resource_metadata'', ''scope'', ''error'', ''error_description'']"
      unfolding challenge_params_def set_filter by auto
    then show ?thesis by (auto simp: less_eq_char_def)
  qed
  have header: "authorization_challenge Q e = (if ?ps = [] then ''Bearer'' else ''Bearer '' @ join '', '' (map (param_text Q) ?ps))"
    unfolding authorization_challenge_def Let_def param_text_eq by simp
  have "read_challenge (authorization_challenge Q e) = Some (map (\<lambda>(n, v). (n, quote_runes Q v)) ?ps)"
  proof (cases "?ps = []")
    case True
    then show ?thesis by (simp add: header read_challenge_def)
  next
    case False
    have "\<forall>p\<in>set ?ps. CHR ''='' \<notin> set (fst p)" using names by force
    from parse_params_join [OF assms this False] False show ?thesis by (simp add: header read_challenge_def)
  qed
  moreover have "list_all (\<lambda>c. CHR 0x20 \<le> c) (param_text Q p)" if "p \<in> set ?ps" for p
    using names [of "fst p" "snd p"] that safe_text_line [OF quote_runes_safe [OF assms, of "snd p"]]
    by (auto simp: param_text_def go_quote_def list_all_iff less_eq_char_def)
  then have "list_all (\<lambda>c. CHR 0x20 \<le> c) (join '', '' (map (param_text Q) qs))" if "set qs \<subseteq> set ?ps" for qs
    using that by (induction qs) (auto simp: less_eq_char_def)
  then have "list_all (\<lambda>c. CHR 0x20 \<le> c) (authorization_challenge Q e)" by (auto simp: header less_eq_char_def)
  ultimately show ?thesis by simp
qed

text \<open>
  What a reader makes of the text between the quotes. A client that knows Go's syntax undoes every escape
  (\<open>strconv.Unquote\<close>); a client that follows the HTTP grammar takes the character after a backslash
  as it is.
\<close>

definition hex_digits :: string where
  "hex_digits = ''0123456789abcdef''"

primrec read_hex :: "nat \<Rightarrow> nat \<Rightarrow> string \<Rightarrow> (nat \<times> string) option" where
  "read_hex 0 v s = Some (v, s)"
| "read_hex (Suc k) v s =
     (case s of
        [] \<Rightarrow> None
      | c # t \<Rightarrow> (case index_byte hex_digits c of None \<Rightarrow> None | Some d \<Rightarrow> read_hex k (16 * v + d) t))"

definition utf8_bytes :: "nat \<Rightarrow> string" where
  "utf8_bytes r =
     (if r < 0x80 then [char_of r]
      else if r < 0x800 then [char_of (0xC0 + r div 64), char_of (0x80 + r mod 64)]
      else if r < 0x10000 then
        [char_of (0xE0 + r div 4096), char_of (0x80 + r div 64 mod 64), char_of (0x80 + r mod 64)]
      else [char_of (0xF0 + r div 262144), char_of (0x80 + r div 4096 mod 64), char_of (0x80 + r div 64 mod 64),
            char_of (0x80 + r mod 64)])"

text \<open>One escape: the bytes it stands for, and the rest.\<close>

definition read_escape :: "string \<Rightarrow> (string \<times> string) option" where
  "read_escape s =
     (case s of
        [] \<Rightarrow> None
      | d # t \<Rightarrow>
          if d = CHR 0x22 \<or> d = CHR 0x5C then Some ([d], t)
          else if d = CHR ''x'' then map_option (apfst (\<lambda>v. [char_of v])) (read_hex 2 0 t)
          else if d = CHR ''u'' then map_option (apfst utf8_bytes) (read_hex 4 0 t)
          else if d = CHR ''U'' then map_option (apfst utf8_bytes) (read_hex 8 0 t)
          else map_option (\<lambda>c. ([c], t))
            (map_of [(CHR ''a'', CHR 0x07), (CHR ''b'', CHR 0x08), (CHR ''f'', CHR 0x0C), (CHR ''n'', CHR 0x0A),
                     (CHR ''r'', CHR 0x0D), (CHR ''t'', CHR 0x09), (CHR ''v'', CHR 0x0B)] d))"

lemma read_hex_shorter: "read_hex k v s = Some (w, t) \<Longrightarrow> length t \<le> length s"
  by (induction k arbitrary: v s) (fastforce split: list.splits option.splits)+

lemma read_escape_shorter: "read_escape s = Some (b, t) \<Longrightarrow> length t < length s"
  by (auto simp: read_escape_def apfst_def map_prod_def split: list.splits if_splits dest!: read_hex_shorter)

function go_unquote :: "string \<Rightarrow> string option" where
  "go_unquote [] = Some []"
| "go_unquote (c # s) =
     (if c \<noteq> CHR 0x5C then map_option (Cons c) (go_unquote s)
      else case read_escape s of
             None \<Rightarrow> None
           | Some (b, t) \<Rightarrow> map_option (append b) (go_unquote t))"
  by pat_completeness auto
termination
  by (relation "measure length") (auto dest: read_escape_shorter)

fun http_unquote :: "string \<Rightarrow> string" where
  "http_unquote [] = []"
| "http_unquote [c] = [c]"
| "http_unquote (c # d # s) = (if c = CHR 0x5C then d # http_unquote s else c # http_unquote (d # s))"

text \<open>Printable ASCII.\<close>

definition plain_ascii :: "char \<Rightarrow> bool" where
  "plain_ascii c \<longleftrightarrow> CHR 0x20 \<le> c \<and> c < CHR 0x7F"

text \<open>What Go writes for a rune beyond ASCII is undone by \<open>strconv.Unquote\<close>: it stands for that rune's bytes.\<close>

definition runes_read_back :: "rune_quoter \<Rightarrow> bool" where
  "runes_read_back Q \<longleftrightarrow> (\<forall>c s rest. CHR 0x80 \<le> c \<longrightarrow> 0 < snd (Q (c # s))
     \<and> go_unquote (fst (Q (c # s)) @ rest) = map_option (append (take (snd (Q (c # s))) (c # s))) (go_unquote rest))"

lemma read_hex_digit: "list_all (\<lambda>k. index_byte hex_digits (hex_digit k) = Some k) [0..<16]"
  by code_simp

lemma read_hex_two:
  assumes "n < 256"
  shows "read_hex 2 0 (hex_digit (n div 16) # hex_digit (n mod 16) # rest) = Some (n, rest)"
proof -
  have d: "index_byte hex_digits (hex_digit k) = Some k" if "k < 16" for k
    using that read_hex_digit by (simp add: list_all_iff)
  have "n div 16 < 16" "n mod 16 < 16" using assms by auto
  with d [of "n div 16"] d [of "n mod 16"] show ?thesis by (simp add: numeral_2_eq_2)
qed

lemma append_one: "(@) [c] = (#) c"
  by (rule ext) simp

lemma go_unquote_byte: "go_unquote (quote_byte c @ rest) = map_option (Cons c) (go_unquote rest)"
proof -
  have "read_escape (CHR ''x'' # hex_digit (of_char c div 16) # hex_digit (of_char c mod 16) # rest) = Some ([c], rest)"
    using read_hex_two [of "of_char c" rest] by (simp add: read_escape_def)
  then have x: "go_unquote (CHR 0x5C # CHR ''x'' # hex_digit (of_char c div 16) # hex_digit (of_char c mod 16) # rest)
      = map_option (Cons c) (go_unquote rest)"
    by (simp add: append_one)
  have e: "go_unquote (CHR 0x5C # d # rest) = map_option (Cons b) (go_unquote rest)"
    if "read_escape (d # rest) = Some ([b], rest)" for d b
    using that by (simp add: append_one)
  show ?thesis
  proof (cases "c = CHR 0x22 \<or> c = CHR 0x5C")
    case True
    with e [of c c] show ?thesis by (auto simp: quote_byte_def read_escape_def simp del: go_unquote.simps)
  next
    case plain: False
    show ?thesis
    proof (cases "CHR 0x20 \<le> c \<and> c < CHR 0x7F")
      case True
      with plain show ?thesis by (simp add: quote_byte_def)
    next
      case False
      with plain x show ?thesis
        by (auto simp: quote_byte_def e read_escape_def simp del: go_unquote.simps)
    qed
  qed
qed

lemma go_unquote_runes: "runes_read_back Q \<Longrightarrow> go_unquote (quote_runes Q s @ rest) = map_option (append s) (go_unquote rest)"
proof (induction Q s arbitrary: rest rule: quote_runes.induct)
  case (1 Q)
  then show ?case by (simp add: option.map_ident_strong)
next
  case (2 Q c s)
  show ?case
  proof (cases "c < CHR 0x80")
    case True
    with 2 show ?thesis by (simp add: go_unquote_byte option.map_comp comp_def)
  next
    case False
    then have q: "0 < snd (Q (c # s))" "\<And>rest. go_unquote (fst (Q (c # s)) @ rest)
        = map_option (append (take (snd (Q (c # s))) (c # s))) (go_unquote rest)"
      using 2(3) by (auto simp: runes_read_back_def not_less)
    have "take (snd (Q (c # s))) (c # s) @ drop (snd (Q (c # s)) - 1) s = c # s"
      using q(1) by (cases "snd (Q (c # s))") simp_all
    then have whole: "take (snd (Q (c # s))) (c # s) @ drop (snd (Q (c # s)) - 1) s @ u = (c # s) @ u" for u
      by (metis append_assoc)
    moreover have "go_unquote (quote_runes Q (drop (snd (Q (c # s)) - 1) s) @ rest)
        = map_option (append (drop (snd (Q (c # s)) - 1) s)) (go_unquote rest)"
      using 2 False by blast
    ultimately have "go_unquote (quote_runes Q (c # s) @ rest)
        = map_option (\<lambda>u. take (snd (Q (c # s))) (c # s) @ drop (snd (Q (c # s)) - 1) s @ u) (go_unquote rest)"
      using q(2) False by (simp only: quote_runes.simps if_False append_assoc option.map_comp comp_def)
    then show ?thesis by (simp only: whole)
  qed
qed

lemma http_unquote_runes: "list_all plain_ascii s \<Longrightarrow> http_unquote (quote_runes Q s) = s"
proof (induction s)
  case (Cons c s)
  then have c: "c < CHR 0x80" "plain_ascii c" by (auto simp: plain_ascii_def less_char_def)
  have "http_unquote (quote_byte c @ t) = c # http_unquote t" for t
    using c(2) by (cases t) (auto simp: quote_byte_def plain_ascii_def)
  with c Cons show ?case by simp
qed simp

text \<open>
  What \<open>strconv.Quote\<close> writes for a rune beyond ASCII: the rune itself when it is printable (Unicode's
  table \<open>is_print\<close> is an argument), otherwise its number, and for a byte that starts no valid rune
  that byte. \<open>decode_rune\<close> is \<open>utf8.DecodeRuneInString\<close>, \<open>None\<close> standing for an invalid rune of width 1.
\<close>

definition continues :: "nat \<Rightarrow> bool" where
  "continues b \<longleftrightarrow> 0x80 \<le> b \<and> b < 0xC0"

fun decode_bytes :: "nat list \<Rightarrow> (nat \<times> nat) option" where
  "decode_bytes (b0 # b1 # bs) =
     (if 0xC2 \<le> b0 \<and> b0 < 0xE0 then
        if continues b1 then Some ((b0 - 0xC0) * 64 + (b1 - 0x80), 2) else None
      else if 0xE0 \<le> b0 \<and> b0 < 0xF0 then
        (case bs of
           [] \<Rightarrow> None
         | b2 # _ \<Rightarrow>
             if continues b1 \<and> continues b2 \<and> (b0 = 0xE0 \<longrightarrow> 0xA0 \<le> b1) \<and> (b0 = 0xED \<longrightarrow> b1 < 0xA0)
             then Some ((b0 - 0xE0) * 4096 + (b1 - 0x80) * 64 + (b2 - 0x80), 3) else None)
      else if 0xF0 \<le> b0 \<and> b0 < 0xF5 then
        (case bs of
           b2 # b3 # _ \<Rightarrow>
             if continues b1 \<and> continues b2 \<and> continues b3 \<and> (b0 = 0xF0 \<longrightarrow> 0x90 \<le> b1) \<and> (b0 = 0xF4 \<longrightarrow> b1 < 0x90)
             then Some ((b0 - 0xF0) * 262144 + (b1 - 0x80) * 4096 + (b2 - 0x80) * 64 + (b3 - 0x80), 4) else None
         | _ \<Rightarrow> None)
      else None)"
| "decode_bytes _ = None"

definition decode_rune :: "string \<Rightarrow> (nat \<times> nat) option" where
  "decode_rune s = decode_bytes (map of_char s)"

definition hex_text :: "nat \<Rightarrow> nat \<Rightarrow> string" where
  "hex_text k r = map (\<lambda>i. hex_digit (r div 16 ^ i mod 16)) (rev [0..<k])"

definition go_runes :: "(nat \<Rightarrow> bool) \<Rightarrow> rune_quoter" where
  "go_runes is_print s =
     (case decode_rune s of
        None \<Rightarrow> (CHR 0x5C # CHR ''x'' # hex_text 2 (of_char (hd s)), 1)
      | Some (r, width) \<Rightarrow>
          (if is_print r then take width s
           else if r < 0x10000 then CHR 0x5C # CHR ''u'' # hex_text 4 r else CHR 0x5C # CHR ''U'' # hex_text 8 r, width))"

lemma read_hex_text: "read_hex k v (hex_text k r @ rest) = Some (v * 16 ^ k + r mod 16 ^ k, rest)"
proof (induction k arbitrary: v)
  case 0
  then show ?case by (simp add: hex_text_def)
next
  case (Suc k)
  have d: "index_byte hex_digits (hex_digit d) = Some d" if "d < 16" for d
    using that read_hex_digit by (simp add: list_all_iff)
  have "hex_text (Suc k) r = hex_digit (r div 16 ^ k mod 16) # hex_text k r"
    by (simp add: hex_text_def)
  moreover have "(16 * v + r div 16 ^ k mod 16) * 16 ^ k + r mod 16 ^ k = v * 16 ^ Suc k + r mod 16 ^ Suc k"
    using mod_mult2_eq [of r "16 ^ k" 16] by (simp add: algebra_simps)
  ultimately show ?case using d [of "r div 16 ^ k mod 16"] Suc.IH by simp
qed

lemma digit_64: "z < 64 \<Longrightarrow> (h * 64 + z) div 64 = h" "z < 64 \<Longrightarrow> (h * 64 + z) mod 64 = z" for h z :: nat
  by simp_all

text \<open>A decoded rune is written back as the bytes it was read from.\<close>

lemma decode_bytes_encode:
  "decode_bytes bs = Some (r, w) \<Longrightarrow>
     utf8_bytes r = map char_of (take w bs) \<and> r < 0x110000 \<and> 0 < w \<and> list_all (\<lambda>b. 0x80 \<le> b) (take w bs)"
proof (induction bs rule: decode_bytes.induct)
  case (1 b0 b1 bs)
  consider (two) "0xC2 \<le> b0" "b0 < 0xE0" | (three) "0xE0 \<le> b0" "b0 < 0xF0" | (four) "0xF0 \<le> b0" "b0 < 0xF5"
    using 1 by (fastforce split: if_splits)
  then show ?case
  proof cases
    case two
    with 1 have c: "continues b1" "r = (b0 - 0xC0) * 64 + (b1 - 0x80)" "w = 2" by (simp_all split: if_splits)
    define x y where "x = b0 - 0xC0" and "y = b1 - 0x80"
    have b: "b0 = x + 0xC0" "b1 = y + 0x80" "2 \<le> x" "x < 32" "y < 64"
      using two c by (auto simp: x_def y_def continues_def)
    have r: "r = x * 64 + y" using c(2) by (simp add: x_def y_def)
    have "r div 64 = x" "r mod 64 = y" "0x80 \<le> r" "r < 0x800"
      using b(3-5) digit_64 [of y x] by (simp_all add: r)
    with b c(3) show ?thesis by (simp add: utf8_bytes_def numeral_2_eq_2)
  next
    case three
    with 1 obtain b2 t where c: "bs = b2 # t" "continues b1" "continues b2" "b0 = 0xE0 \<longrightarrow> 0xA0 \<le> b1"
      "r = (b0 - 0xE0) * 4096 + (b1 - 0x80) * 64 + (b2 - 0x80)" "w = 3" by (auto split: if_splits list.splits)
    define x y z where "x = b0 - 0xE0" and "y = b1 - 0x80" and "z = b2 - 0x80"
    have b: "b0 = x + 0xE0" "b1 = y + 0x80" "b2 = z + 0x80" "x < 16" "y < 64" "z < 64" "x = 0 \<longrightarrow> 32 \<le> y"
      using three c by (auto simp: x_def y_def z_def continues_def)
    have r: "r = (x * 64 + y) * 64 + z" using c(5) by (simp add: x_def y_def z_def algebra_simps)
    have "r div 64 = x * 64 + y" "r mod 64 = z" unfolding r by (rule digit_64 [OF b(6)])+
    moreover from this have "r div 4096 = x" "r div 64 mod 64 = y"
      using digit_64 [OF b(5)] by (simp_all flip: div_mult2_eq [of r 64 64, simplified])
    moreover have "0x800 \<le> r" "r < 0x10000" using b(4-7) by (cases "x = 0"; simp add: r)+
    ultimately have "r div 4096 = x" "r div 64 mod 64 = y" "r mod 64 = z" "0x800 \<le> r" "r < 0x10000" by simp_all
    with b c(1,6) show ?thesis by (simp add: utf8_bytes_def numeral_3_eq_3)
  next
    case four
    with 1 obtain b2 b3 t where c: "bs = b2 # b3 # t" "continues b1" "continues b2" "continues b3"
      "b0 = 0xF0 \<longrightarrow> 0x90 \<le> b1" "b0 = 0xF4 \<longrightarrow> b1 < 0x90"
      "r = (b0 - 0xF0) * 262144 + (b1 - 0x80) * 4096 + (b2 - 0x80) * 64 + (b3 - 0x80)" "w = 4"
      by (auto split: if_splits list.splits)
    define x y z u where "x = b0 - 0xF0" and "y = b1 - 0x80" and "z = b2 - 0x80" and "u = b3 - 0x80"
    have b: "b0 = x + 0xF0" "b1 = y + 0x80" "b2 = z + 0x80" "b3 = u + 0x80" "x < 5" "y < 64" "z < 64" "u < 64"
      "x = 0 \<longrightarrow> 16 \<le> y" "x = 4 \<longrightarrow> y < 16"
      using four c by (auto simp: x_def y_def z_def u_def continues_def)
    have r: "r = ((x * 64 + y) * 64 + z) * 64 + u" using c(7) by (simp add: x_def y_def z_def u_def algebra_simps)
    have q: "r div 64 = (x * 64 + y) * 64 + z" "r mod 64 = u" unfolding r by (rule digit_64 [OF b(8)])+
    have q2: "r div 4096 = x * 64 + y" "r div 64 mod 64 = z"
      using digit_64 [OF b(7), of "x * 64 + y"] div_mult2_eq [of r 64 64] by (simp_all only: q) simp_all
    have "r div 262144 = r div 4096 div 64" using div_mult2_eq [of r 4096 64] by simp
    then have "r div 262144 = x" "r div 4096 mod 64 = y"
      unfolding q2(1) using digit_64 [OF b(6), of x] by simp_all
    moreover have "16 \<le> x * 64 + y \<and> x * 64 + y < 272"
    proof (cases "x = 0 \<or> x = 4")
      case True
      with b(6,9,10) show ?thesis by auto
    next
      case False
      with b(5) have "1 \<le> x" "x \<le> 3" by auto
      with b(6) show ?thesis by linarith
    qed
    then have "0x10000 \<le> r" "r < 0x110000" unfolding r using b(7,8) by auto
    ultimately have "r div 262144 = x" "r div 4096 mod 64 = y" "r div 64 mod 64 = z" "r mod 64 = u"
      "0x10000 \<le> r" "r < 0x110000" using q q2 by blast+
    moreover from this have "utf8_bytes r = map char_of [b0, b1, b2, b3]"
      using b(1-4) by (simp add: utf8_bytes_def add.commute)
    moreover have "take w (b0 # b1 # bs) = [b0, b1, b2, b3]" using c(1,8) by simp
    ultimately show ?thesis using b(1-4) c(8) by simp
  qed
qed simp_all

lemma decode_rune_encode:
  assumes "decode_rune s = Some (r, w)"
  shows "utf8_bytes r = take w s" and "r < 0x110000" and "0 < w" and "list_all (\<lambda>c. CHR 0x80 \<le> c) (take w s)"
proof -
  have "utf8_bytes r = map char_of (take w (map of_char s :: nat list)) \<and> r < 0x110000 \<and> 0 < w
      \<and> list_all (\<lambda>b :: nat. 0x80 \<le> b) (take w (map of_char s))"
    using decode_bytes_encode [of "map of_char s" r w] assms by (simp add: decode_rune_def)
  then show "utf8_bytes r = take w s" "r < 0x110000" "0 < w" "list_all (\<lambda>c. CHR 0x80 \<le> c) (take w s)"
    by (simp_all add: take_map list.pred_map comp_def less_eq_char_def)
qed

lemma go_unquote_high: "list_all (\<lambda>c. CHR 0x80 \<le> c) u \<Longrightarrow> go_unquote (u @ rest) = map_option (append u) (go_unquote rest)"
proof (induction u)
  case Nil
  then show ?case by (simp add: option.map_ident_strong)
next
  case (Cons c u)
  then have "c \<noteq> CHR 0x5C" by (auto simp: less_eq_char_def)
  with Cons show ?case by (simp add: option.map_comp comp_def)
qed

lemma go_runes_read_back: "runes_read_back (go_runes is_print)"
  unfolding runes_read_back_def
proof (intro allI impI)
  fix c s rest
  show "0 < snd (go_runes is_print (c # s)) \<and> go_unquote (fst (go_runes is_print (c # s)) @ rest)
      = map_option (append (take (snd (go_runes is_print (c # s))) (c # s))) (go_unquote rest)"
  proof (cases "decode_rune (c # s)")
    case None
    have "(of_char c :: nat) mod 16 ^ 2 = of_char c" by simp
    with read_hex_text [of 2 0 "of_char c" rest] have "read_escape (CHR ''x'' # hex_text 2 (of_char c) @ rest) = Some ([c], rest)"
      by (simp add: read_escape_def)
    with None show ?thesis by (simp add: go_runes_def)
  next
    case (Some rw)
    obtain r w where rw: "decode_rune (c # s) = Some (r, w)" using Some by (cases rw) simp
    note d = decode_rune_encode [OF rw]
    have "read_escape (CHR ''u'' # hex_text 4 r @ rest) = Some (utf8_bytes r, rest)" if "r < 0x10000"
      using read_hex_text [of 4 0 r rest] that by (simp add: read_escape_def)
    moreover have "read_escape (CHR ''U'' # hex_text 8 r @ rest) = Some (utf8_bytes r, rest)"
      using read_hex_text [of 8 0 r rest] d(2) by (simp add: read_escape_def)
    ultimately show ?thesis
      using d go_unquote_high [OF d(4), of rest] by (simp add: go_runes_def rw)
  qed
qed

lemma go_runes_safe: "quotes_safely (go_runes is_print)"
proof -
  have high: "safe_text u" if "list_all (\<lambda>c. CHR 0x80 \<le> c) u" for u
    using that by (induction u rule: safe_text.induct) (auto simp: less_eq_char_def)
  have "list_all (\<lambda>d. CHR 0x30 \<le> hex_digit d \<and> hex_digit d < CHR 0x7F \<and> hex_digit d \<noteq> CHR 0x5C) [0..<16]"
    by code_simp
  then have digit: "CHR 0x30 \<le> hex_digit d" "hex_digit d < CHR 0x7F" "hex_digit d \<noteq> CHR 0x5C" if "d < 16" for d
    using that by (auto simp: list_all_iff)
  have hex: "safe_text (hex_text k r)" for k r
  proof (induction k)
    case (Suc k)
    have "hex_text (Suc k) r = [hex_digit (r div 16 ^ k mod 16)] @ hex_text k r"
      by (simp add: hex_text_def)
    moreover have "safe_text [hex_digit (r div 16 ^ k mod 16)]"
      using digit [of "r div 16 ^ k mod 16"] by (auto simp: less_eq_char_def less_char_def)
    ultimately show ?case using safe_text_append Suc by metis
  qed (simp add: hex_text_def)
  have escape: "safe_text (CHR 0x5C # d # hex_text k r)" if "d \<in> {CHR ''x'', CHR ''u'', CHR ''U''}" for d k r
    using that hex [of k r] by (auto simp: less_eq_char_def)
  show ?thesis
    unfolding quotes_safely_def
  proof (intro allI impI)
    fix c s
    show "safe_text (fst (go_runes is_print (c # s)))"
      using escape high [OF decode_rune_encode(4)]
      by (auto simp: go_runes_def split: option.split)
  qed
qed

text \<open>
  C25: No value of a component's challenge can add, hide, split or change a parameter of the header the
  frontend answers with. A client finds exactly the nonempty parameters of the challenge, in order;
  undoing Go's escapes gives every value back byte for byte, and undoing the escapes of the HTTP grammar
  does so when all values are printable ASCII. The header has no byte below 0x20, so it stays on its line.
\<close>

theorem challenge_readable:
  "map_option (map (apsnd go_unquote)) (read_challenge (authorization_challenge (go_runes is_print) e))
      = Some (map (apsnd Some) (challenge_params e))
    \<and> (list_all (\<lambda>(n, v). list_all plain_ascii v) (challenge_params e) \<longrightarrow>
         map_option (map (apsnd http_unquote)) (read_challenge (authorization_challenge (go_runes is_print) e))
           = Some (challenge_params e))
    \<and> list_all (\<lambda>c. CHR 0x20 \<le> c) (authorization_challenge (go_runes is_print) e)"
proof -
  note read = challenge_raw [OF go_runes_safe, of is_print e]
  have "go_unquote (quote_runes (go_runes is_print) v) = Some v" for v
    using go_unquote_runes [OF go_runes_read_back, of is_print v "[]"] by simp
  then have "map_option (map (apsnd go_unquote)) (read_challenge (authorization_challenge (go_runes is_print) e)) = Some (map (apsnd Some) (challenge_params e))"
    using read by auto
  moreover have "map_option (map (apsnd http_unquote)) (read_challenge (authorization_challenge (go_runes is_print) e)) = Some (challenge_params e)"
    if "list_all (\<lambda>(n, v). list_all plain_ascii v) (challenge_params e)"
    using that read by (auto simp: list_all_iff http_unquote_runes intro!: map_idI)
  ultimately show ?thesis using read by blast
qed

text \<open>
  A component that names a realm with a quote, a line break and a letter beyond ASCII in it, and one with
  a quote only: the first is read back whole by a reader of Go's syntax, the second by every reader.
\<close>

theorem challenge_readable_witness:
  "map_option (map (apsnd go_unquote)) (read_challenge (authorization_challenge (go_runes (\<lambda>r. r \<noteq> 0xAD))
     (bare_error 401\<lparr>ae_realm := [CHR 0x22, CHR 0x0A, CHR 0xC2, CHR 0xAD], ae_code := ''x''\<rparr>)))
   = Some [(''realm'', Some [CHR 0x22, CHR 0x0A, CHR 0xC2, CHR 0xAD]), (''error'', Some ''x'')]
   \<and> map_option (map (apsnd http_unquote)) (read_challenge (authorization_challenge (go_runes (\<lambda>r. r \<noteq> 0xAD))
     (bare_error 401\<lparr>ae_realm := [CHR ''a'', CHR 0x22], ae_code := ''x''\<rparr>)))
   = Some [(''realm'', [CHR ''a'', CHR 0x22]), (''error'', ''x'')]"
proof -
  have params: "challenge_params (bare_error 401\<lparr>ae_realm := v, ae_code := ''x''\<rparr>) = [(''realm'', v), (''error'', ''x'')]"
    if "v \<noteq> []" for v
    using that by (simp add: challenge_params_def bare_error_def scope_text_def)
  have "list_all (\<lambda>(n, v). list_all plain_ascii v)
      (challenge_params (bare_error 401\<lparr>ae_realm := [CHR ''a'', CHR 0x22], ae_code := ''x''\<rparr>))"
    unfolding params [OF list.distinct(2)] by (simp add: plain_ascii_def less_eq_char_def less_char_def)
  with challenge_readable [of "\<lambda>r. r \<noteq> 0xAD" "bare_error 401\<lparr>ae_realm := [CHR 0x22, CHR 0x0A, CHR 0xC2, CHR 0xAD], ae_code := ''x''\<rparr>"]
    challenge_readable [of "\<lambda>r. r \<noteq> 0xAD" "bare_error 401\<lparr>ae_realm := [CHR ''a'', CHR 0x22], ae_code := ''x''\<rparr>"]
  show ?thesis by (simp add: params)
qed

section \<open>The responses\<close>

text \<open>
  An \<open>http.ResponseWriter\<close>: the header that can still change, and what went out: the status with the
  header as it was then, and the body. Only the first \<open>WriteHeader\<close> counts, and a write without one
  sends 200. Informational statuses, which no handler of the program writes, are left out.
\<close>

record response =
  rs_header :: header
  rs_sent :: "(int \<times> header) option"
  rs_body :: string

definition rw_write_header :: "int \<Rightarrow> response \<Rightarrow> response" where
  "rw_write_header status r =
     (if rs_sent r = None then r\<lparr>rs_sent := Some (status, rs_header r)\<rparr> else r)"

definition rw_write :: "string \<Rightarrow> response \<Rightarrow> response" where
  "rw_write b r = (let r = rw_write_header 200 r in r\<lparr>rs_body := rs_body r @ b\<rparr>)"

definition rw_flush :: "response \<Rightarrow> response" where
  "rw_flush r = rw_write_header 200 r"

text \<open>\<open>http.Error\<close>.\<close>

definition http_error :: "string \<Rightarrow> int \<Rightarrow> response \<Rightarrow> response" where
  "http_error msg code r =
     rw_write (msg @ [CHR 0x0A]) (rw_write_header code (r\<lparr>rs_header :=
       header_set ''X-Content-Type-Options'' [''nosniff'']
         (header_set ''Content-Type'' [''text/plain; charset=utf-8''] (header_del ''Content-Length'' (rs_header r)))\<rparr>))"

text \<open>
  \<open>writeAuthorizationErrors\<close>: the embedding program's own response, the option
  \<open>AuthorizationResponse\<close>, or a header per challenge and the status of the first.
\<close>

type_synonym auth_response = "(auth_error list \<Rightarrow> response \<Rightarrow> response) option"

definition write_authorization_errors ::
    "rune_quoter \<Rightarrow> auth_response \<Rightarrow> auth_error list \<Rightarrow> response \<Rightarrow> response" where
  "write_authorization_errors Q custom challenges r =
     (case custom of
        Some f \<Rightarrow> f challenges r
      | None \<Rightarrow> http_error ''component requires authorization'' (ae_status (hd challenges))
          (fold (\<lambda>c r. r\<lparr>rs_header := header_add ''WWW-Authenticate'' (authorization_challenge Q c) (rs_header r)\<rparr>)
            challenges r))"

text \<open>
  \<open>captureAuthorizationError\<close>: the challenges of an error go to the capture registered under the token in
  the header of the request, or else to the one in the context.
\<close>

definition capture_authorization_error ::
    "string set \<Rightarrow> string option \<Rightarrow> string option \<Rightarrow> go_error option \<Rightarrow> (string \<Rightarrow> auth_error list)
       \<Rightarrow> string \<Rightarrow> auth_error list" where
  "capture_authorization_error registered header_token context_token err captures =
     (let challenges = authorization_errors err;
          from_header = (case header_token of
                           Some t \<Rightarrow> if t \<in> registered then Some t else None | None \<Rightarrow> None);
          capture = (case from_header of Some t \<Rightarrow> Some t | None \<Rightarrow> context_token)
      in if challenges = [] then captures
         else case capture of None \<Rightarrow> captures | Some t \<Rightarrow> captures(t := captures t @ challenges))"

text \<open>
  What a handler does to the writer it is given, and the challenges its middleware captures meanwhile.
\<close>

datatype act = Put_header string "string list" | Write_header int | Write string | Flush
  | Capture "auth_error list"

fun direct_act :: "act \<Rightarrow> response \<Rightarrow> response" where
  "direct_act (Put_header n vs) r = r\<lparr>rs_header := header_set n vs (rs_header r)\<rparr>"
| "direct_act (Write_header status) r = rw_write_header status r"
| "direct_act (Write b) r = rw_write b r"
| "direct_act Flush r = rw_flush r"
| "direct_act (Capture es) r = r"

text \<open>\<open>streamingAuthorizationWriter\<close>.\<close>

record streaming_writer =
  sw_response :: response
  sw_captured :: "auth_error list"
  sw_committed :: bool
  sw_rejected :: bool

definition stream_write_header ::
    "rune_quoter \<Rightarrow> auth_response \<Rightarrow> int \<Rightarrow> streaming_writer \<Rightarrow> streaming_writer" where
  "stream_write_header Q custom status w =
     (if sw_committed w then w
      else let w = w\<lparr>sw_committed := True\<rparr>
           in if length (sw_captured w) > 0
              then w\<lparr>sw_rejected := True,
                     sw_response := write_authorization_errors Q custom (sw_captured w) (sw_response w)\<rparr>
              else w\<lparr>sw_response := rw_write_header status (sw_response w)\<rparr>)"

definition stream_write :: "rune_quoter \<Rightarrow> auth_response \<Rightarrow> string \<Rightarrow> streaming_writer \<Rightarrow> streaming_writer" where
  "stream_write Q custom b w =
     (let w = (if \<not> sw_committed w then stream_write_header Q custom 200 w else w)
      in if sw_rejected w then w else w\<lparr>sw_response := rw_write b (sw_response w)\<rparr>)"

definition stream_flush :: "rune_quoter \<Rightarrow> auth_response \<Rightarrow> streaming_writer \<Rightarrow> streaming_writer" where
  "stream_flush Q custom w =
     (let w = (if \<not> sw_committed w then stream_write_header Q custom 200 w else w)
      in w\<lparr>sw_response := rw_flush (sw_response w)\<rparr>)"

fun stream_act :: "rune_quoter \<Rightarrow> auth_response \<Rightarrow> act \<Rightarrow> streaming_writer \<Rightarrow> streaming_writer" where
  "stream_act Q custom (Put_header n vs) w = w\<lparr>sw_response := direct_act (Put_header n vs) (sw_response w)\<rparr>"
| "stream_act Q custom (Write_header status) w = stream_write_header Q custom status w"
| "stream_act Q custom (Write b) w = stream_write Q custom b w"
| "stream_act Q custom Flush w = stream_flush Q custom w"
| "stream_act Q custom (Capture es) w = w\<lparr>sw_captured := sw_captured w @ es\<rparr>"

text \<open>\<open>serveStreamingAuthorizationResponse\<close>, the handler being the acts it performs.\<close>

definition serve_streaming :: "rune_quoter \<Rightarrow> auth_response \<Rightarrow> act list \<Rightarrow> response \<Rightarrow> response" where
  "serve_streaming Q custom acts r =
     (let w = fold (stream_act Q custom) acts
                \<lparr>sw_response = r, sw_captured = [], sw_committed = False, sw_rejected = False\<rparr>
      in sw_response (if \<not> sw_committed w then stream_write_header Q custom 200 w else w))"

text \<open>\<open>bufferedResponseWriter\<close>: status 0 is no status yet.\<close>

record buffered_writer =
  bw_header :: header
  bw_body :: string
  bw_status :: int

definition buffer_write_header :: "int \<Rightarrow> buffered_writer \<Rightarrow> buffered_writer" where
  "buffer_write_header status w = (if bw_status w = 0 then w\<lparr>bw_status := status\<rparr> else w)"

definition buffer_write :: "string \<Rightarrow> buffered_writer \<Rightarrow> buffered_writer" where
  "buffer_write b w =
     (let w = (if bw_status w = 0 then w\<lparr>bw_status := 200\<rparr> else w) in w\<lparr>bw_body := bw_body w @ b\<rparr>)"

fun buffer_act :: "act \<Rightarrow> buffered_writer \<times> auth_error list \<Rightarrow> buffered_writer \<times> auth_error list" where
  "buffer_act (Put_header n vs) (w, es) = (w\<lparr>bw_header := header_set n vs (bw_header w)\<rparr>, es)"
| "buffer_act (Write_header status) (w, es) = (buffer_write_header status w, es)"
| "buffer_act (Write b) (w, es) = (buffer_write b w, es)"
| "buffer_act Flush (w, es) = (w, es)"
| "buffer_act (Capture es') (w, es) = (w, es @ es')"

definition buffer_write_to :: "buffered_writer \<Rightarrow> response \<Rightarrow> response" where
  "buffer_write_to w r =
     rw_write (bw_body w) (rw_write_header (if bw_status w = 0 then 200 else bw_status w)
       (r\<lparr>rs_header := fold (\<lambda>(n, vs). header_set n vs) (bw_header w) (rs_header r)\<rparr>))"

text \<open>\<open>serveBufferedAuthorizationResponse\<close>.\<close>

definition serve_buffered :: "rune_quoter \<Rightarrow> auth_response \<Rightarrow> act list \<Rightarrow> response \<Rightarrow> response" where
  "serve_buffered Q custom acts r =
     (let (w, challenges) = fold buffer_act acts (\<lparr>bw_header = [], bw_body = [], bw_status = 0\<rparr>, [])
      in if length challenges > 0 then write_authorization_errors Q custom challenges r
         else buffer_write_to w r)"

section \<open>A request is answered by its handler or by the challenges\<close>

definition commits :: "act \<Rightarrow> bool" where
  "commits a = (case a of Write_header status \<Rightarrow> True | Write b \<Rightarrow> True | Flush \<Rightarrow> True
     | Put_header n vs \<Rightarrow> False | Capture es \<Rightarrow> False)"

definition captured_by :: "act list \<Rightarrow> auth_error list" where
  "captured_by acts = concat (map (\<lambda>a. case a of Capture es \<Rightarrow> es | _ \<Rightarrow> []) acts)"

text \<open>What a client sees of a response.\<close>

definition answer :: "response \<Rightarrow> (int \<times> header) option \<times> string" where
  "answer r = (rs_sent r, rs_body r)"

lemma captured_by_simps [simp]: "captured_by [] = []" "captured_by (Capture es # acts) = es @ captured_by acts"
  "\<not> (\<exists>es. a = Capture es) \<Longrightarrow> captured_by (a # acts) = captured_by acts"
  by (simp_all add: captured_by_def) (cases a; simp)

lemma rw_write_header_sent: "rs_sent (rw_write_header s r) \<noteq> None"
  by (simp add: rw_write_header_def)

lemma rw_write_header_id: "rs_sent r \<noteq> None \<Longrightarrow> rw_write_header s r = r"
  by (simp add: rw_write_header_def)

lemma direct_act_commits: "commits a \<Longrightarrow> rs_sent (direct_act a r) \<noteq> None"
  by (cases a) (auto simp: commits_def rw_write_def rw_flush_def Let_def rw_write_header_def)

lemma direct_act_sent: "rs_sent r \<noteq> None \<Longrightarrow> rs_sent (direct_act a r) \<noteq> None"
  by (cases a) (auto simp: rw_write_def rw_flush_def Let_def rw_write_header_def)

lemma fold_direct_sent: "rs_sent r \<noteq> None \<Longrightarrow> rs_sent (fold direct_act acts r) \<noteq> None"
proof (induction acts arbitrary: r)
  case (Cons a acts)
  from Cons.IH [OF direct_act_sent [OF Cons.prems]] show ?case by simp
qed simp

lemma stream_before_commit:
  assumes "list_all (\<lambda>a. \<not> commits a) acts" and "\<not> sw_committed w"
  shows "fold (stream_act Q custom) acts w
    = w\<lparr>sw_response := fold direct_act acts (sw_response w), sw_captured := sw_captured w @ captured_by acts\<rparr>"
  using assms
proof (induction acts arbitrary: w)
  case (Cons a acts)
  then show ?case by (cases a) (simp_all add: commits_def)
qed simp

lemma stream_accepted:
  assumes "sw_committed w" and "\<not> sw_rejected w" and "rs_sent (sw_response w) \<noteq> None"
  shows "sw_response (fold (stream_act Q custom) acts w) = fold direct_act acts (sw_response w)"
  using assms
proof (induction acts arbitrary: w)
  case (Cons a acts)
  let ?v = "stream_act Q custom a w"
  have step: "sw_response ?v = direct_act a (sw_response w) \<and> sw_committed ?v \<and> \<not> sw_rejected ?v"
    using Cons.prems by (cases a) (simp_all add: stream_write_header_def stream_write_def stream_flush_def rw_write_header_id)
  with direct_act_sent [OF Cons.prems(3), of a] Cons.IH [of ?v] show ?case by simp
qed simp

lemma stream_rejected:
  assumes "sw_committed w" and "sw_rejected w" and "rs_sent (sw_response w) \<noteq> None"
  shows "answer (sw_response (fold (stream_act Q custom) acts w)) = answer (sw_response w)"
  using assms
proof (induction acts arbitrary: w)
  case (Cons a acts)
  let ?v = "stream_act Q custom a w"
  have step: "answer (sw_response ?v) = answer (sw_response w) \<and> sw_committed ?v \<and> sw_rejected ?v
      \<and> rs_sent (sw_response ?v) \<noteq> None"
    using Cons.prems
    by (cases a) (simp_all add: stream_write_header_def stream_write_def stream_flush_def rw_flush_def
        rw_write_header_id answer_def)
  with Cons.IH [of ?v] show ?case by simp
qed simp

lemma stream_committed: "sw_committed w \<Longrightarrow> sw_committed (fold (stream_act Q custom) acts w)"
proof (induction acts arbitrary: w)
  case (Cons a acts)
  then have "sw_committed (stream_act Q custom a w)"
    by (cases a) (simp_all add: stream_write_header_def stream_write_def stream_flush_def Let_def)
  with Cons.IH show ?case by simp
qed simp

text \<open>The act that commits.\<close>

lemma stream_commit:
  assumes "commits a" and "\<not> sw_committed w" and "\<not> sw_rejected w"
    and "rs_sent (write_authorization_errors Q custom (sw_captured w) (sw_response w)) \<noteq> None"
  shows "sw_committed (stream_act Q custom a w)"
    and "sw_captured w = [] \<Longrightarrow> sw_response (stream_act Q custom a w) = direct_act a (sw_response w)
      \<and> \<not> sw_rejected (stream_act Q custom a w)"
    and "sw_captured w \<noteq> [] \<Longrightarrow> sw_response (stream_act Q custom a w)
        = write_authorization_errors Q custom (sw_captured w) (sw_response w)
      \<and> sw_rejected (stream_act Q custom a w)"
  using assms
  by (cases a; simp add: commits_def stream_write_header_def stream_write_def stream_flush_def Let_def
      rw_write_def rw_flush_def rw_write_header_id rw_write_header_sent)+

text \<open>
  C26: A streamed response is all or nothing: when a challenge was captured before the handler first
  wrote, the client gets exactly the authorization response, whatever the handler writes after it;
  otherwise exactly what the handler wrote, even when a challenge is captured later. An embedding
  program's own authorization response is assumed to send a status.
\<close>

theorem streaming_all_or_challenge:
  assumes "rs_sent r = None"
    and "\<And>cs r. rs_sent (write_authorization_errors Q custom cs r) \<noteq> None"
  shows "answer (serve_streaming Q custom acts r) =
    (let before = takeWhile (\<lambda>a. \<not> commits a) acts
     in if captured_by before = [] then answer (rw_write_header 200 (fold direct_act acts r))
        else answer (write_authorization_errors Q custom (captured_by before) (fold direct_act before r)))"
proof -
  let ?pre = "takeWhile (\<lambda>a. \<not> commits a) acts" and ?post = "dropWhile (\<lambda>a. \<not> commits a) acts"
  let ?w = "\<lparr>sw_response = fold direct_act ?pre r, sw_captured = captured_by ?pre,
    sw_committed = False, sw_rejected = False\<rparr>"
  have acts: "acts = ?pre @ ?post" by simp
  have "list_all (\<lambda>a. \<not> commits a) ?pre" by (auto simp: list_all_iff dest: set_takeWhileD)
  from stream_before_commit [OF this, of "\<lparr>sw_response = r, sw_captured = [], sw_committed = False, sw_rejected = False\<rparr>" Q custom]
  have pre: "fold (stream_act Q custom) ?pre
      \<lparr>sw_response = r, sw_captured = [], sw_committed = False, sw_rejected = False\<rparr> = ?w" by simp
  have run: "fold (stream_act Q custom) acts
      \<lparr>sw_response = r, sw_captured = [], sw_committed = False, sw_rejected = False\<rparr>
    = fold (stream_act Q custom) ?post ?w"
    by (subst acts) (simp only: fold_append comp_apply pre)
  have direct: "fold direct_act acts r = fold direct_act ?post (fold direct_act ?pre r)"
    by (subst acts) (simp only: fold_append comp_apply)
  show ?thesis
  proof (cases ?post)
    case Nil
    show ?thesis
      unfolding serve_streaming_def run direct Nil by (simp add: Let_def stream_write_header_def)
  next
    case (Cons a post)
    have a: "commits a" using Cons by (metis dropWhile_eq_Cons_conv)
    let ?v = "stream_act Q custom a ?w"
    note c = stream_commit [OF a, of ?w Q custom] assms(2)
    have served: "serve_streaming Q custom acts r = sw_response (fold (stream_act Q custom) post ?v)"
      using stream_committed [of ?v Q custom post] c(1) [OF _ _ assms(2)]
      by (simp add: serve_streaming_def run Cons Let_def)
    show ?thesis
    proof (cases "captured_by ?pre = []")
      case True
      with c(2) have v: "sw_response ?v = direct_act a (fold direct_act ?pre r)" "\<not> sw_rejected ?v" "sw_committed ?v"
        using c(1) assms(2) by simp_all
      have "sw_response (fold (stream_act Q custom) post ?v) = fold direct_act acts r"
        using stream_accepted [OF v(3,2), of Q custom post] direct_act_commits [OF a] direct Cons by (simp add: v(1))
      moreover have "rs_sent (fold direct_act acts r) \<noteq> None"
        unfolding direct Cons using fold_direct_sent [OF direct_act_commits [OF a]] by simp
      ultimately show ?thesis using True by (simp add: served Let_def rw_write_header_id)
    next
      case False
      with c(3) have v: "sw_response ?v = write_authorization_errors Q custom (captured_by ?pre) (fold direct_act ?pre r)"
        "sw_rejected ?v" "sw_committed ?v"
        using c(1) assms(2) by simp_all
      with stream_rejected [OF v(3,2), of Q custom post] assms(2) False show ?thesis by (simp add: served Let_def)
    qed
  qed
qed

text \<open>A challenge captured before the first write, and one captured too late.\<close>

theorem streaming_all_or_challenge_witness:
  "answer (serve_streaming (\<lambda>s. (take 1 s, 1)) None [Put_header ''A'' [''b''], Capture [bare_error 401], Write ''x'']
      \<lparr>rs_header = [], rs_sent = None, rs_body = []\<rparr>)
    = (Some (401, [(''A'', [''b'']), (''WWW-Authenticate'', [''Bearer'']),
         (''Content-Type'', [''text/plain; charset=utf-8'']), (''X-Content-Type-Options'', [''nosniff''])]),
       ''component requires authorization'' @ [CHR 0x0A]) \<and>
   answer (serve_streaming (\<lambda>s. (take 1 s, 1)) None [Write ''x'', Capture [bare_error 401], Write ''y'']
      \<lparr>rs_header = [], rs_sent = None, rs_body = []\<rparr>) = (Some (200, []), ''xy'')"
proof -
  let ?Q = "\<lambda>s :: string. (take 1 s, 1 :: nat)"
  have sends: "rs_sent (write_authorization_errors ?Q None cs r) \<noteq> None" for cs r
    by (simp add: write_authorization_errors_def http_error_def rw_write_def rw_write_header_def Let_def)
  show ?thesis
    using streaming_all_or_challenge [of "\<lparr>rs_header = [], rs_sent = None, rs_body = []\<rparr>" ?Q None, OF _ sends,
        of "[Put_header ''A'' [''b''], Capture [bare_error 401], Write ''x'']"]
      streaming_all_or_challenge [of "\<lparr>rs_header = [], rs_sent = None, rs_body = []\<rparr>" ?Q None, OF _ sends,
        of "[Write ''x'', Capture [bare_error 401], Write ''y'']"]
    by (simp add: commits_def answer_def rw_write_header_def rw_write_def write_authorization_errors_def
        http_error_def header_set_def header_del_def header_add_def header_values_def
        authorization_challenge_def challenge_params_def bare_error_def scope_text_def)
qed

text \<open>
  A buffered response answers with the challenges whenever one was captured, and otherwise with the
  status and the body the handler wrote, as long as it does not flush before it writes: the buffer
  ignores a flush.
\<close>

definition buffers_as :: "buffered_writer \<Rightarrow> response \<Rightarrow> bool" where
  "buffers_as w r \<longleftrightarrow> rs_body r = bw_body w \<and>
     (case rs_sent r of None \<Rightarrow> bw_status w = 0 | Some (status, h) \<Rightarrow> status = bw_status w \<and> status \<noteq> 0)"

lemma buffer_act_as:
  assumes "buffers_as w r" and "a \<noteq> Write_header 0" and "a \<noteq> Flush"
  shows "buffers_as (fst (buffer_act a (w, es))) (direct_act a r)"
    and "snd (buffer_act a (w, es)) = es @ captured_by [a]"
  using assms
  by (cases a; cases "rs_sent r"; simp add: buffers_as_def buffer_write_header_def buffer_write_def
      rw_write_def rw_write_header_def Let_def case_prod_beta)+

lemma buffer_run:
  assumes "buffers_as w r" and "\<forall>a\<in>set acts. a \<noteq> Write_header 0 \<and> a \<noteq> Flush"
  shows "buffers_as (fst (fold buffer_act acts (w, es))) (fold direct_act acts r)
    \<and> snd (fold buffer_act acts (w, es)) = es @ captured_by acts"
  using assms
proof (induction acts arbitrary: w r es)
  case (Cons a acts)
  then have a: "a \<noteq> Write_header 0" "a \<noteq> Flush" by simp_all
  have "fold buffer_act (a # acts) (w, es) = fold buffer_act acts (fst (buffer_act a (w, es)), es @ captured_by [a])"
    using buffer_act_as(2) [OF Cons.prems(1) a, of es] by (metis fold_simps(2) prod.collapse)
  moreover have "captured_by (a # acts) = captured_by [a] @ captured_by acts" by (simp add: captured_by_def)
  ultimately show ?case
    using Cons.IH [OF buffer_act_as(1) [OF Cons.prems(1) a, of es]] Cons.prems(2) by simp
qed simp

lemma buffered_all_or_challenge:
  assumes "rs_sent r = None" and "rs_body r = []" and "\<forall>a\<in>set acts. a \<noteq> Write_header 0 \<and> a \<noteq> Flush"
  shows "if captured_by acts = []
    then rs_body (serve_buffered Q custom acts r) = rs_body (fold direct_act acts r)
       \<and> map_option fst (rs_sent (serve_buffered Q custom acts r))
         = map_option fst (rs_sent (rw_write_header 200 (fold direct_act acts r)))
    else serve_buffered Q custom acts r = write_authorization_errors Q custom (captured_by acts) r"
proof -
  let ?w = "\<lparr>bw_header = [], bw_body = [], bw_status = 0\<rparr>"
  have "buffers_as ?w r" using assms(1,2) by (simp add: buffers_as_def)
  from buffer_run [OF this assms(3), of "[]"] have run:
    "buffers_as (fst (fold buffer_act acts (?w, []))) (fold direct_act acts r)"
    "snd (fold buffer_act acts (?w, [])) = captured_by acts" by simp_all
  then show ?thesis using assms(1,2)
    by (simp add: serve_buffered_def case_prod_beta Let_def buffers_as_def buffer_write_to_def rw_write_def
        rw_write_header_def split: option.splits)
qed

end
