(* ===== verification/Config_Bridge.thy ===== *)
theory Config_Bridge
  imports Request_Catalog Authorization
begin

text \<open>
  How a request finds its configuration: \<open>context.go\<close>, \<open>http_config_bridge.go\<close>, \<open>http_dispatch.go\<close>, and
  the lookups of \<open>handler.go\<close> (\<open>configForRequest\<close>, \<open>catalogForRequest\<close>, the configuration of
  \<open>acquireRuntime\<close>). The HTTP layer stores a selection under a fresh token and puts the token into a
  private header; the protocol layer, which the SDK runs with its own context, finds the selection again
  by that header.
\<close>

section \<open>Contexts\<close>

record ctx =
  cx_config :: "config option"
  cx_config_id :: "string option"
  cx_dsn :: "string option"
  cx_headers :: "header option"

definition context_with_config :: "config \<Rightarrow> ctx \<Rightarrow> ctx" where
  "context_with_config cfg cx = cx\<lparr>cx_config := Some cfg\<rparr>"

definition config_id_from_context :: "ctx \<Rightarrow> string option" where
  "config_id_from_context cx = (case cx_config_id cx of None \<Rightarrow> None | Some i \<Rightarrow> if i \<noteq> [] then Some i else None)"

definition context_with_dsn :: "string \<Rightarrow> ctx \<Rightarrow> ctx" where
  "context_with_dsn dsn cx = cx\<lparr>cx_dsn := Some dsn\<rparr>"

definition effective_config :: "ctx \<Rightarrow> config \<Rightarrow> config" where
  "effective_config cx default_config = (case cx_config cx of Some cfg \<Rightarrow> cfg | None \<Rightarrow> default_config)"

definition effective_dsn :: "ctx \<Rightarrow> string \<Rightarrow> string" where
  "effective_dsn cx default_dsn = (case cx_dsn cx of Some dsn \<Rightarrow> dsn | None \<Rightarrow> default_dsn)"

section \<open>The selections of the requests\<close>

record 't selection =
  sn_runtime_config :: "config option"
  sn_config :: "config option"
  sn_use_default :: bool
  sn_dsn :: string
  sn_dsn_set :: bool
  sn_pending :: "'t catalog option"
  sn_pending_fingerprint :: string

type_synonym 't selections = "string \<Rightarrow> 't selection option"

definition put_selection :: "string \<Rightarrow> 't selection \<Rightarrow> 't selections \<Rightarrow> 't selections" where
  "put_selection token s entries = entries(token \<mapsto> s)"

definition set_pending :: "string \<Rightarrow> 't catalog \<Rightarrow> string \<Rightarrow> 't selections \<Rightarrow> 't selections" where
  "set_pending token compiled fingerprint entries =
     (case entries token of
        Some s \<Rightarrow> entries(token \<mapsto> s\<lparr>sn_pending := Some compiled, sn_pending_fingerprint := fingerprint\<rparr>)
      | None \<Rightarrow> entries)"

definition delete_selection :: "string \<Rightarrow> 't selections \<Rightarrow> 't selections" where
  "delete_selection token entries = entries(token := None)"

section \<open>The bridge\<close>

record http_request =
  hr_method :: string
  hr_header :: header
  hr_body :: "string option"
  hr_context :: ctx

definition private_config_header :: string where
  "private_config_header = ''X-Mmmcp-Request-Config''"

text \<open>\<open>http.Header.Get\<close> on canonical names.\<close>

definition header_get :: "header \<Rightarrow> string \<Rightarrow> string" where
  "header_get h name = (case header_values h name of [] \<Rightarrow> [] | v # vs \<Rightarrow> v)"

text \<open>
  The part of \<open>configBridge\<close> before the next handler runs: the request it runs with and the selection it
  finds. \<open>decode\<close> is the method, name and arguments \<open>encoding/json\<close> finds in the body, if it can be read
  and is such an object; \<open>narrow\<close> is \<open>requestCatalogConfig\<close> with the catalogs cached now.
\<close>

definition initial_selection :: "ctx \<Rightarrow> 't selection" where
  "initial_selection cx =
     \<lparr>sn_runtime_config = None, sn_config = cx_config cx, sn_use_default = (cx_config cx = None),
      sn_dsn = [], sn_dsn_set = False, sn_pending = None, sn_pending_fingerprint = []\<rparr>"

definition bridged_config ::
    "(string \<Rightarrow> (string \<times> string \<times> json option) option) \<Rightarrow> (config \<Rightarrow> string \<Rightarrow> string \<Rightarrow> json option \<Rightarrow> config)
       \<Rightarrow> config \<Rightarrow> http_request \<Rightarrow> config" where
  "bridged_config decode narrow default_config r =
     (let cfg = effective_config (hr_context r) default_config
      in case hr_body r of
           None \<Rightarrow> cfg
         | Some body \<Rightarrow>
           (case decode body of None \<Rightarrow> cfg | Some (method, name, arguments) \<Rightarrow> narrow cfg method name arguments))"

definition bridge_selection :: "config \<Rightarrow> config \<Rightarrow> ctx \<Rightarrow> 't selection" where
  "bridge_selection default_config cfg cx =
     (let selection = (initial_selection cx)\<lparr>sn_runtime_config := Some (effective_config cx default_config)\<rparr>;
          selection = (if cfg_request_scoped_discovery cfg
                       then selection\<lparr>sn_config := Some cfg, sn_use_default := False\<rparr> else selection)
      in case cx_dsn cx of
           Some dsn \<Rightarrow> selection\<lparr>sn_dsn := dsn, sn_dsn_set := True\<rparr> | None \<Rightarrow> selection)"

definition bridge_enter ::
    "(string \<Rightarrow> (string \<times> string \<times> json option) option) \<Rightarrow> (config \<Rightarrow> string \<Rightarrow> string \<Rightarrow> json option \<Rightarrow> config)
       \<Rightarrow> config \<Rightarrow> string \<Rightarrow> http_request \<Rightarrow> 't selections \<Rightarrow> http_request \<times> 't selections" where
  "bridge_enter decode narrow default_config token r entries =
     (let r = r\<lparr>hr_header := header_del private_config_header (hr_header r)\<rparr>
      in if hr_method r \<noteq> ''POST'' then (r, entries)
         else
           let cfg = bridged_config decode narrow default_config r
           in (r\<lparr>hr_context := context_with_config cfg (hr_context r),
                 hr_header := header_set private_config_header [token] (hr_header r)\<rparr>,
               put_selection token (bridge_selection default_config cfg (hr_context r)) entries))"

text \<open>After the next handler returned.\<close>

definition bridge_leave :: "string \<Rightarrow> http_request \<Rightarrow> 't selections \<Rightarrow> 't selections" where
  "bridge_leave token r entries = (if hr_method r \<noteq> ''POST'' then entries else delete_selection token entries)"

section \<open>The protocol layer\<close>

text \<open>
  The header of the HTTP request travels with the protocol request; \<open>None\<close> when there is no HTTP request.
  \<open>configMiddleware\<close> gives the context the next handler runs with.
\<close>

definition selection_of :: "header option \<Rightarrow> 't selections \<Rightarrow> 't selection option" where
  "selection_of extra entries = (case extra of None \<Rightarrow> None | Some h \<Rightarrow> entries (header_get h private_config_header))"

definition config_middleware :: "config \<Rightarrow> header option \<Rightarrow> 't selections \<Rightarrow> ctx \<Rightarrow> ctx" where
  "config_middleware default_config extra entries cx =
     (case extra of
        None \<Rightarrow> cx
      | Some h \<Rightarrow>
        let cx = cx\<lparr>cx_headers := Some h\<rparr> in
        (case selection_of extra entries of
           None \<Rightarrow> cx
         | Some s \<Rightarrow>
           let cx = context_with_config (if sn_use_default s then default_config else the (sn_config s)) cx
           in if sn_dsn_set s then context_with_dsn (sn_dsn s) cx else cx))"

definition config_for_request :: "config \<Rightarrow> header option \<Rightarrow> 't selections \<Rightarrow> ctx \<Rightarrow> config" where
  "config_for_request default_config extra entries cx =
     (case selection_of extra entries of
        Some s \<Rightarrow> if sn_use_default s then default_config else the (sn_config s)
      | None \<Rightarrow> effective_config cx default_config)"

text \<open>
  \<open>catalogForRequest\<close>: the pending catalog this request already discovered, or one from the registry;
  \<open>call\<close> is the name and the arguments of a tool call.
\<close>

definition catalog_for_request ::
    "(config \<Rightarrow> ('e, 't catalog \<times> string) res) \<Rightarrow> (config \<Rightarrow> string \<Rightarrow> string \<Rightarrow> json option \<Rightarrow> config)
       \<Rightarrow> config \<Rightarrow> header option \<Rightarrow> 't selections \<Rightarrow> ctx \<Rightarrow> (string \<times> json option) option
       \<Rightarrow> ('e, 't catalog \<times> string) res" where
  "catalog_for_request get narrow default_config extra entries cx call =
     (case selection_of extra entries of
        Some s \<Rightarrow>
          (case sn_pending s of
             Some c \<Rightarrow> Inr (c, sn_pending_fingerprint s)
           | None \<Rightarrow>
             let cfg = config_for_request default_config extra entries cx
             in get (case call of Some (name, arguments) \<Rightarrow> narrow cfg ''tools/call'' name arguments | None \<Rightarrow> cfg))
      | None \<Rightarrow>
          let cfg = config_for_request default_config extra entries cx
          in get (case call of Some (name, arguments) \<Rightarrow> narrow cfg ''tools/call'' name arguments | None \<Rightarrow> cfg))"

text \<open>The configuration whose fingerprint names the runtime of a request, in \<open>acquireRuntime\<close>.\<close>

definition runtime_config :: "config \<Rightarrow> header option \<Rightarrow> 't selections \<Rightarrow> ctx \<Rightarrow> config" where
  "runtime_config default_config extra entries cx =
     (case selection_of extra entries of
        Some s \<Rightarrow> (case sn_runtime_config s of
                     Some cfg \<Rightarrow> cfg | None \<Rightarrow> config_for_request default_config extra entries cx)
      | None \<Rightarrow> config_for_request default_config extra entries cx)"

section \<open>Requests side by side\<close>

text \<open>
  The requests that are being served, each under its token, as it came in and as the next handler got it.
  Tokens are random texts; the model's only use of that is that a new one is not in the map.
\<close>

record 't bridge_world =
  bw_entries :: "'t selections"
  bw_served :: "(string \<times> http_request \<times> http_request) list"

datatype 't bridge_act = Serve string http_request "config \<Rightarrow> 't catalog option"
  | Found_pending string "'t catalog" string | Served string

definition bridge_next ::
    "digests \<Rightarrow> (string \<Rightarrow> (string \<times> string \<times> json option) option) \<Rightarrow> config
       \<Rightarrow> 't bridge_world \<Rightarrow> 't bridge_act \<Rightarrow> 't bridge_world option" where
  "bridge_next H decode default_config w a =
     (case a of
        Serve token r cached \<Rightarrow>
          if hr_method r = ''POST'' \<and> bw_entries w token = None
          then (let (r', entries) = bridge_enter decode (request_catalog_config H cached) default_config token r (bw_entries w)
                in Some (w\<lparr>bw_entries := entries, bw_served := (token, r, r') # bw_served w\<rparr>))
          else None
      | Found_pending token compiled fingerprint \<Rightarrow>
          if token \<in> fst ` set (bw_served w)
          then Some (w\<lparr>bw_entries := set_pending token compiled fingerprint (bw_entries w)\<rparr>) else None
      | Served token \<Rightarrow>
          (case map_of (bw_served w) token of
             None \<Rightarrow> None
           | Some (r, r') \<Rightarrow> Some (w\<lparr>bw_entries := bridge_leave token r' (bw_entries w),
                                 bw_served := filter (\<lambda>(t, x). t \<noteq> token) (bw_served w)\<rparr>)))"

definition bridge_step where
  "bridge_step H decode default_config w a v \<longleftrightarrow> bridge_next H decode default_config w a = Some v"

definition bridge_start :: "'t bridge_world \<Rightarrow> bool" where
  "bridge_start w \<longleftrightarrow> w = \<lparr>bw_entries = Map.empty, bw_served = []\<rparr>"

text \<open>The selection of a request: pointing at what its context had when it came in.\<close>

definition selects :: "config \<Rightarrow> http_request \<Rightarrow> http_request \<Rightarrow> 't selection \<Rightarrow> bool" where
  "selects default_config r r' s \<longleftrightarrow>
     sn_runtime_config s = Some (effective_config (hr_context r) default_config)
     \<and> cx_config (hr_context r') = (if sn_use_default s then Some default_config else sn_config s)
     \<and> cx_config (hr_context r') \<noteq> None
     \<and> cx_dsn (hr_context r') = cx_dsn (hr_context r)
     \<and> cx_dsn (hr_context r) = (if sn_dsn_set s then Some (sn_dsn s) else None)"

definition served_ok :: "config \<Rightarrow> 't selections \<Rightarrow> string \<times> http_request \<times> http_request \<Rightarrow> bool" where
  "served_ok default_config entries x \<longleftrightarrow> (case x of (token, r, r') \<Rightarrow>
     hr_method r' = ''POST'' \<and> header_get (hr_header r') private_config_header = token
     \<and> (\<exists>s. entries token = Some s \<and> selects default_config r r' s))"

definition bridge_ok :: "config \<Rightarrow> 't bridge_world \<Rightarrow> bool" where
  "bridge_ok default_config w \<longleftrightarrow> distinct (map fst (bw_served w))
     \<and> (\<forall>x\<in>set (bw_served w). served_ok default_config (bw_entries w) x)
     \<and> dom (bw_entries w) = fst ` set (bw_served w)"

lemma header_get_set [simp]: "header_get (header_set name [v] h) name = v"
proof -
  have "map_of (header_del name h) name = None"
    by (induction h) (auto simp: header_del_def)
  then show ?thesis by (simp add: header_get_def header_values_def header_set_def map_add_def)
qed

text \<open>Without request scoped discovery a configuration is not narrowed.\<close>

lemma narrow_to_tool_scoped:
  "cfg_request_scoped_discovery (narrow_to_tool H cached cfg n) = cfg_request_scoped_discovery cfg"
  by (simp add: narrow_to_tool_def Let_def split: option.split)

lemma request_catalog_config_scoped:
  "cfg_request_scoped_discovery (request_catalog_config H cached cfg m n a) = cfg_request_scoped_discovery cfg"
  by (simp add: request_catalog_config_def Let_def narrow_to_tool_scoped scoped_config_def split: option.split)

lemma request_catalog_config_plain:
  "\<not> cfg_request_scoped_discovery cfg \<Longrightarrow> request_catalog_config H cached cfg m n a = cfg"
  by (simp add: request_catalog_config_def)

lemma bridged_config_plain:
  assumes "\<not> cfg_request_scoped_discovery (bridged_config decode (request_catalog_config H cached) d r)"
  shows "bridged_config decode (request_catalog_config H cached) d r = effective_config (hr_context r) d"
proof (cases "case hr_body r of None \<Rightarrow> None | Some body \<Rightarrow> decode body")
  case None
  then show ?thesis by (auto simp: bridged_config_def Let_def split: option.splits)
next
  case (Some x)
  obtain m n a where x: "x = (m, n, a)" by (cases x)
  with Some have b: "bridged_config decode (request_catalog_config H cached) d r
      = request_catalog_config H cached (effective_config (hr_context r) d) m n a"
    by (auto simp: bridged_config_def Let_def split: option.splits)
  from assms show ?thesis unfolding b request_catalog_config_scoped by (rule request_catalog_config_plain)
qed

lemma bridge_selection_ok:
  assumes "\<not> cfg_request_scoped_discovery cfg \<Longrightarrow> cfg = effective_config cx d"
    and "hr_context r = cx" and "hr_context r' = context_with_config cfg cx"
  shows "selects d r r' (bridge_selection d cfg cx)"
  using assms
  by (cases "cfg_request_scoped_discovery cfg"; cases "cx_config cx"; cases "cx_dsn cx")
    (simp_all add: selects_def bridge_selection_def initial_selection_def context_with_config_def
      effective_config_def)

lemma bridge_enter_ok:
  assumes "hr_method r = ''POST''"
    and "bridge_enter decode (request_catalog_config H cached) d token r entries = (r', entries')"
  shows "served_ok d entries' (token, r, r') \<and> (\<exists>s. entries' = entries(token \<mapsto> s))"
proof -
  let ?r = "r\<lparr>hr_header := header_del private_config_header (hr_header r)\<rparr>"
  let ?cfg = "bridged_config decode (request_catalog_config H cached) d ?r"
  have "selects d r r' (bridge_selection d ?cfg (hr_context r) :: 'a selection)"
    using assms bridged_config_plain [of decode H cached d ?r]
    by (intro bridge_selection_ok) (auto simp: bridge_enter_def Let_def)
  with assms show ?thesis
    by (auto simp: bridge_enter_def Let_def put_selection_def served_ok_def)
qed

lemma served_ok_other:
  "served_ok d entries x \<Longrightarrow> fst x \<noteq> token \<Longrightarrow> served_ok d (entries(token := v)) x"
  by (cases x) (simp add: served_ok_def)

lemma selects_pending:
  assumes "selects d r r' s"
  shows "selects d r r' (s\<lparr>sn_pending := c, sn_pending_fingerprint := f\<rparr>)"
proof -
  let ?s = "s\<lparr>sn_pending := c, sn_pending_fingerprint := f\<rparr>"
  have same: "sn_runtime_config ?s = sn_runtime_config s" "sn_use_default ?s = sn_use_default s"
    "sn_config ?s = sn_config s" "sn_dsn ?s = sn_dsn s" "sn_dsn_set ?s = sn_dsn_set s" by simp_all
  show ?thesis using assms unfolding selects_def same .
qed

lemma bridge_ok_next:
  assumes ok: "bridge_ok d w" and v: "bridge_next H decode d w a = Some v"
  shows "bridge_ok d v"
proof (cases a)
  case (Serve token r cached)
  obtain r' entries where e: "bridge_enter decode (request_catalog_config H cached) d token r (bw_entries w) = (r', entries)"
    by (cases "bridge_enter decode (request_catalog_config H cached) d token r (bw_entries w)")
  with v Serve have p: "hr_method r = ''POST''" "bw_entries w token = None"
    "v = w\<lparr>bw_entries := entries, bw_served := (token, r, r') # bw_served w\<rparr>"
    by (auto simp: bridge_next_def split: if_splits)
  from bridge_enter_ok [OF p(1) e] obtain s where s: "served_ok d entries (token, r, r')" "entries = (bw_entries w)(token \<mapsto> s)"
    by blast
  have "token \<notin> fst ` set (bw_served w)" using ok p(2) by (auto simp: bridge_ok_def)
  then have "served_ok d entries x" if "x \<in> set (bw_served w)" for x
    unfolding s(2) using that ok by (intro served_ok_other) (auto simp: bridge_ok_def)
  with ok s p(2,3) \<open>token \<notin> _\<close> show ?thesis by (auto simp: bridge_ok_def)
next
  case (Found_pending token c f)
  with v have p: "token \<in> fst ` set (bw_served w)" "v = w\<lparr>bw_entries := set_pending token c f (bw_entries w)\<rparr>"
    by (auto simp: bridge_next_def split: if_splits)
  with ok obtain s where s: "bw_entries w token = Some s" by (force simp: bridge_ok_def)
  have "served_ok d (set_pending token c f (bw_entries w)) x" if "x \<in> set (bw_served w)" for x
  proof (cases "fst x = token")
    case True
    with that ok s have "served_ok d (bw_entries w) x" by (simp add: bridge_ok_def)
    with True s selects_pending [of d _ _ s] show ?thesis
      by (cases x) (simp add: served_ok_def set_pending_def)
  next
    case False
    with that ok s show ?thesis unfolding set_pending_def by (auto simp: bridge_ok_def intro: served_ok_other)
  qed
  with ok p s show ?thesis by (auto simp: bridge_ok_def set_pending_def)
next
  case (Served token)
  with v obtain r r' where p: "map_of (bw_served w) token = Some (r, r')"
    "v = w\<lparr>bw_entries := bridge_leave token r' (bw_entries w), bw_served := filter (\<lambda>(t, x). t \<noteq> token) (bw_served w)\<rparr>"
    by (auto simp: bridge_next_def split: option.splits)
  have "(token, r, r') \<in> set (bw_served w)" by (rule map_of_SomeD [OF p(1)])
  with ok have post: "bridge_leave token r' (bw_entries w) = (bw_entries w)(token := None)"
    by (auto simp: bridge_ok_def served_ok_def bridge_leave_def delete_selection_def)
  have "served_ok d ((bw_entries w)(token := None)) x" if "x \<in> set (bw_served w)" "fst x \<noteq> token" for x
    using that ok by (intro served_ok_other) (auto simp: bridge_ok_def)
  with ok show ?thesis
    by (auto simp: p(2) post bridge_ok_def distinct_map_filter)
qed

interpretation bm: invariant_machine bridge_start "bridge_step H decode d" "bridge_ok d"
proof unfold_locales
  show "bridge_ok d w" if "bridge_start w" for w using that by (simp add: bridge_start_def bridge_ok_def)
  show "bridge_ok d v" if "bridge_ok d w" "bridge_step H decode d w a v" for w a v
    using that(2) unfolding bridge_step_def by (rule bridge_ok_next [OF that(1)])
qed

text \<open>
  C27: Requests never see each other's configuration. However they overlap, and whatever private header a
  client sends, the protocol layer finds for a request exactly the configuration, and the storage, that
  the HTTP layer chose for it, and opens runtimes under the full configuration of its context.
\<close>

theorem requests_isolated:
  assumes "reach bridge_start (bridge_step H decode default_config) w"
    and "(token, r, r') \<in> set (bw_served w)" and "h = hr_header r'"
  shows "cx_config (hr_context r') = Some (config_for_request default_config (Some h) (bw_entries w) cx)
    \<and> cx_config (config_middleware default_config (Some h) (bw_entries w) cx) = cx_config (hr_context r')
    \<and> (cx_dsn cx = None \<longrightarrow>
        cx_dsn (config_middleware default_config (Some h) (bw_entries w) cx) = cx_dsn (hr_context r))
    \<and> runtime_config default_config (Some h) (bw_entries w) cx = effective_config (hr_context r) default_config"
proof -
  from bm.reach_inv [OF assms(1)] assms(2) obtain s where
    s: "header_get h private_config_header = token" "bw_entries w token = Some s" "selects default_config r r' s"
    by (auto simp: bridge_ok_def served_ok_def assms(3))
  then have "selection_of (Some h) (bw_entries w) = Some s" by (simp add: selection_of_def)
  with s(3) show ?thesis
    by (cases "sn_use_default s"; cases "sn_config s")
      (auto simp: selects_def config_for_request_def config_middleware_def runtime_config_def
        context_with_config_def context_with_dsn_def)
qed

text \<open>A client that sends the token of another request gets its own configuration.\<close>

definition second_config :: config where
  "second_config = scoped_sample\<lparr>cfg_request_scoped_discovery := False, cfg_name := ''second''\<rparr>"

definition plain_request :: "config option \<Rightarrow> http_request" where
  "plain_request cfg = \<lparr>hr_method = ''POST'', hr_header = [(private_config_header, [''t1''])], hr_body = None,
     hr_context = \<lparr>cx_config = cfg, cx_config_id = None, cx_dsn = None, cx_headers = None\<rparr>\<rparr>"

definition two_served :: "string bridge_world" where
  "two_served = the (play (bridge_next \<lparr>snapshot_digest = (\<lambda>_. None), revision_digest = (\<lambda>_ _ _ _. [])\<rparr> (\<lambda>_. None)
     scoped_sample) \<lparr>bw_entries = Map.empty, bw_served = []\<rparr>
     [Serve ''t1'' (plain_request None) (\<lambda>_. None), Serve ''t2'' (plain_request (Some second_config)) (\<lambda>_. None)])"

theorem requests_isolated_witness:
  "config_for_request scoped_sample (Some [(private_config_header, [''t2''])]) (bw_entries two_served)
     (hr_context (plain_request None)) = second_config"
proof -
  let ?H = "\<lparr>snapshot_digest = (\<lambda>_. None), revision_digest = (\<lambda>_ _ _ _. [])\<rparr>"
  have run: "play (bridge_next ?H (\<lambda>_. None) scoped_sample) \<lparr>bw_entries = Map.empty, bw_served = []\<rparr>
      [Serve ''t1'' (plain_request None) (\<lambda>_. None), Serve ''t2'' (plain_request (Some second_config)) (\<lambda>_. None)]
    = Some two_served"
    by (simp add: two_served_def bridge_next_def bridge_enter_def plain_request_def put_selection_def Let_def)
  have "reach bridge_start (bridge_step ?H (\<lambda>_. None) scoped_sample) two_served"
    by (rule play_reach [OF reach_init _ run]) (simp_all add: bridge_start_def bridge_step_def)
  moreover have "(''t2'', plain_request (Some second_config),
      (plain_request (Some second_config))\<lparr>hr_header := [(private_config_header, [''t2''])]\<rparr>) \<in> set (bw_served two_served)"
    by code_simp
  ultimately show ?thesis
    using requests_isolated [OF _ _ refl, of ?H "\<lambda>_. None" scoped_sample two_served "''t2''" "plain_request (Some second_config)"
        "(plain_request (Some second_config))\<lparr>hr_header := [(private_config_header, [''t2''])]\<rparr>" "hr_context (plain_request None)"]
    by (simp add: plain_request_def)
qed

end
