(* ===== verification/Handler.thy ===== *)
theory Handler
  imports Translation Tool_Calls Pagination Config_Bridge
begin

text \<open>
  The requests of the protocol: \<open>handler.go\<close> and \<open>authorization.go\<close>. A handler works on the catalog it got
  for the request; the calls it makes to a component are given by an \<open>invoker\<close>, either the stateless
  factory or the runtime of the frontend's session. \<open>serve\<close> adds what the SDK does with a subscription the
  middleware passes on: it calls the composite's own handler.
\<close>

section \<open>Environment\<close>

record ('t, 'v) env =
  env_uris :: "('t, 'v) uri_lib"
  env_digests :: digests
  env_json :: json_lib
  env_keys :: meta_keys
  env_page_size :: int
  env_call_codec :: "call_result codec"
  env_prompt_codec :: "prompt_result codec"
  env_read_codec :: "read_result codec"
  env_parse :: "string \<Rightarrow> json option"
  env_print :: "json \<Rightarrow> string option"

record call_params =
  cp_meta :: meta
  cp_name :: string
  cp_arguments :: "json option"
  cp_rest :: json

record prompt_params =
  pp_meta :: meta
  pp_name :: string
  pp_rest :: json

record read_params =
  rp_meta :: meta
  rp_uri :: string
  rp_rest :: json

text \<open>\<open>component.Invoker\<close> and \<open>component.Runtime\<close>; a runtime belongs to its component and ignores the server.\<close>

record 'e invoker =
  iv_call :: "server \<Rightarrow> call_params \<Rightarrow> ('e, call_result option) res"
  iv_get :: "server \<Rightarrow> prompt_params \<Rightarrow> ('e, prompt_result option) res"
  iv_read :: "server \<Rightarrow> read_params \<Rightarrow> ('e, read_result option) res"
  iv_subscribe :: "server \<Rightarrow> read_params \<Rightarrow> ('e, unit) res"
  iv_unsubscribe :: "server \<Rightarrow> read_params \<Rightarrow> ('e, unit) res"

datatype 'e handler_error =
    Invalid_request string
  | Unknown_feature string string
  | Resource_not_found string
  | Downstream 'e
  | Paging page_error
  | Searching tool_search_error
  | Translating translation_error

primrec map_err :: "('e \<Rightarrow> 'f) \<Rightarrow> ('e, 'a) res \<Rightarrow> ('f, 'a) res" where
  "map_err f (Inl e) = Inl (f e)"
| "map_err f (Inr x) = Inr x"

text \<open>
  \<open>invoke\<close>: \<open>session\<close> is the frontend's stateful session (one with an ID), \<open>acquire\<close> the pool, which gives
  the runtime of the session for the component or fails. The runtime is released after the call.
\<close>

definition invoke ::
    "'s option \<Rightarrow> ('s \<Rightarrow> server \<Rightarrow> string \<Rightarrow> ('e, 'e invoker) res) \<Rightarrow> 'e invoker \<Rightarrow> server \<Rightarrow> string
       \<Rightarrow> ('e invoker \<Rightarrow> ('e, 'a) res) \<Rightarrow> ('e, 'a) res" where
  "invoke session acquire factory server pre operation =
     (case session of
        Some s \<Rightarrow> rbind (acquire s server pre) operation
      | None \<Rightarrow> operation factory)"

section \<open>Authorization status\<close>

record auth_link =
  al_url :: string
  al_message :: string

text \<open>\<open>net/url.Parse\<close>: the scheme, the host, whether there is user information, and \<open>String\<close>.\<close>

record parsed_url =
  pu_scheme :: string
  pu_host :: string
  pu_user :: bool
  pu_string :: string

definition contains_space :: "string \<Rightarrow> bool" where
  "contains_space s \<longleftrightarrow> list_ex (\<lambda>n. list_ex (has_prefix (drop n s)) space_runes) [0..<length s]"

definition contains :: "string \<Rightarrow> string \<Rightarrow> bool" where
  "contains s t \<longleftrightarrow> list_ex (\<lambda>n. has_prefix (drop n s) t) [0..<Suc (length s)]"

text \<open>
  Control characters are the bytes below space, DEL, and the two-byte sequences from \<open>C2 80\<close> to \<open>C2 9F\<close>; which
  characters format or separate lines (\<open>Cf\<close>, \<open>Zl\<close>, \<open>Zp\<close>) is Unicode's table \<open>formats\<close>.
\<close>

definition has_control :: "string \<Rightarrow> bool" where
  "has_control s \<longleftrightarrow> list_ex (\<lambda>c. c < CHR 0x20 \<or> c = CHR 0x7F) s
     \<or> list_ex (\<lambda>n. s ! n = CHR 0xC2 \<and> CHR 0x80 \<le> s ! Suc n \<and> s ! Suc n \<le> CHR 0x9F) [0..<length s - 1]"

definition plain_label :: "(string \<Rightarrow> bool) \<Rightarrow> (string \<Rightarrow> string) \<Rightarrow> string \<Rightarrow> bool" where
  "plain_label formats to_lower label =
     (let hidden = has_control label \<or> formats label;
          link_like = list_ex (\<lambda>c. c \<in> set ''[]<>'') label \<or> contains label ''://''
                      \<or> contains (to_lower label) ''www.''
      in \<not> hidden \<and> \<not> link_like)"

definition validate_link ::
    "(string \<Rightarrow> parsed_url option) \<Rightarrow> (string \<Rightarrow> bool) \<Rightarrow> (string \<Rightarrow> string) \<Rightarrow> auth_link \<Rightarrow> (string, string) res" where
  "validate_link parse formats to_lower link =
     (case parse (al_url link) of
        None \<Rightarrow> Inl ''url must be absolute http or https''
      | Some u \<Rightarrow>
        if pu_scheme u \<noteq> ''http'' \<and> pu_scheme u \<noteq> ''https'' \<or> pu_host u = []
        then Inl ''url must be absolute http or https''
        else if pu_user u then Inl ''url must not contain credentials''
        else if contains_space (al_url link) \<or> list_ex (\<lambda>c. c \<in> set ''<>'') (al_url link)
        then Inl ''url contains whitespace or angle brackets''
        else if \<not> plain_label formats to_lower (al_message link)
        then Inl ''message contains link-like or hidden characters''
        else Inr (pu_string u))"

text \<open>The loop over the links: the text so far and how many were shown.\<close>

definition show_link :: "(auth_link \<Rightarrow> (string, string) res) \<Rightarrow> auth_link \<Rightarrow> string \<times> nat \<Rightarrow> string \<times> nat" where
  "show_link validate link st =
     (case st of (message, shown) \<Rightarrow>
        (case validate link of
           Inl reason \<Rightarrow> (message, shown)
         | Inr u \<Rightarrow>
           let message = (if shown = 0 then message @ '' Show these sign-in links to the user:'' else message)
           in (message @ [CHR 0x0A] @ al_message link @ '': <'' @ u @ ''>'', shown + 1)))"

text \<open>\<open>links\<close> is the result of the option \<open>AuthorizationURLs\<close>, if it is set.\<close>

definition authorization_status ::
    "(auth_link \<Rightarrow> (string, string) res) \<Rightarrow> (unit, auth_link list) res option \<Rightarrow> 't catalog \<Rightarrow> call_result" where
  "authorization_status validate links c =
     (if length (cat_pending c) = 0
      then text_result ''Authorization complete. The available tools have been refreshed; retry the original operation.'' False
      else
        let message = ''Authorization is still required for: '' @ join '', '' (cat_pending c)
              @ ''. After the user finishes signing in through their browser, call '' @ authorization_tool_name
              @ '' again to refresh tools; do not continuously poll.''
        in case links of
             None \<Rightarrow> text_result message False
           | Some (Inl _) \<Rightarrow> text_result ''Unable to start authorization. Try again later.'' True
           | Some (Inr ls) \<Rightarrow>
             (case fold (show_link validate) ls (message, 0) of
                (message, shown) \<Rightarrow>
                  if length ls > 0 \<and> shown = 0
                  then text_result (message @ '' No valid sign-in links are available.'') True
                  else text_result message False))"

section \<open>Calls\<close>

text \<open>The remaining parameters of a call: the frontend, its session, the pool and the factory.\<close>

record ('s, 'e) caller =
  ca_frontend :: frontend
  ca_session :: "'s option"
  ca_acquire :: "'s \<Rightarrow> server \<Rightarrow> string \<Rightarrow> ('e, 'e invoker) res"
  ca_factory :: "'e invoker"

definition call_invoke :: "('s, 'e) caller \<Rightarrow> server \<Rightarrow> string \<Rightarrow> ('e invoker \<Rightarrow> ('e, 'a) res) \<Rightarrow> ('e handler_error, 'a) res" where
  "call_invoke q server pre operation =
     map_err Downstream (invoke (ca_session q) (ca_acquire q) (ca_factory q) server pre operation)"

definition call_tool ::
    "('t, 'v) env \<Rightarrow> (json option \<Rightarrow> (search_error, call_result) res) \<Rightarrow> ('s, 'e) caller \<Rightarrow> 't catalog
       \<Rightarrow> call_params option \<Rightarrow> ('e handler_error, call_result option) res" where
  "call_tool E search q c params =
     (case params of
        None \<Rightarrow> Inl (Invalid_request ''tools/call'')
      | Some p \<Rightarrow>
        (case resolve_tool_call (env_digests E) c search (cp_name p) (cp_arguments p) of
           (call, ok, err) \<Rightarrow>
             (case err of
                Some e \<Rightarrow> Inl (Searching e)
              | None \<Rightarrow>
                if \<not> ok then Inl (Unknown_feature ''tool'' (cp_name p))
                else (case rs_result call of
                        Some r \<Rightarrow> map_err Translating (normalize_call_tool_result (env_keys E) (env_call_codec E)
                                   (env_parse E) (env_print E) (ca_frontend q) (Some r) [])
                      | None \<Rightarrow>
                        let route = the (rs_route call);
                            params = \<lparr>cp_meta = downstream_meta (env_keys E) (cp_meta p),
                                      cp_name = tool_name (tr_tool route), cp_arguments = rs_arguments call,
                                      cp_rest = cp_rest p\<rparr>
                        in rbind (call_invoke q (tr_component route) (tr_prefix route)
                                   (\<lambda>iv. iv_call iv (tr_component route) params)) (\<lambda>result.
                           map_err Translating (normalize_call_tool_result (env_keys E) (env_call_codec E)
                             (env_parse E) (env_print E) (ca_frontend q)
                             (rewrite_call_tool_result (env_uris E) c (tr_prefix route) result)
                             (tr_protocol_version route)))))))"

definition get_prompt ::
    "('t, 'v) env \<Rightarrow> ('s, 'e) caller \<Rightarrow> 't catalog \<Rightarrow> prompt_params option
       \<Rightarrow> ('e handler_error, prompt_result option) res" where
  "get_prompt E q c params =
     (case params of
        None \<Rightarrow> Inl (Invalid_request ''prompts/get'')
      | Some p \<Rightarrow>
        (case route_prompt c (pp_name p) of
           None \<Rightarrow> Inl (Unknown_feature ''prompt'' (pp_name p))
         | Some route \<Rightarrow>
           let params = p\<lparr>pp_name := pr_original_name route, pp_meta := downstream_meta (env_keys E) (pp_meta p)\<rparr>
           in rbind (call_invoke q (pr_component route) (pr_prefix route)
                      (\<lambda>iv. iv_get iv (pr_component route) params)) (\<lambda>result.
              map_err Translating (normalize_get_prompt_result (env_keys E) (env_prompt_codec E) (ca_frontend q)
                (rewrite_get_prompt_result (env_uris E) c (pr_prefix route) result)))))"

definition read_resource ::
    "('t, 'v) env \<Rightarrow> ('s, 'e) caller \<Rightarrow> 't catalog \<Rightarrow> read_params option
       \<Rightarrow> ('e handler_error, read_result option) res" where
  "read_resource E q c params =
     (case params of
        None \<Rightarrow> Inl (Invalid_request ''resources/read'')
      | Some p \<Rightarrow>
        (case route_resource (env_uris E) c (rp_uri p) of
           None \<Rightarrow> Inl (Resource_not_found (rp_uri p))
         | Some route \<Rightarrow>
           let params = p\<lparr>rp_uri := rr_original_uri route, rp_meta := downstream_meta (env_keys E) (rp_meta p)\<rparr>
           in rbind (call_invoke q (rr_component route) (rr_prefix route)
                      (\<lambda>iv. iv_read iv (rr_component route) params)) (\<lambda>result.
              map_err Translating (normalize_read_resource_result (env_keys E) (env_read_codec E) (ca_frontend q)
                (rewrite_read_resource_result (env_uris E) c (rr_prefix route) result)))))"

text \<open>\<open>subscribe\<close> and \<open>unsubscribe\<close> differ in the name of the request and in the call to the component.\<close>

definition subscription ::
    "string \<Rightarrow> ('e invoker \<Rightarrow> server \<Rightarrow> read_params \<Rightarrow> ('e, unit) res) \<Rightarrow> ('t, 'v) env \<Rightarrow> ('s, 'e) caller
       \<Rightarrow> ('e handler_error, 't catalog) res \<Rightarrow> read_params option \<Rightarrow> ('e handler_error, unit) res" where
  "subscription method operation E q catalog params =
     (case params of
        None \<Rightarrow> Inl (Invalid_request method)
      | Some p \<Rightarrow> rbind catalog (\<lambda>c.
        case route_resource (env_uris E) c (rp_uri p) of
           None \<Rightarrow> Inl (Resource_not_found (rp_uri p))
         | Some route \<Rightarrow>
           let params = p\<lparr>rp_uri := rr_original_uri route, rp_meta := downstream_meta (env_keys E) (rp_meta p)\<rparr>
           in call_invoke q (rr_component route) (rr_prefix route)
                (\<lambda>iv. operation iv (rr_component route) params)))"

definition subscribe where "subscribe = subscription ''resources/subscribe'' iv_subscribe"

definition unsubscribe where "unsubscribe = subscription ''resources/unsubscribe'' iv_unsubscribe"

section \<open>Requests\<close>

text \<open>
  \<open>None\<close> for the cursor of a list request: it has no parameters. \<open>Mistyped\<close> is a request whose type is not
  the one of its method, \<open>Other_request\<close> one of a method the SDK answers itself. Subscriptions go to the
  SDK too, which hands them back to \<open>subscribe\<close> and \<open>unsubscribe\<close> (\<open>serve\<close> below).
\<close>

datatype request =
    List_tools "string option"
  | List_prompts "string option"
  | List_resources "string option"
  | List_templates "string option"
  | Call_request "call_params option"
  | Get_request "prompt_params option"
  | Read_request "read_params option"
  | Subscribe_request "read_params option"
  | Unsubscribe_request "read_params option"
  | Mistyped string
  | Other_request string

datatype reply =
    Tools_reply "mcp_tool list" string
  | Prompts_reply "mcp_prompt list" string
  | Resources_reply "mcp_resource list" string
  | Templates_reply "mcp_template list" string
  | Call_reply "call_result option"
  | Get_reply "prompt_result option"
  | Read_reply "read_result option"
  | Empty_reply
  | Next_handler

definition cursor_of :: "string option \<Rightarrow> string" where
  "cursor_of cur = (case cur of None \<Rightarrow> [] | Some x \<Rightarrow> x)"

text \<open>\<open>rmap\<close> puts a successful result into its reply.\<close>

definition rmap :: "('a \<Rightarrow> 'b) \<Rightarrow> ('e, 'a) res \<Rightarrow> ('e, 'b) res" where
  "rmap f r = rbind r (\<lambda>x. Inr (f x))"

text \<open>
  The switch of \<open>featureMiddleware\<close> on a configuration and its catalog; \<open>status\<close> is the result of
  \<open>authorizationStatus\<close>.
\<close>

definition handle ::
    "('t, 'v) env \<Rightarrow> (json option \<Rightarrow> (search_error, call_result) res) \<Rightarrow> call_result \<Rightarrow> config
       \<Rightarrow> ('s, 'e) caller \<Rightarrow> 't catalog \<Rightarrow> request \<Rightarrow> ('e handler_error, reply) res" where
  "handle E search status cfg q c req =
     (case req of
        List_tools cur \<Rightarrow> rmap (\<lambda>(tools, next). Tools_reply (omit_modern_tool_output_schemas (ca_frontend q) tools c) next)
          (map_err Paging (page_tools (env_json E) c (cursor_of cur) (env_page_size E)))
      | List_prompts cur \<Rightarrow> rmap (\<lambda>(xs, next). Prompts_reply xs next)
          (map_err Paging (page_prompts (env_json E) c (cursor_of cur) (env_page_size E)))
      | List_resources cur \<Rightarrow> rmap (\<lambda>(xs, next). Resources_reply xs next)
          (map_err Paging (page_resources (env_json E) c (cursor_of cur) (env_page_size E)))
      | List_templates cur \<Rightarrow> rmap (\<lambda>(xs, next). Templates_reply xs next)
          (map_err Paging (page_templates (env_json E) c (cursor_of cur) (env_page_size E)))
      | Call_request params \<Rightarrow>
          if cfg_defer_authorization cfg \<and> map_option cp_name params = Some authorization_tool_name
          then rmap Call_reply (map_err Translating (normalize_call_tool_result (env_keys E) (env_call_codec E)
                 (env_parse E) (env_print E) (ca_frontend q) (Some status) []))
          else rmap Call_reply (call_tool E search q c params)
      | Get_request params \<Rightarrow> rmap Get_reply (get_prompt E q c params)
      | Read_request params \<Rightarrow> rmap Read_reply (read_resource E q c params)
      | Subscribe_request params \<Rightarrow> Inr Next_handler
      | Unsubscribe_request params \<Rightarrow> Inr Next_handler
      | Mistyped method \<Rightarrow> Inl (Invalid_request method)
      | Other_request method \<Rightarrow> Inr Next_handler)"

text \<open>
  What becomes of a request the middleware passes on (\<open>SubscribeHandler\<close> and \<open>UnsubscribeHandler\<close> of
  \<open>newFrontendServer\<close>): the SDK hands a subscription to the composite's handler, which looks the catalog of
  the request up again, and answers with an empty result.
\<close>

definition serve ::
    "('t, 'v) env \<Rightarrow> (json option \<Rightarrow> (search_error, call_result) res) \<Rightarrow> call_result \<Rightarrow> config
       \<Rightarrow> ('s, 'e) caller \<Rightarrow> 't catalog \<Rightarrow> ('e handler_error, 't catalog) res \<Rightarrow> request
       \<Rightarrow> ('e handler_error, reply) res" where
  "serve E search status cfg q c again req =
     rbind (handle E search status cfg q c req) (\<lambda>r.
       if r \<noteq> Next_handler then Inr r
       else case req of
              Subscribe_request params \<Rightarrow> rmap (\<lambda>_. Empty_reply) (subscribe E q again params)
            | Unsubscribe_request params \<Rightarrow> rmap (\<lambda>_. Empty_reply) (unsubscribe E q again params)
            | _ \<Rightarrow> Inr Next_handler)"

section \<open>Properties\<close>

lemma map_err_Inl_iff: "map_err f r = Inl e \<longleftrightarrow> (\<exists>e'. r = Inl e' \<and> e = f e')"
  by (cases r) auto

text \<open>The reserved name: a configuration that defers authorization has no tool of that name.\<close>

lemma reserved_name:
  assumes "compile_discovered L H cfg pres ds = Inr c" and "pending_names (cfg_servers cfg) ds = []"
    and "cfg_defer_authorization cfg"
  shows "cat_tool_routes c authorization_tool_name = None"
  using assms(1)
proof (rule compile_discovered_cases)
  fix raw c0
  assume "cfg_defer_authorization cfg \<Longrightarrow> cat_tool_routes raw authorization_tool_name = None"
    and n: "new_catalog H raw = Some c0"
    and "if cfg_tool_search cfg then \<exists>docs. search_documents H c0 = Some docs
          \<and> c = c0\<lparr>cat_search_index := Some (new_index docs)\<rparr> else c = c0"
  with assms(3) new_catalog_fields [OF n] show ?thesis by (auto split: if_splits)
qed (use assms(2) in simp)

text \<open>What the component that owns a tool is sent for a call, and what becomes of its result.\<close>

definition forwarded_call ::
    "('t, 'v) env \<Rightarrow> ('s, 'e) caller \<Rightarrow> 't catalog \<Rightarrow> tool_route \<Rightarrow> call_params
       \<Rightarrow> ('e handler_error, call_result option) res" where
  "forwarded_call E q c r p =
     rbind (call_invoke q (tr_component r) (tr_prefix r) (\<lambda>iv. iv_call iv (tr_component r)
         \<lparr>cp_meta = downstream_meta (env_keys E) (cp_meta p), cp_name = tool_name (tr_tool r),
          cp_arguments = cp_arguments p, cp_rest = cp_rest p\<rparr>))
       (\<lambda>result. map_err Translating (normalize_call_tool_result (env_keys E) (env_call_codec E)
         (env_parse E) (env_print E) (ca_frontend q) (rewrite_call_tool_result (env_uris E) c (tr_prefix r) result)
         (tr_protocol_version r)))"

text \<open>
  C28: Every tool a catalog lists can be called under its listed name, and the call goes to the component
  that has the tool, under the name and with the arguments the component knows, without the metadata that
  belongs to the frontend's connection; the result comes back with its URIs rewritten for that component
  and translated from the component's protocol version.
\<close>

theorem listed_tool_reaches_owner:
  assumes "compile_discovered (env_uris E) H cfg pres ds = Inr c" and "pending_names (cfg_servers cfg) ds = []"
    and "\<not> cfg_tool_search cfg" and "t \<in> set (cat_tools c)" and "cp_name p = tool_name t"
  shows "\<exists>r d. (tr_component r, tr_prefix r, d) \<in> set (config_parts cfg pres ds)
     \<and> Some (tr_tool r) \<in> set (ft_tools (dr_features d))
     \<and> tool_exposed_name (tr_component r) (tr_prefix r) (tr_tool r) = Inr (tool_name t)
     \<and> handle E search status cfg q c (Call_request (Some p)) = rmap Call_reply (forwarded_call E q c r p)"
proof -
  from listed_tool_routed [OF assms(1,2,4)] obtain r where r: "cat_tool_routes c (tool_name t) = Some r" by blast
  from routed_tool [OF assms(1,2) r] obtain d where d: "(tr_component r, tr_prefix r, d) \<in> set (config_parts cfg pres ds)"
    "Some (tr_tool r) \<in> set (ft_tools (dr_features d))"
    "tool_exposed_name (tr_component r) (tr_prefix r) (tr_tool r) = Inr (tool_name t)" by blast
  have "\<not> (cfg_defer_authorization cfg \<and> cp_name p = authorization_tool_name)"
    using reserved_name [OF assms(1,2)] r assms(5) by auto
  moreover have "\<not> cat_tool_search c" using compiled_fields(10) [OF assms(1,2)] assms(3) by simp
  ultimately have "handle E search status cfg q c (Call_request (Some p)) = rmap Call_reply (forwarded_call E q c r p)"
    using r assms(5)
    by (auto simp: handle_def call_tool_def resolve_tool_call_def route_tool_def forwarded_call_def Let_def)
  with d show ?thesis by blast
qed

text \<open>A catalog some of whose components wait for their authorization.\<close>

definition waiting_catalog :: "('t, 'v) env \<Rightarrow> 't catalog \<Rightarrow> bool" where
  "waiting_catalog E c \<longleftrightarrow> (\<exists>H cfg pres ds. compile_discovered (env_uris E) H cfg pres ds = Inr c
     \<and> pending_names (cfg_servers cfg) ds \<noteq> [])"

lemma waiting_catalog_routes:
  assumes "waiting_catalog E c"
  shows "route_tool c n = None" "route_prompt c n = None" "route_resource (env_uris E) c n = None"
    "\<not> cat_tool_search c"
proof -
  obtain H' cfg pres ds where c: "compile_discovered (env_uris E) H' cfg pres ds = Inr c" "pending_names (cfg_servers cfg) ds \<noteq> []"
    using assms unfolding waiting_catalog_def by blast
  show "route_tool c n = None" "route_prompt c n = None" "route_resource (env_uris E) c n = None"
    "\<not> cat_tool_search c"
    using pending_catalog [OF c] by blast+
qed

text \<open>
  C29: While a component waits for its authorization no request reaches any component. Let the catalog of
  the request - and, for subscriptions, the one that is looked up again - be one with a component that
  waits. Then calls of tools, prompts, reads of resources, subscriptions and the end of subscriptions,
  and every other request, get an answer that is the same for every pool and every factory.
\<close>

theorem pending_requests_stay:
  assumes "waiting_catalog E c" and "\<And>c'. again = Inr c' \<Longrightarrow> waiting_catalog E c'"
  shows "serve E search status cfg (q\<lparr>ca_acquire := acquire, ca_factory := factory\<rparr>) c again req
       = serve E search status cfg q c again req"
proof -
  note f = waiting_catalog_routes [OF assms(1)]
  have tool: "call_tool E search (q\<lparr>ca_acquire := acquire, ca_factory := factory\<rparr>) c params = call_tool E search q c params" for params
    using f by (simp add: call_tool_def resolve_tool_call_def split: option.split)
  have prompt: "get_prompt E (q\<lparr>ca_acquire := acquire, ca_factory := factory\<rparr>) c params = get_prompt E q c params" for params
    using f by (simp add: get_prompt_def split: option.split)
  have resource: "read_resource E (q\<lparr>ca_acquire := acquire, ca_factory := factory\<rparr>) c params = read_resource E q c params" for params
    using f by (simp add: read_resource_def split: option.split)
  have subscription: "subscription m op E (q\<lparr>ca_acquire := acquire, ca_factory := factory\<rparr>) again params
      = subscription m op E q again params" for m op params
    using waiting_catalog_routes(3) [OF assms(2)] by (cases again) (simp_all add: subscription_def rbind_def split: option.split)
  have subs: "subscribe E (q\<lparr>ca_acquire := acquire, ca_factory := factory\<rparr>) again params = subscribe E q again params"
    "unsubscribe E (q\<lparr>ca_acquire := acquire, ca_factory := factory\<rparr>) again params = unsubscribe E q again params" for params
    unfolding subscribe_def unsubscribe_def by (rule subscription)+
  have "handle E search status cfg (q\<lparr>ca_acquire := acquire, ca_factory := factory\<rparr>) c req = handle E search status cfg q c req"
    by (cases req) (auto simp: handle_def tool prompt resource)
  then show ?thesis unfolding serve_def subs by (rule arg_cong)
qed

definition sample_env :: "(string, string) env" where
  "sample_env = \<lparr>env_uris = sample_uris, env_digests = sample_digests, env_json = sample_json, env_keys = sdk_keys,
     env_page_size = 10,
     env_call_codec = \<lparr>cd_marshal = (\<lambda>r. Some [(''x'', cr_rest r)]), cd_unmarshal = (\<lambda>w. Some (text_result ''done'' False)),
       cd_needs_input = (\<lambda>_. False), cd_nil_needs_input = None, cd_null = text_result [] False\<rparr>,
     env_prompt_codec = \<lparr>cd_marshal = (\<lambda>r. None), cd_unmarshal = (\<lambda>w. None), cd_needs_input = (\<lambda>_. False),
       cd_nil_needs_input = None, cd_null = \<lparr>pgr_messages = [], pgr_rest = JNull\<rparr>\<rparr>,
     env_read_codec = \<lparr>cd_marshal = (\<lambda>r. None), cd_unmarshal = (\<lambda>w. None), cd_needs_input = (\<lambda>_. False),
       cd_nil_needs_input = None, cd_null = \<lparr>rdr_contents = [], rdr_rest = JNull\<rparr>\<rparr>,
     env_parse = (\<lambda>_. None), env_print = (\<lambda>_. None)\<rparr>"

text \<open>A component that answers only calls of its own tool.\<close>

definition sample_caller :: "(unit, string) caller" where
  "sample_caller = \<lparr>ca_frontend = \<lparr>fe_protocol_version = None, fe_meta_version = None\<rparr>, ca_session = None,
     ca_acquire = (\<lambda>_ _ _. Inl ''closed''),
     ca_factory = \<lparr>iv_call = (\<lambda>s p. if srv_name s = ''b'' \<and> cp_name p = ''run'' then Inr (Some (text_result ''ok'' False))
                                 else Inl ''wrong''),
       iv_get = (\<lambda>_ _. Inl []), iv_read = (\<lambda>_ _. Inl []), iv_subscribe = (\<lambda>_ _. Inl []),
       iv_unsubscribe = (\<lambda>_ _. Inl [])\<rparr>\<rparr>"

definition sample_params :: call_params where
  "sample_params = \<lparr>cp_meta = [], cp_name = ''b__run'', cp_arguments = None, cp_rest = JNull\<rparr>"

theorem listed_tool_reaches_owner_witness:
  "\<exists>c r. sample_compiled False False = Inr c
     \<and> tool_exposed_name (tr_component r) (tr_prefix r) (tr_tool r) = Inr ''b__run''
     \<and> rmap Call_reply (forwarded_call sample_env sample_caller c r sample_params)
         = Inr (Call_reply (Some (text_result ''done'' False)))"
proof -
  obtain c where c: "sample_compiled False False = Inr c" using sample_compiled_ok by blast
  let ?cfg = "sample_config False [plain_server ''a'', plain_server ''b'']"
  have l: "list_ex (\<lambda>t. tool_name t = ''b__run'') (cat_tools (projr (sample_compiled False False)))" by code_simp
  then obtain t where t: "t \<in> set (cat_tools c)" "cp_name sample_params = tool_name t"
    by (auto simp: c list_ex_iff sample_params_def)
  have "handle sample_env (\<lambda>_. Inl Search_failed) (text_result [] False) ?cfg sample_caller
      (projr (sample_compiled False False)) (Call_request (Some sample_params))
    = Inr (Call_reply (Some (text_result ''done'' False)))"
    by code_simp
  moreover from c have "compile_discovered (env_uris sample_env) sample_digests ?cfg [''a'', ''b'']
      [sample_found False, sample_found False] = Inr c"
    by (simp add: sample_compiled_def sample_env_def)
  from listed_tool_reaches_owner [OF this _ _ t, of "\<lambda>_. Inl Search_failed" "text_result [] False" sample_caller] c
  obtain r where "tool_exposed_name (tr_component r) (tr_prefix r) (tr_tool r) = Inr (tool_name t)"
    "handle sample_env (\<lambda>_. Inl Search_failed) (text_result [] False) ?cfg sample_caller c (Call_request (Some sample_params))
      = rmap Call_reply (forwarded_call sample_env sample_caller c r sample_params)"
    using sample_compiled_ok(2) [of False] by (auto simp: sample_config_def)
  ultimately show ?thesis using c t(2) by (auto simp: sample_params_def)
qed

text \<open>Even a component that would take every subscription is not asked.\<close>

theorem pending_requests_stay_witness:
  "\<exists>c. sample_compiled True True = Inr c \<and>
     serve sample_env (\<lambda>_. Inl Search_failed) (text_result [] False) (sample_config True [plain_server ''a'', plain_server ''b''])
       (sample_caller\<lparr>ca_acquire := (\<lambda>_ _ _. Inl []), ca_factory := (ca_factory sample_caller)\<lparr>iv_subscribe := (\<lambda>_ _. Inr ())\<rparr>\<rparr>)
       c (Inr c) (Subscribe_request (Some \<lparr>rp_meta = [], rp_uri = ''mmmcp+a:file:///n'', rp_rest = JNull\<rparr>))
     = Inl (Resource_not_found ''mmmcp+a:file:///n'')"
proof -
  let ?cfg = "sample_config True [plain_server ''a'', plain_server ''b'']"
  let ?req = "Subscribe_request (Some \<lparr>rp_meta = [], rp_uri = ''mmmcp+a:file:///n'', rp_rest = JNull\<rparr>)"
  let ?q = "sample_caller\<lparr>ca_acquire := (\<lambda>_ _ _. Inl []), ca_factory := (ca_factory sample_caller)\<lparr>iv_subscribe := (\<lambda>_ _. Inr ())\<rparr>\<rparr>"
  obtain c where c: "sample_compiled True True = Inr c" using sample_compiled_ok by blast
  then have "compile_discovered (env_uris sample_env) sample_digests ?cfg [''a'', ''b''] [sample_found False, sample_found True] = Inr c"
    by (simp add: sample_compiled_def sample_env_def)
  moreover have "pending_names (cfg_servers ?cfg) [sample_found False, sample_found True] \<noteq> []"
    using sample_compiled_ok(2) [of True] by (simp add: sample_config_def)
  ultimately have w: "waiting_catalog sample_env c" unfolding waiting_catalog_def by blast
  have "serve sample_env (\<lambda>_. Inl Search_failed) (text_result [] False) ?cfg sample_caller
      (projr (sample_compiled True True)) (Inr (projr (sample_compiled True True))) ?req
    = Inl (Resource_not_found ''mmmcp+a:file:///n'')"
    by code_simp
  moreover have "serve sample_env (\<lambda>_. Inl Search_failed) (text_result [] False) ?cfg ?q c (Inr c) ?req
    = serve sample_env (\<lambda>_. Inl Search_failed) (text_result [] False) ?cfg sample_caller c (Inr c) ?req"
    by (rule pending_requests_stay) (use w in auto)
  ultimately show ?thesis using c by auto
qed

end
