(* ===== verification/Server.thy ===== *)
theory Server
  imports Handler
begin

text \<open>
  The server as a whole: how requests and persistent sessions are let in and how \<open>Close\<close> of \<open>composite.go\<close>
  waits for them (\<open>http.go\<close>, \<open>stdio.go\<close>), which handler answers an HTTP request, and the health and readiness
  probes of \<open>health.go\<close>.
\<close>

section \<open>Admission and shutdown\<close>

text \<open>
  A request that finds the server open holds its mutex until it is counted; \<open>Close\<close> sets the flag without a
  mutex. The stages of \<open>Close\<close> are the points between its statements: it cancels the requests' context and
  the stdio sessions, waits for both, tells the stateful HTTP sessions it knows to end and waits for those
  (\<open>bindings.close\<close>), and then closes the registry of catalogs, the pool, the factories and the stores.

  A stateful session is known from the first message its handler binds (\<open>bindServer\<close>) to its end. The SDK
  runs the handlers of such sessions in goroutines of their own, so nothing here says when a session is
  bound. Readiness probes are not counted: one that finds the server open goes on to use the registry and
  the store. Health probes use neither and are no part of the machine.
\<close>

datatype close_stage = Not_closing | Marked_closed | Http_stopped | Stdio_cancelled | Stdio_waited | Http_waited
  | Sessions_told | Sessions_waited | After_registry | After_pool | After_factory | After_stores

record server_state =
  sv_closed :: bool
  sv_http_locked :: bool
  sv_stdio_locked :: bool
  sv_http :: nat
  sv_shutdown :: bool
  sv_stdio_next :: nat
  sv_stdio_cancels :: "nat list"
  sv_stdio :: "nat list"
  sv_cancelled :: "nat list"
  sv_sessions :: "nat list"
  sv_told :: "nat list"
  sv_late :: "nat list"
  sv_probes :: nat
  sv_stage :: close_stage

text \<open>
  \<open>sv_sessions\<close> are the stateful sessions being watched. Two fields only record: \<open>sv_told\<close>, the sessions
  \<open>bindings.close\<close> listed and told to end, and \<open>sv_late\<close>, the sessions bound after it made that list.
\<close>

definition new_server :: server_state where
  "new_server = \<lparr>sv_closed = False, sv_http_locked = False, sv_stdio_locked = False, sv_http = 0, sv_shutdown = False,
     sv_stdio_next = 0, sv_stdio_cancels = [], sv_stdio = [], sv_cancelled = [], sv_sessions = [], sv_told = [],
     sv_late = [], sv_probes = 0, sv_stage = Not_closing\<rparr>"

fun stage_no :: "close_stage \<Rightarrow> nat" where
  "stage_no Not_closing = 0"
| "stage_no Marked_closed = 1"
| "stage_no Http_stopped = 2"
| "stage_no Stdio_cancelled = 3"
| "stage_no Stdio_waited = 4"
| "stage_no Http_waited = 5"
| "stage_no Sessions_told = 6"
| "stage_no Sessions_waited = 7"
| "stage_no After_registry = 8"
| "stage_no After_pool = 9"
| "stage_no After_factory = 10"
| "stage_no After_stores = 11"

definition http_admit :: "server_state \<Rightarrow> server_state" where
  "http_admit w = w\<lparr>sv_http := sv_http w + 1, sv_http_locked := False\<rparr>"

definition stdio_admit :: "server_state \<Rightarrow> server_state" where
  "stdio_admit w =
     (let i = sv_stdio_next w + 1
      in w\<lparr>sv_stdio_next := i, sv_stdio_cancels := i # sv_stdio_cancels w, sv_stdio := i # sv_stdio w,
           sv_stdio_locked := False\<rparr>)"

text \<open>A session that ends cancels its own context and forgets the cancel function; then it is counted off.\<close>

definition stdio_leave :: "nat \<Rightarrow> server_state \<Rightarrow> server_state" where
  "stdio_leave i w = w\<lparr>sv_stdio_cancels := removeAll i (sv_stdio_cancels w), sv_cancelled := i # sv_cancelled w\<rparr>"

definition stdio_done :: "nat \<Rightarrow> server_state \<Rightarrow> server_state" where
  "stdio_done i w = w\<lparr>sv_stdio := removeAll i (sv_stdio w)\<rparr>"

text \<open>A stateful session is bound by the handler of one of its messages.\<close>

definition session_bind :: "nat \<Rightarrow> server_state \<Rightarrow> server_state" where
  "session_bind i w =
     (if i \<in> set (sv_sessions w) then w
      else w\<lparr>sv_sessions := i # sv_sessions w,
             sv_late := (if stage_no (sv_stage w) \<ge> stage_no Sessions_told then i # sv_late w else sv_late w)\<rparr>)"

datatype server_act = Http_check | Http_admit | Http_leave | Stdio_check | Stdio_admit | Stdio_leave nat | Stdio_done nat
  | Session_bind nat | Session_over nat | Probe_check | Probe_done
  | Close_mark | Close_stop_http | Close_cancel_stdio | Close_wait_stdio | Close_wait_http | Close_tell_sessions
  | Close_wait_sessions | Close_catalogs | Close_pool | Close_factory | Close_all_stores

definition stage_step :: "close_stage \<Rightarrow> bool \<Rightarrow> server_state \<Rightarrow> server_state \<Rightarrow> server_state option" where
  "stage_step stage guard v w = (if sv_stage w = stage \<and> guard then Some v else None)"

definition server_next :: "server_state \<Rightarrow> server_act \<Rightarrow> server_state option" where
  "server_next w a =
     (case a of
        Http_check \<Rightarrow> if sv_http_locked w then None else Some (if sv_closed w then w else w\<lparr>sv_http_locked := True\<rparr>)
      | Http_admit \<Rightarrow> if sv_http_locked w then Some (http_admit w) else None
      | Http_leave \<Rightarrow> if sv_http w = 0 then None else Some (w\<lparr>sv_http := sv_http w - 1\<rparr>)
      | Stdio_check \<Rightarrow> if sv_stdio_locked w then None else Some (if sv_closed w then w else w\<lparr>sv_stdio_locked := True\<rparr>)
      | Stdio_admit \<Rightarrow> if sv_stdio_locked w then Some (stdio_admit w) else None
      | Stdio_leave i \<Rightarrow> if i \<notin> set (sv_stdio w) \<or> sv_stdio_locked w then None else Some (stdio_leave i w)
      | Stdio_done i \<Rightarrow>
          if i \<notin> set (sv_stdio w) \<or> i \<in> set (sv_stdio_cancels w) then None else Some (stdio_done i w)
      | Session_bind i \<Rightarrow> Some (session_bind i w)
      | Session_over i \<Rightarrow>
          if i \<notin> set (sv_sessions w) then None else Some (w\<lparr>sv_sessions := removeAll i (sv_sessions w)\<rparr>)
      | Probe_check \<Rightarrow> Some (if sv_closed w then w else w\<lparr>sv_probes := sv_probes w + 1\<rparr>)
      | Probe_done \<Rightarrow> if sv_probes w = 0 then None else Some (w\<lparr>sv_probes := sv_probes w - 1\<rparr>)
      | Close_mark \<Rightarrow> Some (if sv_closed w then w else w\<lparr>sv_closed := True, sv_stage := Marked_closed\<rparr>)
      | Close_stop_http \<Rightarrow>
          stage_step Marked_closed (\<not> sv_http_locked w) (w\<lparr>sv_shutdown := True, sv_stage := Http_stopped\<rparr>) w
      | Close_cancel_stdio \<Rightarrow>
          stage_step Http_stopped (\<not> sv_stdio_locked w)
            (w\<lparr>sv_cancelled := sv_stdio_cancels w @ sv_cancelled w, sv_stage := Stdio_cancelled\<rparr>) w
      | Close_wait_stdio \<Rightarrow> stage_step Stdio_cancelled (sv_stdio w = []) (w\<lparr>sv_stage := Stdio_waited\<rparr>) w
      | Close_wait_http \<Rightarrow> stage_step Stdio_waited (sv_http w = 0) (w\<lparr>sv_stage := Http_waited\<rparr>) w
      | Close_tell_sessions \<Rightarrow>
          stage_step Http_waited True (w\<lparr>sv_told := sv_sessions w, sv_stage := Sessions_told\<rparr>) w
      | Close_wait_sessions \<Rightarrow> stage_step Sessions_told (sv_sessions w = []) (w\<lparr>sv_stage := Sessions_waited\<rparr>) w
      | Close_catalogs \<Rightarrow> stage_step Sessions_waited True (w\<lparr>sv_stage := After_registry\<rparr>) w
      | Close_pool \<Rightarrow> stage_step After_registry True (w\<lparr>sv_stage := After_pool\<rparr>) w
      | Close_factory \<Rightarrow> stage_step After_pool True (w\<lparr>sv_stage := After_factory\<rparr>) w
      | Close_all_stores \<Rightarrow> stage_step After_factory True (w\<lparr>sv_stage := After_stores\<rparr>) w)"

definition server_start :: "server_state \<Rightarrow> bool" where
  "server_start w \<longleftrightarrow> w = new_server"

definition server_moves :: "server_state \<Rightarrow> server_act \<Rightarrow> server_state \<Rightarrow> bool" where
  "server_moves w a v \<longleftrightarrow> server_next w a = Some v"

text \<open>
  The invariant, stage by stage: from \<open>Http_stopped\<close> on no request is being let in, from \<open>Stdio_cancelled\<close> on no
  stdio session is, and every one that runs was cancelled; what was waited for stays empty. A stateful session
  that is still there once the sessions were told to end was told, or bound after that.
\<close>

definition server_inv :: "server_state \<Rightarrow> bool" where
  "server_inv w \<longleftrightarrow> (sv_closed w \<longleftrightarrow> stage_no (sv_stage w) \<ge> 1)
     \<and> set (sv_stdio w) \<subseteq> set (sv_stdio_cancels w) \<union> set (sv_cancelled w)
     \<and> (stage_no (sv_stage w) \<ge> 2 \<longrightarrow> \<not> sv_http_locked w \<and> sv_shutdown w)
     \<and> (stage_no (sv_stage w) \<ge> 3 \<longrightarrow> \<not> sv_stdio_locked w \<and> set (sv_stdio w) \<subseteq> set (sv_cancelled w))
     \<and> (stage_no (sv_stage w) \<ge> 4 \<longrightarrow> sv_stdio w = [])
     \<and> (stage_no (sv_stage w) \<ge> 5 \<longrightarrow> sv_http w = 0)
     \<and> (stage_no (sv_stage w) \<ge> 6 \<longrightarrow> set (sv_sessions w) \<subseteq> set (sv_told w) \<union> set (sv_late w))
     \<and> (stage_no (sv_stage w) \<ge> 7 \<longrightarrow> set (sv_sessions w) \<subseteq> set (sv_late w))"

lemma stage_step_Some: "stage_step stage guard v w = Some u \<longleftrightarrow> sv_stage w = stage \<and> guard \<and> u = v"
  by (auto simp: stage_step_def)

lemma if_Some_eq: "(if b then None else Some x) = Some y \<longleftrightarrow> \<not> b \<and> y = x"
  "(if b then Some x else None) = Some y \<longleftrightarrow> b \<and> y = x"
  by auto

lemmas server_steps = server_next_def stage_step_Some if_Some_eq http_admit_def stdio_admit_def Let_def

lemma server_inv_leave:
  "server_inv w \<Longrightarrow> server_inv (stdio_leave i w)" "server_inv w \<Longrightarrow> server_inv (stdio_done i w)"
  "server_inv w \<Longrightarrow> server_inv (w\<lparr>sv_sessions := removeAll i (sv_sessions w)\<rparr>)"
  unfolding server_inv_def by (simp add: stdio_leave_def, blast) (simp add: stdio_done_def, blast, simp, blast)

lemma server_inv_bind: "server_inv w \<Longrightarrow> server_inv (session_bind i w)"
  unfolding server_inv_def session_bind_def by (auto split: if_splits)

lemma server_inv_next:
  assumes "server_inv w" and "server_next w a = Some v"
  shows "server_inv v"
proof (cases a)
  case (Stdio_leave i)
  with assms server_inv_leave(1) [OF assms(1), of i] show ?thesis by (simp add: server_next_def split: if_splits)
next
  case (Stdio_done i)
  with assms server_inv_leave(2) [OF assms(1), of i] show ?thesis by (simp add: server_next_def split: if_splits)
next
  case (Session_over i)
  with assms server_inv_leave(3) [OF assms(1), of i] show ?thesis by (simp add: server_next_def split: if_splits)
next
  case (Session_bind i)
  with assms server_inv_bind [OF assms(1), of i] show ?thesis by (simp add: server_next_def)
next
  case Http_check
  with assms show ?thesis by (clarsimp simp: server_steps server_inv_def split: if_splits)
next
  case Http_admit
  with assms show ?thesis by (clarsimp simp: server_steps server_inv_def)
next
  case Http_leave
  with assms show ?thesis by (clarsimp simp: server_steps server_inv_def)
next
  case Stdio_check
  with assms show ?thesis by (clarsimp simp: server_steps server_inv_def split: if_splits)
next
  case Stdio_admit
  with assms show ?thesis by (clarsimp simp: server_steps server_inv_def) blast
next
  case Probe_check
  with assms show ?thesis by (clarsimp simp: server_steps server_inv_def split: if_splits)
next
  case Probe_done
  with assms show ?thesis by (clarsimp simp: server_steps server_inv_def)
next
  case Close_mark
  with assms show ?thesis by (clarsimp simp: server_steps server_inv_def split: if_splits)
next
  case Close_stop_http
  with assms show ?thesis by (clarsimp simp: server_steps server_inv_def)
next
  case Close_cancel_stdio
  with assms show ?thesis by (clarsimp simp: server_steps server_inv_def)
next
  case Close_wait_stdio
  with assms show ?thesis by (clarsimp simp: server_steps server_inv_def)
next
  case Close_wait_http
  with assms show ?thesis by (clarsimp simp: server_steps server_inv_def)
next
  case Close_tell_sessions
  with assms show ?thesis by (clarsimp simp: server_steps server_inv_def)
next
  case Close_wait_sessions
  with assms show ?thesis by (clarsimp simp: server_steps server_inv_def)
next
  case Close_catalogs
  with assms show ?thesis by (clarsimp simp: server_steps server_inv_def)
next
  case Close_pool
  with assms show ?thesis by (clarsimp simp: server_steps server_inv_def)
next
  case Close_factory
  with assms show ?thesis by (clarsimp simp: server_steps server_inv_def)
next
  case Close_all_stores
  with assms show ?thesis by (clarsimp simp: server_steps server_inv_def)
qed

interpretation vm: invariant_machine server_start server_moves server_inv
proof unfold_locales
  show "server_inv w" if "server_start w" for w using that by (simp add: server_start_def server_inv_def new_server_def)
  show "server_inv v" if "server_inv w" "server_moves w a v" for w v a
    using that(2) unfolding server_moves_def by (rule server_inv_next [OF that(1)])
qed

lemma stage_grows:
  assumes "server_inv w" and "server_next w a = Some v"
  shows "stage_no (sv_stage w) \<le> stage_no (sv_stage v)"
  using assms(2) server_inv_def [of w] assms(1)
  by (cases a; clarsimp simp: server_steps stdio_leave_def stdio_done_def session_bind_def)

text \<open>
  C38: From the point where \<open>Close\<close> starts to close the registry, the pool, the factories and the stores, no MCP
  request and no stdio session is in flight, none can start, and every stateful session that was bound before
  \<open>Close\<close> listed the sessions has ended. And \<open>Close\<close> waits only for what it has told to stop: the requests'
  context and the stdio sessions were cancelled, the listed sessions told to end. Two things are not
  covered: a readiness probe is not waited for, and a session may be bound after the list was made.
\<close>

theorem close_quiesces:
  assumes "reach server_start server_moves w"
  shows "(stage_no (sv_stage w) \<ge> stage_no Sessions_waited \<longrightarrow>
        sv_http w = 0 \<and> sv_stdio w = [] \<and> set (sv_sessions w) \<subseteq> set (sv_late w)
        \<and> (\<forall>a v. server_next w a = Some v \<longrightarrow> sv_http v = 0 \<and> sv_stdio v = []
             \<and> stage_no (sv_stage w) \<le> stage_no (sv_stage v)))
    \<and> (sv_stage w = Stdio_cancelled \<longrightarrow> sv_shutdown w \<and> set (sv_stdio w) \<subseteq> set (sv_cancelled w))
    \<and> (sv_stage w = Stdio_waited \<longrightarrow> sv_shutdown w)
    \<and> (sv_stage w = Sessions_told \<longrightarrow> set (sv_sessions w) \<subseteq> set (sv_told w) \<union> set (sv_late w))"
proof -
  from vm.reach_inv [OF assms] have ok: "server_inv w" .
  have "sv_http v = 0 \<and> sv_stdio v = [] \<and> stage_no (sv_stage w) \<le> stage_no (sv_stage v)"
    if "stage_no (sv_stage w) \<ge> stage_no Sessions_waited" "server_next w a = Some v" for a v
    using stage_grows [OF ok that(2)] server_inv_next [OF ok that(2)] that(1) by (simp add: server_inv_def)
  with ok show ?thesis by (simp add: server_inv_def)
qed

definition sample_acts :: "server_act list" where
  "sample_acts = [Http_check, Stdio_check, Stdio_admit, Close_mark, Http_admit, Http_check, Session_bind 7,
     Close_stop_http, Close_cancel_stdio, Stdio_leave 1, Stdio_done 1, Close_wait_stdio, Http_leave, Close_wait_http,
     Close_tell_sessions, Session_over 7, Close_wait_sessions, Close_catalogs, Close_pool, Close_factory, Close_all_stores]"

definition sample_run :: "server_state option" where
  "sample_run = play server_next new_server sample_acts"

lemma play_server: "play server_next new_server as = Some w \<Longrightarrow> reach server_start server_moves w"
  by (rule play_reach [OF reach_init, rotated 2]) (simp_all add: server_start_def server_moves_def)

theorem close_quiesces_witness:
  "sv_stage (the sample_run) = After_stores \<and> sv_told (the sample_run) = [7] \<and> sv_sessions (the sample_run) = []
    \<and> sv_http (the sample_run) = 0 \<and> sv_stdio (the sample_run) = []"
proof -
  have run: "sample_run \<noteq> None" "sv_stage (the sample_run) = After_stores" "sv_told (the sample_run) = [7]"
    "sv_late (the sample_run) = []"
    by code_simp+
  then have "play server_next new_server sample_acts = Some (the sample_run)" unfolding sample_run_def by simp
  from close_quiesces [OF play_server [OF this]] run show ?thesis by simp
qed

text \<open>
  What C38 leaves out can happen. A readiness probe that found the server open is still running when the
  stores are closed; and a session whose handler binds it only after the sessions were waited for is
  still there then. The second needs a session bound when no request is in flight.
\<close>

lemma probe_outlives_close:
  "\<exists>w. reach server_start server_moves w \<and> sv_stage w = After_stores \<and> sv_probes w = 1"
proof -
  let ?run = "[Probe_check, Close_mark, Close_stop_http, Close_cancel_stdio, Close_wait_stdio, Close_wait_http,
     Close_tell_sessions, Close_wait_sessions, Close_catalogs, Close_pool, Close_factory, Close_all_stores]"
  define w where "w = the (play server_next new_server ?run)"
  have "play server_next new_server ?run = Some w" "sv_stage w = After_stores" "sv_probes w = 1"
    unfolding w_def by (simp_all add: server_next_def new_server_def stage_step_def)
  with play_server show ?thesis by blast
qed

lemma late_session_outlives_close:
  "\<exists>w. reach server_start server_moves w \<and> sv_stage w = After_stores \<and> sv_sessions w = [7]"
proof -
  let ?run = "[Http_check, Http_admit, Http_leave, Close_mark, Close_stop_http, Close_cancel_stdio, Close_wait_stdio,
     Close_wait_http, Close_tell_sessions, Close_wait_sessions, Session_bind 7, Close_catalogs, Close_pool, Close_factory,
     Close_all_stores]"
  define w where "w = the (play server_next new_server ?run)"
  have "play server_next new_server ?run = Some w" "sv_stage w = After_stores" "sv_sessions w = [7]"
    unfolding w_def by (simp_all add: server_next_def new_server_def stage_step_def http_admit_def session_bind_def)
  with play_server show ?thesis by blast
qed

text \<open>When sessions are bound only while a request is in flight, as \<open>bindings.close\<close> expects, no session is late.\<close>

definition bound_in_flight :: "server_state \<Rightarrow> server_act \<Rightarrow> server_state \<Rightarrow> bool" where
  "bound_in_flight w a v \<longleftrightarrow> (case a of Session_bind i \<Rightarrow> sv_http w > 0 | _ \<Rightarrow> True) \<and> server_moves w a v"

interpretation vb: invariant_machine server_start bound_in_flight "\<lambda>w. server_inv w \<and> sv_late w = []"
proof unfold_locales
  show "server_inv w \<and> sv_late w = []" if "server_start w" for w
    using that by (simp add: server_start_def server_inv_def new_server_def)
  fix w v a
  assume ok: "server_inv w \<and> sv_late w = []" and step: "bound_in_flight w a v"
  then have v: "server_next w a = Some v" and b: "a = Session_bind i \<Longrightarrow> sv_http w > 0" for i
    by (auto simp: bound_in_flight_def server_moves_def)
  from ok have "sv_http w > 0 \<Longrightarrow> stage_no (sv_stage w) < 5" by (auto simp: server_inv_def not_less)
  with v b ok have "sv_late v = []"
    by (cases a; clarsimp simp: server_steps stdio_leave_def stdio_done_def session_bind_def)
  with server_inv_next [OF _ v] ok show "server_inv v \<and> sv_late v = []" by blast
qed

lemma sessions_quiesce:
  assumes "reach server_start bound_in_flight w" and "stage_no (sv_stage w) \<ge> stage_no Sessions_waited"
  shows "sv_http w = 0 \<and> sv_stdio w = [] \<and> sv_sessions w = []"
  using vb.reach_inv [OF assms(1)] assms(2) by (auto simp: server_inv_def)

section \<open>A persistent session\<close>

datatype 'e run_error = Nil_composite | Nil_context | Nil_transport | Server_closed | Catalog_error 'e

text \<open>
  \<open>runPersistent\<close> up to the point where the session runs: with the composite, the context and the transport that
  may be nil, the flag as the mutex finds it, and \<open>get\<close> the registry. The result is the implementation the
  session presents.
\<close>

definition run_persistent ::
    "bool \<Rightarrow> ctx option \<Rightarrow> bool \<Rightarrow> bool \<Rightarrow> (config \<Rightarrow> ('e, 't catalog) res) \<Rightarrow> config \<Rightarrow> ('e run_error, implementation) res" where
  "run_persistent nil_composite fe_context nil_transport closed get default_config =
     (if nil_composite then Inl Nil_composite
      else case fe_context of
             None \<Rightarrow> Inl Nil_context
           | Some cx \<Rightarrow>
             if nil_transport then Inl Nil_transport
             else if closed then Inl Server_closed
             else
               let cfg = effective_config cx default_config
               in (case get cfg of
                     Inl e \<Rightarrow> Inl (Catalog_error e)
                   | Inr c \<Rightarrow> Inr (frontend_implementation cfg (Some c))))"

section \<open>HTTP requests\<close>

datatype endpoint = Health_endpoint | Ready_endpoint | Mcp_endpoint

definition route_path :: "string \<Rightarrow> endpoint" where
  "route_path path = (if path = ''/healthz'' then Health_endpoint else if path = ''/readyz'' then Ready_endpoint else Mcp_endpoint)"

definition is_subscriptions_listen_request :: "(string \<Rightarrow> string option) \<Rightarrow> string option \<Rightarrow> bool" where
  "is_subscriptions_listen_request method_of body =
     (case body of None \<Rightarrow> False | Some b \<Rightarrow> method_of b = Some ''subscriptions/listen'')"

text \<open>Which of the two response writers serves a request that was let in.\<close>

definition is_buffered :: "(string \<Rightarrow> string option) \<Rightarrow> http_request \<Rightarrow> bool" where
  "is_buffered method_of r \<longleftrightarrow> hr_method r = ''POST'' \<and> \<not> is_subscriptions_listen_request method_of (hr_body r)"

text \<open>The header components may be sent parts of is the client's, without the private one.\<close>

definition forwarded_headers :: "header \<Rightarrow> header" where
  "forwarded_headers h = header_del ''X-Mmmcp-Authorization-Capture'' h"

text \<open>
  \<open>selectFrontendImplementation\<close>: the identity the frontend server of the request presents; a catalog that waits
  for authorization is kept for the rest of the request.
\<close>

definition select_frontend_implementation ::
    "(config \<Rightarrow> ('e, 't catalog \<times> string) res) \<Rightarrow> config \<Rightarrow> http_request \<Rightarrow> 't selections
       \<Rightarrow> ('e, implementation option) res \<times> 't selections" where
  "select_frontend_implementation get default_config r entries =
     (if hr_method r \<noteq> ''POST'' then (Inr None, entries)
      else
        let cfg = effective_config (hr_context r) default_config
        in case get cfg of
             Inl e \<Rightarrow> (Inl e, entries)
           | Inr (c, fingerprint) \<Rightarrow>
               (Inr (Some (frontend_implementation cfg (Some c))),
                if cat_pending c \<noteq> [] then set_pending (header_get (hr_header r) private_config_header) c fingerprint entries
                else entries))"

definition frontend_implementation_from_context :: "implementation option \<Rightarrow> implementation" where
  "frontend_implementation_from_context i = (case i of Some i \<Rightarrow> i | None \<Rightarrow> \<lparr>impl_name = ''mmmcp'', impl_version = ''dev''\<rparr>)"

section \<open>Probes\<close>

record probe_check =
  pc_status :: string
  pc_reason :: string

record probe_response =
  pb_status :: string
  pb_version :: string
  pb_uptime :: int
  pb_checks :: "(string \<times> probe_check) list"

definition check_of :: "string \<Rightarrow> string \<Rightarrow> probe_check" where
  "check_of status reason = \<lparr>pc_status = status, pc_reason = reason\<rparr>"

definition put_check :: "string \<Rightarrow> probe_check \<Rightarrow> probe_response \<Rightarrow> probe_response" where
  "put_check name c p = p\<lparr>pb_checks := filter (\<lambda>(n, d). n \<noteq> name) (pb_checks p) @ [(name, c)]\<rparr>"

text \<open>Nanoseconds since the start (\<open>None\<close>: no server, or one that has not started) as whole seconds.\<close>

definition uptime_seconds :: "int option \<Rightarrow> int" where
  "uptime_seconds since =
     (case since of
        None \<Rightarrow> 0
      | Some ns \<Rightarrow> let seconds = sgn ns * (\<bar>ns\<bar> div 1000000000) in if seconds < 0 then 0 else seconds)"

text \<open>\<open>encode\<close> is \<open>json.Encoder\<close> on a probe's response.\<close>

definition write_probe :: "(probe_response \<Rightarrow> string) \<Rightarrow> string \<Rightarrow> int \<Rightarrow> probe_response \<Rightarrow> response \<Rightarrow> response" where
  "write_probe encode method code p r =
     (let r = r\<lparr>rs_header := header_set ''Content-Type'' [''application/json''] (header_set ''Cache-Control'' [''no-store''] (rs_header r))\<rparr>;
          r = rw_write_header code r
      in if method \<noteq> ''HEAD'' then rw_write (encode p) r else r)"

definition probe_method_allowed :: "(probe_response \<Rightarrow> string) \<Rightarrow> string \<Rightarrow> response \<Rightarrow> bool \<times> response" where
  "probe_method_allowed encode method r =
     (if method = ''GET'' \<or> method = ''HEAD'' then (True, r)
      else (False, write_probe encode method 405
              \<lparr>pb_status = ''method_not_allowed'', pb_version = ''dev'', pb_uptime = 0, pb_checks = []\<rparr>
              (r\<lparr>rs_header := header_set ''Allow'' [''GET, HEAD''] (rs_header r)\<rparr>)))"

definition serve_health :: "(probe_response \<Rightarrow> string) \<Rightarrow> string \<Rightarrow> bool \<Rightarrow> int option \<Rightarrow> response \<Rightarrow> response" where
  "serve_health encode method closed since r =
     (case probe_method_allowed encode method r of
        (False, r) \<Rightarrow> r
      | (True, r) \<Rightarrow>
        write_probe encode method (if closed then 503 else 200)
          \<lparr>pb_status = (if closed then ''unavailable'' else ''ok''), pb_version = ''dev'', pb_uptime = uptime_seconds since,
           pb_checks = []\<rparr> r)"

text \<open>
  Readiness: \<open>catalog_ok\<close> is the outcome of \<open>Get\<close> on the default configuration, \<open>storage_ok\<close> of the ping, \<open>degraded\<close>
  the flag that a refresh of the default catalog failed. The second result is the flag afterwards.
\<close>

definition ready_response :: "bool \<Rightarrow> bool \<Rightarrow> bool \<Rightarrow> bool \<Rightarrow> bool \<Rightarrow> int option \<Rightarrow> (int \<times> probe_response) \<times> bool" where
  "ready_response closed catalog_ok tool_search degraded storage_ok since =
     (let p = \<lparr>pb_status = ''ok'', pb_version = ''dev'', pb_uptime = uptime_seconds since,
               pb_checks = [(''lifecycle'', check_of ''ok'' [])]\<rparr>
      in if closed
         then ((503, put_check ''lifecycle'' (check_of ''error'' ''server_closed'') (p\<lparr>pb_status := ''unavailable''\<rparr>)), degraded)
         else
           let degraded = (if catalog_ok \<and> tool_search then False else degraded);
               p = (if \<not> catalog_ok
                    then put_check ''catalog'' (check_of ''error'' ''catalog_unavailable'') (p\<lparr>pb_status := ''unavailable''\<rparr>)
                    else if degraded
                    then put_check ''catalog'' (check_of ''degraded'' ''refresh_failed'') (p\<lparr>pb_status := ''degraded''\<rparr>)
                    else put_check ''catalog'' (check_of ''ok'' []) p);
               p = (if \<not> storage_ok
                    then put_check ''storage'' (check_of ''error'' ''storage_unavailable'') (p\<lparr>pb_status := ''unavailable''\<rparr>)
                    else put_check ''storage'' (check_of ''ok'' []) p)
           in ((if pb_status p = ''unavailable'' then 503 else 200, p), degraded))"

definition serve_ready ::
    "(probe_response \<Rightarrow> string) \<Rightarrow> string \<Rightarrow> bool \<Rightarrow> bool \<Rightarrow> bool \<Rightarrow> bool \<Rightarrow> bool \<Rightarrow> int option \<Rightarrow> response \<Rightarrow> response \<times> bool" where
  "serve_ready encode method closed catalog_ok tool_search degraded storage_ok since r =
     (case probe_method_allowed encode method r of
        (False, r) \<Rightarrow> (r, degraded)
      | (True, r) \<Rightarrow>
        (case ready_response closed catalog_ok tool_search degraded storage_ok since of
           ((code, p), degraded) \<Rightarrow> (write_probe encode method code p r, degraded)))"

text \<open>
  A server is ready exactly when it is open and its catalog and its storage answer; a failed refresh alone only
  degrades it, and every failing check is named in the response.
\<close>

lemma ready_iff:
  "fst (fst (ready_response closed catalog_ok tool_search degraded storage_ok since)) = 200
    \<longleftrightarrow> \<not> closed \<and> catalog_ok \<and> storage_ok"
  by (simp add: ready_response_def put_check_def check_of_def Let_def)

lemma ready_names_failure:
  "\<not> closed \<Longrightarrow> \<not> storage_ok \<Longrightarrow>
    map_of (pb_checks (snd (fst (ready_response closed catalog_ok tool_search degraded storage_ok since)))) ''storage''
      = Some (check_of ''error'' ''storage_unavailable'')"
  by (simp add: ready_response_def put_check_def check_of_def Let_def)

end
