(* ===== verification/Client.thy ===== *)
theory Client
  imports Handler
begin

text \<open>
  The sessions with components: \<open>component/http/client.go\<close> and \<open>component/stdio/factory.go\<close> (discovery, page
  by page, and the operations that open a session of their own), \<open>component/http/authorization.go\<close> (how a
  challenge becomes an error) and \<open>component/factory.go\<close> (which of the two factories serves a component).
  The session itself belongs to the SDK: a record of functions over the state \<open>'w\<close> of the outside world.
\<close>

section \<open>Pages of a listing\<close>

type_synonym ('w, 'a) listing = "string \<Rightarrow> 'w \<Rightarrow> (go_error, 'a list \<times> string) res \<times> 'w"

definition component_text :: "rune_quoter \<Rightarrow> string \<Rightarrow> string \<Rightarrow> string" where
  "component_text Q name rest = ''component '' @ go_quote Q name @ '' '' @ rest"

definition page_failed :: "rune_quoter \<Rightarrow> string \<Rightarrow> string \<Rightarrow> go_error \<Rightarrow> go_error" where
  "page_failed Q name method e = Other_error (component_text Q name method @ '': '') (Some e)"

definition repeated_cursor :: "rune_quoter \<Rightarrow> string \<Rightarrow> string \<Rightarrow> string \<Rightarrow> go_error" where
  "repeated_cursor Q name method cursor =
     Other_error (component_text Q name method @ '' returned repeated cursor '' @ go_quote Q cursor) None"

text \<open>
  The loop of \<open>paginate\<close>, which both factories have: \<open>fetch\<close> is the closure that lists one page, \<open>not_found\<close>
  says whether an error is or wraps a JSON-RPC error with the code of an unknown method, \<open>seen\<close> are the
  cursors so far. A component that never stops inventing cursors keeps the loop running: \<open>None\<close>.
\<close>

partial_function (option) paginate_from ::
    "(go_error \<Rightarrow> bool) \<Rightarrow> (go_error \<Rightarrow> go_error) \<Rightarrow> (string \<Rightarrow> go_error)
       \<Rightarrow> (string \<Rightarrow> 's \<Rightarrow> (go_error, string) res \<times> 's) \<Rightarrow> string list \<Rightarrow> string \<Rightarrow> 's
       \<Rightarrow> ((go_error, unit) res \<times> 's) option" where
  "paginate_from not_found failed repeated fetch seen cursor s =
     (case fetch cursor s of
        (Inl e, s') \<Rightarrow> Some (if not_found e then Inr () else Inl (failed e), s')
      | (Inr next_cursor, s') \<Rightarrow>
          if next_cursor = [] then Some (Inr (), s')
          else if next_cursor \<in> set seen then Some (Inl (repeated next_cursor), s')
          else paginate_from not_found failed repeated fetch (next_cursor # seen) next_cursor s')"

definition paginate ::
    "rune_quoter \<Rightarrow> (go_error \<Rightarrow> bool) \<Rightarrow> string \<Rightarrow> string \<Rightarrow> (string \<Rightarrow> 's \<Rightarrow> (go_error, string) res \<times> 's) \<Rightarrow> 's
       \<Rightarrow> ((go_error, unit) res \<times> 's) option" where
  "paginate Q not_found name method fetch s =
     paginate_from not_found (page_failed Q name method) (repeated_cursor Q name method) fetch [] [] s"

section \<open>Discovery\<close>

record capabilities =
  cap_tools :: bool
  cap_prompts :: bool
  cap_resources :: bool

record initialized =
  in_protocol_version :: string
  in_capabilities :: "capabilities option"
  in_server_info :: "implementation option"

record 'w session =
  cs_initialized :: "initialized option"
  cs_tools :: "('w, mcp_tool option) listing"
  cs_prompts :: "('w, mcp_prompt option) listing"
  cs_resources :: "('w, mcp_resource option) listing"
  cs_templates :: "('w, mcp_template option) listing"
  cs_call :: "call_params \<Rightarrow> 'w \<Rightarrow> (go_error, call_result option) res \<times> 'w"
  cs_get :: "prompt_params \<Rightarrow> 'w \<Rightarrow> (go_error, prompt_result option) res \<times> 'w"
  cs_read :: "read_params \<Rightarrow> 'w \<Rightarrow> (go_error, read_result option) res \<times> 'w"
  cs_subscribe :: "read_params \<Rightarrow> 'w \<Rightarrow> (go_error, unit) res \<times> 'w"
  cs_unsubscribe :: "read_params \<Rightarrow> 'w \<Rightarrow> (go_error, unit) res \<times> 'w"
  cs_close :: "'w \<Rightarrow> 'w"

definition initial_features :: "initialized option \<Rightarrow> features" where
  "initial_features i =
     (case i of
        None \<Rightarrow> no_features
      | Some i \<Rightarrow> no_features\<lparr>ft_protocol_version := in_protocol_version i, ft_server_info := in_server_info i\<rparr>)"

definition capabilities_of :: "initialized option \<Rightarrow> capabilities option" where
  "capabilities_of i = (case i of None \<Rightarrow> None | Some i \<Rightarrow> in_capabilities i)"

definition tools_wanted :: "server \<Rightarrow> capabilities \<Rightarrow> bool" where
  "tools_wanted server c \<longleftrightarrow> cap_tools c
     \<and> (srv_discovery_method server = [] \<or> srv_discovery_method server = ''tools'') \<and> \<not> srv_disable_tools server"

definition prompts_wanted :: "server \<Rightarrow> capabilities \<Rightarrow> bool" where
  "prompts_wanted server c \<longleftrightarrow> cap_prompts c
     \<and> (srv_discovery_method server = [] \<or> srv_discovery_method server = ''prompts'')"

definition resources_wanted :: "server \<Rightarrow> capabilities \<Rightarrow> bool" where
  "resources_wanted server c \<longleftrightarrow> cap_resources c
     \<and> (srv_discovery_method server = [] \<or> srv_discovery_method server = ''resources'')"

text \<open>One listing: the closure appends the page to the features and hands the next cursor to the loop.\<close>

definition append_page ::
    "('w, 'a) listing \<Rightarrow> ('a list \<Rightarrow> features \<Rightarrow> features) \<Rightarrow> string \<Rightarrow> features \<times> 'w
       \<Rightarrow> (go_error, string) res \<times> features \<times> 'w" where
  "append_page listing add cursor s =
     (case s of (ft, w) \<Rightarrow>
        (case listing cursor w of
           (Inl e, w) \<Rightarrow> (Inl e, ft, w)
         | (Inr (xs, next_cursor), w) \<Rightarrow> (Inr next_cursor, add xs ft, w)))"

definition list_family ::
    "rune_quoter \<Rightarrow> (go_error \<Rightarrow> bool) \<Rightarrow> string \<Rightarrow> bool \<Rightarrow> string \<Rightarrow> ('w, 'a) listing
       \<Rightarrow> ('a list \<Rightarrow> features \<Rightarrow> features) \<Rightarrow> features \<times> 'w \<Rightarrow> ((go_error, unit) res \<times> features \<times> 'w) option" where
  "list_family Q not_found name wanted method listing add s =
     (if wanted then paginate Q not_found name method (append_page listing add) s else Some (Inr (), s))"

text \<open>The next statement, unless the one before it failed.\<close>

definition then_list ::
    "((go_error, unit) res \<times> 's) option \<Rightarrow> ('s \<Rightarrow> ((go_error, unit) res \<times> 's) option) \<Rightarrow> ((go_error, unit) res \<times> 's) option" where
  "then_list m f = (case m of None \<Rightarrow> None | Some (Inl e, s) \<Rightarrow> Some (Inl e, s) | Some (Inr u, s) \<Rightarrow> f s)"

definition add_tools :: "mcp_tool option list \<Rightarrow> features \<Rightarrow> features" where
  "add_tools xs ft = ft\<lparr>ft_tools := ft_tools ft @ xs\<rparr>"

definition add_prompts :: "mcp_prompt option list \<Rightarrow> features \<Rightarrow> features" where
  "add_prompts xs ft = ft\<lparr>ft_prompts := ft_prompts ft @ xs\<rparr>"

definition add_resources :: "mcp_resource option list \<Rightarrow> features \<Rightarrow> features" where
  "add_resources xs ft = ft\<lparr>ft_resources := ft_resources ft @ xs\<rparr>"

definition add_templates :: "mcp_template option list \<Rightarrow> features \<Rightarrow> features" where
  "add_templates xs ft = ft\<lparr>ft_resource_templates := ft_resource_templates ft @ xs\<rparr>"

text \<open>\<open>Discover\<close> once it has a session; the session is closed whatever happens.\<close>

definition list_features ::
    "rune_quoter \<Rightarrow> (go_error \<Rightarrow> bool) \<Rightarrow> server \<Rightarrow> 'w session \<Rightarrow> capabilities \<Rightarrow> features \<times> 'w
       \<Rightarrow> ((go_error, unit) res \<times> features \<times> 'w) option" where
  "list_features Q not_found server S c s =
     then_list (list_family Q not_found (srv_name server) (tools_wanted server c) ''tools/list'' (cs_tools S) add_tools s) (\<lambda>s.
     then_list (list_family Q not_found (srv_name server) (prompts_wanted server c) ''prompts/list'' (cs_prompts S) add_prompts s) (\<lambda>s.
     then_list (list_family Q not_found (srv_name server) (resources_wanted server c) ''resources/list'' (cs_resources S) add_resources s) (\<lambda>s.
       list_family Q not_found (srv_name server) (resources_wanted server c) ''resources/templates/list'' (cs_templates S) add_templates s)))"

definition discover_session ::
    "rune_quoter \<Rightarrow> (go_error \<Rightarrow> bool) \<Rightarrow> server \<Rightarrow> 'w session \<Rightarrow> 'w \<Rightarrow> ((go_error, features) res \<times> 'w) option" where
  "discover_session Q not_found server S w =
     (let ft = initial_features (cs_initialized S)
      in case capabilities_of (cs_initialized S) of
           None \<Rightarrow> Some (Inr ft, cs_close S w)
         | Some c \<Rightarrow>
           (case list_features Q not_found server S c (ft, w) of
              None \<Rightarrow> None
            | Some (Inl e, ft, w) \<Rightarrow> Some (Inl e, cs_close S w)
            | Some (Inr u, ft, w) \<Rightarrow> Some (Inr ft, cs_close S w)))"

text \<open>\<open>connect\<close> is how a session with the component is opened.\<close>

type_synonym 'w connector = "server \<Rightarrow> 'w \<Rightarrow> (go_error, 'w session) res \<times> 'w"

definition connect_http :: "'w connector \<Rightarrow> 'w connector" where
  "connect_http connect server w =
     (if srv_url server = [] then (Inl (Other_error ''component is not configured for HTTP'' None), w)
      else connect server w)"

definition discover_http ::
    "rune_quoter \<Rightarrow> (go_error \<Rightarrow> bool) \<Rightarrow> 'w connector \<Rightarrow> server \<Rightarrow> 'w \<Rightarrow> ((go_error, features) res \<times> 'w) option" where
  "discover_http Q not_found connect server w =
     (case connect_http connect server w of
        (Inl e, w) \<Rightarrow> Some (Inl (Other_error (component_text Q (srv_name server) ''discovery: '') (Some e)), w)
      | (Inr S, w) \<Rightarrow> discover_session Q not_found server S w)"

definition open_command :: "rune_quoter \<Rightarrow> 'w connector \<Rightarrow> 'w connector" where
  "open_command Q connect server w =
     (if srv_command server = []
      then (Inl (Other_error (component_text Q (srv_name server) ''is not configured for stdio'') None), w)
      else (case connect server w of
              (Inl e, w) \<Rightarrow> (Inl (Other_error (component_text Q (srv_name server) ''connect: '') (Some e)), w)
            | (Inr S, w) \<Rightarrow> (Inr S, w)))"

definition discover_command ::
    "rune_quoter \<Rightarrow> (go_error \<Rightarrow> bool) \<Rightarrow> 'w connector \<Rightarrow> server \<Rightarrow> 'w \<Rightarrow> ((go_error, features) res \<times> 'w) option" where
  "discover_command Q not_found connect server w =
     (case open_command Q connect server w of
        (Inl e, w) \<Rightarrow> Some (Inl e, w)
      | (Inr S, w) \<Rightarrow> discover_session Q not_found server S w)"

section \<open>Operations in a session of their own\<close>

definition with_session ::
    "rune_quoter \<Rightarrow> 'w connector \<Rightarrow> server \<Rightarrow> string \<Rightarrow> ('w session \<Rightarrow> 'w \<Rightarrow> (go_error, 'a) res \<times> 'w) \<Rightarrow> 'w
       \<Rightarrow> (go_error, 'a) res \<times> 'w" where
  "with_session Q connect server operation call w =
     (case connect_http connect server w of
        (Inl e, w) \<Rightarrow> (Inl (Other_error (component_text Q (srv_name server) (operation @ '': '')) (Some e)), w)
      | (Inr S, w) \<Rightarrow> (case call S w of (r, w) \<Rightarrow> (r, cs_close S w)))"

definition downstream_call_params :: "meta_keys \<Rightarrow> call_params \<Rightarrow> call_params" where
  "downstream_call_params K p = p\<lparr>cp_meta := downstream_meta K (cp_meta p)\<rparr>"

definition downstream_prompt_params :: "meta_keys \<Rightarrow> prompt_params \<Rightarrow> prompt_params" where
  "downstream_prompt_params K p = p\<lparr>pp_meta := downstream_meta K (pp_meta p)\<rparr>"

definition downstream_read_params :: "meta_keys \<Rightarrow> read_params \<Rightarrow> read_params" where
  "downstream_read_params K p = p\<lparr>rp_meta := downstream_meta K (rp_meta p)\<rparr>"

definition http_call_tool ::
    "rune_quoter \<Rightarrow> meta_keys \<Rightarrow> 'w connector \<Rightarrow> server \<Rightarrow> call_params \<Rightarrow> 'w \<Rightarrow> (go_error, call_result option) res \<times> 'w" where
  "http_call_tool Q K connect server p =
     with_session Q connect server ''call'' (\<lambda>S. cs_call S (downstream_call_params K p))"

definition http_get_prompt ::
    "rune_quoter \<Rightarrow> meta_keys \<Rightarrow> 'w connector \<Rightarrow> server \<Rightarrow> prompt_params \<Rightarrow> 'w \<Rightarrow> (go_error, prompt_result option) res \<times> 'w" where
  "http_get_prompt Q K connect server p =
     with_session Q connect server ''prompt'' (\<lambda>S. cs_get S (downstream_prompt_params K p))"

definition http_read_resource ::
    "rune_quoter \<Rightarrow> meta_keys \<Rightarrow> 'w connector \<Rightarrow> server \<Rightarrow> read_params \<Rightarrow> 'w \<Rightarrow> (go_error, read_result option) res \<times> 'w" where
  "http_read_resource Q K connect server p =
     with_session Q connect server ''resource'' (\<lambda>S. cs_read S (downstream_read_params K p))"

definition http_subscribe ::
    "rune_quoter \<Rightarrow> 'w connector \<Rightarrow> server \<Rightarrow> read_params \<Rightarrow> 'w \<Rightarrow> (go_error, unit) res \<times> 'w" where
  "http_subscribe Q connect server p = with_session Q connect server ''subscribe'' (\<lambda>S. cs_subscribe S p)"

definition http_unsubscribe ::
    "rune_quoter \<Rightarrow> 'w connector \<Rightarrow> server \<Rightarrow> read_params \<Rightarrow> 'w \<Rightarrow> (go_error, unit) res \<times> 'w" where
  "http_unsubscribe Q connect server p = with_session Q connect server ''unsubscribe'' (\<lambda>S. cs_unsubscribe S p)"

text \<open>A runtime keeps its session; opening one fails like the other operations.\<close>

definition http_open_runtime ::
    "rune_quoter \<Rightarrow> 'w connector \<Rightarrow> server \<Rightarrow> 'w \<Rightarrow> (go_error, 'w session) res \<times> 'w" where
  "http_open_runtime Q connect server w =
     (case connect_http connect server w of
        (Inl e, w) \<Rightarrow> (Inl (Other_error (component_text Q (srv_name server) ''connect: '') (Some e)), w)
      | (Inr S, w) \<Rightarrow> (Inr S, w))"

definition runtime_call_tool :: "meta_keys \<Rightarrow> 'w session \<Rightarrow> call_params \<Rightarrow> 'w \<Rightarrow> (go_error, call_result option) res \<times> 'w" where
  "runtime_call_tool K S p = cs_call S (downstream_call_params K p)"

definition runtime_get_prompt :: "meta_keys \<Rightarrow> 'w session \<Rightarrow> prompt_params \<Rightarrow> 'w \<Rightarrow> (go_error, prompt_result option) res \<times> 'w" where
  "runtime_get_prompt K S p = cs_get S (downstream_prompt_params K p)"

definition runtime_read_resource :: "meta_keys \<Rightarrow> 'w session \<Rightarrow> read_params \<Rightarrow> 'w \<Rightarrow> (go_error, read_result option) res \<times> 'w" where
  "runtime_read_resource K S p = cs_read S (downstream_read_params K p)"

text \<open>\<open>RoutingFactory\<close>: which factory serves a component, if the two are there.\<close>

datatype transport = Http_factory | Stdio_factory

definition selected_factory :: "rune_quoter \<Rightarrow> bool \<Rightarrow> bool \<Rightarrow> server \<Rightarrow> (go_error, transport) res" where
  "selected_factory Q http stdio server =
     (if srv_url server \<noteq> [] \<and> srv_command server = [] \<and> http then Inr Http_factory
      else if srv_command server \<noteq> [] \<and> srv_url server = [] \<and> stdio then Inr Stdio_factory
      else Inl (Other_error (component_text Q (srv_name server) ''has no valid transport'') None))"

definition routed_discover ::
    "rune_quoter \<Rightarrow> (go_error \<Rightarrow> bool) \<Rightarrow> bool \<Rightarrow> bool \<Rightarrow> 'w connector \<Rightarrow> 'w connector \<Rightarrow> server \<Rightarrow> 'w
       \<Rightarrow> ((go_error, features) res \<times> 'w) option" where
  "routed_discover Q not_found http stdio connect start server w =
     (case selected_factory Q http stdio server of
        Inl e \<Rightarrow> Some (Inl e, w)
      | Inr Http_factory \<Rightarrow> discover_http Q not_found connect server w
      | Inr Stdio_factory \<Rightarrow> discover_command Q not_found start server w)"

section \<open>Challenges of a component\<close>

fun nat_text :: "nat \<Rightarrow> string" where
  "nat_text n = (if n < 10 then [char_of (48 + n)] else nat_text (n div 10) @ [char_of (48 + n mod 10)])"

declare nat_text.simps [simp del]

definition int_text :: "int \<Rightarrow> string" where
  "int_text i = (if i < 0 then CHR ''-'' # nat_text (nat (- i)) else nat_text (nat i))"

definition attributed :: "server \<Rightarrow> auth_error \<Rightarrow> auth_error" where
  "attributed server e = e\<lparr>ae_component := srv_name server, ae_url := srv_url server\<rparr>"

definition authorization_error_from_response ::
    "(string list \<Rightarrow> challenge list option) \<Rightarrow> int \<Rightarrow> header \<Rightarrow> server \<Rightarrow> go_error" where
  "authorization_error_from_response parse status h server =
     (let result = map (\<lambda>e. Some (Auth_error (Some (attributed server e)))) (authorization_challenges parse status h)
      in if result \<noteq> [] then Joined result
         else Other_error (''component HTTP request failed: '' @ int_text status) None)"

text \<open>
  \<open>Authorize\<close> with a configured OAuth handler (\<open>inner\<close> is the outcome of its own \<open>Authorize\<close>, \<open>None\<close> when it
  obtained a token) and without one.
\<close>

definition typed_authorize ::
    "(string list \<Rightarrow> challenge list option) \<Rightarrow> server \<Rightarrow> go_error option \<Rightarrow> int \<Rightarrow> header \<Rightarrow> go_error option" where
  "typed_authorize parse server inner status h =
     (let auth_err = authorization_error_from_response parse status h server
      in if authorization_errors (Some auth_err) = [] then Some auth_err
         else (case inner of Some err \<Rightarrow> Some (Joined [Some auth_err, Some err]) | None \<Rightarrow> None))"

definition plain_authorize ::
    "(string list \<Rightarrow> challenge list option) \<Rightarrow> server \<Rightarrow> int \<Rightarrow> header \<Rightarrow> go_error option" where
  "plain_authorize parse server status h = Some (authorization_error_from_response parse status h server)"

section \<open>What discovery returns\<close>

text \<open>How a family collects its pages: the contract \<open>list_family\<close> relies on.\<close>

locale page_sink =
  fixes add :: "'a list \<Rightarrow> features \<Rightarrow> features"
  assumes add_Nil: "add [] ft = ft" and add_append: "add ys (add xs ft) = add (xs @ ys) ft"

text \<open>
  A component that serves the pages \<open>ps\<close> from a cursor on: each page names the cursor of the next, the last
  one none; an unknown method ends the listing too.
\<close>

fun serves ::
    "(go_error \<Rightarrow> bool) \<Rightarrow> ('w, 'a) listing \<Rightarrow> string list \<Rightarrow> string \<Rightarrow> 'w \<Rightarrow> 'a list list \<Rightarrow> 'w \<Rightarrow> bool" where
  "serves not_found listing seen cursor w [] v \<longleftrightarrow>
     (case listing cursor w of (Inl e, u) \<Rightarrow> not_found e \<and> u = v | (Inr r, u) \<Rightarrow> False)"
| "serves not_found listing seen cursor w (p # ps) v \<longleftrightarrow>
     (case listing cursor w of
        (Inl e, u) \<Rightarrow> False
      | (Inr (xs, n), u) \<Rightarrow> xs = p
          \<and> (if n = [] then ps = [] \<and> u = v else n \<notin> set seen \<and> serves not_found listing (n # seen) n u ps v))"

context page_sink
begin

lemma serves_paginate:
  assumes "serves not_found listing seen cursor w ps v"
  shows "paginate_from not_found failed repeated (append_page listing add) seen cursor (ft, w)
    = Some (Inr (), add (concat ps) ft, v)"
  using assms
proof (induction ps arbitrary: seen cursor w ft)
  case Nil
  then obtain e where "listing cursor w = (Inl e, v)" "not_found e"
    by (auto split: prod.splits sum.splits)
  then show ?case by (simp add: paginate_from.simps append_page_def add_Nil)
next
  case (Cons p ps)
  then obtain n u where l: "listing cursor w = (Inr (p, n), u)"
    and n: "if n = [] then ps = [] \<and> u = v else n \<notin> set seen \<and> serves not_found listing (n # seen) n u ps v"
    by (auto split: prod.splits sum.splits)
  show ?case
  proof (cases "n = []")
    case True
    with l n show ?thesis by (simp add: paginate_from.simps append_page_def)
  next
    case False
    with n have "n \<notin> set seen" "serves not_found listing (n # seen) n u ps v" by auto
    with Cons.IH l False show ?thesis
      by (simp add: paginate_from.simps [of _ _ _ _ seen] append_page_def add_append)
  qed
qed

text \<open>What the component serves to one listing, or nothing when it is not asked.\<close>

lemma serves_list_family:
  assumes "if wanted then serves not_found listing [] [] w ps v else ps = [] \<and> v = w"
  shows "list_family Q not_found name wanted method listing add (ft, w) = Some (Inr (), add (concat ps) ft, v)"
  using assms serves_paginate by (simp add: list_family_def paginate_def add_Nil split: if_splits)

end

interpretation ts: page_sink add_tools by unfold_locales (simp_all add: add_tools_def)
interpretation ps: page_sink add_prompts by unfold_locales (simp_all add: add_prompts_def)
interpretation rs: page_sink add_resources by unfold_locales (simp_all add: add_resources_def)
interpretation us: page_sink add_templates by unfold_locales (simp_all add: add_templates_def)

lemma then_list_simps [simp]:
  "then_list None f = None"
  "then_list (Some (Inl e, s)) f = Some (Inl e, s)"
  "then_list (Some (Inr u, s)) f = f s"
  by (simp_all add: then_list_def)

text \<open>What a component serves to each listing of \<open>Discover\<close>, one after the other.\<close>

definition serves_all ::
    "(go_error \<Rightarrow> bool) \<Rightarrow> server \<Rightarrow> 'w session \<Rightarrow> capabilities \<Rightarrow> 'w
       \<Rightarrow> mcp_tool option list list \<times> mcp_prompt option list list \<times> mcp_resource option list list \<times> mcp_template option list list
       \<Rightarrow> 'w \<times> 'w \<times> 'w \<times> 'w \<Rightarrow> bool" where
  "serves_all not_found server S c w pages worlds \<longleftrightarrow>
     (case (pages, worlds) of ((ts, ps, rs, us), (w1, w2, w3, w4)) \<Rightarrow>
        (if tools_wanted server c then serves not_found (cs_tools S) [] [] w ts w1 else ts = [] \<and> w1 = w)
      \<and> (if prompts_wanted server c then serves not_found (cs_prompts S) [] [] w1 ps w2 else ps = [] \<and> w2 = w1)
      \<and> (if resources_wanted server c then serves not_found (cs_resources S) [] [] w2 rs w3 else rs = [] \<and> w3 = w2)
      \<and> (if resources_wanted server c then serves not_found (cs_templates S) [] [] w3 us w4 else us = [] \<and> w4 = w3))"

lemma list_features_serves:
  assumes "serves_all not_found server S c w (ts, ps, rs, us) (w1, w2, w3, w4)"
  shows "list_features Q not_found server S c (ft, w)
    = Some (Inr (), add_templates (concat us) (add_resources (concat rs) (add_prompts (concat ps) (add_tools (concat ts) ft))), w4)"
proof -
  from assms have
    t: "if tools_wanted server c then serves not_found (cs_tools S) [] [] w ts w1 else ts = [] \<and> w1 = w" and
    p: "if prompts_wanted server c then serves not_found (cs_prompts S) [] [] w1 ps w2 else ps = [] \<and> w2 = w1" and
    r: "if resources_wanted server c then serves not_found (cs_resources S) [] [] w2 rs w3 else rs = [] \<and> w3 = w2" and
    u: "if resources_wanted server c then serves not_found (cs_templates S) [] [] w3 us w4 else us = [] \<and> w4 = w3"
    unfolding serves_all_def prod.case by blast+
  show ?thesis
    unfolding list_features_def ts.serves_list_family [OF t] then_list_simps ps.serves_list_family [OF p]
      rs.serves_list_family [OF r] us.serves_list_family [OF u] ..
qed

text \<open>A small component: two pages of tools, one prompt, no resources; its world counts the requests.\<close>

definition stub_tool :: "string \<Rightarrow> mcp_tool" where
  "stub_tool name = \<lparr>tool_name = name, tool_description = [], tool_input_schema = JNull, tool_output_schema = None,
     tool_rest = JNull\<rparr>"

definition sample_session :: "nat session" where
  "sample_session = \<lparr>
     cs_initialized = Some \<lparr>in_protocol_version = ''2025-11-25'',
       in_capabilities = Some \<lparr>cap_tools = True, cap_prompts = True, cap_resources = False\<rparr>, in_server_info = None\<rparr>,
     cs_tools = (\<lambda>c w. (if c = [] then Inr ([Some (stub_tool ''a'')], ''2'')
                        else Inr ([Some (stub_tool ''b''), Some (stub_tool ''c'')], []), w + 1)),
     cs_prompts = (\<lambda>c w. (Inl (Other_error ''method not found'' None), w + 1)),
     cs_resources = (\<lambda>c w. (Inr ([], []), w + 1)), cs_templates = (\<lambda>c w. (Inr ([], []), w + 1)),
     cs_call = (\<lambda>p w. (Inr None, w)), cs_get = (\<lambda>p w. (Inr None, w)), cs_read = (\<lambda>p w. (Inr None, w)),
     cs_subscribe = (\<lambda>p w. (Inr (), w)), cs_unsubscribe = (\<lambda>p w. (Inr (), w)), cs_close = (\<lambda>w. w + 100)\<rparr>"

definition sample_server :: server where
  "sample_server = \<lparr>srv_discovery_method = [], srv_discovery_revision = [], srv_name = ''files'', srv_prefix = ''f'',
     srv_url = ''https://files.example'', srv_headers = [], srv_passthrough_headers = [], srv_command = [], srv_args = [],
     srv_env = [], srv_working_directory = [], srv_timeout = 0, srv_tools = [], srv_disable_tools = False,
     srv_prompts = [], srv_resources = [], srv_resource_templates = []\<rparr>"

definition ascii_quoter :: rune_quoter where
  "ascii_quoter s = (''?'', 1)"

definition sample_not_found :: "go_error \<Rightarrow> bool" where
  "sample_not_found e \<longleftrightarrow> (case e of Other_error m c \<Rightarrow> m = ''method not found'' | _ \<Rightarrow> False)"

text \<open>
  C30: Discovery of a component returns exactly the features it serves: the pages of every family it
  advertises and was asked for, in their order, none twice and none lost; the session is closed at the end.
\<close>

theorem discovery_exact:
  assumes "srv_url server \<noteq> []" and "connect server w = (Inr S, w0)"
    and "cs_initialized S = Some i" and "in_capabilities i = Some c"
    and "serves_all not_found server S c w0 (ts, ps, rs, us) (w1, w2, w3, w4)"
  shows "discover_http Q not_found connect server w = Some (Inr \<lparr>
    ft_protocol_version = in_protocol_version i, ft_server_info = in_server_info i, ft_tools = concat ts,
    ft_prompts = concat ps, ft_resources = concat rs, ft_resource_templates = concat us\<rparr>, cs_close S w4)"
  using assms(1-4) list_features_serves [OF assms(5)]
  by (simp add: discover_http_def connect_http_def discover_session_def capabilities_of_def initial_features_def
      no_features_def add_tools_def add_prompts_def add_resources_def add_templates_def)

theorem discovery_exact_witness:
  "discover_http ascii_quoter sample_not_found (\<lambda>s w. (Inr sample_session, w)) sample_server 0 = Some (Inr \<lparr>
    ft_protocol_version = ''2025-11-25'', ft_server_info = None,
    ft_tools = concat [[Some (stub_tool ''a'')], [Some (stub_tool ''b''), Some (stub_tool ''c'')]],
    ft_prompts = concat [], ft_resources = concat [], ft_resource_templates = concat []\<rparr>, 103)"
proof -
  let ?i = "\<lparr>in_protocol_version = ''2025-11-25'',
       in_capabilities = Some \<lparr>cap_tools = True, cap_prompts = True, cap_resources = False\<rparr>, in_server_info = None\<rparr>"
  let ?c = "\<lparr>cap_tools = True, cap_prompts = True, cap_resources = False\<rparr>"
  have "serves_all sample_not_found sample_server sample_session ?c 0
      ([[Some (stub_tool ''a'')], [Some (stub_tool ''b''), Some (stub_tool ''c'')]], [], [], []) (2, 3, 3, 3)"
    by (simp add: serves_all_def tools_wanted_def prompts_wanted_def resources_wanted_def sample_server_def
        sample_session_def sample_not_found_def)
  moreover have "srv_url sample_server \<noteq> []" by (simp add: sample_server_def)
  moreover have "cs_initialized sample_session = Some ?i" by (simp add: sample_session_def)
  moreover have "cs_close sample_session 3 = 103" by (simp add: sample_session_def)
  ultimately show ?thesis
    using discovery_exact [where connect = "\<lambda>s w. (Inr sample_session, w)" and S = sample_session and i = ?i and c = ?c
        and Q = ascii_quoter] by simp
qed

section \<open>Discovery ends\<close>

text \<open>The component only ever hands out cursors of a set.\<close>

definition cursors_in :: "string set \<Rightarrow> ('w, 'a) listing \<Rightarrow> bool" where
  "cursors_in C listing \<longleftrightarrow> (\<forall>cursor w xs n u. listing cursor w = (Inr (xs, n), u) \<longrightarrow> n \<in> C)"

lemma paginate_from_ends:
  assumes "finite C" and "cursors_in C listing"
  shows "paginate_from not_found failed repeated (append_page listing add) seen cursor s \<noteq> None"
proof (induction "card (C - set seen)" arbitrary: seen cursor s rule: less_induct)
  case less
  obtain ft w where s: "s = (ft, w)" by (cases s)
  obtain r u where l: "listing cursor w = (r, u)" by fastforce
  show ?case
  proof (cases r)
    case (Inl e)
    with l s show ?thesis by (simp add: paginate_from.simps append_page_def)
  next
    case (Inr b)
    then obtain xs n where r: "r = Inr (xs, n)" by (cases b) auto
    show ?thesis
    proof (cases "n = [] \<or> n \<in> set seen")
      case True
      with l s r show ?thesis by (auto simp: paginate_from.simps append_page_def)
    next
      case False
      have n: "n \<in> C" using assms(2) l r unfolding cursors_in_def by blast
      have "card (C - set (n # seen)) < card (C - set seen)"
        using False n assms(1) by (intro psubset_card_mono) auto
      from less [OF this] False l s r show ?thesis
        by (simp add: paginate_from.simps [of _ _ _ _ seen] append_page_def)
    qed
  qed
qed

lemma list_family_ends:
  assumes "finite C" and "cursors_in C listing"
  shows "list_family Q not_found name wanted method listing add s \<noteq> None"
  using paginate_from_ends [OF assms] by (simp add: list_family_def paginate_def)

lemma then_list_ends: "m \<noteq> None \<Longrightarrow> (\<And>s. f s \<noteq> None) \<Longrightarrow> then_list m f \<noteq> None"
  by (auto simp: then_list_def split: sum.splits)

text \<open>
  C31: Discovery comes to an end, whatever the component answers and however it fails, as long as it hands
  out finitely many cursors: a cursor that comes back is an error, not another round.
\<close>

theorem discovery_ends:
  assumes "finite C" and "\<And>server w S u. connect server w = (Inr S, u) \<Longrightarrow>
      cursors_in C (cs_tools S) \<and> cursors_in C (cs_prompts S) \<and> cursors_in C (cs_resources S) \<and> cursors_in C (cs_templates S)"
  shows "discover_http Q not_found connect server w \<noteq> None"
proof (cases "connect_http connect server w")
  case (Pair r u)
  show ?thesis
  proof (cases r)
    case (Inl e)
    with Pair show ?thesis by (simp add: discover_http_def)
  next
    case (Inr S)
    with Pair have "connect server w = (Inr S, u)" by (simp add: connect_http_def split: if_splits)
    note C = assms(2) [OF this]
    have "list_features Q not_found server S c s \<noteq> None" for c s
      unfolding list_features_def using C by (intro then_list_ends list_family_ends [OF assms(1)]) simp_all
    then have "discover_session Q not_found server S u \<noteq> None"
    proof (cases "capabilities_of (cs_initialized S)")
      case (Some c)
      obtain r v where "list_features Q not_found server S c (initial_features (cs_initialized S), u) = Some (r, v)"
        using \<open>\<And>c s. list_features Q not_found server S c s \<noteq> None\<close> by fastforce
      with Some show ?thesis by (cases r) (simp_all add: discover_session_def split: prod.split)
    qed (simp add: discover_session_def)
    then show ?thesis using Pair Inr by (simp add: discover_http_def)
  qed
qed

theorem discovery_ends_witness:
  "discover_http ascii_quoter sample_not_found (\<lambda>s w. (Inr (sample_session\<lparr>cs_tools := \<lambda>c w. (Inr ([], ''again''), w)\<rparr>), w))
     sample_server 0 \<noteq> None"
  by (rule discovery_ends [where C = "{[], ''again''}"]) (auto simp: cursors_in_def sample_session_def)

section \<open>Challenges on their way to the frontend\<close>

lemma authorization_errors_wrapped: "authorization_errors (Some (Other_error msg (Some e))) = authorization_errors (Some e)"
  by (simp add: authorization_errors_def)

lemma response_challenges:
  "authorization_errors (Some (authorization_error_from_response parse status h server))
    = map (attributed server) (authorization_challenges parse status h)"
proof -
  have r: "reported (attributed server e)" if "e \<in> set (authorization_challenges parse status h)" for e
    using challenges_reported [OF that] by (auto simp: reported_def attributed_def)
  have "concat (map (\<lambda>e. visit_error (Auth_error (Some (attributed server e)))) es) = map (attributed server) es"
    if "\<forall>e\<in>set es. reported (attributed server e)" for es
    using that by (induction es) simp_all
  with r show ?thesis
    by (simp add: authorization_errors_def authorization_error_from_response_def Let_def comp_def)
qed

lemma typed_authorize_challenges:
  assumes "typed_authorize parse server inner status h = Some err"
  shows "authorization_errors (Some err) = map (attributed server) (authorization_challenges parse status h)
    @ (if authorization_challenges parse status h = [] then [] else authorization_errors inner)"
proof (cases "authorization_challenges parse status h = []")
  case True
  with assms have "Some err = Some (authorization_error_from_response parse status h server)"
    by (simp add: typed_authorize_def Let_def response_challenges)
  with True show ?thesis by (simp add: response_challenges)
next
  case False
  with assms obtain e where "inner = Some e"
    "err = Joined [Some (authorization_error_from_response parse status h server), Some e]"
    by (auto simp: typed_authorize_def Let_def response_challenges split: option.splits)
  with False response_challenges [of parse status h server] show ?thesis
    by (simp add: authorization_errors_def)
qed

text \<open>
  When a component refuses the connection, what the frontend learns from the failed discovery is exactly
  what the component asked for, under the component's name and URL (with whatever the configured OAuth
  handler reports besides): no wrapping on the way drops a challenge or invents one.
\<close>

theorem refused_discovery_reports_challenges:
  assumes "srv_url server \<noteq> []" and "connect server w = (Inl (Other_error calling (Some err)), u)"
    and "typed_authorize parse server inner status h = Some err"
  shows "\<exists>e. discover_http Q not_found connect server w = Some (Inl e, u)
    \<and> authorization_errors (Some e) = map (attributed server) (authorization_challenges parse status h)
        @ (if authorization_challenges parse status h = [] then [] else authorization_errors inner)"
  using assms(1,2) typed_authorize_challenges [OF assms(3)]
  by (simp add: discover_http_def connect_http_def authorization_errors_wrapped)

theorem refused_discovery_reports_challenges_witness:
  "\<exists>e. discover_http ascii_quoter sample_not_found
       (\<lambda>s (w :: nat). (Inl (Other_error ''calling initialize: '' (typed_authorize (\<lambda>vs. None) s (Some (Other_error ''no token'' None)) 401 [])), w))
       sample_server 0 = Some (Inl e, 0)
    \<and> authorization_errors (Some e) = map (attributed sample_server) (authorization_challenges (\<lambda>vs. None) 401 [])
        @ (if authorization_challenges (\<lambda>vs. None) 401 [] = [] then [] else authorization_errors (Some (Other_error ''no token'' None)))"
proof -
  have "\<exists>err. typed_authorize (\<lambda>vs. None) sample_server (Some (Other_error ''no token'' None)) 401 [] = Some err"
    by (simp add: typed_authorize_def Let_def response_challenges unauthorized_not_lost)
  then obtain err where err: "typed_authorize (\<lambda>vs. None) sample_server (Some (Other_error ''no token'' None)) 401 [] = Some err" ..
  show ?thesis
    by (rule refused_discovery_reports_challenges [where calling = "''calling initialize: ''", OF _ _ err])
      (simp add: sample_server_def, simp add: err)
qed

end
