(* ===== verification/Composite.thy ===== *)
theory Composite
  imports Handler Server Client
begin

text \<open>
  The methods of the composite itself, \<open>composite.go\<close>: its construction with what it gives back when it fails,
  the resolution of a tool call for a policy check and the answer of the frontend to the same call, on stdio and
  over HTTP, and the refresh. And what the composite calls: the routing of an operation to the factory of a transport
  (\<open>component/factory.go\<close>) and the session of a command (\<open>component/stdio/runtime.go\<close>).
\<close>

section \<open>Construction\<close>

datatype resource = Store_registry | Component_factory

datatype resource_event = Acquired resource | Released resource

datatype 'e new_error = Nil_config | Store_failed 'e | First_catalog_failed 'e

text \<open>What the record of the server keeps of a construction.\<close>

record 's composite =
  co_default_config :: config
  co_default_store :: 's
  co_fingerprint :: string
  co_degraded :: bool
  co_server :: server_state

text \<open>
  \<open>get_store\<close> is the store registry's answer for the DSN of the options, \<open>get_catalog\<close> the catalog registry's for a
  configuration.
\<close>

definition new_composite ::
    "config option \<Rightarrow> ('e, 's) res \<Rightarrow> (config \<Rightarrow> ('e, 't catalog \<times> string) res)
       \<Rightarrow> ('e new_error, 's composite) res \<times> resource_event list" where
  "new_composite cfg get_store get_catalog =
     (case cfg of
        None \<Rightarrow> (Inl Nil_config, [])
      | Some cfg \<Rightarrow>
        (case get_store of
           Inl e \<Rightarrow> (Inl (Store_failed e), [Acquired Store_registry, Released Store_registry])
         | Inr store \<Rightarrow>
           (case get_catalog cfg of
              Inl e \<Rightarrow> (Inl (First_catalog_failed e),
                [Acquired Store_registry, Acquired Component_factory, Released Component_factory, Released Store_registry])
            | Inr (c, fingerprint) \<Rightarrow>
                (Inr \<lparr>co_default_config = cfg, co_default_store = store, co_fingerprint = fingerprint,
                      co_degraded = False, co_server = new_server\<rparr>,
                 [Acquired Store_registry, Acquired Component_factory]))))"

text \<open>A construction that fails has given back what it had acquired; one that succeeds keeps it.\<close>

lemma new_composite_balanced:
  "case new_composite cfg get_store get_catalog of
     (Inl _, es) \<Rightarrow> \<forall>r. count_list es (Acquired r) = count_list es (Released r)
   | (Inr _, es) \<Rightarrow> \<forall>r. count_list es (Acquired r) = 1 \<and> count_list es (Released r) = 0"
  unfolding new_composite_def by (auto split: option.splits sum.splits prod.splits) (case_tac r; simp)+

section \<open>Refresh\<close>

definition refresh_composite ::
    "bool \<Rightarrow> 's composite \<Rightarrow> ('e, 'a) res \<Rightarrow> ('e option, unit) res \<times> 's composite" where
  "refresh_composite nil_composite c refreshed =
     (if nil_composite \<or> sv_closed (co_server c) then (Inl None, c)
      else case refreshed of
             Inl e \<Rightarrow> (Inl (Some e), c\<lparr>co_degraded := True\<rparr>)
           | Inr _ \<Rightarrow> (Inr (), c\<lparr>co_degraded := False\<rparr>))"

section \<open>Policy checks\<close>

datatype 'c policy_error = Composite_closed | Policy_catalog 'c

text \<open>
  \<open>ResolveToolCall\<close> of the composite: \<open>search\<close> and \<open>status\<close> are the search tool and the authorization status on the
  catalog \<open>get\<close> finds.
\<close>

definition policy_resolution ::
    "digests \<Rightarrow> (config \<Rightarrow> 't catalog option) \<Rightarrow> (config \<Rightarrow> ('c, 't catalog \<times> string) res)
       \<Rightarrow> ('t catalog \<Rightarrow> json option \<Rightarrow> (search_error, call_result) res) \<Rightarrow> ('t catalog \<Rightarrow> call_result) \<Rightarrow> bool
       \<Rightarrow> config \<Rightarrow> string \<Rightarrow> json option
       \<Rightarrow> ('c policy_error, resolved_tool_call \<times> bool \<times> tool_search_error option) res" where
  "policy_resolution H cached get search status closed cfg name arguments =
     (if closed then Inl Composite_closed
      else
        let cfg = request_catalog_config H cached cfg ''tools/call'' name arguments
        in case get cfg of
             Inl e \<Rightarrow> Inl (Policy_catalog e)
           | Inr (c, _) \<Rightarrow>
             if cfg_defer_authorization cfg \<and> name = authorization_tool_name
             then Inr (no_tool_call\<lparr>rs_result := Some (status c)\<rparr>, True, None)
             else Inr (resolve_tool_call H c (search c) name arguments))"

datatype ('c, 'e) frontend_error = No_catalog 'c | Handler_failed "'e handler_error"

definition call_of :: "request \<Rightarrow> (string \<times> json option) option" where
  "call_of req = (case req of Call_request (Some p) \<Rightarrow> Some (cp_name p, cp_arguments p) | _ \<Rightarrow> None)"

text \<open>
  The frontend's side, \<open>featureMiddleware\<close> of \<open>handler.go\<close>: the configuration of the request, its catalog, the
  handler of the method.
\<close>

definition frontend_reply ::
    "('t, 'v) env \<Rightarrow> (config \<Rightarrow> 't catalog option) \<Rightarrow> (config \<Rightarrow> ('c, 't catalog \<times> string) res)
       \<Rightarrow> ('t catalog \<Rightarrow> json option \<Rightarrow> (search_error, call_result) res) \<Rightarrow> ('t catalog \<Rightarrow> call_result)
       \<Rightarrow> config \<Rightarrow> header option \<Rightarrow> 't selections \<Rightarrow> ctx \<Rightarrow> ('s, 'e) caller \<Rightarrow> request
       \<Rightarrow> (('c, 'e) frontend_error, reply) res" where
  "frontend_reply E cached get search status default_config extra entries cx q req =
     (case catalog_for_request get (request_catalog_config (env_digests E) cached) default_config extra entries cx
             (call_of req) of
        Inl e \<Rightarrow> Inl (No_catalog e)
      | Inr (c, _) \<Rightarrow>
          map_err Handler_failed
            (handle E (search c) (status c) (config_for_request default_config extra entries cx) q c req))"

text \<open>
  The same for a request over HTTP: the bridge narrows its configuration and stores it under a fresh token
  (\<open>configBridge\<close>), the choice of the frontend's identity looks up its catalog and keeps it when it waits for
  authorization (\<open>selectFrontendImplementation\<close>), and the SDK runs the middleware with the header of the
  request and a context \<open>cx\<close> of its own. Without a catalog the request is answered with an error at once.
\<close>

definition http_frontend_reply ::
    "('t, 'v) env \<Rightarrow> (config \<Rightarrow> 't catalog option) \<Rightarrow> (config \<Rightarrow> ('c, 't catalog \<times> string) res)
       \<Rightarrow> ('t catalog \<Rightarrow> json option \<Rightarrow> (search_error, call_result) res) \<Rightarrow> ('t catalog \<Rightarrow> call_result)
       \<Rightarrow> (string \<Rightarrow> (string \<times> string \<times> json option) option) \<Rightarrow> config \<Rightarrow> string \<Rightarrow> http_request \<Rightarrow> 't selections \<Rightarrow> ctx
       \<Rightarrow> ('s, 'e) caller \<Rightarrow> request \<Rightarrow> (('c, 'e) frontend_error, reply) res" where
  "http_frontend_reply E cached get search status decode default_config token r entries cx q req =
     (case bridge_enter decode (request_catalog_config (env_digests E) cached) default_config token r entries of
        (r, entries) \<Rightarrow>
          (case select_frontend_implementation get default_config r entries of
             (Inl e, entries) \<Rightarrow> Inl (No_catalog e)
           | (Inr _, entries) \<Rightarrow>
               frontend_reply E cached get search status default_config (Some (hr_header r)) entries cx q req))"

text \<open>
  The answer a resolution on the catalog \<open>c\<close> stands for: an error, a local result, or the result of one call of
  the component of the route, with the arguments of the resolution.
\<close>

definition resolution_answer ::
    "('t, 'v) env \<Rightarrow> ('s, 'e) caller \<Rightarrow> 't catalog \<Rightarrow> call_params
       \<Rightarrow> resolved_tool_call \<times> bool \<times> tool_search_error option \<Rightarrow> ('e handler_error, reply) res" where
  "resolution_answer E q c p r =
     (case r of
        (_, _, Some e) \<Rightarrow> Inl (Searching e)
      | (_, False, None) \<Rightarrow> Inl (Unknown_feature ''tool'' (cp_name p))
      | (call, True, None) \<Rightarrow>
        (case rs_result call of
           Some result \<Rightarrow> rmap Call_reply (map_err Translating
             (normalize_call_tool_result (env_keys E) (env_call_codec E) (env_parse E) (env_print E) (ca_frontend q)
               (Some result) []))
         | None \<Rightarrow> rmap Call_reply
             (forwarded_call E q c (the (rs_route call)) (p\<lparr>cp_arguments := rs_arguments call\<rparr>))))"

lemma narrow_to_tool_deferral:
  "cfg_defer_authorization (narrow_to_tool H cached clone name) = cfg_defer_authorization clone"
  by (simp add: narrow_to_tool_def Let_def split: option.split)

lemma narrowing_keeps_deferral:
  "cfg_defer_authorization (request_catalog_config H cached cfg method name arguments) = cfg_defer_authorization cfg"
  by (simp add: request_catalog_config_def Let_def narrow_to_tool_deferral scoped_config_def split: option.split)

lemma call_tool_answer:
  "rmap Call_reply (call_tool E search q c (Some p))
     = resolution_answer E q c p (resolve_tool_call (env_digests E) c search (cp_name p) (cp_arguments p))"
proof -
  obtain call ok err where r: "resolve_tool_call (env_digests E) c search (cp_name p) (cp_arguments p) = (call, ok, err)"
    by (metis prod_cases3)
  show ?thesis
  proof (cases err)
    case (Some e)
    then show ?thesis by (cases ok) (simp_all add: call_tool_def resolution_answer_def r rmap_def rbind_def)
  next
    case None
    then show ?thesis
      by (cases ok; cases "rs_result call")
        (simp_all add: call_tool_def resolution_answer_def r forwarded_call_def Let_def rmap_def rbind_def)
  qed
qed

text \<open>What the middleware answers to a call on the catalog \<open>c\<close>, as a resolution.\<close>

definition local_resolution ::
    "('t, 'v) env \<Rightarrow> config \<Rightarrow> ('t catalog \<Rightarrow> json option \<Rightarrow> (search_error, call_result) res) \<Rightarrow> ('t catalog \<Rightarrow> call_result)
       \<Rightarrow> 't catalog \<Rightarrow> call_params \<Rightarrow> resolved_tool_call \<times> bool \<times> tool_search_error option" where
  "local_resolution E cfg search status c p =
     (if cfg_defer_authorization cfg \<and> cp_name p = authorization_tool_name
      then (no_tool_call\<lparr>rs_result := Some (status c)\<rparr>, True, None)
      else resolve_tool_call (env_digests E) c (search c) (cp_name p) (cp_arguments p))"

lemma handled_call:
  "handle E (search c) (status c) cfg q c (Call_request (Some p)) = resolution_answer E q c p (local_resolution E cfg search status c p)"
proof (cases "cfg_defer_authorization cfg \<and> cp_name p = authorization_tool_name")
  case True
  then show ?thesis by (simp add: handle_def resolution_answer_def local_resolution_def no_tool_call_def)
next
  case False
  then show ?thesis by (auto simp: handle_def local_resolution_def call_tool_answer)
qed

lemma policy_resolution_local:
  "policy_resolution (env_digests E) cached get search status False cfg (cp_name p) (cp_arguments p) =
     (case get (request_catalog_config (env_digests E) cached cfg ''tools/call'' (cp_name p) (cp_arguments p)) of
        Inl e \<Rightarrow> Inl (Policy_catalog e)
      | Inr (c, _) \<Rightarrow> Inr (local_resolution E cfg search status c p))"
  by (auto simp: policy_resolution_def local_resolution_def narrowing_keeps_deferral Let_def split: sum.split)

lemma frontend_reply_local:
  assumes "catalog_for_request get (request_catalog_config (env_digests E) cached) d extra entries cx
      (Some (cp_name p, cp_arguments p)) = found"
    and "cfg_defer_authorization (config_for_request d extra entries cx) = cfg_defer_authorization cfg"
  shows "frontend_reply E cached get search status d extra entries cx q (Call_request (Some p)) =
     (case found of
        Inl e \<Rightarrow> Inl (No_catalog e)
      | Inr (c, _) \<Rightarrow> map_err Handler_failed (resolution_answer E q c p (local_resolution E cfg search status c p)))"
  using assms
  by (auto simp: frontend_reply_def call_of_def handled_call local_resolution_def split: sum.split)

text \<open>
  The request over HTTP: what the bridge stored is the narrowed configuration, narrowing it again changes
  nothing, and a catalog that was kept is the one that was looked up for it.
\<close>

lemma http_frontend_reply_local:
  fixes E :: "('t, 'v) env" and L :: "('t, 'w) uri_lib"
  assumes sound: "\<And>x c. cached x = Some c \<Longrightarrow> catalog_of L (env_digests E) tools x c"
    and r: "hr_method r = ''POST''" "hr_body r = Some body" "decode body = Some (''tools/call'', cp_name p, cp_arguments p)"
  shows "http_frontend_reply E cached get search status decode d token r entries cx q (Call_request (Some p)) =
     (case get (request_catalog_config (env_digests E) cached (effective_config (hr_context r) d) ''tools/call'' (cp_name p) (cp_arguments p)) of
        Inl e \<Rightarrow> Inl (No_catalog e)
      | Inr (c, _) \<Rightarrow> map_err Handler_failed
          (resolution_answer E q c p (local_resolution E (effective_config (hr_context r) d) search status c p)))"
proof -
  let ?narrow = "request_catalog_config (env_digests E) cached"
  let ?eff = "effective_config (hr_context r) d"
  let ?h = "header_set private_config_header [token] (header_del private_config_header (hr_header r))"
  define cfg where "cfg = ?narrow ?eff ''tools/call'' (cp_name p) (cp_arguments p)"
  define s where "s = (bridge_selection d cfg (hr_context r) :: 't selection)"
  let ?r = "r\<lparr>hr_context := context_with_config cfg (hr_context r), hr_header := ?h\<rparr>"
  have enter: "bridge_enter decode ?narrow d token r entries = (?r, entries(token \<mapsto> s))"
    using r by (simp add: bridge_enter_def bridged_config_def put_selection_def s_def cfg_def Let_def)
  have "\<not> cfg_request_scoped_discovery cfg \<Longrightarrow> cfg = ?eff"
    unfolding cfg_def request_catalog_config_scoped by (rule request_catalog_config_plain)
  then have config: "(if sn_use_default s then d else the (sn_config s)) = cfg" "sn_pending s = None"
    by (auto simp: s_def bridge_selection_def initial_selection_def effective_config_def Let_def split: option.split)
  have again: "?narrow cfg ''tools/call'' (cp_name p) (cp_arguments p) = cfg"
    unfolding cfg_def by (rule narrowing_settled [OF sound])
  have select: "select_frontend_implementation get d ?r (entries(token \<mapsto> s)) =
      (case get cfg of
         Inl e \<Rightarrow> (Inl e, entries(token \<mapsto> s))
       | Inr (c, f) \<Rightarrow> (Inr (Some (frontend_implementation cfg (Some c))),
           if cat_pending c \<noteq> [] then entries(token \<mapsto> s\<lparr>sn_pending := Some c, sn_pending_fingerprint := f\<rparr>)
           else entries(token \<mapsto> s)))"
    by (auto simp: select_frontend_implementation_def r(1) effective_config_def context_with_config_def set_pending_def
        split: sum.split)
  show ?thesis
  proof (cases "get cfg")
    case (Inl e)
    then show ?thesis by (simp add: http_frontend_reply_def enter select cfg_def [symmetric])
  next
    case (Inr cf)
    obtain c f where cf: "cf = (c, f)" by (cases cf)
    define s' where "s' = (if cat_pending c \<noteq> [] then s\<lparr>sn_pending := Some c, sn_pending_fingerprint := f\<rparr> else s)"
    have sel: "select_frontend_implementation get d ?r (entries(token \<mapsto> s))
        = (Inr (Some (frontend_implementation cfg (Some c))), entries(token \<mapsto> s'))"
      using Inr by (simp add: cf select s'_def)
    have found: "selection_of (Some ?h) (entries(token \<mapsto> s')) = Some s'"
      by (simp add: selection_of_def)
    have c: "config_for_request d (Some ?h) (entries(token \<mapsto> s')) cx = cfg"
      unfolding config_for_request_def found option.case using config(1) by (auto simp: s'_def split: if_splits)
    have "catalog_for_request get ?narrow d (Some ?h) (entries(token \<mapsto> s')) cx (Some (cp_name p, cp_arguments p)) = Inr (c, f)"
      unfolding catalog_for_request_def found option.case c
      using Inr config(2) by (auto simp: again cf s'_def Let_def split: option.split)
    moreover have "cfg_defer_authorization (config_for_request d (Some ?h) (entries(token \<mapsto> s')) cx) = cfg_defer_authorization ?eff"
      by (simp add: c cfg_def narrowing_keeps_deferral)
    ultimately have
      "frontend_reply E cached get search status d (Some ?h) (entries(token \<mapsto> s')) cx q (Call_request (Some p))
        = (case Inr (c, f) of Inl e \<Rightarrow> Inl (No_catalog e) | Inr (c, _) \<Rightarrow>
            map_err Handler_failed (resolution_answer E q c p (local_resolution E ?eff search status c p)))"
      by (rule frontend_reply_local)
    then show ?thesis using Inr by (simp add: http_frontend_reply_def enter sel cf cfg_def [symmetric])
  qed
qed

text \<open>
  C39: The resolution a policy check sees is the one the frontend acts on, for a call over HTTP and for one of a
  stdio session, as long as the registry's answers stay the same in between and its cached catalogs are
  catalogs of their configurations. On the catalog of the narrowed configuration the frontend answers the
  call with exactly what the resolution stands for: an error, the local result, or one call of the route's
  component with the resolution's arguments. It fails where the frontend finds no catalog.
\<close>

theorem policy_sees_the_call:
  assumes "\<And>x c. cached x = Some c \<Longrightarrow> catalog_of L (env_digests E) tools x c"
    and "hr_method r = ''POST''" and "hr_body r = Some body"
    and "decode body = Some (''tools/call'', cp_name p, cp_arguments p)"
  shows "case policy_resolution (env_digests E) cached get search status False (effective_config (hr_context r) d)
        (cp_name p) (cp_arguments p) of
      Inl e \<Rightarrow> \<exists>e'. e = Policy_catalog e'
        \<and> http_frontend_reply E cached get search status decode d token r entries cx q (Call_request (Some p)) = Inl (No_catalog e')
        \<and> frontend_reply E cached get search status d None entries (hr_context r) q (Call_request (Some p)) = Inl (No_catalog e')
    | Inr resolution \<Rightarrow> \<exists>c fingerprint.
        get (request_catalog_config (env_digests E) cached (effective_config (hr_context r) d) ''tools/call'' (cp_name p)
          (cp_arguments p)) = Inr (c, fingerprint)
        \<and> http_frontend_reply E cached get search status decode d token r entries cx q (Call_request (Some p))
          = map_err Handler_failed (resolution_answer E q c p resolution)
        \<and> frontend_reply E cached get search status d None entries (hr_context r) q (Call_request (Some p))
          = map_err Handler_failed (resolution_answer E q c p resolution)"
proof -
  let ?cfg = "request_catalog_config (env_digests E) cached (effective_config (hr_context r) d) ''tools/call'' (cp_name p) (cp_arguments p)"
  note http = http_frontend_reply_local [where decode = decode, OF assms]
  have "catalog_for_request get (request_catalog_config (env_digests E) cached) d None entries (hr_context r)
      (Some (cp_name p, cp_arguments p)) = get ?cfg"
    and config: "config_for_request d None entries (hr_context r) = effective_config (hr_context r) d"
    by (simp_all add: catalog_for_request_def selection_of_def config_for_request_def)
  note stdio = frontend_reply_local [OF this(1), of "effective_config (hr_context r) d", unfolded config, OF refl]
  show ?thesis
    unfolding policy_resolution_local stdio by (cases "get ?cfg") (auto simp: http split: prod.split)
qed

text \<open>
  A call of a tool of the component \<open>a__b\<close> of a configuration with request-scoped discovery, whose owner a cached
  catalog names: only the narrowed configuration has a catalog.
\<close>

definition scoped_get :: "config \<Rightarrow> (string, string catalog \<times> string) res" where
  "scoped_get cfg =
     (if map srv_name (cfg_servers cfg) = [''a__b'']
      then Inr (projr (compile_discovered sample_uris sample_digests cfg [''a__b''] [scoped_found]), ''f'')
      else Inl ''not narrowed'')"

definition scoped_call :: call_params where
  "scoped_call = \<lparr>cp_meta = [], cp_name = ''a__b__run'', cp_arguments = None, cp_rest = JNull\<rparr>"

definition scoped_request :: http_request where
  "scoped_request = \<lparr>hr_method = ''POST'', hr_header = [], hr_body = Some ''call'',
     hr_context = \<lparr>cx_config = None, cx_config_id = None, cx_dsn = None, cx_headers = None\<rparr>\<rparr>"

definition scoped_decode :: "string \<Rightarrow> (string \<times> string \<times> json option) option" where
  "scoped_decode body = Some (''tools/call'', ''a__b__run'', None)"

definition scoped_caller :: "(unit, string) caller" where
  "scoped_caller = sample_caller\<lparr>ca_factory := (ca_factory sample_caller)
     \<lparr>iv_call := (\<lambda>s p. if srv_name s = ''a__b'' \<and> cp_name p = ''run'' then Inr (Some (text_result ''ok'' False))
                    else Inl ''wrong'')\<rparr>\<rparr>"

theorem policy_sees_the_call_witness:
  "http_frontend_reply sample_env scoped_cache scoped_get (\<lambda>_ _. Inl Search_failed) (\<lambda>_. text_result [] False) scoped_decode
       scoped_sample ''token'' scoped_request Map.empty (hr_context scoped_request) scoped_caller (Call_request (Some scoped_call))
     = Inr (Call_reply (Some (text_result ''done'' False)))"
proof -
  have sound: "catalog_of sample_uris (env_digests sample_env) (\<lambda>_. {sample_tool ''run''}) x c" if "scoped_cache x = Some c" for x c
    using scoped_cache_sound [OF that] by (simp add: sample_env_def)
  have r: "hr_method scoped_request = ''POST''" "hr_body scoped_request = Some ''call''"
    "scoped_decode ''call'' = Some (''tools/call'', cp_name scoped_call, cp_arguments scoped_call)"
    by (simp_all add: scoped_request_def scoped_decode_def scoped_call_def)
  have eff: "effective_config (hr_context scoped_request) scoped_sample = scoped_sample"
    by (simp add: effective_config_def scoped_request_def)
  have ok: "\<not> isl (policy_resolution (env_digests sample_env) scoped_cache scoped_get (\<lambda>_ _. Inl Search_failed)
      (\<lambda>_. text_result [] False) False (effective_config (hr_context scoped_request) scoped_sample)
      (cp_name scoped_call) (cp_arguments scoped_call))"
    by code_simp
  have stdio: "frontend_reply sample_env scoped_cache scoped_get (\<lambda>_ _. Inl Search_failed) (\<lambda>_. text_result [] False)
       scoped_sample None Map.empty (hr_context scoped_request) scoped_caller (Call_request (Some scoped_call))
     = Inr (Call_reply (Some (text_result ''done'' False)))"
    by code_simp
  from policy_sees_the_call [where E = sample_env and cached = scoped_cache and r = scoped_request
      and decode = scoped_decode and p = scoped_call and get = scoped_get and search = "\<lambda>_ _. Inl Search_failed"
      and status = "\<lambda>_. text_result [] False" and d = scoped_sample and token = "''token''" and entries = Map.empty
      and cx = "hr_context scoped_request" and q = scoped_caller, OF sound r]
  show ?thesis using ok stdio by (auto split: sum.splits)
qed

end
