(* ===== verification/Program.thy ===== *)
theory Program
  imports Composite
begin

text \<open>
  The program \<open>cmd/mmmcp/run.go\<close>: its settings from flags and environment, the loading of the configuration
  (\<open>config/load.go\<close>), and the order in which serving, shutdown and \<open>Close\<close> overlap. The flags are parsed as the
  package \<open>flag\<close> does; reading the file, decoding YAML and the HTTP server are parameters or steps.
\<close>

section \<open>Loading\<close>

datatype 'e load_error = Read_failed 'e | Decode_failed 'e | Multiple_documents | Invalid_config config_error

datatype 'e second_document = End_of_file | Another_document | Broken_document 'e

text \<open>A duration of the document, in nanoseconds; \<open>parse\<close> is \<open>time.ParseDuration\<close>.\<close>

datatype duration_error = Duration_not_text | Duration_syntax string

definition unmarshal_duration :: "(string \<Rightarrow> int option) \<Rightarrow> bool \<Rightarrow> string \<Rightarrow> (duration_error, int) res" where
  "unmarshal_duration parse is_scalar v =
     (if \<not> is_scalar then Inl Duration_not_text
      else if v = [] then Inr 0
      else case parse v of None \<Rightarrow> Inl (Duration_syntax v) | Some d \<Rightarrow> Inr d)"

text \<open>\<open>first\<close> and \<open>second\<close> are what the strict decoder finds in the data, the document and what follows it.\<close>

definition load_data ::
    "('d \<Rightarrow> ('e, config_dto) res) \<Rightarrow> ('d \<Rightarrow> 'e second_document) \<Rightarrow> (string \<Rightarrow> string \<times> bool) \<Rightarrow> 'd
       \<Rightarrow> ('e load_error, config) res" where
  "load_data first second lookup data =
     (case first data of
        Inl e \<Rightarrow> Inl (Decode_failed e)
      | Inr dto \<Rightarrow>
        (case second data of
           Broken_document e \<Rightarrow> Inl (Decode_failed e)
         | Another_document \<Rightarrow> Inl Multiple_documents
         | End_of_file \<Rightarrow> (case config_runtime lookup dto of Inl e \<Rightarrow> Inl (Invalid_config e) | Inr cfg \<Rightarrow> Inr cfg)))"

definition load_file ::
    "(string \<Rightarrow> ('e, 'd) res) \<Rightarrow> ('d \<Rightarrow> ('e, config_dto) res) \<Rightarrow> ('d \<Rightarrow> 'e second_document) \<Rightarrow> (string \<Rightarrow> string \<times> bool)
       \<Rightarrow> string \<Rightarrow> ('e load_error, config) res" where
  "load_file read first second lookup path =
     (case read path of Inl e \<Rightarrow> Inl (Read_failed e) | Inr data \<Rightarrow> load_data first second lookup data)"

section \<open>Settings\<close>

record optional_string =
  os_value :: string
  os_set :: bool

definition set_string :: "string \<Rightarrow> optional_string \<Rightarrow> optional_string" where
  "set_string v s = s\<lparr>os_value := v, os_set := True\<rparr>"

record settings =
  st_config_path :: string
  st_transport :: string
  st_listen :: optional_string
  st_dsn :: optional_string

definition unset :: optional_string where
  "unset = \<lparr>os_value = [], os_set = False\<rparr>"

definition default_config_path :: string where "default_config_path = ''mmmcp.yaml''"
definition default_listen :: string where "default_listen = ''127.0.0.1:8080''"

definition nonempty_or :: "string option \<Rightarrow> string \<Rightarrow> string" where
  "nonempty_or v d = (case v of Some x \<Rightarrow> if x \<noteq> [] then x else d | None \<Rightarrow> d)"

definition env_string :: "string option \<Rightarrow> optional_string" where
  "env_string v = (case v of None \<Rightarrow> unset | Some x \<Rightarrow> set_string x unset)"

definition initial_settings :: "(string \<Rightarrow> string option) \<Rightarrow> settings" where
  "initial_settings lookup =
     \<lparr>st_config_path = nonempty_or (lookup ''MMMCP_CONFIG'') default_config_path,
      st_transport = nonempty_or (lookup ''MMMCP_TRANSPORT'') ''http'',
      st_listen = env_string (lookup ''MMMCP_LISTEN''), st_dsn = env_string (lookup ''MMMCP_DSN'')\<rparr>"

datatype settings_error = Bad_flag string | Help_requested | Undefined_flag string | Needs_argument string
  | Unexpected_arguments string | Empty_config_path | Unsupported_transport string

definition set_flag :: "string \<Rightarrow> string \<Rightarrow> settings \<Rightarrow> settings" where
  "set_flag name v p =
     (if name = ''config'' then p\<lparr>st_config_path := v\<rparr>
      else if name = ''transport'' then p\<lparr>st_transport := v\<rparr>
      else if name = ''listen'' then p\<lparr>st_listen := set_string v (st_listen p)\<rparr>
      else p\<lparr>st_dsn := set_string v (st_dsn p)\<rparr>)"

definition flag_names :: "string list" where
  "flag_names = [''config'', ''transport'', ''listen'', ''dsn'']"

text \<open>An argument that may be a flag: its name, and its value if it has an equals sign.\<close>

definition flag_of :: "string \<Rightarrow> string \<times> string option" where
  "flag_of s =
     (let name = (if take 2 s = ''--'' then drop 2 s else drop 1 s)
      in case index_byte name CHR ''='' of
           None \<Rightarrow> (name, None)
         | Some n \<Rightarrow> (take n name, Some (drop (n + 1) name)))"

definition bad_syntax :: "string \<Rightarrow> bool" where
  "bad_syntax s \<longleftrightarrow>
     (let name = (if take 2 s = ''--'' then drop 2 s else drop 1 s)
      in name = [] \<or> hd name = CHR ''-'' \<or> hd name = CHR ''='')"

text \<open>\<open>FlagSet.Parse\<close>; the arguments that are left over are the second component.\<close>

fun parse_flags :: "string list \<Rightarrow> settings \<Rightarrow> (settings_error, settings \<times> string list) res" where
  "parse_flags [] p = Inr (p, [])"
| "parse_flags (s # args) p =
     (if length s < 2 \<or> hd s \<noteq> CHR ''-'' then Inr (p, s # args)
      else if s = ''--'' then Inr (p, args)
      else if bad_syntax s then Inl (Bad_flag s)
      else
        case flag_of s of
          (name, given) \<Rightarrow>
          if name \<notin> set flag_names
          then Inl (if name = ''help'' \<or> name = ''h'' then Help_requested else Undefined_flag name)
          else (case given of
                  Some v \<Rightarrow> parse_flags args (set_flag name v p)
                | None \<Rightarrow>
                  (case args of
                     [] \<Rightarrow> Inl (Needs_argument name)
                   | v # rest \<Rightarrow> parse_flags rest (set_flag name v p))))"

definition parse_settings ::
    "(string \<Rightarrow> string) \<Rightarrow> (string \<Rightarrow> string option) \<Rightarrow> string list \<Rightarrow> (settings_error, settings) res" where
  "parse_settings to_lower lookup args =
     rbind (parse_flags args (initial_settings lookup)) (\<lambda>(p, rest).
       if rest \<noteq> [] then Inl (Unexpected_arguments (join '' '' rest))
       else
         let p = p\<lparr>st_config_path := trim_space (st_config_path p), st_transport := to_lower (trim_space (st_transport p))\<rparr>
         in if st_config_path p = [] then Inl Empty_config_path
            else if st_transport p \<noteq> ''http'' \<and> st_transport p \<noteq> ''stdio'' then Inl (Unsupported_transport (st_transport p))
            else Inr p)"

text \<open>The configuration the composite gets, and the DSN of its options.\<close>

definition effective_settings :: "settings \<Rightarrow> config \<Rightarrow> config \<times> string" where
  "effective_settings p loaded =
     (let listen = (if os_set (st_listen p) then os_value (st_listen p) else cfg_listen loaded)
      in (loaded\<lparr>cfg_listen := (if listen = [] then default_listen else listen)\<rparr>,
          if os_set (st_dsn p) then os_value (st_dsn p) else []))"

lemma parse_settings_valid:
  assumes "parse_settings to_lower lookup args = Inr p"
  shows "st_config_path p \<noteq> [] \<and> st_transport p \<in> {''http'', ''stdio''}"
  using assms by (auto simp: parse_settings_def rbind_Inr_iff Let_def split: if_splits)

text \<open>
  Flags that are given as \<open>-name=value\<close> are applied from left to right, whatever the values contain, so the last
  one of a name counts, and a flag counts before the environment.
\<close>

definition as_flag :: "string \<times> string \<Rightarrow> string" where
  "as_flag f = CHR ''-'' # fst f @ CHR ''='' # snd f"

lemma known_flag:
  assumes "fst f \<in> set flag_names"
  shows "flag_of (as_flag f) = (fst f, Some (snd f))" and "\<not> bad_syntax (as_flag f)"
    and "length (as_flag f) \<ge> 2" and "as_flag f \<noteq> ''--''" and "hd (as_flag f) = CHR ''-''"
proof -
  have n: "CHR ''='' \<notin> set (fst f)" "fst f \<noteq> []" "hd (fst f) \<noteq> CHR ''-''" "hd (fst f) \<noteq> CHR ''=''"
    using assms by (auto simp: flag_names_def)
  then obtain c r where f: "fst f = c # r" "c \<noteq> CHR ''-''" "c \<noteq> CHR ''=''" by (cases "fst f") auto
  have nm: "take 2 (as_flag f) \<noteq> ''--''" "drop 1 (as_flag f) = fst f @ CHR ''='' # snd f"
    using f by (simp_all add: as_flag_def numeral_2_eq_2)
  show "flag_of (as_flag f) = (fst f, Some (snd f))"
    unfolding flag_of_def Let_def using nm index_byte_append [OF n(1), of "snd f"] by simp
  show "\<not> bad_syntax (as_flag f)"
    unfolding bad_syntax_def Let_def using nm f by simp
  show "length (as_flag f) \<ge> 2" "as_flag f \<noteq> ''--''" "hd (as_flag f) = CHR ''-''"
    using f by (simp_all add: as_flag_def)
qed

lemma parse_flags_given:
  assumes "\<forall>f\<in>set fs. fst f \<in> set flag_names"
  shows "parse_flags (map as_flag fs) p = Inr (fold (\<lambda>f. set_flag (fst f) (snd f)) fs p, [])"
  using assms
proof (induction fs arbitrary: p)
  case (Cons f fs)
  then have k: "fst f \<in> set flag_names" by simp
  from Cons show ?case by (simp add: known_flag [OF k] k not_less)
qed simp

lemma listen_set_flag:
  "st_listen (fold (\<lambda>f. set_flag (fst f) (snd f)) fs p) =
     (case map_of (rev fs) ''listen'' of Some v \<Rightarrow> \<lparr>os_value = v, os_set = True\<rparr> | None \<Rightarrow> st_listen p)"
  by (induction fs arbitrary: p) (auto simp: set_flag_def set_string_def map_add_def split: option.splits)

text \<open>
  Where the listen address comes from: the last flag, or the environment, or the file; an address that is empty
  is the default.
\<close>

lemma listen_precedence:
  assumes "\<forall>f\<in>set fs. fst f \<in> set flag_names"
    and "parse_settings to_lower lookup (map as_flag fs) = Inr p"
  shows "cfg_listen (fst (effective_settings p loaded)) =
    (let a = (case map_of (rev fs) ''listen'' of
                Some v \<Rightarrow> v
              | None \<Rightarrow> (case lookup ''MMMCP_LISTEN'' of Some v \<Rightarrow> v | None \<Rightarrow> cfg_listen loaded))
     in if a = [] then default_listen else a)"
proof -
  from assms(2) have "st_listen p = st_listen (fold (\<lambda>f. set_flag (fst f) (snd f)) fs (initial_settings lookup))"
    by (auto simp: parse_settings_def parse_flags_given [OF assms(1)] rbind_def Let_def split: if_splits)
  then show ?thesis
    by (simp add: effective_settings_def listen_set_flag initial_settings_def env_string_def set_string_def unset_def Let_def
        split: option.split)
qed

end
