(* ===== verification/Shutdown.thy ===== *)
theory Shutdown
  imports Program
begin

text \<open>
  The run of the program, \<open>run\<close> and \<open>serveHTTP\<close> of \<open>cmd/mmmcp/run.go\<close>, from the start of the frontend to the return
  of its error: the main goroutine, the one that serves, and the one that closes the composite in the background
  when the context ends, interleaved. \<open>closeComposite\<close> is a \<open>sync.OnceValue\<close>: the first caller runs \<open>Close\<close>, the
  others wait for its value. How a listener, a server and \<open>Close\<close> answer are the labels of the steps.
\<close>

section \<open>The goroutines\<close>

datatype 'e program_error = Listen_failed 'e | Serve_failed 'e | Shutdown_failed 'e | Stdio_failed 'e | Close_failed 'e

primrec cause_of :: "'e program_error \<Rightarrow> 'e" where
  "cause_of (Listen_failed e) = e"
| "cause_of (Serve_failed e) = e"
| "cause_of (Shutdown_failed e) = e"
| "cause_of (Stdio_failed e) = e"
| "cause_of (Close_failed e) = e"

text \<open>What \<open>Serve\<close> returns; it never returns nil.\<close>

datatype 'e serve_result = Server_was_closed | Serve_error 'e

datatype 'e serving = Not_serving | Serving | Served "'e serve_result" | Received

datatype 'e main_phase =
    Listening
  | Selecting
  | Draining
  | Awaiting_serve
  | Stdio_serving
  | Returned "'e program_error option"
  | Joining "'e program_error option"
  | Waiting_close "'e program_error option"
  | Exited "'e program_error list"

datatype 'e once_close = Close_new | Close_running | Close_done "'e option"

record 'e run_state =
  rn_main :: "'e main_phase"
  rn_serving :: "'e serving"
  rn_shut :: bool
  rn_cancelled :: bool
  rn_background :: bool
  rn_close :: "'e once_close"
  rn_calls :: nat

text \<open>\<open>rn_shut\<close>: \<open>Shutdown\<close> or \<open>Close\<close> of the HTTP server was called. \<open>rn_calls\<close> counts the calls of \<open>Composite.Close\<close>.\<close>

definition start_run :: "string \<Rightarrow> 'e run_state" where
  "start_run transport =
     \<lparr>rn_main = (if transport = ''http'' then Listening else Stdio_serving), rn_serving = Not_serving, rn_shut = False,
      rn_cancelled = False, rn_background = False, rn_close = Close_new, rn_calls = 0\<rparr>"

definition run_start :: "'e run_state \<Rightarrow> bool" where
  "run_start w \<longleftrightarrow> (\<exists>transport. w = start_run transport)"

text \<open>
  \<open>run\<close> up to there: \<open>load\<close> is \<open>LoadFile\<close> with the environment, \<open>create\<close> is \<open>New\<close> with the effective configuration and
  the DSN of the options.
\<close>

datatype ('l, 'n) startup_error = Settings_failed settings_error | Load_failed 'l | New_failed 'n

definition begin_run ::
    "(string \<Rightarrow> string) \<Rightarrow> (string \<Rightarrow> string option) \<Rightarrow> (string \<Rightarrow> ('l, config) res) \<Rightarrow> (config \<Rightarrow> string \<Rightarrow> ('n, 'c) res)
       \<Rightarrow> string list \<Rightarrow> (('l, 'n) startup_error, 'c \<times> 'e run_state) res" where
  "begin_run to_lower lookup load create args =
     (case parse_settings to_lower lookup args of
        Inl e \<Rightarrow> Inl (Settings_failed e)
      | Inr p \<Rightarrow>
        (case load (st_config_path p) of
           Inl e \<Rightarrow> Inl (Load_failed e)
         | Inr loaded \<Rightarrow>
           (case effective_settings p loaded of
              (cfg, dsn) \<Rightarrow>
              (case create cfg dsn of
                 Inl e \<Rightarrow> Inl (New_failed e)
               | Inr composite \<Rightarrow> Inr (composite, start_run (st_transport p))))))"

text \<open>The composite that is served always has a listen address, whatever the flags, the environment and the file say.\<close>

lemma begin_run_listens:
  assumes "begin_run to_lower lookup load create args = Inr (c, w)"
  shows "\<exists>cfg dsn. create cfg dsn = Inr c \<and> cfg_listen cfg \<noteq> [] \<and> run_start w"
proof -
  from assms obtain p loaded where
    "create (fst (effective_settings p loaded)) (snd (effective_settings p loaded)) = Inr c" "w = start_run (st_transport p)"
    by (auto simp: begin_run_def split: sum.split_asm prod.split_asm) (metis fst_conv snd_conv)
  moreover have "cfg_listen (fst (effective_settings p loaded)) \<noteq> []"
    by (simp add: effective_settings_def default_listen_def Let_def)
  ultimately show ?thesis by (auto simp: run_start_def)
qed

definition call_close :: "'e run_state \<Rightarrow> 'e run_state" where
  "call_close w = (if rn_close w = Close_new then w\<lparr>rn_close := Close_running, rn_calls := rn_calls w + 1\<rparr> else w)"

fun serve_outcome :: "'e serve_result \<Rightarrow> 'e program_error option" where
  "serve_outcome Server_was_closed = None"
| "serve_outcome (Serve_error e) = Some (Serve_failed e)"

text \<open>After serving: an error that only says that the context was cancelled is dropped when it was.\<close>

definition settle_error :: "('e \<Rightarrow> bool) \<Rightarrow> bool \<Rightarrow> 'e program_error option \<Rightarrow> 'e program_error option" where
  "settle_error is_cancelled cancelled err =
     (case err of None \<Rightarrow> None | Some e \<Rightarrow> if cancelled \<and> is_cancelled (cause_of e) then None else Some e)"

definition joined :: "'e program_error option \<Rightarrow> 'e option \<Rightarrow> 'e program_error list" where
  "joined err close_err = opt_list err @ opt_list (map_option Close_failed close_err)"

datatype 'e run_act =
    Cancel_context
  | Listen_returns "'e option"
  | Serve_returns "'e serve_result"
  | Receive_serve
  | Context_done
  | Shutdown_returns "'e option"
  | Stdio_returns "'e option"
  | Settle
  | Main_calls_close
  | Background_calls_close
  | Close_returns "'e option"
  | Main_returns

text \<open>
  \<open>Receive_serve\<close> is the receive on \<open>done\<close>, in the select or after the shutdown. The server returns
  \<open>ErrServerClosed\<close> only when it was shut down. Returning from \<open>serveHTTP\<close> closes the server.
\<close>

definition run_next :: "('e \<Rightarrow> bool) \<Rightarrow> 'e run_state \<Rightarrow> 'e run_act \<Rightarrow> 'e run_state option" where
  "run_next is_cancelled w a =
     (case a of
        Cancel_context \<Rightarrow> Some (w\<lparr>rn_cancelled := True\<rparr>)
      | Listen_returns e \<Rightarrow>
          if rn_main w \<noteq> Listening then None
          else Some (case e of
                       Some e \<Rightarrow> w\<lparr>rn_main := Returned (Some (Listen_failed e))\<rparr>
                     | None \<Rightarrow> w\<lparr>rn_main := Selecting, rn_serving := Serving\<rparr>)
      | Serve_returns r \<Rightarrow>
          if rn_serving w \<noteq> Serving \<or> (r = Server_was_closed \<and> \<not> rn_shut w) then None
          else Some (w\<lparr>rn_serving := Served r\<rparr>)
      | Receive_serve \<Rightarrow>
          if rn_main w \<noteq> Selecting \<and> rn_main w \<noteq> Awaiting_serve then None
          else (case rn_serving w of
                  Served r \<Rightarrow> Some (w\<lparr>rn_main := Returned (serve_outcome r), rn_serving := Received, rn_shut := True\<rparr>)
                | _ \<Rightarrow> None)
      | Context_done \<Rightarrow>
          if rn_main w \<noteq> Selecting \<or> \<not> rn_cancelled w then None
          else Some (w\<lparr>rn_main := Draining, rn_background := True, rn_shut := True\<rparr>)
      | Shutdown_returns e \<Rightarrow>
          if rn_main w \<noteq> Draining then None
          else Some (case e of
                       Some e \<Rightarrow> w\<lparr>rn_main := Returned (Some (Shutdown_failed e))\<rparr>
                     | None \<Rightarrow> w\<lparr>rn_main := Awaiting_serve\<rparr>)
      | Stdio_returns e \<Rightarrow>
          if rn_main w \<noteq> Stdio_serving then None
          else Some (w\<lparr>rn_main := Returned (map_option Stdio_failed e)\<rparr>)
      | Settle \<Rightarrow>
          (case rn_main w of
             Returned err \<Rightarrow> Some (w\<lparr>rn_main := Joining (settle_error is_cancelled (rn_cancelled w) err)\<rparr>)
           | _ \<Rightarrow> None)
      | Main_calls_close \<Rightarrow>
          (case rn_main w of Joining err \<Rightarrow> Some (call_close (w\<lparr>rn_main := Waiting_close err\<rparr>)) | _ \<Rightarrow> None)
      | Background_calls_close \<Rightarrow>
          if rn_background w then Some (call_close (w\<lparr>rn_background := False\<rparr>)) else None
      | Close_returns e \<Rightarrow> if rn_close w = Close_running then Some (w\<lparr>rn_close := Close_done e\<rparr>) else None
      | Main_returns \<Rightarrow>
          (case (rn_main w, rn_close w) of
             (Waiting_close err, Close_done e) \<Rightarrow> Some (w\<lparr>rn_main := Exited (joined err e)\<rparr>)
           | _ \<Rightarrow> None))"

definition run_moves :: "('e \<Rightarrow> bool) \<Rightarrow> 'e run_state \<Rightarrow> 'e run_act \<Rightarrow> 'e run_state \<Rightarrow> bool" where
  "run_moves is_cancelled w a v \<longleftrightarrow> run_next is_cancelled w a = Some v"

section \<open>Invariant\<close>

definition is_live :: "'e run_state \<Rightarrow> bool" where
  "is_live w \<longleftrightarrow> rn_serving w \<noteq> Not_serving \<and> rn_serving w \<noteq> Received"

definition is_quiet :: "'e run_state \<Rightarrow> bool" where
  "is_quiet w \<longleftrightarrow> rn_serving w = Not_serving \<or> rn_shut w"

fun phase_ok :: "'e main_phase \<Rightarrow> 'e run_state \<Rightarrow> bool" where
  "phase_ok Listening w \<longleftrightarrow> rn_close w = Close_new \<and> \<not> rn_background w \<and> rn_serving w = Not_serving"
| "phase_ok Selecting w \<longleftrightarrow> rn_close w = Close_new \<and> \<not> rn_background w \<and> is_live w"
| "phase_ok Draining w \<longleftrightarrow> rn_shut w \<and> (rn_background w \<or> rn_close w \<noteq> Close_new) \<and> is_live w"
| "phase_ok Awaiting_serve w \<longleftrightarrow> rn_shut w \<and> (rn_background w \<or> rn_close w \<noteq> Close_new) \<and> is_live w"
| "phase_ok Stdio_serving w \<longleftrightarrow> rn_close w = Close_new \<and> \<not> rn_background w \<and> rn_serving w = Not_serving"
| "phase_ok (Returned err) w \<longleftrightarrow> is_quiet w"
| "phase_ok (Joining err) w \<longleftrightarrow> is_quiet w"
| "phase_ok (Waiting_close err) w \<longleftrightarrow> is_quiet w \<and> rn_close w \<noteq> Close_new"
| "phase_ok (Exited es) w \<longleftrightarrow> is_quiet w \<and> (\<exists>err e. rn_close w = Close_done e \<and> es = joined err e)"

text \<open>\<open>Close\<close> is called, or going to be called in the background, only when the context has ended or serving is over.\<close>

fun after_serving :: "'e main_phase \<Rightarrow> bool" where
  "after_serving (Waiting_close _) = True"
| "after_serving (Exited _) = True"
| "after_serving _ = False"

definition close_is_due :: "'e run_state \<Rightarrow> bool" where
  "close_is_due w \<longleftrightarrow> (rn_background w \<longrightarrow> rn_cancelled w)
     \<and> (rn_calls w = 0 \<or> rn_cancelled w \<or> after_serving (rn_main w))"

lemma close_is_due_next:
  assumes "close_is_due w" and "run_next is_cancelled w a = Some v"
  shows "close_is_due v"
  using assms
  by (cases a; cases "rn_main w")
    (auto simp: close_is_due_def run_next_def call_close_def split: if_splits option.splits serving.splits once_close.splits)

definition run_ok :: "'e run_state \<Rightarrow> bool" where
  "run_ok w \<longleftrightarrow> rn_calls w = (if rn_close w = Close_new then 0 else 1) \<and> phase_ok (rn_main w) w"

text \<open>The steps of the other goroutines leave the phase of the main one as it is.\<close>

lemma phase_ok_cancel: "phase_ok m w \<Longrightarrow> phase_ok m (w\<lparr>rn_cancelled := True\<rparr>)"
  by (cases m) (simp_all add: is_live_def is_quiet_def)

lemma phase_ok_served: "phase_ok m w \<Longrightarrow> rn_serving w = Serving \<Longrightarrow> phase_ok m (w\<lparr>rn_serving := Served r\<rparr>)"
  by (cases m) (simp_all add: is_live_def is_quiet_def)

lemma phase_ok_background: "phase_ok m w \<Longrightarrow> rn_background w \<Longrightarrow> phase_ok m (call_close (w\<lparr>rn_background := False\<rparr>))"
  by (cases m) (auto simp: is_live_def is_quiet_def call_close_def)

lemma phase_ok_closed: "phase_ok m w \<Longrightarrow> rn_close w = Close_running \<Longrightarrow> phase_ok m (w\<lparr>rn_close := Close_done e\<rparr>)"
  by (cases m) (simp_all add: is_live_def is_quiet_def)

lemma run_ok_next:
  assumes "run_ok w" and "run_next is_cancelled w a = Some v"
  shows "run_ok v"
proof -
  have ph: "phase_ok (rn_main w) w" and calls: "rn_calls w = (if rn_close w = Close_new then 0 else 1)"
    using assms(1) by (simp_all add: run_ok_def)
  show ?thesis
  proof (cases a)
    case Cancel_context
    with assms(2) have "v = w\<lparr>rn_cancelled := True\<rparr>" by (simp add: run_next_def)
    with phase_ok_cancel [OF ph] calls show ?thesis by (simp add: run_ok_def)
  next
    case (Serve_returns r)
    with assms(2) have "v = w\<lparr>rn_serving := Served r\<rparr>" "rn_serving w = Serving"
      by (simp_all add: run_next_def split: if_split_asm)
    with phase_ok_served [OF ph] calls show ?thesis by (simp add: run_ok_def)
  next
    case Background_calls_close
    with assms(2) have "v = call_close (w\<lparr>rn_background := False\<rparr>)" "rn_background w"
      by (simp_all add: run_next_def split: if_split_asm)
    moreover from this phase_ok_background [OF ph] have "phase_ok (rn_main w) v" by simp
    moreover have "rn_main v = rn_main w" "rn_calls v = (if rn_close v = Close_new then 0 else 1)"
      using calls by (simp_all add: calculation(1) call_close_def)
    ultimately show ?thesis by (simp add: run_ok_def)
  next
    case (Close_returns e)
    with assms(2) have "v = w\<lparr>rn_close := Close_done e\<rparr>" "rn_close w = Close_running"
      by (simp_all add: run_next_def split: if_split_asm)
    with phase_ok_closed [OF ph] calls show ?thesis by (simp add: run_ok_def)
  next
    case Receive_serve
    with assms(2) obtain r where "v = w\<lparr>rn_main := Returned (serve_outcome r), rn_serving := Received, rn_shut := True\<rparr>"
      by (auto simp: run_next_def split: if_split_asm serving.split_asm)
    with calls show ?thesis by (simp add: run_ok_def is_quiet_def)
  next
    case Settle
    with assms(2) obtain err e' where "rn_main w = Returned err" "v = w\<lparr>rn_main := Joining e'\<rparr>"
      by (auto simp: run_next_def split: main_phase.split_asm)
    with ph calls show ?thesis by (simp add: run_ok_def is_quiet_def)
  next
    case Main_calls_close
    with assms(2) obtain err where "rn_main w = Joining err" "v = call_close (w\<lparr>rn_main := Waiting_close err\<rparr>)"
      by (auto simp: run_next_def split: main_phase.split_asm)
    with ph calls show ?thesis by (simp add: run_ok_def is_quiet_def call_close_def)
  next
    case Main_returns
    with assms(2) obtain err e where "rn_main w = Waiting_close err" "rn_close w = Close_done e"
      "v = w\<lparr>rn_main := Exited (joined err e)\<rparr>"
      by (auto simp: run_next_def split: main_phase.split_asm once_close.split_asm)
    with ph calls show ?thesis by (auto simp: run_ok_def is_quiet_def)
  next
    case (Listen_returns e)
    with assms(2) ph calls show ?thesis
      by (cases e) (auto simp: run_next_def run_ok_def is_quiet_def is_live_def split: if_split_asm)
  next
    case Context_done
    with assms(2) ph calls show ?thesis
      by (auto simp: run_next_def run_ok_def is_live_def split: if_split_asm)
  next
    case (Shutdown_returns e)
    with assms(2) ph calls show ?thesis
      by (cases e) (auto simp: run_next_def run_ok_def is_quiet_def is_live_def split: if_split_asm)
  next
    case (Stdio_returns e)
    with assms(2) ph calls show ?thesis
      by (auto simp: run_next_def run_ok_def is_quiet_def split: if_split_asm)
  qed
qed

interpretation rc: invariant_machine run_start "run_moves is_cancelled" close_is_due
proof unfold_locales
  show "close_is_due w" if "run_start w" for w using that
    by (auto simp: run_start_def start_run_def close_is_due_def)
  show "close_is_due v" if "close_is_due w" "run_moves is_cancelled w a v" for w a v
    using that(2) unfolding run_moves_def by (rule close_is_due_next [OF that(1)])
qed

interpretation rm: invariant_machine run_start "run_moves is_cancelled" run_ok
proof unfold_locales
  show "run_ok w" if "run_start w" for w using that
    by (auto simp: run_start_def start_run_def run_ok_def split: if_split_asm)
  show "run_ok v" if "run_ok w" "run_moves is_cancelled w a v" for w a v
    using that(2) unfolding run_moves_def by (rule run_ok_next [OF that(1)])
qed

section \<open>Progress\<close>

text \<open>How many steps other than a cancellation are left, at most.\<close>

fun main_rank :: "'e main_phase \<Rightarrow> nat" where
  "main_rank Listening = 12"
| "main_rank Selecting = 9"
| "main_rank Draining = 7"
| "main_rank Awaiting_serve = 6"
| "main_rank Stdio_serving = 6"
| "main_rank (Returned _) = 5"
| "main_rank (Joining _) = 4"
| "main_rank (Waiting_close _) = 3"
| "main_rank (Exited _) = 0"

fun serving_rank :: "'e serving \<Rightarrow> nat" where
  "serving_rank Not_serving = 0"
| "serving_rank Serving = 2"
| "serving_rank (Served _) = 1"
| "serving_rank Received = 0"

fun close_rank :: "'e once_close \<Rightarrow> nat" where
  "close_rank Close_new = 2"
| "close_rank Close_running = 1"
| "close_rank (Close_done _) = 0"

definition run_rank :: "'e run_state \<Rightarrow> nat" where
  "run_rank w = main_rank (rn_main w) + serving_rank (rn_serving w) + close_rank (rn_close w)
     + (if rn_background w then 1 else 0)"

lemma run_rank_decreases:
  assumes "run_next is_cancelled w a = Some v" and "a \<noteq> Cancel_context"
  shows "run_rank v < run_rank w"
  using assms
  by (cases a; cases "rn_main w")
    (auto simp: run_rank_def run_next_def call_close_def split: if_splits option.splits serving.splits once_close.splits)

lemma run_rank_start: "reach run_start (run_moves is_cancelled) w \<Longrightarrow> run_rank w \<le> 14"
proof (induction rule: reach.induct)
  case (reach_init w)
  then show ?case by (auto simp: run_start_def start_run_def run_rank_def)
next
  case (reach_step w a v)
  then show ?case
  proof (cases "a = Cancel_context")
    case True
    with reach_step show ?thesis by (auto simp: run_moves_def run_next_def run_rank_def)
  next
    case False
    with reach_step run_rank_decreases [of is_cancelled w a v] show ?thesis by (auto simp: run_moves_def)
  qed
qed

lemma run_length:
  assumes "play (run_next is_cancelled) w as = Some v" and "Cancel_context \<notin> set as"
  shows "length as + run_rank v \<le> run_rank w"
  using assms
proof (induction as arbitrary: w)
  case (Cons a as)
  then obtain u where u: "run_next is_cancelled w a = Some u" "play (run_next is_cancelled) u as = Some v"
    by (auto split: option.splits)
  with Cons have "length as + run_rank v \<le> run_rank u" by simp
  moreover have "run_rank u < run_rank w" using run_rank_decreases [OF u(1)] Cons.prems(2) by auto
  ultimately show ?case by simp
qed simp

lemma run_progress:
  assumes "run_ok w" and "rn_cancelled w" and "\<forall>es. rn_main w \<noteq> Exited es"
  shows "\<exists>a v. a \<noteq> Cancel_context \<and> run_next is_cancelled w a = Some v"
proof -
  have go: ?thesis if "run_next is_cancelled w a \<noteq> None" "a \<noteq> Cancel_context" for a using that by auto
  show ?thesis
  proof (cases "rn_main w")
    case Listening
    show ?thesis by (rule go [of "Listen_returns None"]) (simp_all add: run_next_def Listening)
  next
    case Selecting
    show ?thesis by (rule go [of Context_done]) (simp_all add: run_next_def Selecting assms(2))
  next
    case Draining
    show ?thesis by (rule go [of "Shutdown_returns None"]) (simp_all add: run_next_def Draining)
  next
    case Awaiting_serve
    with assms(1) have s: "rn_shut w" "rn_serving w \<noteq> Not_serving" "rn_serving w \<noteq> Received" by (auto simp: run_ok_def is_live_def)
    show ?thesis
    proof (cases "rn_serving w")
      case Serving
      show ?thesis by (rule go [of "Serve_returns Server_was_closed"]) (simp_all add: run_next_def Serving s)
    next
      case (Served r)
      show ?thesis by (rule go [of Receive_serve]) (simp_all add: run_next_def Served Awaiting_serve)
    qed (use s in auto)
  next
    case Stdio_serving
    show ?thesis by (rule go [of "Stdio_returns None"]) (simp_all add: run_next_def Stdio_serving)
  next
    case (Returned err)
    show ?thesis by (rule go [of Settle]) (simp_all add: run_next_def Returned)
  next
    case (Joining err)
    show ?thesis by (rule go [of Main_calls_close]) (simp_all add: run_next_def Joining)
  next
    case (Waiting_close err)
    with assms(1) have "rn_close w \<noteq> Close_new" by (auto simp: run_ok_def)
    then consider "rn_close w = Close_running" | e where "rn_close w = Close_done e" by (cases "rn_close w") auto
    then show ?thesis
    proof cases
      case 1
      show ?thesis by (rule go [of "Close_returns None"]) (simp_all add: run_next_def 1)
    next
      case 2
      show ?thesis by (rule go [of Main_returns]) (simp_all add: run_next_def 2 Waiting_close)
    qed
  qed (use assms(3) in blast)
qed

section \<open>Properties\<close>

text \<open>
  C40: The program calls \<open>Close\<close> at most once. As long as the context has not ended it does so only after serving is
  over, with no HTTP server left open; when the context has ended it also does so in the background, while the
  HTTP server drains its connections, but not before \<open>serveHTTP\<close> has seen that end. It
  returns only after that one call has ended, with its error among the others, and leaves no open HTTP server.
  When the context has ended it can always go on until it returns, and no run takes more than fourteen steps
  besides cancellations, whoever is scheduled.
\<close>

theorem run_closes_and_ends:
  assumes "reach run_start (run_moves is_cancelled) w"
  shows "rn_calls w \<le> 1
    \<and> (rn_calls w = 1 \<and> \<not> rn_cancelled w \<longrightarrow>
         (\<exists>err es. rn_main w = Waiting_close err \<or> rn_main w = Exited es) \<and> (rn_serving w \<noteq> Not_serving \<longrightarrow> rn_shut w))
    \<and> (rn_main w \<in> {Listening, Selecting, Stdio_serving} \<longrightarrow> rn_calls w = 0)
    \<and> (\<forall>es. rn_main w = Exited es \<longrightarrow>
         rn_calls w = 1 \<and> (\<exists>err e. rn_close w = Close_done e \<and> es = joined err e) \<and> (rn_serving w \<noteq> Not_serving \<longrightarrow> rn_shut w))
    \<and> (rn_cancelled w \<and> (\<forall>es. rn_main w \<noteq> Exited es) \<longrightarrow>
         (\<exists>a v. a \<noteq> Cancel_context \<and> run_next is_cancelled w a = Some v))
    \<and> (\<forall>as v. play (run_next is_cancelled) w as = Some v \<longrightarrow> Cancel_context \<notin> set as \<longrightarrow> length as \<le> 14)"
proof -
  from rm.reach_inv [OF assms] have ok: "run_ok w" .
  have "rn_calls w = 1 \<and> \<not> rn_cancelled w \<longrightarrow>
         (\<exists>err es. rn_main w = Waiting_close err \<or> rn_main w = Exited es) \<and> (rn_serving w \<noteq> Not_serving \<longrightarrow> rn_shut w)"
    using rc.reach_inv [OF assms] ok
    by (cases "rn_main w") (auto simp: close_is_due_def run_ok_def is_quiet_def)
  moreover from ok have "rn_calls w \<le> 1" "rn_main w \<in> {Listening, Selecting, Stdio_serving} \<longrightarrow> rn_calls w = 0"
    "\<forall>es. rn_main w = Exited es \<longrightarrow>
         rn_calls w = 1 \<and> (\<exists>err e. rn_close w = Close_done e \<and> es = joined err e) \<and> (rn_serving w \<noteq> Not_serving \<longrightarrow> rn_shut w)"
    by (auto simp: run_ok_def is_quiet_def)
  moreover have "\<forall>as v. play (run_next is_cancelled) w as = Some v \<longrightarrow> Cancel_context \<notin> set as \<longrightarrow> length as \<le> 14"
    using run_length [of is_cancelled w] run_rank_start [OF assms] by (meson add_leD1 le_trans)
  ultimately show ?thesis using run_progress [OF ok] by blast
qed

text \<open>A run that ends with the context: the background closes the composite while the server drains.\<close>

definition drained_run :: "string run_state option" where
  "drained_run = play (run_next (\<lambda>e. e = ''canceled'')) (start_run ''http'')
     [Listen_returns None, Cancel_context, Context_done, Background_calls_close, Serve_returns Server_was_closed,
      Shutdown_returns None, Receive_serve, Settle, Main_calls_close, Close_returns (Some ''busy''), Main_returns]"

theorem run_closes_and_ends_witness:
  "rn_main (the drained_run) = Exited [Close_failed ''busy''] \<and> rn_calls (the drained_run) \<le> 1
    \<and> rn_serving (the drained_run) \<noteq> Not_serving \<and> rn_shut (the drained_run)"
proof -
  have run: "drained_run \<noteq> None" "rn_main (the drained_run) = Exited [Close_failed ''busy'']"
    "rn_serving (the drained_run) \<noteq> Not_serving"
    by code_simp+
  then have "play (run_next (\<lambda>e. e = ''canceled'')) (start_run ''http'')
     [Listen_returns None, Cancel_context, Context_done, Background_calls_close, Serve_returns Server_was_closed,
      Shutdown_returns None, Receive_serve, Settle, Main_calls_close, Close_returns (Some ''busy''), Main_returns]
      = Some (the drained_run)"
    unfolding drained_run_def by simp
  then have "reach run_start (run_moves (\<lambda>e. e = ''canceled'')) (the drained_run)"
    by (rule play_reach [OF reach_init, rotated 2]) (auto simp: run_start_def run_moves_def)
  from run_closes_and_ends [OF this] run show ?thesis by blast
qed

end
