(* ===== verification/Fingerprint.thy ===== *)
theory Fingerprint
  imports Config
begin

text \<open>
  The identity of a configuration, \<open>Fingerprint\<close> and \<open>canonicalConfig\<close> of \<open>catalog/registry.go\<close>: the digest of the
  JSON text of the configuration, in which a nil slice or map must not differ from an empty one. Here, and only
  here, the two are told apart: \<open>None\<close> is nil. JSON and SHA-256 are arguments.
\<close>

section \<open>Configurations with nil\<close>

text \<open>The fields that cannot be nil, of a component and of a configuration, are in \<open>ns_plain\<close> and \<open>nc_plain\<close>.\<close>

record nilable_server =
  ns_plain :: "string \<times> string \<times> string \<times> string \<times> string \<times> string \<times> string \<times> int \<times> bool"
  ns_headers :: "(string \<rightharpoonup> string) option"
  ns_passthrough_headers :: "string list option"
  ns_args :: "string list option"
  ns_env :: "(string \<rightharpoonup> string) option"
  ns_tools :: "tool_override list option"
  ns_prompts :: "prompt_override list option"
  ns_resources :: "resource_override list option"
  ns_resource_templates :: "template_override list option"

record nilable_config =
  nc_plain :: "bool \<times> string \<times> string \<times> bool \<times> bool \<times> string \<times> int"
  nc_servers :: "nilable_server list option"

definition nil_or :: "'a \<Rightarrow> 'a option \<Rightarrow> 'a" where
  "nil_or z x = (case x of None \<Rightarrow> z | Some v \<Rightarrow> v)"

definition canonical_server :: "nilable_server \<Rightarrow> nilable_server" where
  "canonical_server s = \<lparr>ns_plain = ns_plain s,
     ns_headers = Some (nil_or Map.empty (ns_headers s)),
     ns_passthrough_headers = Some (nil_or [] (ns_passthrough_headers s)),
     ns_args = Some (nil_or [] (ns_args s)),
     ns_env = Some (nil_or Map.empty (ns_env s)),
     ns_tools = Some (nil_or [] (ns_tools s)),
     ns_prompts = Some (nil_or [] (ns_prompts s)),
     ns_resources = Some (nil_or [] (ns_resources s)),
     ns_resource_templates = Some (nil_or [] (ns_resource_templates s))\<rparr>"

text \<open>Appending no element to a nil slice leaves it nil.\<close>

definition clone_slice :: "'a list \<Rightarrow> 'a list option" where
  "clone_slice xs = (if xs = [] then None else Some xs)"

definition canonical_config :: "nilable_config \<Rightarrow> nilable_config" where
  "canonical_config c =
     (let servers = (case nc_servers c of None \<Rightarrow> Some [] | Some xs \<Rightarrow> clone_slice xs)
      in c\<lparr>nc_servers := map_option (map canonical_server) servers\<rparr>)"

datatype fingerprint_error = Nil_fingerprint_config | Fingerprint_json

definition fingerprint_of ::
    "(nilable_config \<Rightarrow> string option) \<Rightarrow> (string \<Rightarrow> string) \<Rightarrow> nilable_config option \<Rightarrow> (fingerprint_error, string) res" where
  "fingerprint_of marshal digest cfg =
     (case cfg of
        None \<Rightarrow> Inl Nil_fingerprint_config
      | Some c \<Rightarrow>
        (case marshal (canonical_config c) of None \<Rightarrow> Inl Fingerprint_json | Some d \<Rightarrow> Inr (digest d)))"

section \<open>What a fingerprint identifies\<close>

definition nil_eq :: "'a \<Rightarrow> 'a option \<Rightarrow> 'a option \<Rightarrow> bool" where
  "nil_eq z x y \<longleftrightarrow> nil_or z x = nil_or z y"

text \<open>The configurations that mean the same: they differ at most in nil against empty.\<close>

definition same_server :: "nilable_server \<Rightarrow> nilable_server \<Rightarrow> bool" where
  "same_server s t \<longleftrightarrow> ns_plain s = ns_plain t
     \<and> nil_eq Map.empty (ns_headers s) (ns_headers t) \<and> nil_eq [] (ns_passthrough_headers s) (ns_passthrough_headers t)
     \<and> nil_eq [] (ns_args s) (ns_args t) \<and> nil_eq Map.empty (ns_env s) (ns_env t)
     \<and> nil_eq [] (ns_tools s) (ns_tools t) \<and> nil_eq [] (ns_prompts s) (ns_prompts t)
     \<and> nil_eq [] (ns_resources s) (ns_resources t) \<and> nil_eq [] (ns_resource_templates s) (ns_resource_templates t)"

definition same_config :: "nilable_config \<Rightarrow> nilable_config \<Rightarrow> bool" where
  "same_config c d \<longleftrightarrow> nc_plain c = nc_plain d \<and> list_all2 same_server (nil_or [] (nc_servers c)) (nil_or [] (nc_servers d))"

lemma canonical_server_eq: "canonical_server s = canonical_server t \<longleftrightarrow> same_server s t"
  by (simp add: canonical_server_def same_server_def nil_eq_def)

lemma canonical_servers_eq: "map canonical_server xs = map canonical_server ys \<longleftrightarrow> list_all2 same_server xs ys"
  by (simp add: list_eq_iff_zip_eq list_all2_iff canonical_server_eq zip_map_map split_def)

lemma canonical_config_eq:
  assumes "nil_or [] (nc_servers c) \<noteq> []"
  shows "canonical_config c = canonical_config d \<longleftrightarrow> same_config c d"
proof -
  obtain xs where c: "nc_servers c = Some xs" "xs \<noteq> []" using assms by (cases "nc_servers c") (auto simp: nil_or_def)
  show ?thesis
  proof (cases "nc_servers d")
    case None
    with c show ?thesis by (cases c; cases d) (auto simp: canonical_config_def same_config_def nil_or_def clone_slice_def)
  next
    case (Some ys)
    with c show ?thesis
      by (cases c; cases d) (auto simp: canonical_config_def same_config_def nil_or_def clone_slice_def canonical_servers_eq)
  qed
qed

text \<open>
  Two configurations with components have the same fingerprint exactly if they mean the same, as far as the
  JSON text and the digest tell things apart.
\<close>

theorem fingerprint_identifies:
  assumes "nil_or [] (nc_servers c) \<noteq> []"
    and "\<And>x y. marshal x = marshal y \<Longrightarrow> x = y" and "\<And>x. marshal x \<noteq> None" and "\<And>x y. digest x = digest y \<Longrightarrow> x = y"
  shows "fingerprint_of marshal digest (Some c) = fingerprint_of marshal digest (Some d) \<longleftrightarrow> same_config c d"
proof -
  have "fingerprint_of marshal digest (Some x) = Inr (digest (the (marshal (canonical_config x))))" for x
    using assms(3) [of "canonical_config x"] by (auto simp: fingerprint_of_def)
  then have "fingerprint_of marshal digest (Some c) = fingerprint_of marshal digest (Some d)
      \<longleftrightarrow> canonical_config c = canonical_config d"
    using assms(2-4) by (metis (no_types) Inr_inject option.expand)
  with canonical_config_eq [OF assms(1)] show ?thesis by simp
qed

text \<open>
  Without components nil and empty change places: the clone of an empty list is nil again. So the two
  configurations without components, which mean the same, have different canonical forms.
\<close>

lemma empty_servers_not_canonical:
  "same_config \<lparr>nc_plain = p, nc_servers = None\<rparr> \<lparr>nc_plain = p, nc_servers = Some []\<rparr>"
  "canonical_config \<lparr>nc_plain = p, nc_servers = None\<rparr> = \<lparr>nc_plain = p, nc_servers = Some []\<rparr>"
  "canonical_config \<lparr>nc_plain = p, nc_servers = Some []\<rparr> = \<lparr>nc_plain = p, nc_servers = None\<rparr>"
  by (simp_all add: same_config_def nil_or_def canonical_config_def clone_slice_def)

end
