(* ===== verification/Stdio.thy ===== *)
theory Stdio
  imports Client
begin

text \<open>
  Components that are commands: the environment of the process (\<open>component/stdio/env.go\<close>, \<open>command.go\<close>), the
  processes that serve one call each and the \<open>Close\<close> of the factory that waits for them
  (\<open>component/stdio/factory.go\<close>). And the token source of \<open>component/http/oauth.go\<close>, which persists a token
  before anybody can use it.
\<close>

section \<open>The environment of a process\<close>

definition baseline_names :: "string list" where
  "baseline_names = [''PATH'', ''PWD'', ''TMPDIR'', ''TMP'', ''TEMP'', ''LANG'', ''LC_ALL'', ''LC_CTYPE'', ''TZ'']"

definition windows_launch_names :: "string list" where
  "windows_launch_names = [''SystemRoot'', ''WINDIR'', ''ComSpec'', ''PATHEXT'']"

definition env_names :: "bool \<Rightarrow> string list" where
  "env_names windows = (if windows then baseline_names @ windows_launch_names else baseline_names)"

definition env_entry :: "string \<times> string \<Rightarrow> string" where
  "env_entry p = fst p @ ''='' @ snd p"

text \<open>\<open>lookup\<close> is the host's environment, \<open>configured\<close> the map of the configuration.\<close>

definition environment :: "bool \<Rightarrow> (string \<Rightarrow> string option) \<Rightarrow> (string \<times> string) list \<Rightarrow> string list" where
  "environment windows lookup configured =
     concat (map (\<lambda>name. case lookup name of Some v \<Rightarrow> [env_entry (name, v)] | None \<Rightarrow> []) (env_names windows))
     @ map (\<lambda>name. env_entry (name, the (map_of configured name))) (sort (map fst configured))"

text \<open>
  How the process sees its environment: a name ends at the first equals sign, and the last entry of a name
  counts (the duplicates before it are removed when the process is started).
\<close>

definition read_entry :: "string \<Rightarrow> string \<times> string" where
  "read_entry e = (takeWhile (\<lambda>c. c \<noteq> CHR ''='') e, drop 1 (dropWhile (\<lambda>c. c \<noteq> CHR ''='') e))"

definition getenv :: "string list \<Rightarrow> string \<Rightarrow> string option" where
  "getenv env name = map_of (rev (map read_entry env)) name"

lemma read_env_entry: "CHR ''='' \<notin> set name \<Longrightarrow> read_entry (env_entry (name, v)) = (name, v)"
proof -
  assume "CHR ''='' \<notin> set name"
  then have "\<forall>c\<in>set name. c \<noteq> CHR ''=''" by auto
  then show ?thesis by (simp add: read_entry_def env_entry_def)
qed

lemma baseline_names_plain: "list_all (\<lambda>n. CHR ''='' \<notin> set n) (env_names windows)" "distinct (env_names windows)"
  by (simp_all add: env_names_def baseline_names_def windows_launch_names_def)

lemma map_of_concat_options:
  assumes "distinct names"
  shows "map_of (rev (concat (map (\<lambda>n. case f n of Some v \<Rightarrow> [(n, v)] | None \<Rightarrow> []) names))) k =
    (if k \<in> set names then f k else None)"
  using assms
proof (induction names)
  case (Cons n names)
  then show ?case by (cases "f n") (auto simp: map_add_def split: option.splits)
qed simp

lemma map_of_map_keys: "map_of (rev (map (\<lambda>n. (n, f n)) names)) k = (if k \<in> set names then Some (f k) else None)"
  by (induction names) (auto simp: map_add_def)

text \<open>
  A process sees every configured variable with its configured value, of the host's environment only the
  listed names that are not configured, and nothing else: no other secret of the host leaks into a component.
\<close>

theorem environment_isolated:
  assumes "\<forall>(n, v)\<in>set configured. CHR ''='' \<notin> set n"
  shows "getenv (environment windows lookup configured) name =
    (case map_of configured name of
       Some v \<Rightarrow> Some v
     | None \<Rightarrow> if name \<in> set (env_names windows) then lookup name else None)"
proof -
  have host: "map read_entry (concat (map (\<lambda>name. case lookup name of Some v \<Rightarrow> [env_entry (name, v)] | None \<Rightarrow> []) names))
      = concat (map (\<lambda>name. case lookup name of Some v \<Rightarrow> [(name, v)] | None \<Rightarrow> []) names)"
    if "list_all (\<lambda>n. CHR ''='' \<notin> set n) names" for names
    using that by (induction names) (auto simp: read_env_entry split: option.splits)
  have "read_entry (env_entry (n, the (map_of configured n))) = (n, the (map_of configured n))"
    if "n \<in> set (sort (map fst configured))" for n
    using that assms by (intro read_env_entry) auto
  then have own: "map read_entry (map (\<lambda>name. env_entry (name, the (map_of configured name))) (sort (map fst configured)))
      = map (\<lambda>n. (n, the (map_of configured n))) (sort (map fst configured))"
    by simp
  have "map read_entry (environment windows lookup configured)
      = concat (map (\<lambda>name. case lookup name of Some v \<Rightarrow> [(name, v)] | None \<Rightarrow> []) (env_names windows))
        @ map (\<lambda>n. (n, the (map_of configured n))) (sort (map fst configured))"
    unfolding environment_def map_append host [OF baseline_names_plain(1)] own ..
  then have "getenv (environment windows lookup configured) name =
      (if name \<in> fst ` set configured then Some (the (map_of configured name))
       else if name \<in> set (env_names windows) then lookup name else None)"
    unfolding getenv_def
    by (simp add: map_of_concat_options [OF baseline_names_plain(2)] map_of_map_keys map_add_def del: map_map)
  moreover have "name \<in> fst ` set configured \<longleftrightarrow> map_of configured name \<noteq> None" by (simp add: map_of_eq_None_iff)
  ultimately show ?thesis by (auto split: option.split)
qed

theorem environment_isolated_witness:
  "getenv (environment False (\<lambda>n. Some ''host'') [(''TOKEN'', ''t''), (''PATH'', ''/bin'')]) ''HOME'' =
    (case map_of [(''TOKEN'', ''t''), (''PATH'', ''/bin'')] ''HOME'' of
       Some v \<Rightarrow> Some v
     | None \<Rightarrow> if ''HOME'' \<in> set (env_names False) then Some ''host'' else None)"
  by (rule environment_isolated) simp

section \<open>Processes of single calls\<close>

text \<open>
  \<open>cleanup\<close> is the wait group: the calls that were let in and whose process has not been closed yet. Every
  call is a goroutine: it opens a process, makes its call, and closes the process, at once when the call
  failed and in a goroutine of its own when it did not.
\<close>

record one_off_factory =
  of_closing :: bool
  of_cleanup :: nat

definition begin_one_off :: "one_off_factory \<Rightarrow> (string, one_off_factory) res" where
  "begin_one_off f =
     (if of_closing f then Inl ''stdio component factory is closed''
      else Inr (f\<lparr>of_cleanup := of_cleanup f + 1\<rparr>))"

definition cleanup_done :: "one_off_factory \<Rightarrow> one_off_factory" where
  "cleanup_done f = f\<lparr>of_cleanup := of_cleanup f - 1\<rparr>"

definition close_begin :: "one_off_factory \<Rightarrow> one_off_factory" where
  "close_begin f = f\<lparr>of_closing := True\<rparr>"

datatype call_phase = Call_opening | Call_running | Call_closing

record one_off_world =
  ow_factory :: one_off_factory
  ow_calls :: "(nat \<times> call_phase) list"
  ow_closing :: bool
  ow_close_returned :: bool

datatype one_off_act = Begin_call nat | Call_opened nat bool | Call_returned nat | Call_closed nat
  | Close_factory | Close_factory_returns

definition one_off_next :: "one_off_world \<Rightarrow> one_off_act \<Rightarrow> one_off_world option" where
  "one_off_next w a =
     (case a of
        Begin_call i \<Rightarrow>
          if i \<in> fst ` set (ow_calls w) then None
          else (case begin_one_off (ow_factory w) of
                  Inl e \<Rightarrow> Some w
                | Inr f \<Rightarrow> Some (w\<lparr>ow_factory := f, ow_calls := (i, Call_opening) # ow_calls w\<rparr>))
      | Call_opened i ok \<Rightarrow>
          if (i, Call_opening) \<notin> set (ow_calls w) then None
          else if ok
          then Some (w\<lparr>ow_calls := (i, Call_running) # remove1 (i, Call_opening) (ow_calls w)\<rparr>)
          else Some (w\<lparr>ow_factory := cleanup_done (ow_factory w), ow_calls := remove1 (i, Call_opening) (ow_calls w)\<rparr>)
      | Call_returned i \<Rightarrow>
          if (i, Call_running) \<notin> set (ow_calls w) then None
          else Some (w\<lparr>ow_calls := (i, Call_closing) # remove1 (i, Call_running) (ow_calls w)\<rparr>)
      | Call_closed i \<Rightarrow>
          if (i, Call_closing) \<notin> set (ow_calls w) then None
          else Some (w\<lparr>ow_factory := cleanup_done (ow_factory w), ow_calls := remove1 (i, Call_closing) (ow_calls w)\<rparr>)
      | Close_factory \<Rightarrow> Some (w\<lparr>ow_factory := close_begin (ow_factory w), ow_closing := True\<rparr>)
      | Close_factory_returns \<Rightarrow>
          if ow_closing w \<and> of_cleanup (ow_factory w) = 0 then Some (w\<lparr>ow_close_returned := True\<rparr>) else None)"

text \<open>What the caller gets: the outcome of its call, with the error of closing the process when the call failed.\<close>

definition one_off_result :: "(go_error, 'a) res \<Rightarrow> go_error option \<Rightarrow> (go_error, 'a) res" where
  "one_off_result r close_err = (case r of Inl e \<Rightarrow> Inl (Joined [Some e, close_err]) | Inr x \<Rightarrow> Inr x)"

definition one_off_start :: "one_off_world \<Rightarrow> bool" where
  "one_off_start w \<longleftrightarrow> w = \<lparr>ow_factory = \<lparr>of_closing = False, of_cleanup = 0\<rparr>, ow_calls = [],
     ow_closing = False, ow_close_returned = False\<rparr>"

definition one_off_moves :: "one_off_world \<Rightarrow> one_off_act \<Rightarrow> one_off_world \<Rightarrow> bool" where
  "one_off_moves w a v \<longleftrightarrow> one_off_next w a = Some v"

definition one_off_ok :: "one_off_world \<Rightarrow> bool" where
  "one_off_ok w \<longleftrightarrow> of_cleanup (ow_factory w) = length (ow_calls w)
     \<and> (ow_closing w \<longleftrightarrow> of_closing (ow_factory w))
     \<and> (ow_close_returned w \<longrightarrow> of_closing (ow_factory w) \<and> ow_calls w = [])"

lemma length_pred: "x \<in> set xs \<Longrightarrow> length xs = Suc (length xs - Suc 0)"
  by (cases xs) simp_all

lemma one_off_ok_next:
  assumes "one_off_ok w" and "one_off_next w a = Some v"
  shows "one_off_ok v"
  using assms
  by (cases a) (auto simp: one_off_ok_def one_off_next_def begin_one_off_def cleanup_done_def close_begin_def
      length_remove1 intro: length_pred split: if_splits)

interpretation om: invariant_machine one_off_start one_off_moves one_off_ok
proof unfold_locales
  show "one_off_ok w" if "one_off_start w" for w using that by (simp add: one_off_start_def one_off_ok_def)
  show "one_off_ok v" if "one_off_ok w" "one_off_moves w a v" for w a v
    using that(2) unfolding one_off_moves_def by (rule one_off_ok_next [OF that(1)])
qed

text \<open>
  When \<open>Close\<close> of the factory has returned, no process of a call is being opened, running or being
  closed, and none starts any more.
\<close>

theorem closed_factory_has_no_processes:
  assumes "reach one_off_start one_off_moves w" and "ow_close_returned w"
  shows "ow_calls w = [] \<and> (\<forall>i. one_off_next w (Begin_call i) = Some w)"
  using om.reach_inv [OF assms(1)] assms(2)
  by (simp add: one_off_ok_def one_off_next_def begin_one_off_def)

definition sample_one_off :: "one_off_world option" where
  "sample_one_off = play one_off_next
     \<lparr>ow_factory = \<lparr>of_closing = False, of_cleanup = 0\<rparr>, ow_calls = [], ow_closing = False, ow_close_returned = False\<rparr>
     [Begin_call 0, Begin_call 1, Call_opened 0 True, Close_factory, Call_opened 1 False, Call_returned 0, Call_closed 0,
      Close_factory_returns]"

theorem closed_factory_has_no_processes_witness:
  "ow_calls (the sample_one_off) = [] \<and> (\<forall>i. one_off_next (the sample_one_off) (Begin_call i) = Some (the sample_one_off))"
proof (rule closed_factory_has_no_processes)
  have s: "sample_one_off = Some \<lparr>ow_factory = \<lparr>of_closing = True, of_cleanup = 0\<rparr>, ow_calls = [], ow_closing = True,
      ow_close_returned = True\<rparr>" by code_simp
  show "ow_close_returned (the sample_one_off)" unfolding s by simp
  have "play one_off_next \<lparr>ow_factory = \<lparr>of_closing = False, of_cleanup = 0\<rparr>, ow_calls = [], ow_closing = False,
      ow_close_returned = False\<rparr> [Begin_call 0, Begin_call 1, Call_opened 0 True, Close_factory, Call_opened 1 False,
      Call_returned 0, Call_closed 0, Close_factory_returns] = Some (the sample_one_off)"
    using s by (simp add: sample_one_off_def)
  then show "reach one_off_start one_off_moves (the sample_one_off)"
    by (rule play_reach [OF reach_init, rotated 2]) (simp_all add: one_off_start_def one_off_moves_def)
qed

section \<open>Tokens\<close>

text \<open>
  \<open>NewPersistentTokenSource\<close>: one call of \<open>Token\<close>, which holds a lock. \<open>source\<close> is what the wrapped source
  returns (an error, or a token or nil), \<open>store\<close> whether the store keeps the token. The second component of
  the state is the store: the tokens it was given and kept, the last one first.
\<close>

record 'tok token_source =
  ts_last :: "'tok option"
  ts_stored :: "'tok list"

definition token_step ::
    "(string, 'tok option) res \<Rightarrow> string option \<Rightarrow> 'tok token_source \<Rightarrow> (string, 'tok option) res \<times> 'tok token_source" where
  "token_step source store s =
     (case source of
        Inl e \<Rightarrow> (Inl e, s)
      | Inr None \<Rightarrow> (Inr None, s)
      | Inr (Some token) \<Rightarrow>
          if ts_last s = Some token then (Inr (Some token), s)
          else (case store of
                  Some e \<Rightarrow> (Inl e, s)
                | None \<Rightarrow> (Inr (Some token), \<lparr>ts_last = Some token, ts_stored = token # ts_stored s\<rparr>)))"

primrec token_steps ::
    "((string, 'tok option) res \<times> string option) list \<Rightarrow> 'tok token_source \<Rightarrow> (string, 'tok option) res list \<times> 'tok token_source" where
  "token_steps [] s = ([], s)"
| "token_steps (c # cs) s =
     (case token_step (fst c) (snd c) s of (r, s) \<Rightarrow> (case token_steps cs s of (rs, s) \<Rightarrow> (r # rs, s)))"

lemma token_steps_keep: "set (ts_stored s) \<subseteq> set (ts_stored (snd (token_steps cs s)))"
proof (induction cs arbitrary: s)
  case (Cons c cs)
  obtain r u where t: "token_step (fst c) (snd c) s = (r, u)" by fastforce
  then have "set (ts_stored s) \<subseteq> set (ts_stored u)"
    by (auto simp: token_step_def split: sum.splits option.splits if_splits)
  with Cons.IH [of u] t show ?case by (auto split: prod.splits)
qed simp

lemma token_step_stored:
  assumes "\<forall>t. ts_last s = Some t \<longrightarrow> ts_stored s \<noteq> [] \<and> hd (ts_stored s) = t" and "token_step src st s = (r, u)"
  shows "(\<forall>t. ts_last u = Some t \<longrightarrow> ts_stored u \<noteq> [] \<and> hd (ts_stored u) = t)
    \<and> (\<forall>t. r = Inr (Some t) \<longrightarrow> ts_stored u \<noteq> [] \<and> hd (ts_stored u) = t)"
  using assms by (auto simp: token_step_def split: sum.splits option.splits if_splits)

text \<open>
  A token that \<open>Token\<close> hands out is the one the store holds at that moment: a refreshed token is never
  used before it was persisted, and after a failed write the next call tries to persist it again.
\<close>

theorem token_persisted_before_use:
  assumes "token_steps cs \<lparr>ts_last = None, ts_stored = []\<rparr> = (rs, s)" and "token_step source store s = (Inr (Some t), u)"
  shows "ts_stored u \<noteq> [] \<and> hd (ts_stored u) = t"
proof -
  have "\<forall>t. ts_last (snd (token_steps cs s)) = Some t \<longrightarrow>
      ts_stored (snd (token_steps cs s)) \<noteq> [] \<and> hd (ts_stored (snd (token_steps cs s))) = t"
    if "\<forall>t. ts_last s = Some t \<longrightarrow> ts_stored s \<noteq> [] \<and> hd (ts_stored s) = t" for s :: "'a token_source"
    using that
  proof (induction cs arbitrary: s)
    case (Cons c cs)
    obtain r u where t: "token_step (fst c) (snd c) s = (r, u)" by fastforce
    from Cons.IH [OF conjunct1 [OF token_step_stored [OF Cons.prems t]]] t show ?case
      by (simp add: split_beta)
  qed simp
  from this [of "\<lparr>ts_last = None, ts_stored = []\<rparr>"] assms(1)
  have "\<forall>t. ts_last s = Some t \<longrightarrow> ts_stored s \<noteq> [] \<and> hd (ts_stored s) = t" by simp
  from token_step_stored [OF this assms(2)] show ?thesis by simp
qed

theorem token_persisted_before_use_witness: "ts_stored \<lparr>ts_last = Some (2 :: nat), ts_stored = [2, 1]\<rparr> \<noteq> []
    \<and> hd (ts_stored \<lparr>ts_last = Some (2 :: nat), ts_stored = [2, 1]\<rparr>) = 2"
  by (rule token_persisted_before_use [where
        cs = "[(Inr (Some 1), None), (Inr (Some 2), Some ''disk full''), (Inl ''expired'', None)]" and
        source = "Inr (Some 2)" and store = None]) (simp add: token_step_def, simp add: token_step_def)

end
