(* ===== verification/Downstream.thy ===== *)
theory Downstream
  imports Client "HOL-Library.AList" "HOL-Library.Multiset"
begin

text \<open>
  The HTTP requests to a component: \<open>headerTransport\<close> of \<open>component/http/client.go\<close> decides the header of a
  request from the client's header, the configuration and the arguments of the tool call, which a tool may
  ask for as \<open>Mcp-Param-\<close> headers. The text of JSON is parsed by an argument of the definitions, and so are
  the numbers in it. Go visits maps in no fixed order: the orders are an argument, \<open>range_orders\<close>.
\<close>

section \<open>Header names\<close>

text \<open>\<open>http.CanonicalHeaderKey\<close>, which \<open>Header.Set\<close>, \<open>Add\<close>, \<open>Del\<close> and \<open>Values\<close> apply to the name.\<close>

definition header_byte :: "char \<Rightarrow> bool" where
  "header_byte c \<longleftrightarrow>
     (let n = of_char c :: nat in 48 \<le> n \<and> n < 58 \<or> 65 \<le> n \<and> n < 91 \<or> 97 \<le> n \<and> n < 123)
     \<or> c \<in> {CHR 0x27, CHR 0x60} \<or> c \<in> set ''!#$%&*+-.^_|~''"

definition upper_byte :: "char \<Rightarrow> char" where
  "upper_byte c = (let n = of_char c :: nat in if 97 \<le> n \<and> n < 123 then char_of (n - 32) else c)"

primrec canonical_from :: "bool \<Rightarrow> string \<Rightarrow> string" where
  "canonical_from up [] = []"
| "canonical_from up (c # s) =
     (let c = (if up then upper_byte c else lower_byte c) in c # canonical_from (c = CHR ''-'') s)"

definition canonical_key :: "string \<Rightarrow> string" where
  "canonical_key s = (if list_all header_byte s then canonical_from True s else s)"

section \<open>Values of parameter headers\<close>

text \<open>The alphabet and the padding of \<open>base64.StdEncoding\<close>.\<close>

definition std_alphabet :: string where
  "std_alphabet = ''ABCDEFGHIJKLMNOPQRSTUVWXYZabcdefghijklmnopqrstuvwxyz0123456789+/''"

definition std_encode :: "string \<Rightarrow> string" where
  "std_encode s = map (\<lambda>d. std_alphabet ! d) (b64_digits (map of_char s))
     @ replicate ((3 - length s mod 3) mod 3) (CHR ''='')"

text \<open>A number as \<open>encoding/json\<close> stores it in a \<open>float64\<close>: whole, with a fraction, or out of range.\<close>

datatype float64 = Whole int | Fractional

text \<open>\<open>strings.Trim\<close> with the cut set of space and tab.\<close>

definition trim_blanks :: "string \<Rightarrow> string" where
  "trim_blanks s = rev (dropWhile (\<lambda>c. c = CHR '' '' \<or> c = CHR 0x09) (rev (dropWhile (\<lambda>c. c = CHR '' '' \<or> c = CHR 0x09) s)))"

definition printable :: "char \<Rightarrow> bool" where
  "printable c \<longleftrightarrow> \<not> (c < CHR 0x20 \<or> c > CHR 0x7E)"

definition scalar_text :: "(string \<Rightarrow> float64 option) \<Rightarrow> json \<Rightarrow> string option" where
  "scalar_text number raw =
     (case raw of
        JStr s \<Rightarrow> Some s
      | JBool b \<Rightarrow> Some (if b then ''true'' else ''false'')
      | JNum s \<Rightarrow>
        (case number s of
           Some (Whole i) \<Rightarrow> if i < - (2 ^ 53 - 1) \<or> i > 2 ^ 53 - 1 then None else Some (int_text i)
         | Some Fractional \<Rightarrow> None
         | None \<Rightarrow> None)
      | _ \<Rightarrow> None)"

definition base64_value :: "string \<Rightarrow> string" where
  "base64_value s = ''=?base64?'' @ std_encode s @ ''?=''"

definition encode_param_header :: "(string \<Rightarrow> float64 option) \<Rightarrow> json \<Rightarrow> string option" where
  "encode_param_header number raw =
     (case scalar_text number raw of
        None \<Rightarrow> None
      | Some encoded \<Rightarrow>
        Some (if trim_blanks encoded \<noteq> encoded \<or> (has_prefix encoded ''=?base64?'' \<and> has_suffix encoded ''?='')
              then base64_value encoded
              else if \<not> list_all printable encoded then base64_value encoded
              else encoded))"

section \<open>The schema's annotations\<close>

datatype header_property = Header_property (hp_header: "json option") (hp_properties: "(string \<times> header_property) list")

text \<open>
  Decoding a schema into \<open>headerSchemaProperty\<close>: members in their order, a repeated one replaces or (for the
  map) extends the earlier one, \<open>null\<close> clears the map, any other type is an error for the whole schema.
\<close>

fun decode_property :: "json \<Rightarrow> header_property option"
and decode_members :: "(string \<times> json) list \<Rightarrow> json option \<Rightarrow> (string \<times> header_property) list \<Rightarrow> header_property option"
and decode_map :: "(string \<times> json) list \<Rightarrow> (string \<times> header_property) list \<Rightarrow> (string \<times> header_property) list option" where
  "decode_property JNull = Some (Header_property None [])"
| "decode_property (JObj ms) = decode_members ms None []"
| "decode_property j = None"
| "decode_members [] raw props = Some (Header_property raw props)"
| "decode_members ((k, v) # ms) raw props =
     (if fold_name k = ''x-mcp-header'' then decode_members ms (Some v) props
      else if fold_name k = ''properties''
      then (case v of
              JNull \<Rightarrow> decode_members ms raw []
            | JObj ps \<Rightarrow> (case decode_map ps props of None \<Rightarrow> None | Some props \<Rightarrow> decode_members ms raw props)
            | _ \<Rightarrow> None)
      else decode_members ms raw props)"
| "decode_map [] props = Some props"
| "decode_map ((k, v) # ps) props =
     (case decode_property v of None \<Rightarrow> None | Some p \<Rightarrow> decode_map ps (AList.update k p props))"

text \<open>
  One property with an argument that is not null: its header, if it asks for one and the argument is a
  scalar, and the object below it, if it has properties and the argument is an object.
\<close>

definition annotated_header :: "(string \<Rightarrow> float64 option) \<Rightarrow> json option \<Rightarrow> json \<Rightarrow> (string \<times> string) list" where
  "annotated_header number raw argument =
     (case raw of
        Some (JStr hdr) \<Rightarrow>
          if hdr = [] then []
          else (case encode_param_header number argument of
                  Some v \<Rightarrow> [(canonical_key (''Mcp-Param-'' @ hdr), v)] | None \<Rightarrow> [])
      | _ \<Rightarrow> [])"

definition nested_arguments :: "(string \<times> header_property) list \<Rightarrow> json \<Rightarrow> (string \<Rightarrow> json option) option" where
  "nested_arguments props argument =
     (if props = [] then None else (case argument of JObj nested \<Rightarrow> Some (map_of (rev nested)) | _ \<Rightarrow> None))"

text \<open>
  Go ranges over a map in an order of its own choosing, a new one every time: the list is the map in the
  order it is visited in, at every level of the schema. \<open>arguments\<close> is the object of the call.
\<close>

function (sequential) add_annotated_headers ::
    "(string \<Rightarrow> float64 option) \<Rightarrow> (string \<times> header_property) list \<Rightarrow> (string \<Rightarrow> json option) \<Rightarrow> header \<Rightarrow> header" where
  "add_annotated_headers number [] arguments h = h"
| "add_annotated_headers number ((name, Header_property raw props) # ps) arguments h =
     (case arguments name of
        None \<Rightarrow> add_annotated_headers number ps arguments h
      | Some argument \<Rightarrow>
        if argument = JNull then add_annotated_headers number ps arguments h
        else
          let h = fold (\<lambda>(n, v). header_set n [v]) (annotated_header number raw argument) h
          in (case nested_arguments props argument of
                None \<Rightarrow> add_annotated_headers number ps arguments h
              | Some nested \<Rightarrow>
                  add_annotated_headers number ps arguments (add_annotated_headers number props nested h)))"
  by pat_completeness auto
termination
  by (relation "measure (\<lambda>(number, ps, arguments, h). size_list (size_prod (\<lambda>s. 0) size) ps)") auto

text \<open>
  The orders a request happens to visit its two maps in: the configured headers, and the schema with all the
  maps below it. \<open>reordered ps qs\<close>: \<open>qs\<close> is the schema \<open>ps\<close>, each of its maps visited in some order.
\<close>

inductive reordered :: "(string \<times> header_property) list \<Rightarrow> (string \<times> header_property) list \<Rightarrow> bool" where
  reordered_nil: "reordered [] []"
| reordered_cons: "reordered ps (xs @ ys) \<Longrightarrow> reordered props props' \<Longrightarrow>
    reordered ((name, Header_property raw props) # ps) (xs @ (name, Header_property raw props') # ys)"

record range_orders =
  ro_headers :: "(string \<times> string) list \<Rightarrow> (string \<times> string) list"
  ro_schema :: "(string \<times> header_property) list \<Rightarrow> (string \<times> header_property) list"

definition ranges_over :: "range_orders \<Rightarrow> bool" where
  "ranges_over R \<longleftrightarrow> (\<forall>hs. mset (ro_headers R hs) = mset hs) \<and> (\<forall>ps. reordered ps (ro_schema R ps))"

text \<open>\<open>tool\<close> is the schema of the routed tool, \<open>arguments\<close> the bytes of the call.\<close>

definition add_tool_param_headers ::
    "(string \<Rightarrow> json option) \<Rightarrow> (string \<Rightarrow> float64 option) \<Rightarrow> range_orders \<Rightarrow> mcp_tool option \<Rightarrow> string \<Rightarrow> header \<Rightarrow> header" where
  "add_tool_param_headers parse number R tool arguments h =
     (case tool of
        None \<Rightarrow> h
      | Some t \<Rightarrow>
        if arguments = [] then h
        else (case (decode_property (tool_input_schema t), parse arguments) of
                (Some schema, Some JNull) \<Rightarrow> add_annotated_headers number (ro_schema R (hp_properties schema)) (\<lambda>k. None) h
              | (Some schema, Some (JObj args)) \<Rightarrow>
                  add_annotated_headers number (ro_schema R (hp_properties schema)) (map_of (rev args)) h
              | _ \<Rightarrow> h))"

section \<open>The header of a request\<close>

definition pass_through :: "header \<Rightarrow> string \<Rightarrow> header \<Rightarrow> header" where
  "pass_through incoming name h =
     (let name = canonical_key name; values = header_values incoming name
      in if values = [] then h else fold (header_add name) values (header_del name h))"

definition round_trip ::
    "(string \<Rightarrow> json option) \<Rightarrow> (string \<Rightarrow> float64 option) \<Rightarrow> range_orders \<Rightarrow> server \<Rightarrow> header \<Rightarrow> mcp_tool option \<Rightarrow> string
       \<Rightarrow> header \<Rightarrow> header" where
  "round_trip parse number R server incoming tool arguments h =
     add_tool_param_headers parse number R tool arguments
       (fold (\<lambda>(name, value). header_set (canonical_key name) [value]) (ro_headers R (srv_headers server))
         (fold (pass_through incoming) (srv_passthrough_headers server) h))"

section \<open>Reading a parameter header\<close>

definition std_decode :: "string \<Rightarrow> string option" where
  "std_decode s =
     (case those (map (index_byte std_alphabet) (takeWhile (\<lambda>c. c \<noteq> CHR ''='') s)) of
        None \<Rightarrow> None | Some ds \<Rightarrow> map_option (map char_of) (b64_bytes ds))"

text \<open>How a component reads the value back, as the protocol prescribes.\<close>

definition read_param_header :: "string \<Rightarrow> string option" where
  "read_param_header v =
     (if has_prefix v ''=?base64?'' \<and> has_suffix v ''?=''
      then std_decode (take (length v - 11) (drop 9 v)) else Some v)"

lemma std_alphabet_ok:
  "length std_alphabet = 64" "distinct std_alphabet" "CHR ''='' \<notin> set std_alphabet" "list_all printable std_alphabet"
  "CHR '' '' \<notin> set std_alphabet"
  by (code_simp, code_simp, code_simp, code_simp, code_simp)

lemma std_digits: "\<forall>d\<in>set (b64_digits (map of_char s)). d < length std_alphabet"
proof -
  have "\<forall>b \<in> set (map of_char s :: nat list). b < 256" by auto
  from b64_digits_bound [OF this] show ?thesis by (simp add: std_alphabet_ok(1))
qed

lemma std_encode_chars: "set (std_encode s) \<subseteq> set std_alphabet \<union> {CHR ''=''}"
  using std_digits [of s] by (auto simp: std_encode_def)

lemma std_roundtrip: "std_decode (std_encode s) = Some s"
proof -
  let ?t = "map (\<lambda>d. std_alphabet ! d) (b64_digits (map of_char s))"
  have "set ?t \<subseteq> set std_alphabet" using std_digits by auto
  then have "\<forall>c\<in>set ?t. c \<noteq> CHR ''=''" using std_alphabet_ok(3) by blast
  then have "takeWhile (\<lambda>c. c \<noteq> CHR ''='') (std_encode s) = ?t"
    by (simp add: std_encode_def takeWhile_append takeWhile_eq_all_conv [THEN iffD2])
  moreover have "b64_bytes (b64_digits (map of_char s)) = Some (map of_char s)"
    by (rule b64_bytes_digits) auto
  ultimately show ?thesis
    using those_index_nth [OF std_alphabet_ok(2) std_digits] by (simp add: std_decode_def comp_def)
qed

lemma base64_value_chars: "list_all printable (base64_value s)" "CHR '' '' \<notin> set (base64_value s)" "CHR 0x09 \<notin> set (base64_value s)"
proof -
  have p: "list_all printable (''=?base64?'' @ ''?='' @ [CHR ''=''] @ std_alphabet)"
    by code_simp
  have sub: "set (base64_value s) \<subseteq> set (''=?base64?'' @ ''?='' @ [CHR ''=''] @ std_alphabet)"
    using std_encode_chars [of s] by (auto simp: base64_value_def)
  with p show "list_all printable (base64_value s)" by (auto simp only: list.pred_set)
  have "CHR '' '' \<notin> set (''=?base64?'' @ ''?='' @ [CHR ''=''] @ std_alphabet)"
    "CHR 0x09 \<notin> set (''=?base64?'' @ ''?='' @ [CHR ''=''] @ std_alphabet)" by code_simp+
  with sub show "CHR '' '' \<notin> set (base64_value s)" "CHR 0x09 \<notin> set (base64_value s)" by blast+
qed

lemma dropWhile_id: "\<forall>c\<in>set s. \<not> P c \<Longrightarrow> dropWhile P s = s"
  by (cases s) simp_all

lemma trim_blanks_base64: "trim_blanks (base64_value s) = base64_value s"
proof -
  have "\<forall>c\<in>set (base64_value s). \<not> (c = CHR '' '' \<or> c = CHR 0x09)"
    using base64_value_chars(2,3) by auto
  then show ?thesis by (simp add: trim_blanks_def dropWhile_id)
qed

lemma read_base64_value: "read_param_header (base64_value s) = Some s"
proof -
  have "has_suffix (base64_value s) ''?=''" by (simp add: base64_value_def suffix_def)
  moreover have "take (length (base64_value s) - 11) (drop 9 (base64_value s)) = std_encode s"
    by (simp add: base64_value_def)
  moreover have "has_prefix (base64_value s) ''=?base64?''" by (simp add: base64_value_def)
  ultimately show ?thesis by (simp add: read_param_header_def std_roundtrip)
qed

text \<open>
  C32: Whatever text an argument has, the component reads exactly that text back from the parameter header,
  and what is sent is printable ASCII without blanks at its ends: no argument can end the header line, add
  a header or be changed by the trimming of header values on the way.
\<close>

theorem param_header_roundtrip:
  assumes "encode_param_header number argument = Some v"
  shows "scalar_text number argument = read_param_header v \<and> list_all printable v \<and> trim_blanks v = v"
proof -
  from assms obtain s where s: "scalar_text number argument = Some s"
    by (auto simp: encode_param_header_def split: option.splits)
  show ?thesis
  proof (cases "v = base64_value s")
    case True
    with s show ?thesis by (simp add: read_base64_value base64_value_chars(1) trim_blanks_base64)
  next
    case False
    with assms s have "v = s" "trim_blanks s = s" "list_all printable s"
      "\<not> (has_prefix s ''=?base64?'' \<and> has_suffix s ''?='')"
      by (auto simp: encode_param_header_def split: if_splits)
    with s show ?thesis by (auto simp: read_param_header_def)
  qed
qed

theorem param_header_roundtrip_witness:
  "scalar_text (\<lambda>n. None) (JStr '' a'') = read_param_header ''=?base64?IGE=?=''
    \<and> list_all printable ''=?base64?IGE=?='' \<and> trim_blanks ''=?base64?IGE=?='' = ''=?base64?IGE=?=''"
  by (rule param_header_roundtrip) code_simp

section \<open>Which value a header has\<close>

lemma map_of_other_keys: "map_of (filter (\<lambda>(n, vs). n \<noteq> k) h) m = (if m = k then None else map_of h m)"
  by (induction h) auto

lemma header_values_del: "header_values (header_del n h) m = (if m = n then [] else header_values h m)"
  by (simp add: header_values_def header_del_def map_of_other_keys)

lemma header_values_set: "header_values (header_set n vs h) m = (if m = n then vs else header_values h m)"
  by (simp add: header_values_def header_set_def header_del_def map_add_def map_of_other_keys split: option.splits)

lemma header_values_add:
  "header_values (header_add n v h) m = (if m = n then header_values h n @ [v] else header_values h m)"
  by (simp add: header_add_def header_values_set)

lemma header_values_adds:
  "header_values (fold (header_add n) vs h) m = (if m = n then header_values h n @ vs else header_values h m)"
  by (induction vs arbitrary: h) (simp_all add: header_values_add)

lemma header_values_pass:
  "header_values (pass_through incoming name h) m =
     (if m = canonical_key name \<and> header_values incoming m \<noteq> [] then header_values incoming m else header_values h m)"
  by (auto simp: pass_through_def Let_def header_values_adds header_values_del)

lemma header_values_passes:
  "header_values (fold (pass_through incoming) names h) m =
     (if m \<in> canonical_key ` set names \<and> header_values incoming m \<noteq> [] then header_values incoming m else header_values h m)"
  by (induction names arbitrary: h) (auto simp: header_values_pass)

lemma header_values_sets:
  "header_values (fold (\<lambda>(n, v). header_set n [v]) ps h) m =
     (case map_of (rev ps) m of Some v \<Rightarrow> [v] | None \<Rightarrow> header_values h m)"
  by (induction ps arbitrary: h) (auto simp: header_values_set map_add_def split: option.splits)

text \<open>The headers the annotations of a schema ask for, in the order they are set.\<close>

function (sequential) param_headers ::
    "(string \<Rightarrow> float64 option) \<Rightarrow> (string \<times> header_property) list \<Rightarrow> (string \<Rightarrow> json option) \<Rightarrow> (string \<times> string) list" where
  "param_headers number [] arguments = []"
| "param_headers number ((name, Header_property raw props) # ps) arguments =
     (case arguments name of
        None \<Rightarrow> []
      | Some argument \<Rightarrow>
        if argument = JNull then []
        else annotated_header number raw argument
          @ (case nested_arguments props argument of None \<Rightarrow> [] | Some nested \<Rightarrow> param_headers number props nested))
     @ param_headers number ps arguments"
  by pat_completeness auto
termination
  by (relation "measure (\<lambda>(number, ps, arguments). size_list (size_prod (\<lambda>s. 0) size) ps)") auto

lemma add_annotated_headers_eq:
  "add_annotated_headers number ps arguments h = fold (\<lambda>(n, v). header_set n [v]) (param_headers number ps arguments) h"
  by (induction number ps arguments arbitrary: h rule: param_headers.induct) (simp_all split: option.split)

lemma param_headers_named: "(n, v) \<in> set (param_headers number ps arguments) \<Longrightarrow> has_prefix n ''Mcp-Param-''"
proof (induction number ps arguments rule: param_headers.induct)
  case (2 number name raw props ps arguments)
  have "has_prefix (canonical_key (''Mcp-Param-'' @ s)) ''Mcp-Param-''" for s
    by (simp add: canonical_key_def upper_byte_def lower_byte_def Let_def)
  then have "has_prefix n ''Mcp-Param-''" if "(n, v) \<in> set (annotated_header number raw a)" for a
    using that by (auto simp: annotated_header_def split: option.splits json.splits if_splits)
  with 2 show ?case
    by (cases "arguments name") (auto split: option.splits if_splits)
qed simp

lemma param_headers_append: "param_headers number (ps @ qs) arguments = param_headers number ps arguments @ param_headers number qs arguments"
proof (induction ps)
  case (Cons p ps)
  obtain name raw props where p: "p = (name, Header_property raw props)" by (metis header_property.exhaust surj_pair)
  show ?case unfolding append_Cons p param_headers.simps Cons.IH append_assoc ..
qed simp

lemma param_headers_reordered:
  "reordered ps qs \<Longrightarrow> set (param_headers number qs arguments) = set (param_headers number ps arguments)"
proof (induction arbitrary: arguments rule: reordered.induct)
  case (reordered_cons ps xs ys props props' name raw)
  have "(props' = []) = (props = [])" using reordered_cons.hyps(2) by (auto elim: reordered.cases)
  with reordered_cons.IH(2) have nested: "set (case nested_arguments props' a of None \<Rightarrow> [] | Some nested \<Rightarrow> param_headers number props' nested)
      = set (case nested_arguments props a of None \<Rightarrow> [] | Some nested \<Rightarrow> param_headers number props nested)" for a
    by (simp add: nested_arguments_def split: option.split json.split)
  have one: "set (param_headers number [(name, Header_property raw props')] arguments)
      = set (param_headers number [(name, Header_property raw props)] arguments)"
    by (cases "arguments name") (simp_all add: nested del: option.case_distrib)
  have "set (param_headers number (xs @ (name, Header_property raw props') # ys) arguments)
      = set (param_headers number (xs @ ys) arguments) \<union> set (param_headers number [(name, Header_property raw props')] arguments)"
    using param_headers_append [of number "[(name, Header_property raw props')]" ys arguments] by (auto simp: param_headers_append)
  also have "\<dots> = set (param_headers number ps arguments) \<union> set (param_headers number [(name, Header_property raw props)] arguments)"
    using reordered_cons.IH(1) one by simp
  also have "\<dots> = set (param_headers number ((name, Header_property raw props) # ps) arguments)"
    using param_headers_append [of number "[(name, Header_property raw props)]" ps arguments] by auto
  finally show ?case .
qed simp

text \<open>The headers the tool call asks for, with their values.\<close>

definition tool_headers ::
    "(string \<Rightarrow> json option) \<Rightarrow> (string \<Rightarrow> float64 option) \<Rightarrow> mcp_tool option \<Rightarrow> string \<Rightarrow> (string \<times> string) list" where
  "tool_headers parse number tool arguments =
     (case tool of
        None \<Rightarrow> []
      | Some t \<Rightarrow>
        if arguments = [] then []
        else (case (decode_property (tool_input_schema t), parse arguments) of
                (Some schema, Some (JObj args)) \<Rightarrow> param_headers number (hp_properties schema) (map_of (rev args))
              | _ \<Rightarrow> []))"

lemma param_headers_none: "param_headers number ps (\<lambda>k. None) = []"
proof (induction ps)
  case (Cons p ps)
  obtain name raw props where "p = (name, Header_property raw props)" by (metis header_property.exhaust surj_pair)
  with Cons show ?case by simp
qed simp

lemma add_tool_param_headers_sets:
  assumes "ranges_over R"
  obtains asked where "set asked = set (tool_headers parse number tool arguments)"
    and "add_tool_param_headers parse number R tool arguments h = fold (\<lambda>(n, v). header_set n [v]) asked h"
proof (cases "\<exists>t schema args. tool = Some t \<and> arguments \<noteq> [] \<and> decode_property (tool_input_schema t) = Some schema
    \<and> parse arguments = Some (JObj args)")
  case True
  then obtain t schema args where t: "tool = Some t" "arguments \<noteq> []" "decode_property (tool_input_schema t) = Some schema"
    "parse arguments = Some (JObj args)" by blast
  have "reordered (hp_properties schema) (ro_schema R (hp_properties schema))" using assms by (simp add: ranges_over_def)
  from param_headers_reordered [OF this] that [of "param_headers number (ro_schema R (hp_properties schema)) (map_of (rev args))"] t
  show thesis by (simp add: add_tool_param_headers_def tool_headers_def add_annotated_headers_eq)
next
  case False
  then have "tool_headers parse number tool arguments = []"
    by (auto simp: tool_headers_def split: option.split json.split)
  moreover from False have "add_tool_param_headers parse number R tool arguments h = h"
    by (auto simp: add_tool_param_headers_def add_annotated_headers_eq param_headers_none split: option.split json.split)
  ultimately show thesis using that [of "[]"] by simp
qed

lemma tool_headers_named: "(n, v) \<in> set (tool_headers parse number tool arguments) \<Longrightarrow> has_prefix n ''Mcp-Param-''"
  by (auto simp: tool_headers_def split: option.splits if_splits json.splits intro: param_headers_named)

lemma configured_sets:
  "fold (\<lambda>(name, value). header_set (canonical_key name) [value]) hs h =
     fold (\<lambda>(n, v). header_set n [v]) (map (apfst canonical_key) hs) h"
  by (induction hs arbitrary: h) auto

lemma header_values_one_of:
  "name \<in> fst ` set ps \<Longrightarrow> \<exists>v. (name, v) \<in> set ps \<and> header_values (fold (\<lambda>(n, v). header_set n [v]) ps h) name = [v]"
proof -
  assume "name \<in> fst ` set ps"
  then obtain v where "map_of (rev ps) name = Some v" by (metis map_of_eq_None_iff not_None_eq set_map set_rev rev_map)
  with map_of_SomeD [OF this] show ?thesis by (auto simp: header_values_sets)
qed

lemma header_values_none_of:
  "name \<notin> fst ` set ps \<Longrightarrow> header_values (fold (\<lambda>(n, v). header_set n [v]) ps h) name = header_values h name"
proof -
  assume "name \<notin> fst ` set ps"
  then have "map_of (rev ps) name = None" by (simp add: map_of_eq_None_iff)
  then show ?thesis by (simp add: header_values_sets)
qed

text \<open>
  C33: Every header of a request to a component has one origin. When the schema of the called tool asks for it,
  it is an \<open>Mcp-Param-\<close> header and has the value of an argument that is to go there; otherwise, when it is
  configured, it has a configured value; otherwise it has the client's values, if it is a header clients are
  let through for and the client sent it, and else what the transport set. So a client can never replace a
  configured header, and a schema only one named \<open>Mcp-Param-\<close>. This holds in whatever order Go visits its
  maps; when several properties ask for the same header, or configured names differ only in case, the
  order decides which of their values is sent.
\<close>

theorem request_header_origin:
  assumes "ranges_over R"
  shows "let values = header_values (round_trip parse number R server incoming tool arguments h) name;
             asked = tool_headers parse number tool arguments;
             configured = map (apfst canonical_key) (srv_headers server)
    in if name \<in> fst ` set asked
       then has_prefix name ''Mcp-Param-'' \<and> (\<exists>v. (name, v) \<in> set asked \<and> values = [v])
       else if name \<in> fst ` set configured then \<exists>v. (name, v) \<in> set configured \<and> values = [v]
       else if name \<in> canonical_key ` set (srv_passthrough_headers server) \<and> header_values incoming name \<noteq> []
       then values = header_values incoming name
       else values = header_values h name"
proof -
  let ?pass = "fold (pass_through incoming) (srv_passthrough_headers server) h"
  let ?sent = "map (apfst canonical_key) (ro_headers R (srv_headers server))"
  let ?configured = "map (apfst canonical_key) (srv_headers server)"
  have "mset (ro_headers R (srv_headers server)) = mset (srv_headers server)" using assms by (simp add: ranges_over_def)
  then have sent: "set ?sent = set ?configured" by (metis set_map set_mset_mset)
  obtain asked where asked: "set asked = set (tool_headers parse number tool arguments)"
    "add_tool_param_headers parse number R tool arguments (fold (\<lambda>(n, v). header_set n [v]) ?sent ?pass)
      = fold (\<lambda>(n, v). header_set n [v]) asked (fold (\<lambda>(n, v). header_set n [v]) ?sent ?pass)"
    by (rule add_tool_param_headers_sets [OF assms])
  have vals: "header_values (round_trip parse number R server incoming tool arguments h) name
      = header_values (fold (\<lambda>(n, v). header_set n [v]) asked (fold (\<lambda>(n, v). header_set n [v]) ?sent ?pass)) name"
    by (simp add: round_trip_def configured_sets asked(2))
  consider (tool) "name \<in> fst ` set asked" | (config) "name \<notin> fst ` set asked" "name \<in> fst ` set ?sent"
    | (rest) "name \<notin> fst ` set asked" "name \<notin> fst ` set ?sent" by blast
  then show ?thesis
  proof cases
    case tool
    from header_values_one_of [OF this, of "fold (\<lambda>(n, v). header_set n [v]) ?sent ?pass"] obtain v
      where v: "(name, v) \<in> set (tool_headers parse number tool arguments)"
        "header_values (fold (\<lambda>(n, v). header_set n [v]) asked (fold (\<lambda>(n, v). header_set n [v]) ?sent ?pass)) name = [v]"
      unfolding asked(1) by blast
    have "name \<in> fst ` set (tool_headers parse number tool arguments)" using v(1) by force
    with v tool_headers_named [OF v(1)] show ?thesis unfolding Let_def vals by simp
  next
    case config
    from header_values_one_of [OF config(2)] config show ?thesis
      unfolding Let_def vals header_values_none_of [OF config(1)] asked(1) sent by auto
  next
    case rest
    then show ?thesis
      unfolding Let_def vals header_values_none_of [OF rest(1)] header_values_none_of [OF rest(2)] header_values_passes
      unfolding asked(1) sent by simp
  qed
qed

text \<open>A tool that asks for its argument in a header, a configured credential, and a client that sends both.\<close>

definition header_tool :: mcp_tool where
  "header_tool = \<lparr>tool_name = ''run'', tool_description = [],
     tool_input_schema = JObj [(''properties'', JObj [(''q'', JObj [(''x-mcp-header'', JStr ''query'')])])],
     tool_output_schema = None, tool_rest = JNull\<rparr>"

definition reversed :: range_orders where
  "reversed = \<lparr>ro_headers = rev, ro_schema = (\<lambda>ps. ps)\<rparr>"

lemma reordered_refl: "reordered ps ps"
proof (induction "size_list (size_prod (\<lambda>s. 0) size) ps" arbitrary: ps rule: less_induct)
  case less
  show ?case
  proof (cases ps)
    case Nil
    then show ?thesis by (simp add: reordered_nil)
  next
    case (Cons p qs)
    obtain name raw props where p: "p = (name, Header_property raw props)" by (metis header_property.exhaust surj_pair)
    have "reordered qs ([] @ qs)" "reordered props props" by (auto intro!: less simp: Cons p)
    from reordered_cons [OF this] show ?thesis by (simp add: Cons p)
  qed
qed

theorem request_header_origin_witness:
  "header_values (round_trip (\<lambda>_. Some (JObj [(''q'', JStr ''v'')])) (\<lambda>n. None) reversed
     ((plain_server ''a'')\<lparr>srv_headers := [(''authorization'', ''secret'')], srv_passthrough_headers := [''Authorization'']\<rparr>)
     [(''Authorization'', [''mine'']), (''Mcp-Param-Query'', [''mine''])] (Some header_tool) ''{}'' []) ''Authorization'' = [''secret'']
   \<and> header_values (round_trip (\<lambda>_. Some (JObj [(''q'', JStr ''v'')])) (\<lambda>n. None) reversed
     ((plain_server ''a'')\<lparr>srv_headers := [(''authorization'', ''secret'')], srv_passthrough_headers := [''Authorization'']\<rparr>)
     [(''Authorization'', [''mine'']), (''Mcp-Param-Query'', [''mine''])] (Some header_tool) ''{}'' []) ''Mcp-Param-Query'' = [''v'']"
proof -
  have r: "ranges_over reversed" by (simp add: ranges_over_def reversed_def reordered_refl)
  have asked: "tool_headers (\<lambda>_. Some (JObj [(''q'', JStr ''v'')])) (\<lambda>n. None) (Some header_tool) ''{}'' = [(''Mcp-Param-Query'', ''v'')]"
    by code_simp
  have key: "canonical_key ''authorization'' = ''Authorization''" by code_simp
  let ?server = "(plain_server ''a'')\<lparr>srv_headers := [(''authorization'', ''secret'')], srv_passthrough_headers := [''Authorization'']\<rparr>"
  from request_header_origin [OF r, of "\<lambda>_. Some (JObj [(''q'', JStr ''v'')])" "\<lambda>n. None" ?server
      "[(''Authorization'', [''mine'']), (''Mcp-Param-Query'', [''mine''])]" "Some header_tool" "''{}''" "[]" "''Authorization''"]
    request_header_origin [OF r, of "\<lambda>_. Some (JObj [(''q'', JStr ''v'')])" "\<lambda>n. None" ?server
      "[(''Authorization'', [''mine'']), (''Mcp-Param-Query'', [''mine''])]" "Some header_tool" "''{}''" "[]" "''Mcp-Param-Query''"]
  show ?thesis by (simp add: asked key Let_def)
qed

section \<open>What a request to a component knows of its frontend\<close>

text \<open>
  A context of Go: the three values of \<open>component/component.go\<close>, and all the others, which belong to the frontend's
  session.
\<close>

record 'v call_ctx =
  cc_headers :: "header option"
  cc_client_info :: "implementation option"
  cc_tool_call :: "(mcp_tool option \<times> string) option"
  cc_private :: "string \<Rightarrow> 'v option"

definition without_values :: "'v call_ctx \<Rightarrow> 'v call_ctx" where
  "without_values cx = cx\<lparr>cc_private := (\<lambda>k. None)\<rparr>"

definition context_with_request_headers :: "header \<Rightarrow> 'v call_ctx \<Rightarrow> 'v call_ctx" where
  "context_with_request_headers h cx = cx\<lparr>cc_headers := Some h\<rparr>"

definition request_headers_from_context :: "'v call_ctx \<Rightarrow> header" where
  "request_headers_from_context cx = (case cc_headers cx of None \<Rightarrow> [] | Some h \<Rightarrow> h)"

definition context_with_tool_call :: "mcp_tool option \<Rightarrow> string \<Rightarrow> 'v call_ctx \<Rightarrow> 'v call_ctx" where
  "context_with_tool_call tool arguments cx = cx\<lparr>cc_tool_call := Some (tool, arguments)\<rparr>"

definition tool_call_from_context :: "'v call_ctx \<Rightarrow> mcp_tool option \<times> string" where
  "tool_call_from_context cx = (case cc_tool_call cx of None \<Rightarrow> (None, []) | Some c \<Rightarrow> c)"

definition context_with_client_info :: "implementation option \<Rightarrow> 'v call_ctx \<Rightarrow> 'v call_ctx" where
  "context_with_client_info info cx = (case info of None \<Rightarrow> cx | Some i \<Rightarrow> cx\<lparr>cc_client_info := Some i\<rparr>)"

definition client_info_from_context :: "'v call_ctx \<Rightarrow> implementation option" where
  "client_info_from_context cx =
     (case cc_client_info cx of
        None \<Rightarrow> None
      | Some i \<Rightarrow> if impl_name i = [] \<and> impl_version i = [] then None else Some i)"

text \<open>
  How \<open>connectWithStandaloneSSE\<close> sets up a connection: \<open>oauth\<close> is what the provider of OAuth handlers returns,
  if there is one; a nil handler only reports challenges.
\<close>

datatype 'h authorizer = Typed_handler 'h server | Report_handler server

record 'h connection =
  cn_client_info :: "implementation option"
  cn_endpoint :: string
  cn_headers :: "(string \<times> string) list"
  cn_passthrough :: "string list"
  cn_standalone_sse :: bool
  cn_authorizer :: "'h authorizer"

definition connection_for ::
    "(server \<Rightarrow> (go_error, 'h option) res) option \<Rightarrow> implementation option \<Rightarrow> bool \<Rightarrow> 'v call_ctx \<Rightarrow> server
       \<Rightarrow> (go_error, 'h connection) res" where
  "connection_for oauth info standalone cx server =
     rbind (case oauth of
              None \<Rightarrow> Inr None
            | Some provider \<Rightarrow>
              (case provider server of
                 Inl e \<Rightarrow> Inl (Other_error ''OAuth handler: '' (Some e))
               | Inr h \<Rightarrow> Inr (map_option (\<lambda>h. Typed_handler h server) h)))
       (\<lambda>handler. Inr \<lparr>
          cn_client_info = (case client_info_from_context cx of Some i \<Rightarrow> Some i | None \<Rightarrow> info),
          cn_endpoint = srv_url server, cn_headers = srv_headers server, cn_passthrough = srv_passthrough_headers server,
          cn_standalone_sse = standalone,
          cn_authorizer = (case handler of None \<Rightarrow> Report_handler server | Some a \<Rightarrow> a)\<rparr>)"

definition send_request ::
    "(string \<Rightarrow> json option) \<Rightarrow> (string \<Rightarrow> float64 option) \<Rightarrow> range_orders \<Rightarrow> server \<Rightarrow> 'v call_ctx \<Rightarrow> header \<Rightarrow> header" where
  "send_request parse number R server cx h =
     (let c = tool_call_from_context cx
      in round_trip parse number R server (request_headers_from_context cx) (fst c) (snd c) h)"

text \<open>Hiding the frontend's values does not change what is sent.\<close>

lemma send_without_values: "send_request parse number R server (without_values cx) h = send_request parse number R server cx h"
  by (simp add: send_request_def without_values_def tool_call_from_context_def request_headers_from_context_def)

text \<open>
  \<open>NewClient\<close>: what becomes of a request that a component sends to its client. Without a frontend session there
  is nobody to ask; with one, a request for its roots goes to it, and the SDK handles the rest.
\<close>

datatype 'r client_reply = Unsupported_callback string string | Invalid_roots_request | From_frontend 'r | From_sdk 'r

definition client_receive ::
    "'f option \<Rightarrow> string \<Rightarrow> ('q \<Rightarrow> 'p option) \<Rightarrow> ('f \<Rightarrow> 'p \<Rightarrow> 'r) \<Rightarrow> (string \<Rightarrow> 'q \<Rightarrow> 'r) \<Rightarrow> string \<Rightarrow> 'q \<Rightarrow> 'r client_reply" where
  "client_receive fe name as_roots list_roots sdk method req =
     (case fe of
        None \<Rightarrow>
          if method \<in> {''roots/list'', ''sampling/createMessage'', ''elicitation/create''}
          then Unsupported_callback name method else From_sdk (sdk method req)
      | Some f \<Rightarrow>
          if method \<noteq> ''roots/list'' then From_sdk (sdk method req)
          else (case as_roots req of None \<Rightarrow> Invalid_roots_request | Some p \<Rightarrow> From_frontend (list_roots f p)))"

end
