(* ===== verification/Manager.thy ===== *)
theory Manager
  imports Prelude "HOL-Library.Word" "HOL-Library.Multiset"
begin

text \<open>
  The process manager of one stdio component, \<open>component/stdio/manager.go\<close>: it starts the process at
  the first operation, shares it, and retires it when no operation and no frontend activity has
  needed it for the idle timeout. Each stretch of code under the lock \<open>m.mu\<close> is one function on the
  record \<open>manager\<close>; the step relation interleaves them in every order, together with the calls made
  outside the lock (starting and closing a process).

  The fields \<open>holders\<close>, \<open>detached\<close>, \<open>opened\<close> and \<open>shut\<close> of a \<open>world\<close> are not in the code: they record who
  uses a process and which processes were started and closed.
\<close>

section \<open>The record and its critical sections\<close>

record 'r manager =
  m_idle_timeout :: int
  m_runtime :: "'r option"
  m_starting :: bool
  m_active_operations :: int
  m_frontend_activity :: int
  m_idle_timer :: "64 word option"
  m_generation :: "64 word"
  m_closed :: bool

text \<open>Durations are nanoseconds. A timer is the generation its callback hands to \<open>retire\<close>.\<close>

definition default_idle_timeout :: int where
  "default_idle_timeout = 30 * 1000000000"

definition new_manager :: "int \<Rightarrow> 'r manager" where
  "new_manager idle_timeout =
     \<lparr>m_idle_timeout = (if idle_timeout \<le> 0 then default_idle_timeout else idle_timeout),
      m_runtime = None, m_starting = False, m_active_operations = 0, m_frontend_activity = 0,
      m_idle_timer = None, m_generation = 0, m_closed = False\<rparr>"

definition stop_timer_locked :: "'r manager \<Rightarrow> 'r manager" where
  "stop_timer_locked m = m\<lparr>m_idle_timer := None, m_generation := m_generation m + 1\<rparr>"

definition arm_timer_locked :: "'r manager \<Rightarrow> 'r manager" where
  "arm_timer_locked m =
     (if m_closed m \<or> m_runtime m = None \<or> m_active_operations m \<noteq> 0 \<or> m_frontend_activity m \<noteq> 0
         \<or> m_idle_timer m \<noteq> None
      then m
      else let generation = m_generation m + 1
           in m\<lparr>m_generation := generation, m_idle_timer := Some generation\<rparr>)"

text \<open>
  The first critical section of a turn of the loop of \<open>acquire\<close>: the manager is closed, the running
  process is taken, another caller's start is waited for, or this caller starts the process.
\<close>

datatype 'r entered = Was_closed | Got 'r | Must_wait | Must_open

definition acquire_enter :: "'r manager \<Rightarrow> 'r manager \<times> 'r entered" where
  "acquire_enter m =
     (if m_closed m then (m, Was_closed)
      else let m = stop_timer_locked m
           in case m_runtime m of
                Some r \<Rightarrow> (m\<lparr>m_active_operations := m_active_operations m + 1\<rparr>, Got r)
              | None \<Rightarrow> if m_starting m then (m, Must_wait) else (m\<lparr>m_starting := True\<rparr>, Must_open))"

text \<open>
  The second one, after \<open>open\<close> returned a process or an error. The process is either taken or, when
  the manager was closed meanwhile, handed back to be closed.
\<close>

datatype 'r acquired = Acquired 'r | Open_failed | Closed_meanwhile 'r

definition open_returned :: "'r option \<Rightarrow> 'r manager \<Rightarrow> 'r manager \<times> 'r acquired" where
  "open_returned opened m =
     (let m = m\<lparr>m_starting := False\<rparr>
      in case opened of
           None \<Rightarrow> (m, Open_failed)
         | Some r \<Rightarrow> if m_closed m then (m, Closed_meanwhile r)
                    else (m\<lparr>m_runtime := Some r, m_active_operations := m_active_operations m + 1\<rparr>,
                          Acquired r))"

definition release :: "'r manager \<Rightarrow> 'r manager" where
  "release m = arm_timer_locked
     (if m_active_operations m > 0 then m\<lparr>m_active_operations := m_active_operations m - 1\<rparr> else m)"

definition set_frontend_activity :: "int \<Rightarrow> 'r manager \<Rightarrow> 'r manager" where
  "set_frontend_activity active m =
     (let active = (if active < 0 then 0 else active); m = m\<lparr>m_frontend_activity := active\<rparr>
      in if active > 0 then stop_timer_locked m else arm_timer_locked m)"

text \<open>\<open>retire\<close> and \<open>Close\<close> also return the process that is closed after the lock is released.\<close>

definition retire :: "64 word \<Rightarrow> 'r manager \<Rightarrow> 'r manager \<times> 'r option" where
  "retire generation m =
     (if m_closed m \<or> generation \<noteq> m_generation m \<or> m_active_operations m \<noteq> 0
         \<or> m_frontend_activity m \<noteq> 0
      then (m, None)
      else case m_runtime m of
             None \<Rightarrow> (m\<lparr>m_idle_timer := None\<rparr>, None)
           | Some r \<Rightarrow> (m\<lparr>m_runtime := None, m_idle_timer := None, m_generation := m_generation m + 1\<rparr>,
                       Some r))"

definition close_manager :: "'r manager \<Rightarrow> 'r manager \<times> 'r option" where
  "close_manager m =
     (if m_closed m then (m, None)
      else let m = stop_timer_locked (m\<lparr>m_closed := True\<rparr>)
           in (m\<lparr>m_runtime := None\<rparr>, m_runtime m))"

text \<open>
  \<open>withRuntime\<close>, the body of every operation of the component (\<open>CallTool\<close>, \<open>GetPrompt\<close>,
  \<open>ReadResource\<close>, \<open>Subscribe\<close>, \<open>Unsubscribe\<close>), without interference by others: the process is taken
  or started, the operation \<open>f\<close> runs on it, and it is released whatever \<open>f\<close> returned. \<open>None\<close>: the
  call would wait for another caller's start.
\<close>

datatype operation_error = Manager_closed | Start_failed

definition with_runtime ::
    "'r option \<Rightarrow> ('r \<Rightarrow> 'a) \<Rightarrow> 'r manager \<Rightarrow> ('r manager \<times> (operation_error, 'a) res) option" where
  "with_runtime open_result f m =
     (case acquire_enter m of
        (m, Was_closed) \<Rightarrow> Some (m, Inl Manager_closed)
      | (m, Got r) \<Rightarrow> Some (release m, Inr (f r))
      | (m, Must_wait) \<Rightarrow> None
      | (m, Must_open) \<Rightarrow>
          (case open_returned open_result m of
             (m, Acquired r) \<Rightarrow> Some (release m, Inr (f r))
           | (m, Open_failed) \<Rightarrow> Some (m, Inl Start_failed)
           | (m, Closed_meanwhile r) \<Rightarrow> Some (m, Inl Manager_closed)))"

section \<open>Interleavings\<close>

text \<open>
  \<open>starting\<close> in the code is a channel; the callers that wait for it start their turn of the loop
  again or give up, which changes nothing. The callback of a timer may run after the timer was
  stopped, so \<open>Retire\<close> may come with any generation.
\<close>

datatype 'r action = Enter | Opened "'r option" | Release 'r | Frontend int | Retire "64 word" | Close
  | Close_runtime 'r

record 'r world =
  mgr :: "'r manager"
  holders :: "'r list"
  detached :: "'r list"
  opened :: "'r list"
  shut :: "'r list"

fun entered_holders :: "'r entered \<Rightarrow> 'r list \<Rightarrow> 'r list" where
  "entered_holders (Got r) hs = r # hs"
| "entered_holders _ hs = hs"

fun acquired_holders :: "'r acquired \<Rightarrow> 'r list \<Rightarrow> 'r list" where
  "acquired_holders (Acquired r) hs = r # hs"
| "acquired_holders _ hs = hs"

fun handed_back :: "'r acquired \<Rightarrow> 'r option" where
  "handed_back (Closed_meanwhile r) = Some r"
| "handed_back _ = None"

definition manager_init :: "int \<Rightarrow> 'r world \<Rightarrow> bool" where
  "manager_init timeout w \<longleftrightarrow>
     w = \<lparr>mgr = new_manager timeout, holders = [], detached = [], opened = [], shut = []\<rparr>"

inductive manager_step :: "'r world \<Rightarrow> 'r action \<Rightarrow> 'r world \<Rightarrow> bool" where
  step_enter: "acquire_enter (mgr w) = (m, e) \<Longrightarrow>
    manager_step w Enter (w\<lparr>mgr := m, holders := entered_holders e (holders w)\<rparr>)"
| step_opened: "m_starting (mgr w) \<Longrightarrow> set_option result \<inter> set (opened w) = {} \<Longrightarrow>
    open_returned result (mgr w) = (m, a) \<Longrightarrow>
    manager_step w (Opened result)
      (w\<lparr>mgr := m, holders := acquired_holders a (holders w), opened := opt_list result @ opened w,
         detached := opt_list (handed_back a) @ detached w\<rparr>)"
| step_release: "r \<in> set (holders w) \<Longrightarrow>
    manager_step w (Release r) (w\<lparr>mgr := release (mgr w), holders := remove1 r (holders w)\<rparr>)"
| step_frontend: "manager_step w (Frontend n) (w\<lparr>mgr := set_frontend_activity n (mgr w)\<rparr>)"
| step_retire: "retire g (mgr w) = (m, r) \<Longrightarrow>
    manager_step w (Retire g) (w\<lparr>mgr := m, detached := opt_list r @ detached w\<rparr>)"
| step_close: "close_manager (mgr w) = (m, r) \<Longrightarrow>
    manager_step w Close (w\<lparr>mgr := m, detached := opt_list r @ detached w\<rparr>)"
| step_close_runtime: "r \<in> set (detached w) \<Longrightarrow>
    manager_step w (Close_runtime r) (w\<lparr>detached := remove1 r (detached w), shut := r # shut w\<rparr>)"

inductive_cases manager_stepE: "manager_step w a w'"
inductive_cases retireE: "manager_step w (Retire g) w'"

section \<open>The invariant\<close>

lemmas manager_ops = acquire_enter_def open_returned_def release_def set_frontend_activity_def
  retire_def close_manager_def arm_timer_locked_def stop_timer_locked_def

text \<open>What the fields of the record mean to each other.\<close>

definition fields_ok :: "'r manager \<Rightarrow> bool" where
  "fields_ok m \<longleftrightarrow>
     m_frontend_activity m \<ge> 0 \<and> m_active_operations m \<ge> 0
     \<and> (m_closed m \<longrightarrow> m_runtime m = None \<and> m_idle_timer m = None)
     \<and> (m_starting m \<longrightarrow> m_runtime m = None)
     \<and> m_idle_timer m =
         (if m_runtime m \<noteq> None \<and> m_active_operations m = 0 \<and> m_frontend_activity m = 0
          then Some (m_generation m) else None)"

definition manager_ok :: "'r world \<Rightarrow> bool" where
  "manager_ok w \<longleftrightarrow>
     fields_ok (mgr w)
     \<and> m_active_operations (mgr w) = int (length (holders w))
     \<and> (\<not> m_closed (mgr w) \<longrightarrow> list_all (\<lambda>h. m_runtime (mgr w) = Some h) (holders w))
     \<and> mset (opened w) = mset (shut w) + mset (detached w) + mset (opt_list (m_runtime (mgr w)))
     \<and> distinct (opened w)"

lemma fields_ok_enter: "fields_ok m \<Longrightarrow> acquire_enter m = (m', e) \<Longrightarrow> fields_ok m'"
  by (auto simp: fields_ok_def manager_ops Let_def split: if_splits option.splits)

lemma fields_ok_opened:
  "fields_ok m \<Longrightarrow> m_starting m \<Longrightarrow> open_returned r m = (m', a) \<Longrightarrow> fields_ok m'"
  by (auto simp: fields_ok_def manager_ops Let_def split: if_splits option.splits)

lemma fields_ok_release: "fields_ok m \<Longrightarrow> fields_ok (release m)"
  by (auto simp: fields_ok_def manager_ops Let_def)

lemma fields_ok_frontend: "fields_ok m \<Longrightarrow> fields_ok (set_frontend_activity n m)"
  by (auto simp: fields_ok_def manager_ops Let_def)

lemma retire_cases:
  assumes "retire g m = (m', r)"
  obtains "m' = m" "r = None"
    | "m' = m\<lparr>m_idle_timer := None\<rparr>" "r = None" "m_runtime m = None"
    | p where "m' = m\<lparr>m_runtime := None, m_idle_timer := None, m_generation := m_generation m + 1\<rparr>" "r = Some p"
        "m_runtime m = Some p" "m_active_operations m = 0" "m_frontend_activity m = 0" "\<not> m_closed m"
proof (cases "m_closed m \<or> g \<noteq> m_generation m \<or> m_active_operations m \<noteq> 0 \<or> m_frontend_activity m \<noteq> 0")
  case True
  with assms that(1) show ?thesis by (simp add: retire_def)
next
  case False
  then have b: "m_active_operations m = 0" "m_frontend_activity m = 0" "\<not> m_closed m" by simp_all
  show ?thesis
  proof (cases "m_runtime m")
    case None
    with False assms show ?thesis by (intro that(2)) (simp_all add: retire_def)
  next
    case (Some p)
    with False assms b show ?thesis by (intro that(3) [of p]) (simp_all add: retire_def)
  qed
qed

lemma fields_ok_no_timer: "fields_ok m \<Longrightarrow> m_runtime m = None \<Longrightarrow> fields_ok (m\<lparr>m_idle_timer := None\<rparr>)"
  by (simp add: fields_ok_def)

lemma fields_ok_detach:
  "fields_ok m \<Longrightarrow> fields_ok (m\<lparr>m_runtime := None, m_idle_timer := None, m_generation := m_generation m + 1\<rparr>)"
  by (simp add: fields_ok_def)

lemma fields_ok_retire:
  assumes "fields_ok m" and "retire g m = (m', r)"
  shows "fields_ok m'"
proof (rule retire_cases [OF assms(2)])
  show "fields_ok m'" if "m' = m" using assms(1) that by simp
  show "fields_ok m'" if "m' = m\<lparr>m_idle_timer := None\<rparr>" "m_runtime m = None"
    unfolding that(1) by (rule fields_ok_no_timer [OF assms(1) that(2)])
  show "fields_ok m'" if "m' = m\<lparr>m_runtime := None, m_idle_timer := None, m_generation := m_generation m + 1\<rparr>"
    unfolding that by (rule fields_ok_detach [OF assms(1)])
qed

lemma fields_ok_close: "fields_ok m \<Longrightarrow> close_manager m = (m', r) \<Longrightarrow> fields_ok m'"
  by (cases "m_closed m") (auto simp: fields_ok_def close_manager_def stop_timer_locked_def)

lemmas fields_ok_ops = fields_ok_enter fields_ok_opened fields_ok_release fields_ok_frontend
  fields_ok_retire fields_ok_close

lemma enter_world:
  "acquire_enter m = (m', e) \<Longrightarrow>
     m_runtime m' = m_runtime m \<and> m_closed m' = m_closed m
     \<and> m_active_operations m' = m_active_operations m + int (length (entered_holders e hs)) - int (length hs)
     \<and> (list_all (\<lambda>h. m_runtime m = Some h) hs \<longrightarrow> list_all (\<lambda>h. m_runtime m = Some h) (entered_holders e hs))
     \<and> (m_closed m \<longrightarrow> entered_holders e hs = hs)"
  by (auto simp: manager_ops Let_def split: if_splits option.splits)

lemma opened_world:
  "open_returned r m = (m', a) \<Longrightarrow> m_runtime m = None \<Longrightarrow>
     m_closed m' = m_closed m
     \<and> mset (opt_list r) = mset (opt_list (handed_back a)) + mset (opt_list (m_runtime m'))
     \<and> acquired_holders a hs = opt_list (m_runtime m') @ hs
     \<and> m_active_operations m' = m_active_operations m + int (length (opt_list (m_runtime m')))"
  by (auto simp: manager_ops Let_def split: if_splits option.splits)

lemma release_world:
  "m_runtime (release m) = m_runtime m" "m_closed (release m) = m_closed m"
  "m_active_operations m > 0 \<Longrightarrow> m_active_operations (release m) = m_active_operations m - 1"
  by (auto simp: manager_ops Let_def)

lemma frontend_world:
  "m_runtime (set_frontend_activity n m) = m_runtime m"
  "m_closed (set_frontend_activity n m) = m_closed m"
  "m_active_operations (set_frontend_activity n m) = m_active_operations m"
  by (auto simp: manager_ops Let_def)

lemma retire_world:
  "retire g m = (m', r) \<Longrightarrow> m_closed m' = m_closed m \<and> m_active_operations m' = m_active_operations m
     \<and> (r = None \<and> m_runtime m' = m_runtime m \<or> r = m_runtime m \<and> m_runtime m' = None
        \<and> m_active_operations m = 0 \<and> m_frontend_activity m = 0)"
  by (auto simp: manager_ops Let_def split: if_splits option.splits)

lemma close_world:
  "close_manager m = (m', r) \<Longrightarrow> m_closed m' \<and> m_active_operations m' = m_active_operations m
     \<and> (if m_closed m then m' = m \<and> r = None else r = m_runtime m \<and> m_runtime m' = None)"
  by (auto simp: manager_ops Let_def split: if_splits)

lemma list_all_False [simp]: "list_all (\<lambda>x. False) xs \<longleftrightarrow> xs = []"
  by (cases xs) auto

lemma manager_ok_init: "manager_init timeout w \<Longrightarrow> manager_ok w"
  by (simp add: manager_init_def manager_ok_def fields_ok_def new_manager_def)

lemma manager_ok_step:
  assumes "manager_ok w" and "manager_step w a w'"
  shows "manager_ok w'"
  using assms(2)
proof cases
  case (step_enter m e)
  with assms(1) enter_world [OF step_enter(3), of "holders w"] fields_ok_enter [of "mgr w" m e]
  show ?thesis by (auto simp: manager_ok_def)
next
  case (step_opened result m a)
  have none: "m_runtime (mgr w) = None" using assms(1) step_opened(3)
    by (simp add: manager_ok_def fields_ok_def)
  note o = opened_world [OF step_opened(5) none]
  have "holders w = []" if "\<not> m_closed (mgr w)"
    using assms(1) none that by (simp add: manager_ok_def)
  moreover have "distinct (opt_list result @ opened w)"
    using step_opened(4) assms(1) by (auto simp: manager_ok_def split: option.splits)
  moreover have "mset (opt_list result @ opened w)
      = mset (shut w) + mset (opt_list (handed_back a) @ detached w) + mset (opt_list (m_runtime m))"
    using assms(1) none o by (simp add: manager_ok_def)
  moreover have "fields_ok m" using assms(1) fields_ok_opened [OF _ step_opened(3,5)]
    by (simp add: manager_ok_def)
  moreover have "m_active_operations m = int (length (acquired_holders a (holders w)))"
    using assms(1) o [of "holders w"] by (simp add: manager_ok_def)
  ultimately show ?thesis
    using o [of "holders w"] o [of "[]"] unfolding step_opened(2) manager_ok_def
    by (cases "m_runtime m") simp_all
next
  case (step_release r)
  then have pos: "m_active_operations (mgr w) > 0" using assms(1)
    by (cases "holders w") (auto simp: manager_ok_def)
  have "int (length (remove1 r (holders w))) = int (length (holders w)) - 1"
    using step_release(3) length_pos_if_in_set [OF step_release(3)]
    by (simp add: length_remove1 of_nat_diff Suc_leI del: of_nat_0_less_iff)
  moreover have "list_all P (holders w) \<Longrightarrow> list_all P (remove1 r (holders w))" for P
    using set_remove1_subset [of r "holders w"] by (auto simp: list_all_iff)
  ultimately show ?thesis
    using assms(1) pos unfolding step_release(2) manager_ok_def
    by (simp add: release_world fields_ok_release)
next
  case (step_frontend n)
  with assms(1) show ?thesis by (simp add: manager_ok_def frontend_world fields_ok_frontend)
next
  case (step_retire g m r)
  with assms(1) retire_world [OF step_retire(3)] fields_ok_retire [OF _ step_retire(3)]
  show ?thesis by (auto simp: manager_ok_def)
next
  case (step_close m r)
  with assms(1) close_world [OF step_close(3)] fields_ok_close [OF _ step_close(3)]
  show ?thesis by (auto simp: manager_ok_def split: if_splits)
next
  case (step_close_runtime r)
  with assms(1) show ?thesis by (auto simp: manager_ok_def)
qed

interpretation mm: invariant_machine "manager_init timeout" manager_step manager_ok
  by unfold_locales (auto intro: manager_ok_init manager_ok_step)

section \<open>Executable steps\<close>

fun manager_next :: "'r world \<Rightarrow> 'r action \<Rightarrow> 'r world option" where
  "manager_next w Enter =
     (case acquire_enter (mgr w) of (m, e) \<Rightarrow> Some (w\<lparr>mgr := m, holders := entered_holders e (holders w)\<rparr>))"
| "manager_next w (Opened result) =
     (if m_starting (mgr w) \<and> set_option result \<inter> set (opened w) = {}
      then (case open_returned result (mgr w) of (m, a) \<Rightarrow>
              Some (w\<lparr>mgr := m, holders := acquired_holders a (holders w), opened := opt_list result @ opened w,
                 detached := opt_list (handed_back a) @ detached w\<rparr>))
      else None)"
| "manager_next w (Release r) =
     (if r \<in> set (holders w) then Some (w\<lparr>mgr := release (mgr w), holders := remove1 r (holders w)\<rparr>) else None)"
| "manager_next w (Frontend n) = Some (w\<lparr>mgr := set_frontend_activity n (mgr w)\<rparr>)"
| "manager_next w (Retire g) =
     (case retire g (mgr w) of (m, r) \<Rightarrow> Some (w\<lparr>mgr := m, detached := opt_list r @ detached w\<rparr>))"
| "manager_next w Close =
     (case close_manager (mgr w) of (m, r) \<Rightarrow> Some (w\<lparr>mgr := m, detached := opt_list r @ detached w\<rparr>))"
| "manager_next w (Close_runtime r) =
     (if r \<in> set (detached w)
      then Some (w\<lparr>detached := remove1 r (detached w), shut := r # shut w\<rparr>) else None)"

lemma manager_next_step: "manager_next w a = Some w' \<Longrightarrow> manager_step w a w'"
  by (cases a) (auto intro: manager_step.intros split: if_splits prod.splits option.splits)

definition fresh_world :: "nat world" where
  "fresh_world = \<lparr>mgr = new_manager 0, holders = [], detached = [], opened = [], shut = []\<rparr>"

lemma play_manager:
  "play manager_next fresh_world as = Some w \<Longrightarrow> reach (manager_init 0) manager_step w"
  by (rule play_reach [OF reach_init manager_next_step])
    (simp_all add: manager_init_def fresh_world_def)

section \<open>Properties\<close>

text \<open>
  C11: as long as the manager is not closed every operation in flight runs on the one current
  process, and the idle callback, whichever timer it belongs to and whenever it runs, changes the
  manager only when no operation is in flight and no frontend is active; it then takes the current
  process out of service.
\<close>

theorem retirement_spares_users:
  assumes "reach (manager_init timeout) manager_step w" and "manager_step w (Retire g) w'"
  shows "(\<not> m_closed (mgr w) \<longrightarrow> list_all (\<lambda>h. m_runtime (mgr w) = Some h) (holders w))
    \<and> (mgr w' \<noteq> mgr w \<longrightarrow> holders w = [] \<and> m_frontend_activity (mgr w) = 0
         \<and> (\<exists>r. m_runtime (mgr w) = Some r \<and> m_runtime (mgr w') = None \<and> detached w' = r # detached w))"
    (is "?shared \<and> (_ \<longrightarrow> ?unused)")
proof
  note ok = mm.reach_inv [OF assms(1)]
  show ?shared using ok by (simp add: manager_ok_def)
  show "mgr w' \<noteq> mgr w \<longrightarrow> ?unused"
  proof -
    obtain m r where r: "retire g (mgr w) = (m, r)" and w': "w' = w\<lparr>mgr := m, detached := opt_list r @ detached w\<rparr>"
      using retireE [OF assms(2)] by metis
    from r show ?thesis
      by (cases rule: retire_cases) (use ok w' in \<open>auto simp: manager_ok_def fields_ok_def\<close>)
  qed
qed

text \<open>Process 7 was started for one operation, which has returned: its timer is armed.\<close>

definition lingering_world :: "nat world" where
  "lingering_world = \<lparr>mgr = \<lparr>m_idle_timeout = 30000000000, m_runtime = Some 7, m_starting = False,
     m_active_operations = 0, m_frontend_activity = 0, m_idle_timer = Some 2, m_generation = 2,
     m_closed = False\<rparr>, holders = [], detached = [], opened = [7], shut = []\<rparr>"

lemma lingering_play: "play manager_next fresh_world [Enter, Opened (Some 7), Release 7] = Some lingering_world"
  by (simp add: lingering_world_def fresh_world_def new_manager_def default_idle_timeout_def manager_ops
      open_returned_def)

lemmas lingering_reach = play_manager [OF lingering_play]

lemma manager_step_the:
  "manager_next w a \<noteq> None \<Longrightarrow> manager_step w a (the (manager_next w a))"
  using manager_next_step [of w a] by auto

theorem retirement_spares_users_witness:
  "mgr (the (manager_next lingering_world (Retire 2))) \<noteq> mgr lingering_world
   \<and> m_runtime (mgr (the (manager_next lingering_world (Retire 2)))) = None
   \<and> detached (the (manager_next lingering_world (Retire 2))) = [7]"
proof -
  have step: "manager_step lingering_world (Retire 2) (the (manager_next lingering_world (Retire 2)))"
    by (rule manager_step_the) (simp split: prod.split)
  have "mgr (the (manager_next lingering_world (Retire 2))) \<noteq> mgr lingering_world"
    by (simp add: lingering_world_def manager_ops)
  with retirement_spares_users [OF lingering_reach step] show ?thesis
    by (auto simp: lingering_world_def)
qed

text \<open>
  C12: no process leaks and none is closed twice. When the manager is closed, no start is under way and
  the pending calls of \<open>Close\<close> have returned, every process that was ever started has been closed
  exactly once; before that, the started ones are the closed ones, those about to be closed and the
  one in service.
\<close>

theorem processes_closed_once:
  assumes "reach (manager_init timeout) manager_step w"
  shows "distinct (opened w)
    \<and> mset (opened w) = mset (shut w) + mset (detached w) + mset (opt_list (m_runtime (mgr w)))
    \<and> (m_closed (mgr w) \<longrightarrow> detached w = [] \<longrightarrow> distinct (shut w) \<and> set (shut w) = set (opened w))"
proof -
  note ok = mm.reach_inv [OF assms]
  have "distinct (shut w) \<and> set (shut w) = set (opened w)" if "m_closed (mgr w)" "detached w = []"
  proof -
    have "mset (shut w) = mset (opened w)"
      using ok that by (simp add: manager_ok_def fields_ok_def)
    then show ?thesis
      using ok mset_eq_setD [of "shut w" "opened w"] mset_eq_imp_distinct_iff [of "shut w" "opened w"]
      by (simp add: manager_ok_def)
  qed
  with ok show ?thesis by (simp add: manager_ok_def)
qed

definition closed_while_starting :: "nat world" where
  "closed_while_starting =
     the (play manager_next lingering_world [Retire 2, Close_runtime 7, Enter, Close, Opened (Some 8), Close_runtime 8])"

theorem processes_closed_once_witness:
  "m_closed (mgr closed_while_starting) \<and> shut closed_while_starting = [8, 7]
   \<and> distinct (shut closed_while_starting) \<and> set (shut closed_while_starting) = set (opened closed_while_starting)"
proof -
  have p: "play manager_next lingering_world [Retire 2, Close_runtime 7, Enter, Close, Opened (Some 8), Close_runtime 8]
      = Some closed_while_starting"
    unfolding closed_while_starting_def by (simp add: lingering_world_def manager_ops open_returned_def)
  have r: "reach (manager_init 0) manager_step closed_while_starting"
    by (rule play_reach [OF lingering_reach manager_next_step p])
  have "m_closed (mgr closed_while_starting)" "detached closed_while_starting = []"
    "shut closed_while_starting = [8, 7]"
    unfolding closed_while_starting_def by (simp_all add: lingering_world_def manager_ops open_returned_def)
  with processes_closed_once [OF r] show ?thesis by simp
qed

text \<open>
  C13: a process nobody needs is always due to be retired. In a state with a current process, no
  operation in flight and no frontend activity a timer is armed, and its callback, when nothing came
  between, takes exactly this process out of service.
\<close>

theorem idle_process_retires:
  assumes "reach (manager_init timeout) manager_step w" and "m_runtime (mgr w) = Some r"
    and "holders w = []" and "m_frontend_activity (mgr w) = 0"
  shows "\<exists>g m. m_idle_timer (mgr w) = Some g \<and> retire g (mgr w) = (m, Some r) \<and> m_runtime m = None"
  using mm.reach_inv [OF assms(1)] assms(2-4)
  by (auto simp: manager_ok_def fields_ok_def retire_def)

theorem idle_process_retires_witness:
  "\<exists>g m. m_idle_timer (mgr lingering_world) = Some g \<and> retire g (mgr lingering_world) = (m, Some 7)
     \<and> m_runtime m = None"
  by (rule idle_process_retires [OF lingering_reach]) (simp_all add: lingering_world_def)

section \<open>The life cycle\<close>

text \<open>
  The abstract view: a process is stopped, starting, working, lingering with an armed timer, or the
  manager is shut for good. \<open>next_phases\<close> is the contract of the life cycle: only a lingering process
  is retired, only \<open>Close\<close> shuts, and shut is final.
\<close>

datatype phase = Stopped | Starting | Working | Lingering | Shut

definition phase_of :: "'r manager \<Rightarrow> phase" where
  "phase_of m =
     (if m_closed m then Shut
      else if m_runtime m \<noteq> None then (if m_idle_timer m = None then Working else Lingering)
      else if m_starting m then Starting else Stopped)"

fun next_phases :: "phase \<Rightarrow> 'r action \<Rightarrow> phase set" where
  "next_phases Shut a = {Shut}"
| "next_phases p Close = {Shut}"
| "next_phases p (Close_runtime r) = {p}"
| "next_phases Stopped Enter = {Starting}"
| "next_phases Stopped a = {Stopped}"
| "next_phases Starting (Opened (Some r)) = {Working}"
| "next_phases Starting (Opened None) = {Stopped}"
| "next_phases Starting a = {Starting}"
| "next_phases Working (Release r) = {Working, Lingering}"
| "next_phases Working (Frontend n) = (if n > 0 then {Working} else {Working, Lingering})"
| "next_phases Working a = {Working}"
| "next_phases Lingering Enter = {Working}"
| "next_phases Lingering (Frontend n) = (if n > 0 then {Working} else {Lingering})"
| "next_phases Lingering (Retire g) = {Lingering, Stopped}"
| "next_phases Lingering a = {Lingering}"

lemma phase_retire:
  assumes "fields_ok m" and "retire g m = (m', r)"
  shows "phase_of m' \<in> next_phases (phase_of m) (Retire g)"
proof (rule retire_cases [OF assms(2)])
  show ?thesis if "m' = m" using that by (cases "phase_of m") simp_all
  show ?thesis if "m' = m\<lparr>m_idle_timer := None\<rparr>" "m_runtime m = None"
    using that by (simp add: phase_of_def)
  show ?thesis if "m' = m\<lparr>m_runtime := None, m_idle_timer := None, m_generation := m_generation m + 1\<rparr>"
    "m_runtime m = Some p" "m_active_operations m = 0" "m_frontend_activity m = 0" "\<not> m_closed m" for p
  proof -
    have "phase_of m = Lingering" using assms(1) that(2-5) by (simp add: fields_ok_def phase_of_def)
    moreover have "\<not> m_starting m" using assms(1) that(2) by (auto simp: fields_ok_def)
    ultimately show ?thesis using that(5) by (simp add: that(1) phase_of_def)
  qed
qed

lemma phase_frontend:
  assumes "fields_ok m"
  shows "phase_of (set_frontend_activity n m) \<in> next_phases (phase_of m) (Frontend n)"
proof (cases "m_closed m \<or> m_runtime m = None")
  case True
  then show ?thesis
    by (cases "m_closed m"; cases "m_starting m")
      (auto simp: phase_of_def set_frontend_activity_def stop_timer_locked_def arm_timer_locked_def Let_def)
next
  case False
  then have w: "phase_of m = (if m_idle_timer m = None then Working else Lingering)" by (simp add: phase_of_def)
  show ?thesis
  proof (cases "n > 0")
    case True
    with False have "phase_of (set_frontend_activity n m) = Working"
      by (simp add: phase_of_def set_frontend_activity_def stop_timer_locked_def)
    with w True show ?thesis by simp
  next
    case n: False
    with False have "phase_of (set_frontend_activity n m) \<in> {Working, Lingering}"
      "m_idle_timer m \<noteq> None \<Longrightarrow> phase_of (set_frontend_activity n m) = Lingering"
      by (auto simp: phase_of_def set_frontend_activity_def arm_timer_locked_def Let_def)
    with w n show ?thesis by (cases "m_idle_timer m = None") simp_all
  qed
qed

lemma phase_enter:
  assumes "fields_ok m" and "acquire_enter m = (m', e)"
  shows "phase_of m' \<in> next_phases (phase_of m) Enter"
proof (cases "m_closed m")
  case True
  with assms(2) show ?thesis by (simp add: acquire_enter_def phase_of_def)
next
  case False
  show ?thesis
  proof (cases "m_runtime m")
    case None
    with False assms(2) show ?thesis
      by (cases "m_starting m") (auto simp: acquire_enter_def stop_timer_locked_def phase_of_def)
  next
    case (Some r)
    with False assms(2) have "phase_of m' = Working" by (auto simp: acquire_enter_def stop_timer_locked_def phase_of_def)
    with False Some show ?thesis by (simp add: phase_of_def)
  qed
qed

text \<open>
  C14: the manager refines its life cycle. Every step of every run takes the phase of the concrete state
  to a phase the contract allows, and a process in the phase \<open>Working\<close> is one that an operation or a
  frontend needs.
\<close>

theorem manager_refines_lifecycle:
  assumes "reach (manager_init timeout) manager_step w" and "manager_step w a w'"
  shows "phase_of (mgr w') \<in> next_phases (phase_of (mgr w)) a
    \<and> (phase_of (mgr w) = Working \<longrightarrow> holders w \<noteq> [] \<or> m_frontend_activity (mgr w) > 0)"
proof
  note ok = mm.reach_inv [OF assms(1)]
  show "phase_of (mgr w) = Working \<longrightarrow> holders w \<noteq> [] \<or> m_frontend_activity (mgr w) > 0"
    using ok by (auto simp: manager_ok_def fields_ok_def phase_of_def split: if_splits)
  have f: "fields_ok (mgr w)" "holders w \<noteq> [] \<Longrightarrow> m_active_operations (mgr w) \<noteq> 0"
    using ok by (simp_all add: manager_ok_def)
  from assms(2) show "phase_of (mgr w') \<in> next_phases (phase_of (mgr w)) a"
  proof cases
    case (step_enter m e)
    with phase_enter [OF f(1) step_enter(3)] show ?thesis by simp
  next
    case (step_opened r m b)
    with f show ?thesis
      by (cases r) (auto simp: phase_of_def manager_ops fields_ok_def Let_def split: if_splits)
  next
    case (step_release r)
    with f show ?thesis
      by (auto simp: phase_of_def manager_ops fields_ok_def Let_def)
  next
    case (step_frontend n)
    with phase_frontend [OF f(1), of n] show ?thesis by simp
  next
    case (step_retire g m r)
    have "phase_of m \<in> next_phases (phase_of (mgr w)) (Retire g)" by (rule phase_retire [OF f(1) step_retire(3)])
    with step_retire(1,2) show ?thesis by simp
  next
    case (step_close m r)
    then have "phase_of (mgr w') = Shut" using close_world [of "mgr w" m r]
      by (simp add: phase_of_def)
    then show ?thesis using step_close(1) by (cases "phase_of (mgr w)") simp_all
  next
    case (step_close_runtime r)
    then show ?thesis by (cases "phase_of (mgr w)") simp_all
  qed
qed

theorem manager_refines_lifecycle_witness:
  "phase_of (mgr lingering_world) = Lingering
   \<and> phase_of (mgr (the (manager_next lingering_world Enter))) \<in> next_phases Lingering Enter"
proof -
  have step: "manager_step lingering_world Enter (the (manager_next lingering_world Enter))"
    by (rule manager_step_the) (simp split: prod.split)
  have "phase_of (mgr lingering_world) = Lingering"
    by (simp add: lingering_world_def phase_of_def)
  with manager_refines_lifecycle [OF lingering_reach step] show ?thesis by simp
qed

end
