(* ===== verification/Factories.thy ===== *)
theory Factories
  imports Stdio Downstream Manager
begin

text \<open>
  The operations behind the interface \<open>Factory\<close>: those of the command factory (\<open>component/stdio/factory.go\<close>),
  each in a process of its own, the session of a running command (\<open>component/stdio/runtime.go\<close>), and the
  factory that hands every operation to the one of the component's transport (\<open>component/factory.go\<close>).
\<close>

section \<open>The session of a command\<close>

text \<open>A context here is its values and its deadline; \<open>now\<close> is the time.\<close>

definition with_timeout :: "int \<Rightarrow> int \<Rightarrow> int option \<Rightarrow> int option" where
  "with_timeout now timeout deadline =
     (if timeout \<le> 0 then deadline
      else case deadline of None \<Rightarrow> Some (now + timeout) | Some d \<Rightarrow> Some (min d (now + timeout)))"

definition session_context :: "int \<Rightarrow> server \<Rightarrow> 'v call_ctx \<times> int option \<Rightarrow> 'v call_ctx \<times> int option" where
  "session_context now server cx = (without_values (fst cx), with_timeout now (srv_timeout server) (snd cx))"

text \<open>The identity a process is shown: the frontend's if it is forwarded, or the factory's.\<close>

definition command_client_info :: "implementation option \<Rightarrow> 'v call_ctx \<Rightarrow> implementation option" where
  "command_client_info info cx =
     (case client_info_from_context (without_values cx) of Some i \<Rightarrow> Some i | None \<Rightarrow> info)"

text \<open>The process that is started for a component (\<open>component/stdio/command.go\<close>).\<close>

record command =
  cm_path :: string
  cm_args :: "string list"
  cm_dir :: string
  cm_env :: "string list"

definition command_of :: "bool \<Rightarrow> (string \<Rightarrow> string option) \<Rightarrow> server \<Rightarrow> command" where
  "command_of windows lookup server =
     \<lparr>cm_path = srv_command server, cm_args = srv_args server, cm_dir = srv_working_directory server,
      cm_env = environment windows lookup (srv_env server)\<rparr>"

text \<open>Hiding the values of the frontend keeps the forwarded identity, and no timeout extends a deadline.\<close>

lemma command_client_info_forwarded:
  "client_info_from_context cx = Some i \<Longrightarrow> command_client_info info cx = Some i"
  by (simp add: command_client_info_def client_info_from_context_def without_values_def)

lemma with_timeout_deadline:
  "deadline = Some d \<Longrightarrow> \<exists>d'. with_timeout now timeout deadline = Some d' \<and> d' \<le> d"
  by (simp add: with_timeout_def)

lemma with_timeout_bound:
  "timeout > 0 \<Longrightarrow> \<exists>d'. with_timeout now timeout deadline = Some d' \<and> d' \<le> now + timeout"
  by (simp add: with_timeout_def split: option.split)

text \<open>
  \<open>runtimeSession.Close\<close>: the session is closed once and its error is kept for the later calls. \<open>close\<close> is the
  method of the session.
\<close>

definition close_runtime ::
    "('w \<Rightarrow> go_error option \<times> 'w) \<Rightarrow> go_error option option \<Rightarrow> 'w \<Rightarrow> go_error option \<times> go_error option option \<times> 'w" where
  "close_runtime close once w =
     (case once of
        Some e \<Rightarrow> (e, once, w)
      | None \<Rightarrow> (case close w of (e, w) \<Rightarrow> (e, Some e, w)))"

lemma close_runtime_once:
  assumes "close_runtime close once w = (e, once', w')"
  shows "close_runtime close once' w' = (e, once', w')"
  using assms by (auto simp: close_runtime_def split: option.splits prod.splits)

text \<open>A runtime over HTTP leaves subscriptions to its session as they are.\<close>

definition runtime_subscribe :: "'w session \<Rightarrow> read_params \<Rightarrow> 'w \<Rightarrow> (go_error, unit) res \<times> 'w" where
  "runtime_subscribe S p = cs_subscribe S p"

definition runtime_unsubscribe :: "'w session \<Rightarrow> read_params \<Rightarrow> 'w \<Rightarrow> (go_error, unit) res \<times> 'w" where
  "runtime_unsubscribe S p = cs_unsubscribe S p"

section \<open>Calls in a process of their own\<close>

text \<open>
  One call from its own point of view: \<open>closing\<close> is what it finds under the lock, \<open>close\<close> closes the process. The
  code closes the process of a successful call in the background, after the result was returned.
\<close>

definition with_process ::
    "rune_quoter \<Rightarrow> 'w connector \<Rightarrow> ('w session \<Rightarrow> 'w \<Rightarrow> go_error option \<times> 'w) \<Rightarrow> bool \<Rightarrow> server
       \<Rightarrow> ('w session \<Rightarrow> 'w \<Rightarrow> (go_error, 'a) res \<times> 'w) \<Rightarrow> 'w \<Rightarrow> (go_error, 'a) res \<times> 'w" where
  "with_process Q connect close closing server call w =
     (if closing then (Inl (Other_error ''stdio component factory is closed'' None), w)
      else case open_command Q connect server w of
             (Inl e, w) \<Rightarrow> (Inl e, w)
           | (Inr S, w) \<Rightarrow>
             (case call S w of
                (r, w) \<Rightarrow> (case close S w of (close_err, w) \<Rightarrow> (one_off_result r close_err, w))))"

definition command_call_tool ::
    "rune_quoter \<Rightarrow> 'w connector \<Rightarrow> ('w session \<Rightarrow> 'w \<Rightarrow> go_error option \<times> 'w) \<Rightarrow> bool \<Rightarrow> server \<Rightarrow> call_params
       \<Rightarrow> 'w \<Rightarrow> (go_error, call_result option) res \<times> 'w" where
  "command_call_tool Q connect close closing server p = with_process Q connect close closing server (\<lambda>S. cs_call S p)"

definition command_get_prompt ::
    "rune_quoter \<Rightarrow> 'w connector \<Rightarrow> ('w session \<Rightarrow> 'w \<Rightarrow> go_error option \<times> 'w) \<Rightarrow> bool \<Rightarrow> server \<Rightarrow> prompt_params
       \<Rightarrow> 'w \<Rightarrow> (go_error, prompt_result option) res \<times> 'w" where
  "command_get_prompt Q connect close closing server p = with_process Q connect close closing server (\<lambda>S. cs_get S p)"

definition command_read_resource ::
    "rune_quoter \<Rightarrow> 'w connector \<Rightarrow> ('w session \<Rightarrow> 'w \<Rightarrow> go_error option \<times> 'w) \<Rightarrow> bool \<Rightarrow> server \<Rightarrow> read_params
       \<Rightarrow> 'w \<Rightarrow> (go_error, read_result option) res \<times> 'w" where
  "command_read_resource Q connect close closing server p = with_process Q connect close closing server (\<lambda>S. cs_read S p)"

definition command_subscribe ::
    "rune_quoter \<Rightarrow> 'w connector \<Rightarrow> ('w session \<Rightarrow> 'w \<Rightarrow> go_error option \<times> 'w) \<Rightarrow> bool \<Rightarrow> server \<Rightarrow> read_params
       \<Rightarrow> 'w \<Rightarrow> (go_error, unit) res \<times> 'w" where
  "command_subscribe Q connect close closing server p =
     with_process Q connect close closing server (\<lambda>S. cs_subscribe S p)"

definition command_unsubscribe ::
    "rune_quoter \<Rightarrow> 'w connector \<Rightarrow> ('w session \<Rightarrow> 'w \<Rightarrow> go_error option \<times> 'w) \<Rightarrow> bool \<Rightarrow> server \<Rightarrow> read_params
       \<Rightarrow> 'w \<Rightarrow> (go_error, unit) res \<times> 'w" where
  "command_unsubscribe Q connect close closing server p =
     with_process Q connect close closing server (\<lambda>S. cs_unsubscribe S p)"

text \<open>A runtime of a command is a process manager; it opens its process at the first operation.\<close>

definition command_open_runtime :: "rune_quoter \<Rightarrow> server \<Rightarrow> int \<Rightarrow> int \<Rightarrow> (go_error, 'r manager) res" where
  "command_open_runtime Q server idle_timeout activity =
     (if srv_command server = []
      then Inl (Other_error (component_text Q (srv_name server) ''is not configured for stdio'') None)
      else Inr (set_frontend_activity activity (new_manager idle_timeout)))"

section \<open>Routing\<close>

text \<open>
  The interface \<open>Factory\<close>; \<open>'r\<close> are its runtimes. Subscriptions take the parameters of a read, a URI and its
  metadata.
\<close>

record ('r, 'w) factory =
  fa_call :: "server \<Rightarrow> call_params \<Rightarrow> 'w \<Rightarrow> (go_error, call_result option) res \<times> 'w"
  fa_get :: "server \<Rightarrow> prompt_params \<Rightarrow> 'w \<Rightarrow> (go_error, prompt_result option) res \<times> 'w"
  fa_read :: "server \<Rightarrow> read_params \<Rightarrow> 'w \<Rightarrow> (go_error, read_result option) res \<times> 'w"
  fa_subscribe :: "server \<Rightarrow> read_params \<Rightarrow> 'w \<Rightarrow> (go_error, unit) res \<times> 'w"
  fa_unsubscribe :: "server \<Rightarrow> read_params \<Rightarrow> 'w \<Rightarrow> (go_error, unit) res \<times> 'w"
  fa_open :: "server \<Rightarrow> int \<Rightarrow> int \<Rightarrow> 'w \<Rightarrow> (go_error, 'r) res \<times> 'w"
  fa_close :: "'w \<Rightarrow> go_error option \<times> 'w"

type_synonym ('r, 'w) factories = "transport \<Rightarrow> ('r, 'w) factory option"

definition routed ::
    "rune_quoter \<Rightarrow> ('r, 'w) factories \<Rightarrow> server \<Rightarrow> (('r, 'w) factory \<Rightarrow> 'w \<Rightarrow> (go_error, 'a) res \<times> 'w) \<Rightarrow> 'w
       \<Rightarrow> (go_error, 'a) res \<times> 'w" where
  "routed Q fs server operation w =
     (case selected_factory Q (fs Http_factory \<noteq> None) (fs Stdio_factory \<noteq> None) server of
        Inl e \<Rightarrow> (Inl e, w)
      | Inr t \<Rightarrow> operation (the (fs t)) w)"

definition routed_call_tool where
  "routed_call_tool Q fs server params = routed Q fs server (\<lambda>f. fa_call f server params)"

definition routed_get_prompt where
  "routed_get_prompt Q fs server params = routed Q fs server (\<lambda>f. fa_get f server params)"

definition routed_read_resource where
  "routed_read_resource Q fs server params = routed Q fs server (\<lambda>f. fa_read f server params)"

definition routed_subscribe where
  "routed_subscribe Q fs server params = routed Q fs server (\<lambda>f. fa_subscribe f server params)"

definition routed_unsubscribe where
  "routed_unsubscribe Q fs server params = routed Q fs server (\<lambda>f. fa_unsubscribe f server params)"

definition routed_open_runtime where
  "routed_open_runtime Q fs server idle activity = routed Q fs server (\<lambda>f. fa_open f server idle activity)"

definition close_factories ::
    "('r, 'w) factories \<Rightarrow> 'w \<Rightarrow> go_error option \<times> 'w" where
  "close_factories fs w =
     (case (case fs Http_factory of None \<Rightarrow> (None, w) | Some f \<Rightarrow> fa_close f w) of
        (http_err, w) \<Rightarrow>
        (case (case fs Stdio_factory of None \<Rightarrow> (None, w) | Some f \<Rightarrow> fa_close f w) of
           (stdio_err, w) \<Rightarrow>
             (if http_err = None \<and> stdio_err = None then None else Some (Joined [http_err, stdio_err]), w)))"

text \<open>
  Every loaded component has exactly one transport, and its operations are the ones of that transport's
  factory: a URL never starts a process, and a command never opens a connection.
\<close>

lemma routed_http:
  "srv_url server \<noteq> [] \<Longrightarrow> srv_command server = [] \<Longrightarrow> fs Http_factory = Some f \<Longrightarrow>
    routed Q fs server operation = operation f"
  by (simp add: fun_eq_iff routed_def selected_factory_def)

lemma routed_command:
  "srv_command server \<noteq> [] \<Longrightarrow> srv_url server = [] \<Longrightarrow> fs Stdio_factory = Some f \<Longrightarrow>
    routed Q fs server operation = operation f"
  by (simp add: fun_eq_iff routed_def selected_factory_def)

lemma routed_nowhere:
  "(srv_url server = []) = (srv_command server = []) \<Longrightarrow>
    \<exists>e. routed Q fs server operation w = (Inl e, w)"
  by (cases "srv_command server = []") (simp_all add: routed_def selected_factory_def)

end
