(* ===== verification/Notifications.thy ===== *)
theory Notifications
  imports Handler "HOL-Library.AList"
begin

text \<open>
  Who is told about changes: the part of \<open>featureMiddleware\<close> in \<open>handler.go\<close> that compares the catalogs of
  consecutive requests, and \<open>notifications.go\<close>: the subscriptions of clients that listen to a configuration
  without a session, and the bindings that connect a component's announcement with the frontend sessions it
  concerns. A frontend server and a session are named by numbers.
\<close>

section \<open>Changes between two catalogs\<close>

definition setup_changed :: "'t catalog \<Rightarrow> 't catalog \<Rightarrow> bool" where
  "setup_changed previous current \<longleftrightarrow> (cat_pending previous \<noteq> []) \<noteq> (cat_pending current \<noteq> [])"

text \<open>What a request saw: its catalog, the fingerprint of its configuration, and whether tools are searched.\<close>

record 't seen =
  sn_catalog :: "'t catalog"
  sn_fingerprint :: string
  sn_tool_search :: bool

text \<open>
  A session with the snapshot of its last request: whether its tools changed, and whether deferred
  authorization began or completed.
\<close>

definition compared_tools :: "frontend \<Rightarrow> 't seen \<Rightarrow> mcp_tool list" where
  "compared_tools fe s =
     (if sn_tool_search s then cat_tools (sn_catalog s)
      else omit_modern_tool_output_schemas fe (cat_tools (sn_catalog s)) (sn_catalog s))"

definition session_changes :: "frontend \<Rightarrow> 't seen option \<Rightarrow> 't seen \<Rightarrow> bool \<times> bool" where
  "session_changes fe previous current =
     (case previous of
        None \<Rightarrow> (False, False)
      | Some p \<Rightarrow>
        let setup = setup_changed (sn_catalog p) (sn_catalog current)
        in ((sn_fingerprint p \<noteq> sn_fingerprint current \<or> setup)
              \<and> (sn_tool_search p \<noteq> sn_tool_search current \<or> compared_tools fe p \<noteq> compared_tools fe current),
            setup))"

text \<open>
  The notifications a session's request sends: the families the server announces as changed. A request for
  the list of tools carries the change in its own answer.
\<close>

definition session_notices :: "string \<Rightarrow> bool \<times> bool \<Rightarrow> feature_family list" where
  "session_notices method ch =
     (if fst ch \<and> method \<noteq> ''tools/list'' then [Feature_tools] else [])
     @ (if snd ch then [Feature_prompts, Feature_resources] else [])"

text \<open>Which requests see the whole list of tools.\<close>

definition full_tools :: "config \<Rightarrow> string \<Rightarrow> bool" where
  "full_tools cfg method \<longleftrightarrow> \<not> cfg_request_scoped_discovery cfg \<or> method = ''tools/list''
     \<or> method = ''subscriptions/listen'' \<or> cfg_defer_authorization cfg \<and> method = ''tools/call''"

text \<open>The list a request for the tools would be answered with; compiled catalogs show their tools like this.\<close>

definition shown_tools :: "frontend \<Rightarrow> 't seen \<Rightarrow> mcp_tool list" where
  "shown_tools fe s = omit_modern_tool_output_schemas fe (cat_visible_tools (sn_catalog s)) (sn_catalog s)"

definition shows_tools :: "'t seen \<Rightarrow> bool" where
  "shows_tools s \<longleftrightarrow> cat_visible_tools (sn_catalog s) =
     (if sn_tool_search s \<and> cat_pending (sn_catalog s) = [] then search_definitions else cat_tools (sn_catalog s))"

text \<open>
  A client with a session learns of every change of the tools it is shown: if two of its requests run
  under different configurations (or before and after the authorization of deferred components), not both
  with the tool search, and the lists of tools they would be answered with differ, then the later request
  announces the change, unless it is the request for the list itself.
\<close>

theorem visible_change_announced:
  assumes "shows_tools p" and "shows_tools s" and "\<not> (sn_tool_search p \<and> sn_tool_search s)"
    and "sn_fingerprint p \<noteq> sn_fingerprint s \<or> setup_changed (sn_catalog p) (sn_catalog s)"
    and "shown_tools fe p \<noteq> shown_tools fe s" and "method \<noteq> ''tools/list''"
  shows "Feature_tools \<in> set (session_notices method (session_changes fe (Some p) s))"
  using assms
  by (auto simp: session_notices_def session_changes_def compared_tools_def shown_tools_def shows_tools_def Let_def)

section \<open>Listeners without a session\<close>

record 't sub_entry =
  se_seen :: "'t seen"
  se_servers :: "nat list"

text \<open>The entries are pointers: a listener keeps the one it was added to for its clean-up.\<close>

record 't subscriptions =
  sb_configs :: "string \<Rightarrow> nat option"
  sb_heap :: "'t sub_entry list"

definition no_subscriptions :: "'t subscriptions" where
  "no_subscriptions = \<lparr>sb_configs = Map.empty, sb_heap = []\<rparr>"

definition raw_tools_changed :: "'t seen \<Rightarrow> 't seen \<Rightarrow> bool" where
  "raw_tools_changed p s \<longleftrightarrow>
     (sn_fingerprint p \<noteq> sn_fingerprint s \<or> setup_changed (sn_catalog p) (sn_catalog s))
     \<and> (sn_tool_search p \<noteq> sn_tool_search s \<or> cat_tools (sn_catalog p) \<noteq> cat_tools (sn_catalog s))"

text \<open>\<open>observe\<close>: the new state, the listeners told of changed tools, those told of a finished set-up, the clean-up.\<close>

definition observe ::
    "string \<Rightarrow> bool \<Rightarrow> nat \<Rightarrow> 't seen \<Rightarrow> 't subscriptions \<Rightarrow> 't subscriptions \<times> nat list \<times> nat list \<times> nat option" where
  "observe i listen server s b =
     (case sb_configs b i of
        Some p \<Rightarrow>
          let e = sb_heap b ! p;
              notify = (if raw_tools_changed (se_seen e) s then se_servers e else []);
              setup = (if setup_changed (sn_catalog (se_seen e)) (sn_catalog s) then se_servers e else []);
              e = \<lparr>se_seen = s, se_servers = (if listen then List.insert server (se_servers e) else se_servers e)\<rparr>
          in (b\<lparr>sb_heap := (sb_heap b)[p := e]\<rparr>, notify, setup, if listen then Some p else None)
      | None \<Rightarrow>
          if \<not> listen then (b, [], [], None)
          else (b\<lparr>sb_configs := (sb_configs b)(i \<mapsto> length (sb_heap b)),
                  sb_heap := sb_heap b @ [\<lparr>se_seen = s, se_servers = [server]\<rparr>]\<rparr>,
                [], [], Some (length (sb_heap b))))"

definition stop_listening :: "string \<Rightarrow> nat \<Rightarrow> nat \<Rightarrow> 't subscriptions \<Rightarrow> 't subscriptions" where
  "stop_listening i p server b =
     (let e = sb_heap b ! p; e = e\<lparr>se_servers := removeAll server (se_servers e)\<rparr>;
          b = b\<lparr>sb_heap := (sb_heap b)[p := e]\<rparr>
      in if se_servers e = [] then b\<lparr>sb_configs := (sb_configs b)(i := None)\<rparr> else b)"

text \<open>
  The requests side by side; a listener stays until its request ends. Every listening request has a frontend
  server of its own.
\<close>

record 't listening =
  ls_subs :: "'t subscriptions"
  ls_listeners :: "(string \<times> nat \<times> nat) list"

datatype 't listen_act = Observe string bool nat "'t seen" | Listener_leaves string nat nat

definition listen_next :: "'t listening \<Rightarrow> 't listen_act \<Rightarrow> 't listening option" where
  "listen_next w a =
     (case a of
        Observe i listen server s \<Rightarrow>
          if listen \<and> server \<in> (snd \<circ> snd) ` set (ls_listeners w) then None
          else (case observe i listen server s (ls_subs w) of
                  (b, notify, setup, None) \<Rightarrow> Some (w\<lparr>ls_subs := b\<rparr>)
                | (b, notify, setup, Some p) \<Rightarrow> Some (w\<lparr>ls_subs := b, ls_listeners := (i, p, server) # ls_listeners w\<rparr>))
      | Listener_leaves i p server \<Rightarrow>
          if (i, p, server) \<notin> set (ls_listeners w) then None
          else Some (w\<lparr>ls_subs := stop_listening i p server (ls_subs w),
                       ls_listeners := remove1 (i, p, server) (ls_listeners w)\<rparr>))"

definition listen_start :: "'t listening \<Rightarrow> bool" where
  "listen_start w \<longleftrightarrow> w = \<lparr>ls_subs = no_subscriptions, ls_listeners = []\<rparr>"

definition listen_moves :: "'t listening \<Rightarrow> 't listen_act \<Rightarrow> 't listening \<Rightarrow> bool" where
  "listen_moves w a v \<longleftrightarrow> listen_next w a = Some v"

section \<open>Sessions bound to components\<close>

record frontend_bindings =
  fb_sessions :: "(nat \<times> (string \<times> string) list) list"
  fb_servers :: "nat \<Rightarrow> nat option"
  fb_watched :: "nat list"

definition no_bindings :: frontend_bindings where
  "no_bindings = \<lparr>fb_sessions = [], fb_servers = Map.empty, fb_watched = []\<rparr>"

text \<open>\<open>session\<close> is the session with its ID; the second result says that its end is to be watched.\<close>

definition bind_server :: "nat \<Rightarrow> string \<Rightarrow> nat \<Rightarrow> frontend_bindings \<Rightarrow> frontend_bindings \<times> bool" where
  "bind_server session sid server b =
     (if sid = [] then (b, False)
      else let b = b\<lparr>fb_servers := (fb_servers b)(session \<mapsto> server)\<rparr>
        in if session \<in> set (fb_watched b) then (b, False)
           else (b\<lparr>fb_watched := session # fb_watched b\<rparr>, True))"

definition session_ended :: "nat \<Rightarrow> frontend_bindings \<Rightarrow> frontend_bindings" where
  "session_ended session b =
     b\<lparr>fb_servers := (fb_servers b)(session := None), fb_sessions := AList.delete session (fb_sessions b),
       fb_watched := removeAll session (fb_watched b)\<rparr>"

definition bindings_of :: "nat \<Rightarrow> frontend_bindings \<Rightarrow> (string \<times> string) list" where
  "bindings_of session b = (case map_of (fb_sessions b) session of None \<Rightarrow> [] | Some bs \<Rightarrow> bs)"

definition bind_component :: "nat \<Rightarrow> string \<Rightarrow> string \<Rightarrow> frontend_bindings \<Rightarrow> frontend_bindings" where
  "bind_component session fingerprint name b =
     b\<lparr>fb_sessions := AList.update session (List.insert (fingerprint, name) (bindings_of session b)) (fb_sessions b)\<rparr>"

definition unbind_component :: "nat \<Rightarrow> string \<Rightarrow> string \<Rightarrow> frontend_bindings \<Rightarrow> frontend_bindings" where
  "unbind_component session fingerprint name b =
     (let bs = removeAll (fingerprint, name) (bindings_of session b)
      in if bs = []
         then b\<lparr>fb_sessions := AList.delete session (fb_sessions b), fb_servers := (fb_servers b)(session := None)\<rparr>
         else b\<lparr>fb_sessions := AList.update session bs (fb_sessions b)\<rparr>)"

definition matching :: "string \<Rightarrow> string \<Rightarrow> frontend_bindings \<Rightarrow> nat list" where
  "matching fingerprint name b =
     concat (map (\<lambda>(session, bs). case fb_servers b session of
                    Some server \<Rightarrow> if (fingerprint, name) \<in> set bs then [server] else []
                  | None \<Rightarrow> []) (fb_sessions b))"

text \<open>
  What a component's announcements lead to (\<open>callbacksForComponent\<close>): \<open>degraded\<close> is the flag of the default
  catalog, a refresh calls back when it is done.
\<close>

datatype notice_effect = Invalidate_component string | Refresh_catalog string | Set_degraded bool
  | Tell_changed nat feature_family | Tell_resource nat string

definition list_changed :: "config \<Rightarrow> string \<Rightarrow> string \<Rightarrow> feature_family \<Rightarrow> frontend_bindings \<Rightarrow> notice_effect list" where
  "list_changed cfg fingerprint name family b =
     (if cfg_request_scoped_discovery cfg
      then Invalidate_component name # map (\<lambda>s. Tell_changed s family) (matching fingerprint name b)
      else [Refresh_catalog fingerprint])"

definition refreshed :: "string \<Rightarrow> string \<Rightarrow> string \<Rightarrow> feature_family \<Rightarrow> bool \<Rightarrow> frontend_bindings \<Rightarrow> notice_effect list" where
  "refreshed default_fingerprint fingerprint name family success b =
     (if fingerprint = default_fingerprint then [Set_degraded (\<not> success)] else [])
     @ (if success then map (\<lambda>s. Tell_changed s family) (matching fingerprint name b) else [])"

text \<open>\<open>composite_uri\<close> is \<open>CompositeURI\<close> of the catalog of the configuration, if there is one.\<close>

definition resource_updated :: "(string \<Rightarrow> string) option \<Rightarrow> string \<Rightarrow> string \<Rightarrow> string \<Rightarrow> frontend_bindings \<Rightarrow> notice_effect list" where
  "resource_updated composite_uri fingerprint name uri b =
     (case composite_uri of
        None \<Rightarrow> []
      | Some f \<Rightarrow> map (\<lambda>s. Tell_resource s (f uri)) (matching fingerprint name b))"

text \<open>A server announces a change when a feature comes or goes; so one is added and removed again.\<close>

datatype feature_edit = Add_feature feature_family string | Remove_feature feature_family string

fun refresh_feature :: "feature_family \<Rightarrow> string" where
  "refresh_feature Feature_resources = ''mmmcp-refresh://notification''"
| "refresh_feature family = ''mmmcp_refresh_notification''"

definition notify_feature_changed :: "feature_family \<Rightarrow> feature_edit list" where
  "notify_feature_changed family =
     [Add_feature family (refresh_feature family), Remove_feature family (refresh_feature family)]"

section \<open>Whom a change reaches\<close>

text \<open>
  The invariant: the entry of a configuration holds exactly the servers of its listeners, and there is an
  entry exactly while there is a listener.
\<close>

definition entry_listeners :: "'t listening \<Rightarrow> string \<Rightarrow> nat \<Rightarrow> nat set" where
  "entry_listeners w i p = {sv. (i, p, sv) \<in> set (ls_listeners w)}"

definition listen_ok :: "'t listening \<Rightarrow> bool" where
  "listen_ok w \<longleftrightarrow> distinct (map (snd \<circ> snd) (ls_listeners w))
     \<and> (\<forall>i p sv. (i, p, sv) \<in> set (ls_listeners w) \<longrightarrow> sb_configs (ls_subs w) i = Some p)
     \<and> (\<forall>i p. sb_configs (ls_subs w) i = Some p \<longrightarrow> p < length (sb_heap (ls_subs w))
          \<and> set (se_servers (sb_heap (ls_subs w) ! p)) = entry_listeners w i p \<and> entry_listeners w i p \<noteq> {})
     \<and> (\<forall>i j p. sb_configs (ls_subs w) i = Some p \<longrightarrow> sb_configs (ls_subs w) j = Some p \<longrightarrow> i = j)"

lemma listen_okD:
  assumes "listen_ok w"
  shows "distinct (map (snd \<circ> snd) (ls_listeners w))"
    and "(i, p, sv) \<in> set (ls_listeners w) \<Longrightarrow> sb_configs (ls_subs w) i = Some p"
    and "sb_configs (ls_subs w) i = Some p \<Longrightarrow> p < length (sb_heap (ls_subs w))"
    and "sb_configs (ls_subs w) i = Some p \<Longrightarrow> set (se_servers (sb_heap (ls_subs w) ! p)) = entry_listeners w i p"
    and "sb_configs (ls_subs w) i = Some p \<Longrightarrow> entry_listeners w i p \<noteq> {}"
    and "sb_configs (ls_subs w) i = Some p \<Longrightarrow> sb_configs (ls_subs w) j = Some p \<Longrightarrow> i = j"
  using assms unfolding listen_ok_def by blast+

lemma listen_okI:
  assumes "distinct (map (snd \<circ> snd) (ls_listeners w))"
    and "\<And>i p sv. (i, p, sv) \<in> set (ls_listeners w) \<Longrightarrow> sb_configs (ls_subs w) i = Some p"
    and "\<And>i p. sb_configs (ls_subs w) i = Some p \<Longrightarrow> p < length (sb_heap (ls_subs w))"
    and "\<And>i p. sb_configs (ls_subs w) i = Some p \<Longrightarrow> set (se_servers (sb_heap (ls_subs w) ! p)) = entry_listeners w i p"
    and "\<And>i p. sb_configs (ls_subs w) i = Some p \<Longrightarrow> entry_listeners w i p \<noteq> {}"
    and "\<And>i j p. sb_configs (ls_subs w) i = Some p \<Longrightarrow> sb_configs (ls_subs w) j = Some p \<Longrightarrow> i = j"
  shows "listen_ok w"
  using assms unfolding listen_ok_def by blast

text \<open>A request of a configuration that somebody listens to; \<open>joins\<close> says whether it listens too.\<close>

lemma listen_ok_seen:
  assumes ok: "listen_ok w" and p: "sb_configs (ls_subs w) i = Some p"
    and new: "joins \<Longrightarrow> sv \<notin> (snd \<circ> snd) ` set (ls_listeners w)"
  shows "listen_ok (w\<lparr>ls_subs := (ls_subs w)\<lparr>sb_heap := (sb_heap (ls_subs w))[p := \<lparr>se_seen = s,
        se_servers = (if joins then List.insert sv (se_servers (sb_heap (ls_subs w) ! p)) else se_servers (sb_heap (ls_subs w) ! p))\<rparr>]\<rparr>,
      ls_listeners := (if joins then (i, p, sv) # ls_listeners w else ls_listeners w)\<rparr>)" (is "listen_ok ?v")
proof -
  note d = listen_okD [OF ok]
  have f: "sb_configs (ls_subs ?v) = sb_configs (ls_subs w)" "length (sb_heap (ls_subs ?v)) = length (sb_heap (ls_subs w))"
    "ls_listeners ?v = (if joins then (i, p, sv) # ls_listeners w else ls_listeners w)"
    by simp_all
  have heap: "set (se_servers (sb_heap (ls_subs ?v) ! q)) =
      (if q = p \<and> joins then insert sv (set (se_servers (sb_heap (ls_subs w) ! q))) else set (se_servers (sb_heap (ls_subs w) ! q)))" for q
    using d(3) [OF p] by (simp add: nth_list_update)
  have l: "entry_listeners ?v j q = (if j = i \<and> q = p \<and> joins then insert sv (entry_listeners w j q) else entry_listeners w j q)" for j q
    unfolding entry_listeners_def f(3) by auto
  show ?thesis
  proof (rule listen_okI)
    show "distinct (map (snd \<circ> snd) (ls_listeners ?v))" unfolding f(3) using d(1) new by simp
    show "sb_configs (ls_subs ?v) j = Some q" if "(j, q, x) \<in> set (ls_listeners ?v)" for j q x
      using that p d(2) [of j q x] unfolding f by (auto split: if_splits)
    show "q < length (sb_heap (ls_subs ?v))" if "sb_configs (ls_subs ?v) j = Some q" for j q
      using that d(3) unfolding f by blast
    show "set (se_servers (sb_heap (ls_subs ?v) ! q)) = entry_listeners ?v j q" if "sb_configs (ls_subs ?v) j = Some q" for j q
    proof -
      have j: "sb_configs (ls_subs w) j = Some q" using that unfolding f .
      then have "q = p \<longleftrightarrow> j = i" using p d(6) by auto
      with d(4) [OF j] show ?thesis unfolding heap l by auto
    qed
    show "entry_listeners ?v j q \<noteq> {}" if "sb_configs (ls_subs ?v) j = Some q" for j q
      using that d(5) [of j q] unfolding f l by auto
    show "j = k" if "sb_configs (ls_subs ?v) j = Some q" "sb_configs (ls_subs ?v) k = Some q" for j k q
      using that d(6) unfolding f by blast
  qed
qed

lemma listen_ok_first:
  assumes ok: "listen_ok w" and none: "sb_configs (ls_subs w) i = None" and new: "sv \<notin> (snd \<circ> snd) ` set (ls_listeners w)"
  shows "listen_ok (w\<lparr>ls_subs := (ls_subs w)\<lparr>sb_configs := (sb_configs (ls_subs w))(i \<mapsto> length (sb_heap (ls_subs w))),
        sb_heap := sb_heap (ls_subs w) @ [\<lparr>se_seen = s, se_servers = [sv]\<rparr>]\<rparr>,
      ls_listeners := (i, length (sb_heap (ls_subs w)), sv) # ls_listeners w\<rparr>)" (is "listen_ok ?v")
proof -
  note d = listen_okD [OF ok]
  let ?n = "length (sb_heap (ls_subs w))"
  have f: "sb_configs (ls_subs ?v) = (sb_configs (ls_subs w))(i \<mapsto> ?n)" "length (sb_heap (ls_subs ?v)) = Suc ?n"
    "ls_listeners ?v = (i, ?n, sv) # ls_listeners w"
    by simp_all
  have fresh: "(j, ?n, x) \<notin> set (ls_listeners w)" for j x using d(2,3) by blast
  have gone: "(i, q, x) \<notin> set (ls_listeners w)" for q x using d(2) none by fastforce
  have l: "entry_listeners ?v j q = (if j = i \<and> q = ?n then {sv} else entry_listeners w j q)" for j q
    unfolding entry_listeners_def f(3) using fresh by auto
  have old: "j \<noteq> i \<and> sb_configs (ls_subs w) j = Some q \<and> q < ?n \<or> j = i \<and> q = ?n"
    if "sb_configs (ls_subs ?v) j = Some q" for j q
    using that d(3) [of j q] unfolding f by (auto split: if_splits)
  show ?thesis
  proof (rule listen_okI)
    show "distinct (map (snd \<circ> snd) (ls_listeners ?v))" unfolding f(3) using d(1) new by simp
    show "sb_configs (ls_subs ?v) j = Some q" if "(j, q, x) \<in> set (ls_listeners ?v)" for j q x
      using that d(2) [of j q x] gone unfolding f by auto
    show "q < length (sb_heap (ls_subs ?v))" if "sb_configs (ls_subs ?v) j = Some q" for j q
      using old [OF that] unfolding f by auto
    show "set (se_servers (sb_heap (ls_subs ?v) ! q)) = entry_listeners ?v j q" if "sb_configs (ls_subs ?v) j = Some q" for j q
      using old [OF that]
    proof (elim disjE conjE)
      assume "j \<noteq> i" "sb_configs (ls_subs w) j = Some q" "q < ?n"
      moreover have "sb_heap (ls_subs ?v) ! q = sb_heap (ls_subs w) ! q" using \<open>q < ?n\<close> by (simp add: nth_append)
      ultimately show ?thesis using d(4) [of j q] unfolding l by simp
    next
      assume "j = i" "q = ?n"
      moreover have "sb_heap (ls_subs ?v) ! ?n = \<lparr>se_seen = s, se_servers = [sv]\<rparr>" by simp
      ultimately show ?thesis unfolding l by simp
    qed
    show "entry_listeners ?v j q \<noteq> {}" if "sb_configs (ls_subs ?v) j = Some q" for j q
      using old [OF that] d(5) [of j q] unfolding l by auto
    show "j = k" if "sb_configs (ls_subs ?v) j = Some q" "sb_configs (ls_subs ?v) k = Some q" for j k q
      using old [OF that(1)] old [OF that(2)] d(6) [of j q k] by auto
  qed
qed

lemma listen_ok_leaves:
  assumes ok: "listen_ok w" and leaves: "(i, p, sv) \<in> set (ls_listeners w)"
  shows "listen_ok (w\<lparr>ls_subs := stop_listening i p sv (ls_subs w), ls_listeners := remove1 (i, p, sv) (ls_listeners w)\<rparr>)"
    (is "listen_ok ?v")
proof -
  note d = listen_okD [OF ok]
  have p: "sb_configs (ls_subs w) i = Some p" by (rule d(2) [OF leaves])
  let ?left = "removeAll sv (se_servers (sb_heap (ls_subs w) ! p))"
  have "distinct (ls_listeners w)" using d(1) by (simp add: distinct_map)
  then have r: "set (remove1 (i, p, sv) (ls_listeners w)) = set (ls_listeners w) - {(i, p, sv)}" by simp
  have f: "sb_configs (ls_subs ?v) = (if ?left = [] then (sb_configs (ls_subs w))(i := None) else sb_configs (ls_subs w))"
    "length (sb_heap (ls_subs ?v)) = length (sb_heap (ls_subs w))"
    "ls_listeners ?v = remove1 (i, p, sv) (ls_listeners w)"
    by (simp_all add: stop_listening_def Let_def)
  have h: "sb_heap (ls_subs ?v) = (sb_heap (ls_subs w))[p := (sb_heap (ls_subs w) ! p)\<lparr>se_servers := ?left\<rparr>]"
    by (simp add: stop_listening_def Let_def)
  have heap: "set (se_servers (sb_heap (ls_subs ?v) ! q)) =
      (if q = p then set (se_servers (sb_heap (ls_subs w) ! q)) - {sv} else set (se_servers (sb_heap (ls_subs w) ! q)))" for q
    using d(3) [OF p] unfolding h by (simp add: nth_list_update)
  have l: "entry_listeners ?v j q = (if j = i \<and> q = p then entry_listeners w j q - {sv} else entry_listeners w j q)" for j q
    unfolding entry_listeners_def f(3) r by auto
  have left: "?left = [] \<longleftrightarrow> entry_listeners ?v i p = {}"
    unfolding l using d(4) [OF p] by (simp flip: set_empty)
  have old: "sb_configs (ls_subs w) j = Some q" "j = i \<Longrightarrow> q = p \<and> entry_listeners ?v i p \<noteq> {}"
    if "sb_configs (ls_subs ?v) j = Some q" for j q
    using that p left unfolding f by (auto split: if_splits)
  show ?thesis
  proof (rule listen_okI)
    have "distinct (map (snd \<circ> snd) (remove1 (i, p, sv) (ls_listeners w)))"
      using d(1) by (simp add: distinct_map inj_on_diff r)
    then show "distinct (map (snd \<circ> snd) (ls_listeners ?v))" unfolding f(3) .
    show "sb_configs (ls_subs ?v) j = Some q" if m: "(j, q, x) \<in> set (ls_listeners ?v)" for j q x
    proof -
      have j: "sb_configs (ls_subs w) j = Some q" using m d(2) unfolding f(3) r by blast
      have x: "x \<in> entry_listeners ?v j q" using m by (simp add: entry_listeners_def)
      show ?thesis
      proof (cases "j = i")
        case True
        with x j p have "entry_listeners ?v i p \<noteq> {}" by auto
        with left True j show ?thesis unfolding f(1) by simp
      next
        case False
        with j show ?thesis unfolding f(1) by simp
      qed
    qed
    show "q < length (sb_heap (ls_subs ?v))" if "sb_configs (ls_subs ?v) j = Some q" for j q
      using d(3) [OF old(1) [OF that]] unfolding f(2) .
    show "set (se_servers (sb_heap (ls_subs ?v) ! q)) = entry_listeners ?v j q" if "sb_configs (ls_subs ?v) j = Some q" for j q
    proof -
      have "q = p \<longleftrightarrow> j = i" using old(1) [OF that] p d(6) by auto
      with d(4) [OF old(1) [OF that]] show ?thesis unfolding heap l by auto
    qed
    show "entry_listeners ?v j q \<noteq> {}" if "sb_configs (ls_subs ?v) j = Some q" for j q
      using old [OF that] d(5) [of j q] l [of j q] by (cases "j = i") auto
    show "j = k" if "sb_configs (ls_subs ?v) j = Some q" "sb_configs (ls_subs ?v) k = Some q" for j k q
      using d(6) [OF old(1) [OF that(1)] old(1) [OF that(2)]] .
  qed
qed

lemma listen_ok_next:
  assumes ok: "listen_ok w" and v: "listen_next w a = Some v"
  shows "listen_ok v"
proof (cases a)
  case (Observe i joins sv s)
  with v have new: "joins \<Longrightarrow> sv \<notin> (snd \<circ> snd) ` set (ls_listeners w)"
    by (auto simp: listen_next_def split: if_splits)
  show ?thesis
  proof (cases "sb_configs (ls_subs w) i")
    case (Some p)
    define b where "b = fst (observe i joins sv s (ls_subs w))"
    have "v = w\<lparr>ls_subs := b, ls_listeners := (if joins then (i, p, sv) # ls_listeners w else ls_listeners w)\<rparr>"
      using v Observe Some by (cases w) (auto simp: listen_next_def observe_def b_def Let_def split: if_splits)
    moreover have "b = (ls_subs w)\<lparr>sb_heap := (sb_heap (ls_subs w))[p := \<lparr>se_seen = s, se_servers =
        (if joins then List.insert sv (se_servers (sb_heap (ls_subs w) ! p)) else se_servers (sb_heap (ls_subs w) ! p))\<rparr>]\<rparr>"
      using Some by (simp add: b_def observe_def Let_def)
    ultimately show ?thesis using listen_ok_seen [where joins = joins and s = s, OF ok Some new] by simp
  next
    case None
    show ?thesis
    proof (cases joins)
      case True
      with v Observe new None listen_ok_first [where s = s, OF ok None new [OF True]] show ?thesis
        by (simp add: listen_next_def observe_def)
    next
      case False
      with v Observe None ok show ?thesis by (simp add: listen_next_def observe_def)
    qed
  qed
next
  case (Listener_leaves i p sv)
  with v listen_ok_leaves [OF ok, of i p sv] show ?thesis by (simp add: listen_next_def split: if_splits)
qed

interpretation lm: invariant_machine listen_start listen_moves listen_ok
proof unfold_locales
  show "listen_ok w" if "listen_start w" for w :: "'t listening"
    using that by (simp add: listen_start_def listen_ok_def no_subscriptions_def)
  show "listen_ok v" if "listen_ok w" "listen_moves w a v" for w v :: "'t listening" and a
    using that(2) unfolding listen_moves_def by (rule listen_ok_next [OF that(1)])
qed

text \<open>
  C36: A change that a request of a configuration sees is announced to exactly the clients that listen to that
  configuration at this moment, however listening and leaving overlap; and the catalog of a configuration is
  retained exactly while somebody listens to it.
\<close>

theorem change_reaches_listeners:
  assumes "reach listen_start listen_moves w"
  shows "set (fst (snd (observe i joins sv s (ls_subs w)))) =
      (case sb_configs (ls_subs w) i of
         None \<Rightarrow> {}
       | Some p \<Rightarrow> if raw_tools_changed (se_seen (sb_heap (ls_subs w) ! p)) s
                 then {x. \<exists>q. (i, q, x) \<in> set (ls_listeners w)} else {})
    \<and> dom (sb_configs (ls_subs w)) = fst ` set (ls_listeners w)"
proof -
  note d = listen_okD [OF lm.reach_inv [OF assms]]
  have at: "{x. \<exists>q. (i, q, x) \<in> set (ls_listeners w)} = entry_listeners w i p"
    if "sb_configs (ls_subs w) i = Some p" for p
    using d(2) [of i] that unfolding entry_listeners_def by auto
  have "dom (sb_configs (ls_subs w)) = fst ` set (ls_listeners w)"
  proof (intro set_eqI iffI)
    fix j assume "j \<in> dom (sb_configs (ls_subs w))"
    then obtain p where "sb_configs (ls_subs w) j = Some p" by blast
    from d(5) [OF this] show "j \<in> fst ` set (ls_listeners w)" unfolding entry_listeners_def by force
  next
    fix j assume "j \<in> fst ` set (ls_listeners w)"
    then obtain p x where "(j, p, x) \<in> set (ls_listeners w)" by force
    from d(2) [OF this] show "j \<in> dom (sb_configs (ls_subs w))" by blast
  qed
  with at d(4) [of i] show ?thesis by (auto simp: observe_def Let_def split: option.split)
qed

definition empty_seen :: "string \<Rightarrow> unit seen" where
  "empty_seen fp = \<lparr>sn_catalog = new_compile_catalog True, sn_fingerprint = fp, sn_tool_search = False\<rparr>"

definition sample_listening :: "unit listening option" where
  "sample_listening = play listen_next \<lparr>ls_subs = no_subscriptions, ls_listeners = []\<rparr>
     [Observe ''c'' True 1 (empty_seen ''x''), Observe ''c'' True 2 (empty_seen ''x''), Listener_leaves ''c'' 0 1]"

theorem change_reaches_listeners_witness:
  "set (fst (snd (observe ''c'' False 3 (empty_seen ''y'') (ls_subs (the sample_listening))))) =
      (case sb_configs (ls_subs (the sample_listening)) ''c'' of
         None \<Rightarrow> {}
       | Some p \<Rightarrow> if raw_tools_changed (se_seen (sb_heap (ls_subs (the sample_listening)) ! p)) (empty_seen ''y'')
                 then {x. \<exists>q. (''c'', q, x) \<in> set (ls_listeners (the sample_listening))} else {})
    \<and> dom (sb_configs (ls_subs (the sample_listening))) = fst ` set (ls_listeners (the sample_listening))"
proof (rule change_reaches_listeners)
  have "sample_listening \<noteq> None"
    by (simp add: sample_listening_def listen_next_def observe_def no_subscriptions_def Let_def)
  then have "play listen_next \<lparr>ls_subs = no_subscriptions, ls_listeners = []\<rparr>
     [Observe ''c'' True 1 (empty_seen ''x''), Observe ''c'' True 2 (empty_seen ''x''), Listener_leaves ''c'' 0 1]
     = Some (the sample_listening)" unfolding sample_listening_def by simp
  then show "reach listen_start listen_moves (the sample_listening)"
    by (rule play_reach [OF reach_init, rotated 2]) (simp_all add: listen_start_def listen_moves_def)
qed

section \<open>A session that misses announcements\<close>

text \<open>While a session has its server and the binding, the component's announcements reach it.\<close>

lemma bound_session_matches:
  "sid \<noteq> [] \<Longrightarrow> server \<in> set (matching fp name (bind_component session fp name (fst (bind_server session sid server b))))"
proof -
  assume "sid \<noteq> []"
  define c where "c = fst (bind_server session sid server b)"
  then have s: "fb_servers c session = Some server" using \<open>sid \<noteq> []\<close> by (simp add: bind_server_def Let_def)
  define bs where "bs = List.insert (fp, name) (bindings_of session c)"
  have "map_of (AList.update session bs (fb_sessions c)) session = Some bs" by (simp add: update_conv')
  then have "(session, bs) \<in> set (AList.update session bs (fb_sessions c))" by (rule map_of_SomeD)
  with s show ?thesis
    by (force simp: matching_def bind_component_def bs_def c_def [symmetric])
qed

text \<open>
  But a session can lose its server: a request of the session has begun for one component when the last
  runtime of another one closes, and then opens its runtime. The session is bound to the component, yet the
  component's announcements pass it by until its next request.
\<close>

theorem bound_session_misses_announcements:
  "\<exists>b. b = bind_component 1 ''f'' ''new'' (unbind_component 1 ''f'' ''old'' (fst (bind_server 1 ''sid'' 5
         (bind_component 1 ''f'' ''old'' (fst (bind_server 1 ''sid'' 5 no_bindings))))))
    \<and> bindings_of 1 b = [(''f'', ''new'')] \<and> fb_watched b = [1] \<and> matching ''f'' ''new'' b = []
    \<and> matching ''f'' ''new'' (fst (bind_server 1 ''sid'' 5 b)) = [5]"
  by (simp add: bind_component_def unbind_component_def bind_server_def no_bindings_def bindings_of_def matching_def Let_def)

definition plain_tool :: "string \<Rightarrow> mcp_tool" where
  "plain_tool name = \<lparr>tool_name = name, tool_description = [], tool_input_schema = JNull, tool_output_schema = None,
     tool_rest = JNull\<rparr>"

definition seen_tools :: "string \<Rightarrow> mcp_tool list \<Rightarrow> unit seen" where
  "seen_tools fp ts = \<lparr>sn_catalog = (new_compile_catalog False)\<lparr>cat_tools := ts, cat_visible_tools := ts\<rparr>,
     sn_fingerprint = fp, sn_tool_search = False\<rparr>"

theorem visible_change_announced_witness:
  "Feature_tools \<in> set (session_notices ''tools/call''
     (session_changes \<lparr>fe_protocol_version = None, fe_meta_version = None\<rparr>
        (Some (seen_tools ''x'' [])) (seen_tools ''y'' [plain_tool ''a''])))"
  by (rule visible_change_announced)
    (simp_all add: shows_tools_def shown_tools_def seen_tools_def omit_modern_tool_output_schemas_def new_compile_catalog_def)

end
