(* ===== verification/Sessions.thy ===== *)
theory Sessions
  imports Notifications Downstream
begin

text \<open>
  The frontend sessions around the bindings of \<open>Notifications\<close>: their end when the server closes
  (\<open>frontendBindings.close\<close> of \<open>notifications.go\<close>), what a component's notification is handed to (\<open>NewClient\<close> of
  \<open>component/callbacks.go\<close> and the callbacks of \<open>callbacksForComponent\<close>), and the client's identity on its way to
  the components (\<open>forwardClientInfoMiddleware\<close> of \<open>composite.go\<close>).
\<close>

section \<open>The end of the sessions\<close>

text \<open>
  The watched sessions are closed one after the other; then \<open>close\<close> waits until all their watchers have removed
  them. \<open>close_session\<close> is the error of closing a session.
\<close>

definition close_bindings :: "(nat \<Rightarrow> 'e option) \<Rightarrow> frontend_bindings \<Rightarrow> 'e list \<times> frontend_bindings" where
  "close_bindings close_session b =
     (concat (map (\<lambda>s. case close_session s of None \<Rightarrow> [] | Some e \<Rightarrow> [e]) (fb_watched b)),
      fold session_ended (fb_watched b) b)"

text \<open>Every server that is announced to belongs to a watched session; all operations keep that.\<close>

definition servers_watched :: "frontend_bindings \<Rightarrow> bool" where
  "servers_watched b \<longleftrightarrow> dom (fb_servers b) \<subseteq> set (fb_watched b)"

datatype binding_act = Bind_server nat string nat | Bind_component nat string string | Unbind_component nat string string
  | Session_ended nat

fun binding_next :: "frontend_bindings \<Rightarrow> binding_act \<Rightarrow> frontend_bindings" where
  "binding_next b (Bind_server session sid server) = fst (bind_server session sid server b)"
| "binding_next b (Bind_component session fingerprint name) = bind_component session fingerprint name b"
| "binding_next b (Unbind_component session fingerprint name) = unbind_component session fingerprint name b"
| "binding_next b (Session_ended session) = session_ended session b"

lemma servers_watched_ended: "servers_watched b \<Longrightarrow> servers_watched (session_ended s b)"
  by (auto simp: servers_watched_def session_ended_def)

interpretation bm: invariant_machine "\<lambda>b. b = no_bindings" "\<lambda>b a c. c = binding_next b a" servers_watched
proof unfold_locales
  show "servers_watched b" if "b = no_bindings" for b using that by (simp add: servers_watched_def no_bindings_def)
  show "servers_watched c" if "servers_watched b" "c = binding_next b a" for b a c
    using that servers_watched_ended
    by (cases a) (auto simp: servers_watched_def bind_server_def bind_component_def unbind_component_def Let_def
        split: if_splits)
qed

lemma fold_session_ended:
  "fb_watched (fold session_ended ss b) = filter (\<lambda>s. s \<notin> set ss) (fb_watched b)
    \<and> dom (fb_servers (fold session_ended ss b)) = dom (fb_servers b) - set ss"
proof (induction ss arbitrary: b)
  case (Cons s ss)
  have "fb_watched (session_ended s b) = filter (\<lambda>x. x \<noteq> s) (fb_watched b)"
    "dom (fb_servers (session_ended s b)) = dom (fb_servers b) - {s}"
    by (simp_all add: session_ended_def removeAll_filter_not_eq eq_commute)
  moreover have "filter (\<lambda>x. x \<notin> set ss) (filter (\<lambda>x. x \<noteq> s) xs) = filter (\<lambda>x. x \<notin> set (s # ss)) xs" for xs
    by (induction xs) auto
  ultimately show ?case using Cons [of "session_ended s b"] by auto
qed simp

text \<open>Once the server has closed its sessions nobody is watched, and no announcement reaches anybody.\<close>

lemma close_bindings_silences:
  assumes "reach (\<lambda>b. b = no_bindings) (\<lambda>b a c. c = binding_next b a) b"
  shows "fb_watched (snd (close_bindings close_session b)) = []
    \<and> matching fingerprint name (snd (close_bindings close_session b)) = []"
proof -
  let ?c = "fold session_ended (fb_watched b) b"
  from fold_session_ended [of "fb_watched b" b] bm.reach_inv [OF assms]
  have w: "fb_watched ?c = []" and "dom (fb_servers ?c) = {}" by (auto simp: servers_watched_def)
  then have "fb_servers ?c s = None" for s by auto
  then show ?thesis by (simp add: close_bindings_def matching_def w split_def)
qed

section \<open>Notifications of a component\<close>

text \<open>
  Which callbacks a client of a component has, and the frontend session it is bound to. \<open>'p\<close> and \<open>'l\<close> are the
  parameters of progress and of log messages.
\<close>

record callbacks =
  cb_frontend :: bool
  cb_progress :: bool
  cb_logging :: bool
  cb_list_changed :: bool
  cb_resource_update :: bool

text \<open>A request may be nil (the outer option), and so may its parameters.\<close>

datatype ('p, 'l) notification = Progress_note "'p option option" | Logging_note "'l option option" | Tools_changed_note
  | Prompts_changed_note | Resources_changed_note | Updated_note "string option option"

datatype ('p, 'l) callback_call = Call_progress "'p option" | Call_logging "'l option" | Call_list_changed feature_family
  | Call_resource_update string

text \<open>\<open>NewClient\<close>: the handlers that are installed, and what they call.\<close>

definition client_notify :: "callbacks \<Rightarrow> ('p, 'l) notification \<Rightarrow> ('p, 'l) callback_call option" where
  "client_notify cb note =
     (case note of
        Progress_note req \<Rightarrow> if cb_progress cb then map_option Call_progress req else None
      | Logging_note req \<Rightarrow> if cb_logging cb then map_option Call_logging req else None
      | Tools_changed_note \<Rightarrow> if cb_list_changed cb then Some (Call_list_changed Feature_tools) else None
      | Prompts_changed_note \<Rightarrow> if cb_list_changed cb then Some (Call_list_changed Feature_prompts) else None
      | Resources_changed_note \<Rightarrow> if cb_list_changed cb then Some (Call_list_changed Feature_resources) else None
      | Updated_note req \<Rightarrow>
          if \<not> cb_resource_update cb then None
          else (case req of Some (Some uri) \<Rightarrow> Some (Call_resource_update uri) | _ \<Rightarrow> None))"

text \<open>Progress and log messages go on to the frontend, if there is one and they have parameters.\<close>

definition forward_params :: "bool \<Rightarrow> 'p option \<Rightarrow> 'p option" where
  "forward_params has_frontend params = (if has_frontend then params else None)"

section \<open>The identity of the client\<close>

text \<open>\<open>provided\<close>: what the request says of its client, if requests of its type do.\<close>

definition forward_client_info ::
    "bool \<Rightarrow> implementation option option \<Rightarrow> 'v call_ctx \<Rightarrow> 'v call_ctx" where
  "forward_client_info forward provided cx =
     (if \<not> forward then cx
      else case provided of None \<Rightarrow> cx | Some info \<Rightarrow> context_with_client_info info cx)"

text \<open>Without the option no component learns who the client is, whatever the request says.\<close>

lemma client_info_kept_private:
  "cc_client_info cx = None \<Longrightarrow> client_info_from_context (without_values (forward_client_info False provided cx)) = None"
  by (simp add: forward_client_info_def without_values_def client_info_from_context_def)

lemma client_info_forwarded:
  "impl_name i \<noteq> [] \<Longrightarrow> client_info_from_context (without_values (forward_client_info True (Some (Some i)) cx)) = Some i"
  by (simp add: forward_client_info_def without_values_def client_info_from_context_def context_with_client_info_def)

end
