(* ===== verification/Event_Store.thy ===== *)
theory Event_Store
  imports Prelude "HOL-Library.Word"
begin

text \<open>
  The event log behind resumable streams: \<open>storage/eventstore.go\<close>, the pruning of
  \<open>storage/eventstore_sqlite.go\<close>, and \<open>storage/options.go\<close>. A database is its two tables; every
  function below is what one transaction does to them, the SQL statements written out on the lists of
  rows. The server of a dialect promises the semantics of SQL and serialisable transactions; the
  order of text is the order of bytes (in SQLite; other collations change which event of several with
  the same time is pruned first, which no property below depends on). Times, sizes and the indices of
  stored events are 64-bit in the code and stay far below the bounds, so they are integers here. The
  index a reader asks for comes from a client: it is a 64-bit word, and adding one to it wraps. The
  clock of the options is the argument \<open>now\<close>, in nanoseconds.
\<close>

section \<open>Options\<close>

record options =
  opt_data_directory :: string
  opt_event_ttl :: int
  opt_max_event_bytes :: int
  opt_max_open_conns :: int
  opt_max_idle_conns :: int
  opt_conn_max_lifetime :: int

definition normalized :: "options \<Rightarrow> options" where
  "normalized opts =
     (let opts = (if opt_event_ttl opts \<le> 0 then opts\<lparr>opt_event_ttl := 24 * 3600 * 1000000000\<rparr> else opts);
          opts = (if opt_max_event_bytes opts \<le> 0 then opts\<lparr>opt_max_event_bytes := 10 * 1048576\<rparr> else opts);
          opts = (if opt_max_open_conns opts \<le> 0 then opts\<lparr>opt_max_open_conns := 10\<rparr> else opts);
          opts = (if opt_max_idle_conns opts < 0 then opts\<lparr>opt_max_idle_conns := 0\<rparr>
               else if opt_max_idle_conns opts = 0 then opts\<lparr>opt_max_idle_conns := 5\<rparr> else opts);
          opts = (if opt_max_idle_conns opts > opt_max_open_conns opts
               then opts\<lparr>opt_max_idle_conns := opt_max_open_conns opts\<rparr> else opts)
      in if opt_conn_max_lifetime opts \<le> 0 then opts\<lparr>opt_conn_max_lifetime := 30 * 60 * 1000000000\<rparr> else opts)"

lemma normalized_positive: "opt_event_ttl (normalized opts) > 0" "opt_max_event_bytes (normalized opts) > 0"
  by (simp_all add: normalized_def Let_def)

section \<open>The tables\<close>

record stream_row =
  sr_session :: string
  sr_stream :: string
  sr_first :: int
  sr_next :: int
  sr_expires :: int
  sr_updated :: int

record log_row =
  lr_session :: string
  lr_stream :: string
  lr_index :: int
  lr_payload :: string
  lr_is_null :: bool
  lr_size :: int
  lr_created :: int

record database =
  db_streams :: "stream_row list"
  db_log :: "log_row list"

definition stream_key :: "stream_row \<Rightarrow> string \<times> string" where
  "stream_key r = (sr_session r, sr_stream r)"

definition event_key :: "log_row \<Rightarrow> string \<times> string" where
  "event_key r = (lr_session r, lr_stream r)"

text \<open>\<open>ORDER BY created_at, session_id, stream_id, event_index\<close> is the order of these keys.\<close>

datatype prune_key = Prune_key (pk_created: int) (pk_session: string) (pk_stream: string) (pk_index: int)

definition pk_tuple :: "prune_key \<Rightarrow> int \<times> string \<times> string \<times> int" where
  "pk_tuple k = (pk_created k, pk_session k, pk_stream k, pk_index k)"

lemma pk_tuple_inj: "pk_tuple a = pk_tuple b \<Longrightarrow> a = b"
  by (cases a; cases b) (simp add: pk_tuple_def)

instantiation prune_key :: linorder
begin

definition less_eq_prune_key :: "prune_key \<Rightarrow> prune_key \<Rightarrow> bool" where
  "less_eq_prune_key a b \<longleftrightarrow> pk_tuple a \<le> pk_tuple b"

definition less_prune_key :: "prune_key \<Rightarrow> prune_key \<Rightarrow> bool" where
  "less_prune_key a b \<longleftrightarrow> pk_tuple a < pk_tuple b"

instance
proof
  fix a b c :: prune_key
  show "a < b \<longleftrightarrow> a \<le> b \<and> \<not> b \<le> a" by (auto simp: less_eq_prune_key_def less_prune_key_def)
  show "a \<le> a" by (simp add: less_eq_prune_key_def)
  show "a \<le> b \<Longrightarrow> b \<le> c \<Longrightarrow> a \<le> c" by (simp add: less_eq_prune_key_def)
  show "a \<le> b \<Longrightarrow> b \<le> a \<Longrightarrow> a = b" by (simp add: less_eq_prune_key_def pk_tuple_inj)
  show "a \<le> b \<or> b \<le> a" by (auto simp: less_eq_prune_key_def)
qed

end

definition prune_key_of :: "log_row \<Rightarrow> prune_key" where
  "prune_key_of r = Prune_key (lr_created r) (lr_session r) (lr_stream r) (lr_index r)"

section \<open>The transactions\<close>

text \<open>\<open>pruneTx\<close>: expired streams go with their events, then the oldest events until the sizes fit.\<close>

definition expired_keys :: "int \<Rightarrow> database \<Rightarrow> (string \<times> string) list" where
  "expired_keys now db = map stream_key (filter (\<lambda>r. sr_expires r \<le> now) (db_streams db))"

definition delete_expired :: "int \<Rightarrow> database \<Rightarrow> database" where
  "delete_expired now db =
     \<lparr>db_streams = filter (\<lambda>r. \<not> sr_expires r \<le> now) (db_streams db),
      db_log = filter (\<lambda>r. event_key r \<notin> set (expired_keys now db)) (db_log db)\<rparr>"

definition delete_oldest :: "database \<Rightarrow> database" where
  "delete_oldest db =
     (let old = arg_min_list prune_key_of (db_log db); watermark = lr_index old + 1
      in \<lparr>db_streams = map (\<lambda>s. if stream_key s = event_key old \<and> sr_first s < watermark
                             then s\<lparr>sr_first := watermark\<rparr> else s) (db_streams db),
          db_log = filter (\<lambda>r. \<not> (event_key r = event_key old \<and> lr_index r = lr_index old)) (db_log db)\<rparr>)"

definition total_bytes :: "database \<Rightarrow> int" where
  "total_bytes db = sum_list (map lr_size (db_log db))"

text \<open>
  The loop keeps the two sums it queried at the start up to date by hand. Without a row to select the
  code would return an error; the count says that there is one (\<open>prune_loop_has_row\<close>).
\<close>

function prune_loop :: "int \<Rightarrow> int \<Rightarrow> int \<Rightarrow> database \<Rightarrow> database" where
  "prune_loop max_bytes bytes event_count db =
     (if bytes > max_bytes \<and> event_count > 1 \<and> db_log db \<noteq> []
      then prune_loop max_bytes (bytes - lr_size (arg_min_list prune_key_of (db_log db))) (event_count - 1)
             (delete_oldest db)
      else db)"
  by pat_completeness auto
termination
  by (relation "measure (\<lambda>(m, t, n, db). nat n)") auto

declare prune_loop.simps [simp del]

definition prune_tx :: "options \<Rightarrow> int \<Rightarrow> database \<Rightarrow> database" where
  "prune_tx opts now db =
     (let db = delete_expired now db
      in prune_loop (opt_max_event_bytes opts) (total_bytes db) (int (length (db_log db))) db)"

text \<open>\<open>Open\<close>: the upsert of \<open>openStreamSQL\<close>, then a prune.\<close>

definition upsert_stream :: "string \<Rightarrow> string \<Rightarrow> int \<Rightarrow> int \<Rightarrow> database \<Rightarrow> database" where
  "upsert_stream session stream expires now db =
     (if (session, stream) \<in> stream_key ` set (db_streams db)
      then db\<lparr>db_streams := map (\<lambda>s. if stream_key s = (session, stream)
                                   then s\<lparr>sr_expires := expires, sr_updated := now\<rparr> else s) (db_streams db)\<rparr>
      else db\<lparr>db_streams := db_streams db @ [\<lparr>sr_session = session, sr_stream = stream, sr_first = 0, sr_next = 0,
               sr_expires = expires, sr_updated = now\<rparr>]\<rparr>)"

definition open_stream :: "options \<Rightarrow> int \<Rightarrow> string \<Rightarrow> string \<Rightarrow> database \<Rightarrow> database" where
  "open_stream opts now session stream db =
     prune_tx opts now (upsert_stream session stream (now + opt_event_ttl opts) now db)"

definition find_stream :: "string \<Rightarrow> string \<Rightarrow> database \<Rightarrow> stream_row option" where
  "find_stream session stream db = find (\<lambda>s. stream_key s = (session, stream)) (db_streams db)"

text \<open>
  \<open>Append\<close>: an unknown stream is an error; the insertion fails when the primary key exists. A nil
  payload is stored as an empty one with a flag.
\<close>

datatype store_error = Store_closed | Unknown_stream | Duplicate_event | Events_purged

definition append_event ::
    "options \<Rightarrow> int \<Rightarrow> string \<Rightarrow> string \<Rightarrow> string option \<Rightarrow> database \<Rightarrow> (store_error, database) res" where
  "append_event opts now session stream data db =
     (case find_stream session stream db of
        None \<Rightarrow> Inl Unknown_stream
      | Some s \<Rightarrow>
          let i = sr_next s;
              row = \<lparr>lr_session = session, lr_stream = stream, lr_index = i,
                     lr_payload = (case data of None \<Rightarrow> [] | Some b \<Rightarrow> b), lr_is_null = (data = None),
                     lr_size = int (length (case data of None \<Rightarrow> [] | Some b \<Rightarrow> b)), lr_created = now\<rparr>
          in if list_ex (\<lambda>r. event_key r = (session, stream) \<and> lr_index r = i) (db_log db)
             then Inl Duplicate_event
             else Inr (prune_tx opts now
                    \<lparr>db_streams = map (\<lambda>s. if stream_key s = (session, stream)
                       then s\<lparr>sr_next := i + 1, sr_expires := now + opt_event_ttl opts, sr_updated := now\<rparr> else s)
                       (db_streams db),
                     db_log = db_log db @ [row]\<rparr>))"

definition row_value :: "log_row \<Rightarrow> string option" where
  "row_value r = (if lr_is_null r then None else Some (lr_payload r))"

text \<open>
  \<open>readAfter\<close>, the snapshot behind \<open>After\<close>. \<open>int64(index) + 1\<close> wraps around to the least integer when
  \<open>index\<close> is the greatest one.
\<close>

definition read_after :: "string \<Rightarrow> string \<Rightarrow> 64 word \<Rightarrow> database \<Rightarrow> (store_error, string option list) res" where
  "read_after session stream index db =
     (case find_stream session stream db of
        None \<Rightarrow> Inl Events_purged
      | Some s \<Rightarrow>
          let start = index + 1
          in if sr_first s > sint start then Inl Events_purged
             else if sint start \<ge> sr_next s then Inr []
             else Inr (map row_value (sort_key lr_index
                    (filter (\<lambda>r. event_key r = (session, stream) \<and> lr_index r > sint index) (db_log db)))))"

text \<open>\<open>After\<close> hands the values to the consumer until it has enough: \<open>wanted\<close> is how many it takes.\<close>

definition after_events ::
    "nat \<Rightarrow> string \<Rightarrow> string \<Rightarrow> 64 word \<Rightarrow> database \<Rightarrow> (store_error + string option) list" where
  "after_events wanted session stream index db =
     take wanted (case read_after session stream index db of Inl e \<Rightarrow> [Inl e] | Inr vs \<Rightarrow> map Inr vs)"

definition session_closed :: "string \<Rightarrow> database \<Rightarrow> database" where
  "session_closed session db =
     \<lparr>db_streams = filter (\<lambda>s. sr_session s \<noteq> session) (db_streams db),
      db_log = filter (\<lambda>r. lr_session r \<noteq> session) (db_log db)\<rparr>"

text \<open>
  \<open>runTransaction\<close>: \<open>fault k\<close> is what the database fails attempt \<open>k\<close> with, \<open>retryable\<close> whether such an error
  is a lost race, \<open>cancelled k\<close> whether the context ends during the pause after it. A failed attempt is
  rolled back.
\<close>

datatype 'e tx_error = Database 'e | Operation store_error | Tx_cancelled

function run_transaction ::
    "(nat \<Rightarrow> 'e option) \<Rightarrow> ('e \<Rightarrow> bool) \<Rightarrow> (nat \<Rightarrow> bool) \<Rightarrow> (database \<Rightarrow> (store_error, database) res)
     \<Rightarrow> nat \<Rightarrow> database \<Rightarrow> ('e tx_error, database) res" where
  "run_transaction fault retryable cancelled operation attempt db =
     (case fault attempt of
        None \<Rightarrow> (case operation db of Inl e \<Rightarrow> Inl (Operation e) | Inr db' \<Rightarrow> Inr db')
      | Some e \<Rightarrow>
          if \<not> retryable e \<or> attempt \<ge> 4 then Inl (Database e)
          else if cancelled attempt then Inl Tx_cancelled
          else run_transaction fault retryable cancelled operation (attempt + 1) db)"
  by pat_completeness auto
termination
  by (relation "measure (\<lambda>(f, r, c, op, k, db). 5 - k)") auto

declare run_transaction.simps [simp del]

section \<open>The histories of the streams\<close>

text \<open>
  The abstract view of the store: the list of everything appended to each stream since it was made. A
  row of the log holds the element of the history at its index, and from the first retained index on
  no row is missing.
\<close>

type_synonym history = "string \<times> string \<Rightarrow> string option list option"

definition row_id :: "log_row \<Rightarrow> (string \<times> string) \<times> int" where
  "row_id r = (event_key r, lr_index r)"

definition stream_ok :: "history \<Rightarrow> log_row list \<Rightarrow> stream_row \<Rightarrow> bool" where
  "stream_ok H rows s \<longleftrightarrow> (\<exists>h. H (stream_key s) = Some h \<and> sr_next s = int (length h)
     \<and> 0 \<le> sr_first s \<and> sr_first s \<le> sr_next s
     \<and> (\<forall>i. sr_first s \<le> i \<longrightarrow> i < sr_next s \<longrightarrow> (stream_key s, i) \<in> row_id ` set rows))"

definition row_ok :: "history \<Rightarrow> log_row \<Rightarrow> bool" where
  "row_ok H r \<longleftrightarrow> (\<exists>h. H (event_key r) = Some h \<and> 0 \<le> lr_index r \<and> lr_index r < int (length h)
     \<and> row_value r = h ! nat (lr_index r))"

definition store_ok :: "history \<Rightarrow> database \<Rightarrow> bool" where
  "store_ok H db \<longleftrightarrow> distinct (map stream_key (db_streams db)) \<and> distinct (map row_id (db_log db))
     \<and> (\<forall>s\<in>set (db_streams db). stream_ok H (db_log db) s) \<and> (\<forall>r\<in>set (db_log db). row_ok H r)
     \<and> (\<forall>k. H k \<noteq> None \<longrightarrow> k \<in> stream_key ` set (db_streams db))"

lemma store_okI:
  assumes "distinct (map stream_key (db_streams db))" and "distinct (map row_id (db_log db))"
    and "\<And>s. s \<in> set (db_streams db) \<Longrightarrow> stream_ok H (db_log db) s"
    and "\<And>r. r \<in> set (db_log db) \<Longrightarrow> row_ok H r"
    and "\<And>k. H k \<noteq> None \<Longrightarrow> k \<in> stream_key ` set (db_streams db)"
  shows "store_ok H db"
  using assms unfolding store_ok_def by blast

lemma store_okD:
  assumes "store_ok H db"
  shows "distinct (map stream_key (db_streams db))" and "distinct (map row_id (db_log db))"
    and "s \<in> set (db_streams db) \<Longrightarrow> stream_ok H (db_log db) s"
    and "r \<in> set (db_log db) \<Longrightarrow> row_ok H r"
    and "H k \<noteq> None \<Longrightarrow> k \<in> stream_key ` set (db_streams db)"
  using assms unfolding store_ok_def by blast+

lemma filter_id_remove1:
  "distinct (map f xs) \<Longrightarrow> x \<in> set xs \<Longrightarrow> filter (\<lambda>r. f r \<noteq> f x) xs = remove1 x xs"
proof (induction xs)
  case (Cons a xs)
  show ?case
  proof (cases "a = x")
    case True
    with Cons.prems have "filter (\<lambda>r. f r \<noteq> f x) xs = xs"
      by (intro filter_True) (auto simp: image_iff)
    with True show ?thesis by simp
  next
    case False
    with Cons have "x \<in> set xs" "f a \<noteq> f x" by auto
    with False Cons show ?thesis by simp
  qed
qed simp

lemma delete_oldest_log:
  assumes "distinct (map row_id (db_log db))" and "db_log db \<noteq> []"
  shows "db_log (delete_oldest db) = remove1 (arg_min_list prune_key_of (db_log db)) (db_log db)"
proof -
  let ?x = "arg_min_list prune_key_of (db_log db)"
  have "?x \<in> set (db_log db)" by (rule arg_min_list_in [OF assms(2)])
  from filter_id_remove1 [OF assms(1) this] show ?thesis
    by (simp add: delete_oldest_def Let_def row_id_def)
qed

lemma oldest_in: "db_log db \<noteq> [] \<Longrightarrow> arg_min_list prune_key_of (db_log db) \<in> set (db_log db)"
  by (rule arg_min_list_in)

lemma same_keys_image: "map f xs = map f ys \<Longrightarrow> k \<in> f ` set ys \<Longrightarrow> k \<in> f ` set xs"
  by (metis set_map)

text \<open>Deleting the oldest event keeps the store complete above the watermark.\<close>

lemma delete_oldest_ok:
  assumes ok: "store_ok H db" and ne: "db_log db \<noteq> []"
  shows "store_ok H (delete_oldest db)"
proof (rule store_okI)
  let ?old = "arg_min_list prune_key_of (db_log db)"
  let ?up = "\<lambda>s. if stream_key s = event_key ?old \<and> sr_first s < lr_index ?old + 1 then s\<lparr>sr_first := lr_index ?old + 1\<rparr> else s"
  have streams: "db_streams (delete_oldest db) = map ?up (db_streams db)" by (simp add: delete_oldest_def Let_def)
  have log: "db_log (delete_oldest db) = remove1 ?old (db_log db)"
    by (rule delete_oldest_log [OF store_okD(2) [OF ok] ne])
  have key: "stream_key (?up s) = stream_key s" for s by (simp add: stream_key_def)
  have keys: "map stream_key (db_streams (delete_oldest db)) = map stream_key (db_streams db)"
    unfolding streams map_map comp_def key ..
  have old: "?old \<in> set (db_log db)" by (rule oldest_in [OF ne])
  from store_okD(4) [OF ok old] obtain ho where ho: "H (event_key ?old) = Some ho" "lr_index ?old < int (length ho)" "0 \<le> lr_index ?old"
    by (auto simp: row_ok_def)
  show "distinct (map stream_key (db_streams (delete_oldest db)))"
    unfolding keys by (rule store_okD(1) [OF ok])
  show "distinct (map row_id (db_log (delete_oldest db)))"
    using store_okD(2) [OF ok] by (simp add: delete_oldest_def Let_def distinct_map_filter)
  show "row_ok H r" if "r \<in> set (db_log (delete_oldest db))" for r
    using that store_okD(4) [OF ok] by (auto simp: log dest: subsetD [OF set_remove1_subset])
  show "k \<in> stream_key ` set (db_streams (delete_oldest db))" if "H k \<noteq> None" for k
    using store_okD(5) [OF ok that] arg_cong [OF keys, of set] by simp
  fix s' assume "s' \<in> set (db_streams (delete_oldest db))"
  then obtain s where s: "s \<in> set (db_streams db)" and s': "s' = ?up s" by (auto simp: streams)
  from store_okD(3) [OF ok s] obtain h where h: "H (stream_key s) = Some h" "sr_next s = int (length h)"
    "0 \<le> sr_first s" "sr_first s \<le> sr_next s"
    "\<And>i. sr_first s \<le> i \<Longrightarrow> i < sr_next s \<Longrightarrow> (stream_key s, i) \<in> row_id ` set (db_log db)"
    by (auto simp: stream_ok_def)
  have next': "sr_next s' = sr_next s" by (simp add: s')
  have key': "stream_key s' = stream_key s" unfolding s' by (rule key)
  have same: "h = ho" if "stream_key s = event_key ?old" using that h(1) ho(1) by simp
  have kept: "(stream_key s, i) \<in> row_id ` set (db_log (delete_oldest db))"
    if "sr_first s' \<le> i" "i < sr_next s" for i
  proof -
    have "sr_first s \<le> i" using that(1) by (auto simp: s' split: if_splits)
    from h(5) [OF this that(2)] obtain r where r: "r \<in> set (db_log db)" "row_id r = (stream_key s, i)" by force
    have "r \<noteq> ?old"
    proof
      assume "r = ?old"
      with r(2) have "stream_key s = event_key ?old" "i = lr_index ?old" by (simp_all add: row_id_def)
      with that(1) show False by (auto simp: s' split: if_splits)
    qed
    with r(1) have "r \<in> set (db_log (delete_oldest db))" by (simp add: log)
    with r(2) show ?thesis by (metis image_eqI)
  qed
  have "0 \<le> sr_first s' \<and> sr_first s' \<le> sr_next s"
    using h(2-4) ho(2,3) same by (auto simp: s')
  with h(1,2) kept show "stream_ok H (db_log (delete_oldest db)) s'"
    unfolding stream_ok_def key' next' by blast
qed

lemma remove1_sizes:
  "x \<in> set xs \<Longrightarrow> sum_list (map f (remove1 x xs)) = sum_list (map f xs) - (f x :: int)"
  by (induction xs) auto

lemma delete_oldest_sums:
  assumes "store_ok H db" and "db_log db \<noteq> []"
  shows "total_bytes (delete_oldest db) = total_bytes db - lr_size (arg_min_list prune_key_of (db_log db))"
    and "int (length (db_log (delete_oldest db))) = int (length (db_log db)) - 1"
proof -
  note log = delete_oldest_log [OF store_okD(2) [OF assms(1)] assms(2)] and old = oldest_in [OF assms(2)]
  show "total_bytes (delete_oldest db) = total_bytes db - lr_size (arg_min_list prune_key_of (db_log db))"
    unfolding total_bytes_def log by (rule remove1_sizes [OF old])
  show "int (length (db_log (delete_oldest db))) = int (length (db_log db)) - 1"
    using old length_pos_if_in_set [OF old]
    by (simp add: log length_remove1 of_nat_diff Suc_leI del: of_nat_0_less_iff length_greater_0_conv)
qed

lemma prune_loop_has_row: "int (length (db_log db)) > 1 \<Longrightarrow> db_log db \<noteq> []"
  by auto

lemma prune_loop_ok:
  assumes "store_ok H db" and "bytes = total_bytes db" and "n = int (length (db_log db))"
  shows "store_ok H (prune_loop max_bytes bytes n db)
    \<and> (total_bytes (prune_loop max_bytes bytes n db) \<le> max_bytes \<or> length (db_log (prune_loop max_bytes bytes n db)) \<le> 1)
    \<and> map (\<lambda>s. s\<lparr>sr_first := 0\<rparr>) (db_streams (prune_loop max_bytes bytes n db)) = map (\<lambda>s. s\<lparr>sr_first := 0\<rparr>) (db_streams db)"
  using assms
proof (induction max_bytes bytes n db rule: prune_loop.induct)
  case (1 max_bytes bytes n db)
  show ?case
  proof (cases "bytes > max_bytes \<and> n > 1 \<and> db_log db \<noteq> []")
    case True
    then have ne: "db_log db \<noteq> []" by simp
    have streams: "map (\<lambda>s. s\<lparr>sr_first := 0\<rparr>) (db_streams (delete_oldest db)) = map (\<lambda>s. s\<lparr>sr_first := 0\<rparr>) (db_streams db)"
      by (simp add: delete_oldest_def Let_def)
    have eq: "prune_loop max_bytes bytes n db = prune_loop max_bytes
        (bytes - lr_size (arg_min_list prune_key_of (db_log db))) (n - 1) (delete_oldest db)"
      by (subst prune_loop.simps) (use True in simp)
    from "1.IH" [OF True delete_oldest_ok [OF "1.prems"(1) ne]] "1.prems"(2,3)
      delete_oldest_sums [OF "1.prems"(1) ne] streams
    show ?thesis unfolding eq by simp
  next
    case False
    have eq: "prune_loop max_bytes bytes n db = db"
      by (subst prune_loop.simps) (rule if_not_P [OF False])
    from False "1.prems" prune_loop_has_row [of db] show ?thesis unfolding eq by auto
  qed
qed

definition without :: "(string \<times> string) set \<Rightarrow> history \<Rightarrow> history" where
  "without ks H = (\<lambda>k. if k \<in> ks then None else H k)"

lemma delete_keys_ok:
  assumes ok: "store_ok H db"
  shows "store_ok (without ks H) \<lparr>db_streams = filter (\<lambda>s. stream_key s \<notin> ks) (db_streams db),
     db_log = filter (\<lambda>r. event_key r \<notin> ks) (db_log db)\<rparr>" (is "store_ok _ ?db")
proof (rule store_okI)
  show "distinct (map stream_key (db_streams ?db))" "distinct (map row_id (db_log ?db))"
    using store_okD(1,2) [OF ok] by (simp_all add: distinct_map_filter)
  show "row_ok (without ks H) r" if "r \<in> set (db_log ?db)" for r
    using that store_okD(4) [OF ok, of r] by (simp add: row_ok_def without_def)
  show "k \<in> stream_key ` set (db_streams ?db)" if "without ks H k \<noteq> None" for k
    using that store_okD(5) [OF ok, of k] by (auto simp: without_def split: if_splits)
  fix s assume "s \<in> set (db_streams ?db)"
  then have s: "s \<in> set (db_streams db)" "stream_key s \<notin> ks" by simp_all
  from store_okD(3) [OF ok s(1)] obtain h where h: "H (stream_key s) = Some h" "sr_next s = int (length h)"
    "0 \<le> sr_first s" "sr_first s \<le> sr_next s"
    "\<And>i. sr_first s \<le> i \<Longrightarrow> i < sr_next s \<Longrightarrow> (stream_key s, i) \<in> row_id ` set (db_log db)"
    by (auto simp: stream_ok_def)
  have "(stream_key s, i) \<in> row_id ` set (db_log ?db)" if i: "sr_first s \<le> i" "i < sr_next s" for i
  proof -
    from h(5) [OF i] obtain r where r: "r \<in> set (db_log db)" "row_id r = (stream_key s, i)" by force
    with s(2) have "r \<in> set (db_log ?db)" by (simp add: row_id_def)
    with r(2) show ?thesis by (metis image_eqI)
  qed
  with h(1-4) s(2) show "stream_ok (without ks H) (db_log ?db) s"
    unfolding stream_ok_def without_def by auto
qed

lemma expired_iff:
  assumes "store_ok H db" and "s \<in> set (db_streams db)"
  shows "stream_key s \<in> set (expired_keys now db) \<longleftrightarrow> sr_expires s \<le> now"
proof
  assume "stream_key s \<in> set (expired_keys now db)"
  then obtain t where t: "t \<in> set (db_streams db)" "sr_expires t \<le> now" "stream_key t = stream_key s"
    by (auto simp: expired_keys_def)
  have "t = s" using store_okD(1) [OF assms(1)] t(1,3) assms(2) by (auto simp: distinct_map dest: inj_onD)
  with t(2) show "sr_expires s \<le> now" by simp
qed (use assms(2) in \<open>auto simp: expired_keys_def\<close>)

lemma delete_expired_ok:
  assumes "store_ok H db"
  shows "store_ok (without (set (expired_keys now db)) H) (delete_expired now db)"
proof -
  have "filter (\<lambda>s. \<not> sr_expires s \<le> now) (db_streams db) = filter (\<lambda>s. stream_key s \<notin> set (expired_keys now db)) (db_streams db)"
    by (rule filter_cong) (simp_all add: expired_iff [OF assms])
  then show ?thesis unfolding delete_expired_def by (simp add: delete_keys_ok [OF assms])
qed

lemma prune_tx_ok:
  assumes "store_ok H db"
  shows "store_ok (without (set (expired_keys now db)) H) (prune_tx opts now db)"
    and "total_bytes (prune_tx opts now db) \<le> opt_max_event_bytes opts \<or> length (db_log (prune_tx opts now db)) \<le> 1"
    and "set (map stream_key (db_streams (prune_tx opts now db)))
       = stream_key ` set (db_streams db) - set (expired_keys now db)"
proof -
  let ?d = "delete_expired now db"
  note p = prune_loop_ok [OF delete_expired_ok [OF assms, of now] refl refl, of "opt_max_event_bytes opts"]
  from p show "store_ok (without (set (expired_keys now db)) H) (prune_tx opts now db)"
    "total_bytes (prune_tx opts now db) \<le> opt_max_event_bytes opts \<or> length (db_log (prune_tx opts now db)) \<le> 1"
    by (simp_all add: prune_tx_def Let_def)
  have "map stream_key (map (\<lambda>s. s\<lparr>sr_first := 0\<rparr>) xs) = map stream_key xs" for xs
    by (simp add: stream_key_def)
  with p have "map stream_key (db_streams (prune_tx opts now db)) = map stream_key (db_streams ?d)"
    by (metis prune_tx_def)
  moreover have "set (map stream_key (db_streams ?d)) = stream_key ` set (db_streams db) - set (expired_keys now db)"
    using expired_iff [OF assms] by (auto simp: delete_expired_def)
  ultimately show "set (map stream_key (db_streams (prune_tx opts now db)))
       = stream_key ` set (db_streams db) - set (expired_keys now db)" by simp
qed

section \<open>Sequences of operations\<close>

datatype store_op = Open_op int string string | Append_op int string string "string option" | Prune_op int
  | Close_op string

fun store_apply :: "options \<Rightarrow> store_op \<Rightarrow> database \<Rightarrow> (store_error, database) res" where
  "store_apply opts (Open_op now s t) db = Inr (open_stream opts now s t db)"
| "store_apply opts (Append_op now s t v) db = append_event opts now s t v db"
| "store_apply opts (Prune_op now) db = Inr (prune_tx opts now db)"
| "store_apply opts (Close_op s) db = Inr (session_closed s db)"

text \<open>What a successful operation does to the histories of the streams that are left after it.\<close>

fun extended :: "store_op \<Rightarrow> history \<Rightarrow> history" where
  "extended (Open_op now s t) H = (if H (s, t) = None then H((s, t) \<mapsto> []) else H)"
| "extended (Append_op now s t v) H = H((s, t) \<mapsto> the (H (s, t)) @ [v])"
| "extended (Prune_op now) H = H"
| "extended (Close_op s) H = H"

definition track :: "store_op \<Rightarrow> database \<Rightarrow> history \<Rightarrow> history" where
  "track op db' H = (\<lambda>k. if k \<in> stream_key ` set (db_streams db') then extended op H k else None)"

definition store_step :: "options \<Rightarrow> store_op \<Rightarrow> database \<times> history \<Rightarrow> database \<times> history" where
  "store_step opts op dh =
     (case store_apply opts op (fst dh) of Inl e \<Rightarrow> dh | Inr db' \<Rightarrow> (db', track op db' (snd dh)))"

definition empty_store :: "database \<times> history" where
  "empty_store = (\<lparr>db_streams = [], db_log = []\<rparr>, \<lambda>k. None)"

lemma track_pruned:
  assumes "store_ok (extended op H) db" and "db' = prune_tx opts now db"
  shows "store_ok (track op db' H) db'"
proof -
  have "without (set (expired_keys now db)) (extended op H) = track op db' H"
  proof
    fix k
    show "without (set (expired_keys now db)) (extended op H) k = track op db' H k"
      using prune_tx_ok(3) [OF assms(1), of opts now] store_okD(5) [OF assms(1), of k]
      by (auto simp: without_def track_def assms(2))
  qed
  with prune_tx_ok(1) [OF assms(1), of now opts] show ?thesis by (simp add: assms(2))
qed

lemma upsert_ok:
  assumes ok: "store_ok H db"
  shows "store_ok (extended (Open_op now s t) H) (upsert_stream s t expires now db)"
proof (cases "(s, t) \<in> stream_key ` set (db_streams db)")
  case True
  let ?up = "\<lambda>r. if stream_key r = (s, t) then r\<lparr>sr_expires := expires, sr_updated := now\<rparr> else r"
  have db': "upsert_stream s t expires now db = db\<lparr>db_streams := map ?up (db_streams db)\<rparr>"
    using True by (simp add: upsert_stream_def)
  have same: "stream_key (?up r) = stream_key r" "sr_first (?up r) = sr_first r" "sr_next (?up r) = sr_next r" for r
    by (simp_all add: stream_key_def)
  from True store_okD(3) [OF ok] have "H (s, t) \<noteq> None" by (force simp: stream_ok_def)
  then have ext: "extended (Open_op now s t) H = H" by auto
  have keys: "map stream_key (map ?up (db_streams db)) = map stream_key (db_streams db)"
    unfolding map_map comp_def same ..
  have sok: "stream_ok H rows (?up r) = stream_ok H rows r" for rows r
    unfolding stream_ok_def same ..
  show ?thesis
    unfolding db' ext
  proof (rule store_okI)
    show "distinct (map stream_key (db_streams (db\<lparr>db_streams := map ?up (db_streams db)\<rparr>)))"
    proof -
      have "distinct (map stream_key (map ?up (db_streams db)))" unfolding keys by (rule store_okD(1) [OF ok])
      moreover have "db_streams (db\<lparr>db_streams := map ?up (db_streams db)\<rparr>) = map ?up (db_streams db)" by simp
      ultimately show ?thesis by (simp only:)
    qed
    show "k \<in> stream_key ` set (db_streams (db\<lparr>db_streams := map ?up (db_streams db)\<rparr>))" if "H k \<noteq> None" for k
    proof -
      have "db_streams (db\<lparr>db_streams := map ?up (db_streams db)\<rparr>) = map ?up (db_streams db)" by simp
      then show ?thesis using same_keys_image [OF keys store_okD(5) [OF ok that]] by (simp only:)
    qed
    show "stream_ok H (db_log (db\<lparr>db_streams := map ?up (db_streams db)\<rparr>)) r"
      if "r \<in> set (db_streams (db\<lparr>db_streams := map ?up (db_streams db)\<rparr>))" for r
    proof -
      from that obtain q where q: "q \<in> set (db_streams db)" "r = ?up q" by auto
      have "db_log (db\<lparr>db_streams := map ?up (db_streams db)\<rparr>) = db_log db" by simp
      moreover have "stream_ok H (db_log db) (?up q)"
        unfolding sok by (rule store_okD(3) [OF ok q(1)])
      ultimately show ?thesis unfolding q(2) by (simp only:)
    qed
  qed (use store_okD(2,4) [OF ok] in simp_all)
next
  case False
  let ?new = "\<lparr>sr_session = s, sr_stream = t, sr_first = 0, sr_next = 0, sr_expires = expires, sr_updated = now\<rparr>"
  have db': "upsert_stream s t expires now db = db\<lparr>db_streams := db_streams db @ [?new]\<rparr>"
    using False by (simp add: upsert_stream_def)
  have none: "H (s, t) = None" using False store_okD(5) [OF ok, of "(s, t)"] by blast
  then have ext: "extended (Open_op now s t) H = H((s, t) \<mapsto> [])" by simp
  have nk: "stream_key ?new = (s, t)" by (simp add: stream_key_def)
  show ?thesis
    unfolding db' ext
  proof (rule store_okI)
    show "distinct (map stream_key (db_streams (db\<lparr>db_streams := db_streams db @ [?new]\<rparr>)))"
      using store_okD(1) [OF ok] False nk by simp
    show "row_ok (H((s, t) \<mapsto> [])) r" if "r \<in> set (db_log (db\<lparr>db_streams := db_streams db @ [?new]\<rparr>))" for r
      using that store_okD(4) [OF ok, of r] none by (auto simp: row_ok_def)
    show "stream_ok (H((s, t) \<mapsto> [])) (db_log (db\<lparr>db_streams := db_streams db @ [?new]\<rparr>)) r"
      if "r \<in> set (db_streams (db\<lparr>db_streams := db_streams db @ [?new]\<rparr>))" for r
    proof (cases "r = ?new")
      case True
      then show ?thesis by (simp add: stream_ok_def nk)
    next
      case False
      with that have "r \<in> set (db_streams db)" by simp
      with store_okD(3) [OF ok, of r] none show ?thesis by (auto simp: stream_ok_def)
    qed
    show "k \<in> stream_key ` set (db_streams (db\<lparr>db_streams := db_streams db @ [?new]\<rparr>))"
      if "(H((s, t) \<mapsto> [])) k \<noteq> None" for k
      using that store_okD(5) [OF ok, of k] nk by (auto split: if_splits)
  qed (use store_okD(2) [OF ok] in simp)
qed

lemma find_streamD:
  assumes "find_stream s t db = Some r"
  shows "r \<in> set (db_streams db) \<and> stream_key r = (s, t)"
  using assms by (auto simp: find_stream_def find_Some_iff)

lemma find_stream_None: "find_stream s t db = None \<longleftrightarrow> (s, t) \<notin> stream_key ` set (db_streams db)"
  by (auto simp: find_stream_def find_None_iff image_iff)

lemma append_ok:
  assumes ok: "store_ok H db" and f: "find_stream s t db = Some st"
  shows "\<not> list_ex (\<lambda>r. event_key r = (s, t) \<and> lr_index r = sr_next st) (db_log db)"
    and "store_ok (extended (Append_op now s t v) H)
      \<lparr>db_streams = map (\<lambda>q. if stream_key q = (s, t)
          then q\<lparr>sr_next := sr_next st + 1, sr_expires := expires, sr_updated := now\<rparr> else q) (db_streams db),
       db_log = db_log db @ [\<lparr>lr_session = s, lr_stream = t, lr_index = sr_next st,
          lr_payload = (case v of None \<Rightarrow> [] | Some b \<Rightarrow> b), lr_is_null = (v = None),
          lr_size = int (length (case v of None \<Rightarrow> [] | Some b \<Rightarrow> b)), lr_created = now\<rparr>]\<rparr>"
      (is "store_ok ?H ?db")
proof -
  note st = find_streamD [OF f]
  from st store_okD(3) [OF ok, of st] obtain h where h: "H (s, t) = Some h" "sr_next st = int (length h)"
    "0 \<le> sr_first st" "sr_first st \<le> sr_next st"
    "\<And>i. sr_first st \<le> i \<Longrightarrow> i < sr_next st \<Longrightarrow> ((s, t), i) \<in> row_id ` set (db_log db)"
    by (auto simp: stream_ok_def)
  have below: "lr_index r < sr_next st" if "r \<in> set (db_log db)" "event_key r = (s, t)" for r
    using store_okD(4) [OF ok that(1)] that(2) h(1,2) by (auto simp: row_ok_def)
  then show fresh: "\<not> list_ex (\<lambda>r. event_key r = (s, t) \<and> lr_index r = sr_next st) (db_log db)"
    by (fastforce simp: list_ex_iff)
  let ?up = "\<lambda>q. if stream_key q = (s, t) then q\<lparr>sr_next := sr_next st + 1, sr_expires := expires, sr_updated := now\<rparr> else q"
  let ?row = "\<lparr>lr_session = s, lr_stream = t, lr_index = sr_next st,
          lr_payload = (case v of None \<Rightarrow> [] | Some b \<Rightarrow> b), lr_is_null = (v = None),
          lr_size = int (length (case v of None \<Rightarrow> [] | Some b \<Rightarrow> b)), lr_created = now\<rparr>"
  have key: "stream_key (?up q) = stream_key q" for q by (simp add: stream_key_def)
  have keys: "map stream_key (map ?up (db_streams db)) = map stream_key (db_streams db)"
    unfolding map_map comp_def key ..
  have H: "?H (s, t) = Some (h @ [v])" "\<And>k. k \<noteq> (s, t) \<Longrightarrow> ?H k = H k" by (simp_all add: h(1))
  have row: "event_key ?row = (s, t)" "row_id ?row = ((s, t), int (length h))" "row_value ?row = v"
    by (cases v; simp add: event_key_def row_id_def row_value_def h(2))+
  show "store_ok ?H ?db"
  proof (rule store_okI)
    show "distinct (map stream_key (db_streams ?db))"
    proof -
      have "distinct (map stream_key (map ?up (db_streams db)))" unfolding keys by (rule store_okD(1) [OF ok])
      then show ?thesis by (simp only: database.select_convs)
    qed
    have "row_id ?row \<notin> row_id ` set (db_log db)"
    proof
      assume "row_id ?row \<in> row_id ` set (db_log db)"
      then obtain r where r: "r \<in> set (db_log db)" "row_id r = ((s, t), int (length h))" using row(2) by force
      with below [of r] h(2) show False by (simp add: row_id_def)
    qed
    then show "distinct (map row_id (db_log ?db))"
      using store_okD(2) [OF ok] by simp
    show "row_ok ?H r" if "r \<in> set (db_log ?db)" for r
    proof (cases "r = ?row")
      case True
      then show ?thesis using H(1) row by (simp add: row_ok_def row_id_def)
    next
      case False
      with that have "r \<in> set (db_log db)" by simp
      from store_okD(4) [OF ok this] show ?thesis
        by (cases "event_key r = (s, t)") (auto simp: row_ok_def h(1) nth_append)
    qed
    show "k \<in> stream_key ` set (db_streams ?db)" if "?H k \<noteq> None" for k
    proof (cases "k = (s, t)")
      case True
      with st have "k \<in> stream_key ` set (db_streams db)" by force
      from same_keys_image [OF keys this] show ?thesis by (simp only: database.simps)
    next
      case False
      with that have "H k \<noteq> None" by simp
      from same_keys_image [OF keys store_okD(5) [OF ok this]] show ?thesis by (simp only: database.simps)
    qed
    fix r assume "r \<in> set (db_streams ?db)"
    then obtain q where q: "q \<in> set (db_streams db)" "r = ?up q" by auto
    show "stream_ok ?H (db_log ?db) r"
    proof (cases "stream_key q = (s, t)")
      case False
      with q store_okD(3) [OF ok q(1)] show ?thesis by (auto simp: stream_ok_def)
    next
      case True
      have "q = st" using store_okD(1) [OF ok] q(1) st True by (metis distinct_map inj_onD)
      with True q(2) have r: "stream_key r = (s, t)" "sr_next r = int (length h) + 1" "sr_first r = sr_first st"
        by (simp_all add: stream_key_def h(2))
      have "((s, t), i) \<in> row_id ` set (db_log ?db)" if "sr_first st \<le> i" "i < int (length h) + 1" for i
        using h(5) [OF that(1)] that(2) row(2) by (cases "i = int (length h)") (auto simp: h(2))
      with h(2-4) H(1) show ?thesis unfolding stream_ok_def r by auto
    qed
  qed
qed

lemma close_ok:
  assumes "store_ok H db"
  shows "store_ok (without {k. fst k = s} H) (session_closed s db)"
  using delete_keys_ok [OF assms, of "{k. fst k = s}"]
  by (simp add: session_closed_def stream_key_def event_key_def)

lemma store_apply_ok:
  assumes ok: "store_ok H db" and "store_apply opts op db = Inr db'"
  shows "store_ok (track op db' H) db'"
proof (cases op)
  case (Open_op now s t)
  with assms(2) have db': "db' = prune_tx opts now (upsert_stream s t (now + opt_event_ttl opts) now db)"
    by (simp add: open_stream_def)
  show ?thesis unfolding Open_op by (rule track_pruned [OF upsert_ok [OF ok] db'])
next
  case (Append_op now s t v)
  with assms(2) obtain st where f: "find_stream s t db = Some st"
    by (auto simp: append_event_def split: option.splits)
  show ?thesis
    unfolding Append_op
    by (rule track_pruned [where opts = opts and now = now, OF append_ok(2) [OF ok f, of now v "now + opt_event_ttl opts"]])
      (use assms(2) Append_op f append_ok(1) [OF ok f] in \<open>simp add: append_event_def Let_def\<close>)
next
  case (Prune_op now)
  with assms(2) have db': "db' = prune_tx opts now db" by simp
  from ok have "store_ok (extended (Prune_op now) H) db" by simp
  from track_pruned [OF this db'] show ?thesis unfolding Prune_op .
next
  case (Close_op s)
  with assms(2) have db': "db' = session_closed s db" by simp
  have "without {k. fst k = s} H = track op db' H"
  proof
    fix k
    show "without {k. fst k = s} H k = track op db' H k"
      using store_okD(5) [OF ok, of k]
      by (cases "H k") (auto simp: without_def track_def db' session_closed_def Close_op stream_key_def image_iff)
  qed
  with close_ok [OF ok, of s] show ?thesis by (simp add: db')
qed

lemma store_reach_ok: "store_ok (snd (fold (store_step opts) ops empty_store)) (fst (fold (store_step opts) ops empty_store))"
proof (induction ops rule: rev_induct)
  case Nil
  show ?case by (simp add: empty_store_def store_ok_def)
next
  case (snoc op ops)
  show ?case
    using snoc.IH store_apply_ok [OF snoc.IH, of opts op] by (simp add: store_step_def split: sum.split)
qed

text \<open>Only rows that were there survive a prune, and every row says how long its payload is.\<close>

lemma prune_loop_rows: "set (db_log (prune_loop max_bytes bytes n db)) \<subseteq> set (db_log db)"
proof (induction max_bytes bytes n db rule: prune_loop.induct)
  case (1 max_bytes bytes n db)
  have "set (db_log (delete_oldest db)) \<subseteq> set (db_log db)" by (auto simp: delete_oldest_def Let_def)
  with "1.IH" show ?case by (subst prune_loop.simps) auto
qed

lemma prune_tx_rows: "set (db_log (prune_tx opts now db)) \<subseteq> set (db_log db)"
  using prune_loop_rows [of _ _ _ "delete_expired now db"] by (fastforce simp: prune_tx_def Let_def delete_expired_def)

definition sizes_ok :: "database \<Rightarrow> bool" where
  "sizes_ok db \<longleftrightarrow> (\<forall>r\<in>set (db_log db). lr_size r = int (length (lr_payload r)))"

lemma sizes_ok_prune: "sizes_ok db \<Longrightarrow> sizes_ok (prune_tx opts now db)"
  using prune_tx_rows by (fastforce simp: sizes_ok_def)

lemma upsert_log: "db_log (upsert_stream s t expires now db) = db_log db"
  by (simp add: upsert_stream_def)

lemma store_apply_sizes:
  assumes "sizes_ok db" and "store_apply opts op db = Inr db'"
  shows "sizes_ok db'"
proof (cases op)
  case (Open_op now s t)
  have "sizes_ok (upsert_stream s t (now + opt_event_ttl opts) now db)"
    using assms(1) by (simp add: sizes_ok_def upsert_log)
  from sizes_ok_prune [OF this] assms(2) Open_op show ?thesis by (auto simp: open_stream_def)
next
  case (Append_op now s t v)
  with assms(2) obtain st where "find_stream s t db = Some st"
    by (auto simp: append_event_def split: option.splits)
  with assms(2) Append_op obtain streams row where
    "db' = prune_tx opts now \<lparr>db_streams = streams, db_log = db_log db @ [row]\<rparr>"
    "lr_size row = int (length (lr_payload row))"
    by (auto simp: append_event_def Let_def split: if_splits)
  moreover from this(2) assms(1) have "sizes_ok \<lparr>db_streams = streams, db_log = db_log db @ [row]\<rparr>"
    by (simp add: sizes_ok_def)
  ultimately show ?thesis using sizes_ok_prune by blast
next
  case (Prune_op now)
  then show ?thesis using assms sizes_ok_prune by auto
next
  case (Close_op s)
  then show ?thesis using assms by (auto simp: session_closed_def sizes_ok_def)
qed

definition log_fits :: "options \<Rightarrow> database \<Rightarrow> bool" where
  "log_fits opts db \<longleftrightarrow> total_bytes db \<le> opt_max_event_bytes opts \<or> length (db_log db) \<le> 1"

lemma sum_filter_le: "(\<And>x. x \<in> set xs \<Longrightarrow> 0 \<le> f x) \<Longrightarrow> sum_list (map f (filter P xs)) \<le> sum_list (map f xs :: int list)"
  by (induction xs) (auto simp: add_increasing)

lemma store_apply_fits:
  assumes ok: "store_ok H db" and "sizes_ok db" and "log_fits opts db" and "store_apply opts op db = Inr db'"
  shows "log_fits opts db'"
proof (cases op)
  case (Open_op now s t)
  with assms(4) have "db' = prune_tx opts now (upsert_stream s t (now + opt_event_ttl opts) now db)"
    by (simp add: open_stream_def)
  with prune_tx_ok(2) [OF upsert_ok [OF ok]] show ?thesis by (simp add: log_fits_def)
next
  case (Append_op now s t v)
  with assms(4) obtain st where f: "find_stream s t db = Some st"
    by (auto simp: append_event_def split: option.splits)
  from prune_tx_ok(2) [OF append_ok(2) [OF ok f, of now v "now + opt_event_ttl opts"], of opts now] assms(4)
  show ?thesis by (auto simp: log_fits_def Append_op append_event_def f Let_def split: if_splits)
next
  case (Prune_op now)
  with assms(4) prune_tx_ok(2) [OF ok, of opts now] show ?thesis by (simp add: log_fits_def)
next
  case (Close_op s)
  with assms(4) have log: "db_log db' = filter (\<lambda>r. lr_session r \<noteq> s) (db_log db)" by (auto simp: session_closed_def)
  have "total_bytes db' \<le> total_bytes db" "length (db_log db') \<le> length (db_log db)"
    unfolding total_bytes_def log using assms(2) by (auto simp: sizes_ok_def intro: sum_filter_le)
  with assms(3) show ?thesis by (auto simp: log_fits_def)
qed

section \<open>What a reader gets back\<close>

lemma rows_above:
  assumes ok: "store_ok H db" and st: "st \<in> set (db_streams db)" "stream_key st = (s, t)"
    and h: "H (s, t) = Some h" and "sr_first st \<le> index + 1"
  shows "map row_value (sort_key lr_index (filter (\<lambda>r. event_key r = (s, t) \<and> lr_index r > index) (db_log db)))
       = map (\<lambda>i. h ! nat i) [index + 1..int (length h) - 1]"
proof -
  let ?L = "filter (\<lambda>r. event_key r = (s, t) \<and> lr_index r > index) (db_log db)"
  from store_okD(3) [OF ok st(1)] have full: "sr_next st = int (length h)"
    "\<And>i. sr_first st \<le> i \<Longrightarrow> i < sr_next st \<Longrightarrow> ((s, t), i) \<in> row_id ` set (db_log db)"
    by (auto simp: stream_ok_def st(2) h)
  have row: "lr_index r < int (length h) \<and> row_value r = h ! nat (lr_index r)" if "r \<in> set ?L" for r
    using that store_okD(4) [OF ok, of r] by (auto simp: row_ok_def h)
  have "set (map lr_index ?L) = {index + 1..int (length h) - 1}"
  proof (intro equalityI subsetI)
    fix i assume "i \<in> set (map lr_index ?L)"
    with row show "i \<in> {index + 1..int (length h) - 1}" by fastforce
  next
    fix i assume "i \<in> {index + 1..int (length h) - 1}"
    with full(2) [of i] assms(5) full(1) obtain r where "r \<in> set (db_log db)" "row_id r = ((s, t), i)" by force
    moreover from this \<open>i \<in> _\<close> have "event_key r = (s, t)" "i = lr_index r" "index < lr_index r"
      by (simp_all add: row_id_def)
    ultimately have "r \<in> set ?L" by simp
    with \<open>i = lr_index r\<close> show "i \<in> set (map lr_index ?L)" by simp
  qed
  moreover have "distinct (map lr_index ?L)"
    unfolding distinct_map
  proof
    show "distinct ?L" using store_okD(2) [OF ok] by (simp add: distinct_map)
    have "inj_on row_id (set (db_log db))" using store_okD(2) [OF ok] by (simp add: distinct_map)
    then show "inj_on lr_index (set ?L)" by (auto simp: inj_on_def row_id_def)
  qed
  ultimately have "map lr_index (sort_key lr_index ?L) = [index + 1..int (length h) - 1]"
    by (intro sorted_distinct_set_unique) (simp_all add: distinct_map)
  moreover have "map row_value (sort_key lr_index ?L) = map (\<lambda>i. h ! nat i) (map lr_index (sort_key lr_index ?L))"
    using row by simp
  ultimately show ?thesis by simp
qed

lemma upto_drop: "-1 \<le> index \<Longrightarrow> map (\<lambda>i. h ! nat i) [index + 1..int (length h) - 1] = drop (nat (index + 1)) h"
  by (rule nth_equalityI) (auto simp: nth_upto nat_add_distrib)

lemma sint_increment:
  "sint (index + 1 :: 64 word) = (if sint index = 2 ^ 63 - 1 then - (2 ^ 63) else sint index + 1)"
proof -
  have b: "- (2 ^ 63) \<le> sint index" "sint index < 2 ^ 63"
    using sint_greater_eq [of index] sint_lt [of index] by simp_all
  have "sint (index + 1) = signed_take_bit 63 (sint index + 1)"
    by (simp add: sint_word_ariths)
  also have "\<dots> = (if sint index = 2 ^ 63 - 1 then - (2 ^ 63) else sint index + 1)"
    using b by (auto simp: signed_take_bit_int_eq_self signed_take_bit_eq_take_bit_shift take_bit_eq_mod)
  finally show ?thesis .
qed

lemma read_after_ok:
  assumes ok: "store_ok H db"
  shows "case read_after s t index db of
      Inr vs \<Rightarrow> (\<exists>h. H (s, t) = Some h \<and> vs = drop (nat (sint index + 1)) h)
    | Inl e \<Rightarrow> e = Events_purged
        \<and> (case find_stream s t db of None \<Rightarrow> H (s, t) = None
           | Some r \<Rightarrow> sint index + 1 < sr_first r \<or> sint index = 2 ^ 63 - 1)"
proof (cases "find_stream s t db")
  case None
  with store_okD(5) [OF ok, of "(s, t)"] find_stream_None [of s t db] show ?thesis
    by (auto simp: read_after_def)
next
  case (Some st)
  note st = find_streamD [OF Some]
  with store_okD(3) [OF ok, of st] obtain h where h: "H (s, t) = Some h" "sr_next st = int (length h)" "0 \<le> sr_first st"
    by (auto simp: stream_ok_def)
  show ?thesis
  proof (cases "sint index = 2 ^ 63 - 1")
    case True
    with h(3) show ?thesis by (simp add: read_after_def Some Let_def sint_increment)
  next
    case wrap: False
    show ?thesis
    proof (cases "sint index + 1 < sr_first st")
      case True
      with wrap show ?thesis by (simp add: read_after_def Some Let_def sint_increment)
    next
      case False
      with h(3) have "- 1 \<le> sint index" by simp
      with False wrap rows_above [OF ok _ _ h(1), of st "sint index"] st upto_drop [of "sint index" h] h
      show ?thesis by (auto simp: read_after_def Some Let_def sint_increment)
    qed
  qed
qed

text \<open>C21: A reader that resumes a stream after any event gets exactly what was appended to the stream
  after it, in order and with empty payloads kept apart from absent ones, however the appends to all
  streams, the prunes and the closing of sessions went before. The only error is the one of purged
  events, before any event is seen: the stream is unknown, part of what was asked for is gone, or the
  index asked for is the greatest 64-bit integer, whose successor wraps around.\<close>

theorem replay_exact:
  assumes "(db, H) = fold (store_step (normalized opts)) ops empty_store"
  shows "case read_after s t index db of
      Inr vs \<Rightarrow> (\<exists>h. H (s, t) = Some h \<and> vs = drop (nat (sint index + 1)) h)
    | Inl e \<Rightarrow> e = Events_purged
        \<and> (case find_stream s t db of None \<Rightarrow> H (s, t) = None
           | Some r \<Rightarrow> sint index + 1 < sr_first r \<or> sint index = 2 ^ 63 - 1)"
proof -
  from store_reach_ok [of "normalized opts" ops] have "store_ok H db" unfolding assms(1) [symmetric] by simp
  from read_after_ok [OF this] show ?thesis .
qed

definition witness_options :: options where
  "witness_options = \<lparr>opt_data_directory = [], opt_event_ttl = 100, opt_max_event_bytes = 3, opt_max_open_conns = 0,
     opt_max_idle_conns = 0, opt_conn_max_lifetime = 0\<rparr>"

definition witness_ops :: "store_op list" where
  "witness_ops = [Open_op 1 ''s'' ''t'', Append_op 2 ''s'' ''t'' (Some ''ab''), Append_op 3 ''s'' ''t'' None,
     Append_op 4 ''s'' ''t'' (Some ''cd'')]"

definition witness_store :: "database \<times> history" where
  "witness_store = fold (store_step (normalized witness_options)) witness_ops empty_store"

text \<open>Four bytes do not fit three, so the first event is pruned: reading on after it works, but reading from
  the start does not. The greatest index is answered as if its events were gone.\<close>

theorem replay_exact_witness:
  "read_after ''s'' ''t'' 0 (fst witness_store) = Inr [None, Some ''cd''] \<and>
   read_after ''s'' ''t'' (-1) (fst witness_store) = Inl Events_purged \<and>
   read_after ''s'' ''t'' (2 ^ 63 - 1) (fst witness_store) = Inl Events_purged \<and>
   (\<exists>h. snd witness_store (''s'', ''t'') = Some h \<and> drop 1 h = [None, Some ''cd''])"
proof -
  have read: "read_after ''s'' ''t'' 0 (fst witness_store) = Inr [None, Some ''cd'']"
    "read_after ''s'' ''t'' (-1) (fst witness_store) = Inl Events_purged"
    "read_after ''s'' ''t'' (2 ^ 63 - 1) (fst witness_store) = Inl Events_purged"
    by code_simp+
  have "(fst witness_store, snd witness_store) = fold (store_step (normalized witness_options)) witness_ops empty_store"
    by (simp add: witness_store_def)
  from replay_exact [OF this, of "''s''" "''t''" 0] read show ?thesis by auto
qed

text \<open>C22: Whatever the clients did, the payloads in the log take no more than the configured bytes,
  unless a single event alone is larger than that.\<close>

theorem log_bounded:
  assumes "db = fst (fold (store_step (normalized opts)) ops empty_store)"
  shows "(\<Sum>r\<leftarrow>db_log db. int (length (lr_payload r))) \<le> opt_max_event_bytes (normalized opts)
       \<or> length (db_log db) \<le> 1"
proof -
  have "sizes_ok (fst (fold (store_step (normalized opts)) ops empty_store))
    \<and> log_fits (normalized opts) (fst (fold (store_step (normalized opts)) ops empty_store))"
  proof (induction ops rule: rev_induct)
    case Nil
    show ?case by (simp add: empty_store_def sizes_ok_def log_fits_def)
  next
    case (snoc op ops)
    let ?dh = "fold (store_step (normalized opts)) ops empty_store"
    have step: "fst (store_step (normalized opts) op ?dh) = db'
        \<longrightarrow> store_apply (normalized opts) op (fst ?dh) = Inr db' \<or> db' = fst ?dh" for db'
      unfolding store_step_def by (simp split: sum.split)
    have "fold (store_step (normalized opts)) (ops @ [op]) empty_store = store_step (normalized opts) op ?dh" by simp
    then show ?case
      using step snoc.IH store_apply_sizes [of "fst ?dh" "normalized opts" op]
        store_apply_fits [OF store_reach_ok, of "normalized opts" ops "normalized opts" op] by metis
  qed
  moreover have "sizes_ok db \<Longrightarrow> total_bytes db = (\<Sum>r\<leftarrow>db_log db. int (length (lr_payload r)))"
    by (auto simp: sizes_ok_def total_bytes_def intro: arg_cong [of _ _ sum_list])
  ultimately show ?thesis by (auto simp: assms log_fits_def)
qed

theorem log_bounded_witness: "(\<Sum>r\<leftarrow>db_log (fst witness_store). int (length (lr_payload r))) \<le> 3
     \<or> length (db_log (fst witness_store)) \<le> 1"
  using log_bounded [of "fst witness_store" witness_options witness_ops]
  by (simp add: witness_store_def witness_options_def normalized_def)

end
