(* ===== verification/Dsn.thy ===== *)
theory Dsn
  imports Event_Store Handler
begin

text \<open>
  Which database a DSN names: \<open>storage/dsn.go\<close> (the classification, and the normal form the drivers and the
  registry of stores get), \<open>storage/open.go\<close> (opening a store) and \<open>storage/storage.go\<close> (its errors). The URL
  package, the paths of the operating system and the parsers of the drivers are a record of functions.
\<close>

section \<open>Libraries\<close>

record url =
  u_scheme :: string
  u_opaque :: string
  u_user :: "(string \<times> string) option"
  u_host :: string
  u_path :: string
  u_raw_query :: string
  u_fragment :: string

definition empty_url :: url where
  "empty_url = \<lparr>u_scheme = [], u_opaque = [], u_user = None, u_host = [], u_path = [], u_raw_query = [], u_fragment = []\<rparr>"

type_synonym query = "(string \<times> string list) list"

record mysql_config =
  my_user :: string
  my_password :: string
  my_net :: string
  my_addr :: string
  my_dbname :: string
  my_params :: "(string \<times> string) list option"

text \<open>
  \<open>parse_url\<close>, \<open>url_string\<close>, \<open>escaped_path\<close> and \<open>path_unescape\<close> are \<open>net/url\<close>'s, \<open>query_of\<close> and \<open>query_encode\<close> its
  query strings; \<open>abs_path\<close>, \<open>is_abs\<close>, \<open>join_path\<close> and \<open>to_slash\<close> are \<open>path/filepath\<close>'s; \<open>postgres_ok\<close> and
  \<open>mysql_parse\<close> the drivers' parsers, \<open>mysql_format\<close> the text of a MySQL configuration. \<open>digest\<close> is the
  hexadecimal SHA-256.
\<close>

record dsn_lib =
  dl_lower :: "string \<Rightarrow> string"
  dl_parse_url :: "string \<Rightarrow> url option"
  dl_url_string :: "url \<Rightarrow> string"
  dl_escaped_path :: "url \<Rightarrow> string"
  dl_path_unescape :: "string \<Rightarrow> string option"
  dl_query_of :: "url \<Rightarrow> query"
  dl_query_encode :: "query \<Rightarrow> string"
  dl_abs_path :: "string \<Rightarrow> string option"
  dl_is_abs :: "string \<Rightarrow> bool"
  dl_join_path :: "string list \<Rightarrow> string"
  dl_to_slash :: "string \<Rightarrow> string"
  dl_postgres_ok :: "string \<Rightarrow> bool"
  dl_mysql_parse :: "string \<Rightarrow> mysql_config option"
  dl_mysql_format :: "mysql_config \<Rightarrow> string"
  dl_digest :: "string \<Rightarrow> string"

text \<open>The environment of the process: the operating system and its directories, where it knows them.\<close>

record host =
  ho_os :: string
  ho_xdg_data :: string
  ho_home :: "string option"
  ho_config :: "string option"
  ho_temp :: string

section \<open>Classification\<close>

datatype dialect = Sqlite | Postgres | Mysql

fun dialect_name :: "dialect \<Rightarrow> string" where
  "dialect_name Sqlite = ''sqlite''"
| "dialect_name Postgres = ''postgres''"
| "dialect_name Mysql = ''mysql''"

fun driver_name :: "dialect \<Rightarrow> string" where
  "driver_name Sqlite = ''sqlite''"
| "driver_name Postgres = ''pgx''"
| "driver_name Mysql = ''mysql''"

record classified_dsn =
  cd_dialect :: dialect
  cd_driver :: string
  cd_value :: string
  cd_path :: string
  cd_key :: string

definition new_classified_dsn :: "dsn_lib \<Rightarrow> dialect \<Rightarrow> string \<Rightarrow> string \<Rightarrow> string \<Rightarrow> classified_dsn" where
  "new_classified_dsn L dialect driver val path =
     \<lparr>cd_dialect = dialect, cd_driver = driver, cd_value = val, cd_path = path,
      cd_key = dl_digest L (dialect_name dialect @ [CHR 0x00] @ val)\<rparr>"

definition file_dsn :: "dsn_lib \<Rightarrow> string \<Rightarrow> string" where
  "file_dsn L path = dl_url_string L (empty_url\<lparr>u_scheme := ''file'', u_path := dl_to_slash L path\<rparr>)"

definition default_data_directory :: "dsn_lib \<Rightarrow> host \<Rightarrow> string \<Rightarrow> string" where
  "default_data_directory L H override =
     (let fallback = (case ho_config H of
            Some d \<Rightarrow> dl_join_path L [d, ''mmmcp'']
          | None \<Rightarrow> dl_join_path L [ho_temp H, ''mmmcp''])
      in if override \<noteq> [] then override
         else if ho_os H \<noteq> ''windows'' \<and> ho_os H \<noteq> ''darwin''
         then if ho_xdg_data H \<noteq> [] then dl_join_path L [ho_xdg_data H, ''mmmcp'']
              else (case ho_home H of
                      Some home \<Rightarrow> dl_join_path L [home, ''.local'', ''share'', ''mmmcp'']
                    | None \<Rightarrow> fallback)
         else fallback)"

text \<open>\<open>strings.EqualFold\<close> against a lower-case name.\<close>

definition equal_fold :: "string \<Rightarrow> string \<Rightarrow> bool" where
  "equal_fold s name \<longleftrightarrow> fold_name s = name"

definition normalize_sqlite_url :: "dsn_lib \<Rightarrow> string \<Rightarrow> (string, string \<times> string) res" where
  "normalize_sqlite_url L v =
     (let v = (if has_prefix v ''sqlite://file:'' then ''sqlite://'' @ drop 14 v else v);
          invalid = ''storage: invalid SQLite DSN''
      in case dl_parse_url L v of
           None \<Rightarrow> Inl invalid
         | Some u \<Rightarrow>
           if \<not> equal_fold (u_scheme u) ''sqlite'' \<or> u_user u \<noteq> None \<or> u_fragment u \<noteq> [] then Inl invalid
           else
             rbind (if u_opaque u \<noteq> [] then Inr (u_opaque u)
                    else if u_host u = [] \<or> equal_fold (u_host u) ''localhost'' then Inr (u_path u)
                    else if u_path u = [] then Inr (u_host u)
                    else Inl invalid) (\<lambda>path.
             if path = [] then Inl invalid
             else if path = '':memory:'' \<or> contains (dl_lower L (u_raw_query u)) ''mode=memory''
             then Inr (dl_url_string L (empty_url\<lparr>u_scheme := ''file'', u_opaque := '':memory:'', u_raw_query := u_raw_query u\<rparr>), [])
             else
               rbind (if dl_is_abs L path then Inr path
                      else (case dl_abs_path L path of
                              None \<Rightarrow> Inl ''storage: invalid SQLite path'' | Some p \<Rightarrow> Inr p)) (\<lambda>path.
               Inr (dl_url_string L (empty_url\<lparr>u_scheme := ''file'', u_path := dl_to_slash L path, u_raw_query := u_raw_query u\<rparr>),
                    path))))"

text \<open>\<open>url.Values\<close>: adding a value to a name.\<close>

definition query_add :: "string \<Rightarrow> string \<Rightarrow> query \<Rightarrow> query" where
  "query_add name v q =
     (case map_of q name of
        None \<Rightarrow> q @ [(name, [v])]
      | Some vs \<Rightarrow> map (\<lambda>(n, ws). if n = name then (n, ws @ [v]) else (n, ws)) q)"

definition sqlite_pragmas :: "string list" where
  "sqlite_pragmas = [''busy_timeout(5000)'', ''foreign_keys(ON)'', ''journal_mode(WAL)'', ''synchronous(NORMAL)'',
     ''trusted_schema(OFF)'']"

definition add_sqlite_pragmas :: "dsn_lib \<Rightarrow> string \<Rightarrow> string option" where
  "add_sqlite_pragmas L v =
     (case dl_parse_url L v of
        None \<Rightarrow> None
      | Some u \<Rightarrow>
        Some (dl_url_string L (u\<lparr>u_raw_query :=
          dl_query_encode L (fold (query_add ''_pragma'') sqlite_pragmas (dl_query_of L u))\<rparr>)))"

definition classify_sqlite_dsn :: "dsn_lib \<Rightarrow> host \<Rightarrow> string \<Rightarrow> options \<Rightarrow> (string, classified_dsn) res" where
  "classify_sqlite_dsn L H input opts =
     (let v = trim_space input; lower = dl_lower L v
      in rbind
           (if v = []
            then let path = dl_join_path L [default_data_directory L H (opt_data_directory opts), ''mmmcp.db'']
                 in Inr (file_dsn L path, path)
            else if v = '':memory:'' then Inr (''file::memory:'', [])
            else if has_prefix lower ''sqlite://'' then normalize_sqlite_url L v
            else if has_prefix lower ''file:''
            then (case dl_parse_url L v of
                    None \<Rightarrow> Inl ''storage: invalid SQLite DSN''
                  | Some u \<Rightarrow>
                    let path = (if u_opaque u \<noteq> [] then u_opaque u else u_path u)
                    in Inr (v, if contains lower ''mode=memory'' \<or> path = '':memory:'' \<or> has_prefix path '':memory:''
                               then [] else path))
            else if contains v ''://'' then Inl ''storage: unsupported DSN''
            else (case dl_abs_path L v of
                    None \<Rightarrow> Inl ''storage: invalid SQLite path''
                  | Some p \<Rightarrow> Inr (file_dsn L p, p)))
           (\<lambda>(v, path). case add_sqlite_pragmas L v of
              None \<Rightarrow> Inl ''storage: invalid SQLite DSN''
            | Some v \<Rightarrow> Inr (new_classified_dsn L Sqlite ''sqlite'' v path)))"

definition normalize_mysql_url :: "dsn_lib \<Rightarrow> string \<Rightarrow> (string, string) res" where
  "normalize_mysql_url L v =
     (let invalid = Inl ''storage: invalid MySQL DSN''
      in case dl_parse_url L v of
           None \<Rightarrow> invalid
         | Some u \<Rightarrow>
           if \<not> equal_fold (u_scheme u) ''mysql'' \<or> u_host u = [] \<or> u_fragment u \<noteq> [] then invalid
           else
             (let p = dl_escaped_path L u
              in case dl_path_unescape L (if has_prefix p ''/'' then drop 1 p else p) of
                   None \<Rightarrow> invalid
                 | Some database \<Rightarrow>
                   if database = [] \<or> contains database ''/'' then invalid
                   else if list_ex (\<lambda>(n, vs). length vs \<noteq> 1) (dl_query_of L u) then invalid
                   else
                     let cfg = \<lparr>my_user = (case u_user u of None \<Rightarrow> [] | Some (n, p) \<Rightarrow> n),
                                my_password = (case u_user u of None \<Rightarrow> [] | Some (n, p) \<Rightarrow> p),
                                my_net = ''tcp'', my_addr = u_host u, my_dbname = database,
                                my_params = (if dl_query_of L u = [] then None
                                             else Some (map (\<lambda>(n, vs). (n, hd vs)) (dl_query_of L u)))\<rparr>;
                         normal = dl_mysql_format L cfg
                     in if dl_mysql_parse L normal = None then invalid else Inr normal))"

definition postgres_keywords :: "string list" where
  "postgres_keywords = [''host'', ''hostaddr'', ''port'', ''dbname'', ''database'', ''user'', ''password'', ''passfile'',
     ''service'', ''servicefile'', ''sslmode'', ''sslcert'', ''sslkey'', ''sslrootcert'', ''connect_timeout'',
     ''application_name'', ''options'', ''target_session_attrs'']"

definition looks_like_postgres_keyword_dsn :: "dsn_lib \<Rightarrow> string \<Rightarrow> bool" where
  "looks_like_postgres_keyword_dsn L v \<longleftrightarrow>
     (case index_byte (trim_space v) (CHR ''='') of
        None \<Rightarrow> False
      | Some n \<Rightarrow> n > 0 \<and> dl_lower L (trim_space (take n (trim_space v))) \<in> set postgres_keywords)"

definition looks_like_mysql_driver_dsn :: "dsn_lib \<Rightarrow> string \<Rightarrow> bool" where
  "looks_like_mysql_driver_dsn L v \<longleftrightarrow>
     CHR ''@'' \<in> set v
     \<or> has_prefix (dl_lower L (trim_space v)) ''tcp('' \<or> has_prefix (dl_lower L (trim_space v)) ''unix(''"

definition classify_dsn :: "dsn_lib \<Rightarrow> host \<Rightarrow> string \<Rightarrow> options \<Rightarrow> (string, classified_dsn) res" where
  "classify_dsn L H input opts =
     (let v = trim_space input; lower = dl_lower L v
      in if v = [] \<or> has_prefix lower ''file:'' \<or> has_prefix lower ''sqlite://'' \<or> v = '':memory:''
         then classify_sqlite_dsn L H v opts
         else if has_prefix lower ''postgres://'' \<or> has_prefix lower ''postgresql://'' \<or> looks_like_postgres_keyword_dsn L v
         then if dl_postgres_ok L v then Inr (new_classified_dsn L Postgres ''pgx'' v [])
              else Inl ''storage: invalid PostgreSQL DSN''
         else if has_prefix lower ''mysql://''
         then rbind (normalize_mysql_url L v) (\<lambda>normal. Inr (new_classified_dsn L Mysql ''mysql'' normal []))
         else if looks_like_mysql_driver_dsn L v
         then (case dl_mysql_parse L v of
                 None \<Rightarrow> Inl ''storage: invalid MySQL DSN''
               | Some cfg \<Rightarrow>
                 if my_dbname cfg = [] then Inl ''storage: invalid MySQL DSN''
                 else Inr (new_classified_dsn L Mysql ''mysql'' (dl_mysql_format L cfg) []))
         else if contains v ''://'' then Inl ''storage: unsupported DSN''
         else classify_sqlite_dsn L H v opts)"

section \<open>Opening a store\<close>

text \<open>The error of a driver: its text, and whether it is or wraps the end of the request's context.\<close>

record cause =
  ca_text :: string
  ca_context :: bool

definition storage_error :: "dialect \<Rightarrow> string \<Rightarrow> cause \<Rightarrow> string" where
  "storage_error dialect operation c =
     (let e = ''storage: '' @ dialect_name dialect @ '' '' @ operation @ '' failed''
      in if ca_context c then e @ '': '' @ ca_text c else e)"

text \<open>What the operating system and the driver answer to each step, for a classified DSN.\<close>

record open_steps =
  op_mkdir :: "classified_dsn \<Rightarrow> cause option"
  op_open :: "classified_dsn \<Rightarrow> cause option"
  op_ping :: "classified_dsn \<Rightarrow> cause option"
  op_migrate :: "classified_dsn \<Rightarrow> cause option"
  op_prune :: "classified_dsn \<Rightarrow> cause option"

record store_settings =
  st_dsn :: classified_dsn
  st_options :: options
  st_max_open :: int
  st_max_idle :: int
  st_max_lifetime :: "int option"

text \<open>The result, and whether a database handle was opened and closed again.\<close>

definition open_store ::
    "dsn_lib \<Rightarrow> host \<Rightarrow> open_steps \<Rightarrow> string \<Rightarrow> options \<Rightarrow> (string, store_settings) res \<times> bool" where
  "open_store L H D dsn opts =
     (let opts = normalized opts
      in case classify_dsn L H dsn opts of
           Inl e \<Rightarrow> (Inl e, False)
         | Inr c \<Rightarrow>
           (let fail = (\<lambda>operation cause closed. (Inl (storage_error (cd_dialect c) operation cause), closed))
            in case (if cd_path c \<noteq> [] then op_mkdir D c else None) of
                 Some e \<Rightarrow> fail ''create data directory'' e False
               | None \<Rightarrow>
                 (case op_open D c of
                    Some e \<Rightarrow> fail ''open'' e False
                  | None \<Rightarrow>
                    (case op_ping D c of
                       Some e \<Rightarrow> fail ''ping'' e True
                     | None \<Rightarrow>
                       (case op_migrate D c of
                          Some e \<Rightarrow> fail ''migrate'' e True
                        | None \<Rightarrow>
                          (case op_prune D c of
                             Some e \<Rightarrow> fail ''prune'' e True
                           | None \<Rightarrow>
                             (Inr (if cd_dialect c = Sqlite
                                   then \<lparr>st_dsn = c, st_options = opts, st_max_open = 1, st_max_idle = 1, st_max_lifetime = None\<rparr>
                                   else \<lparr>st_dsn = c, st_options = opts, st_max_open = opt_max_open_conns opts,
                                         st_max_idle = opt_max_idle_conns opts,
                                         st_max_lifetime = Some (opt_conn_max_lifetime opts)\<rparr>), False)))))))"

section \<open>What is told and what is shared\<close>

definition classification_errors :: "string list" where
  "classification_errors = [''storage: invalid SQLite DSN'', ''storage: invalid SQLite path'', ''storage: unsupported DSN'',
     ''storage: invalid PostgreSQL DSN'', ''storage: invalid MySQL DSN'']"

definition step_names :: "string list" where
  "step_names = [''create data directory'', ''open'', ''ping'', ''migrate'', ''prune'']"

definition open_errors :: "string set" where
  "open_errors = set classification_errors
     \<union> {''storage: '' @ dialect_name d @ '' '' @ name @ '' failed'' |d name. name \<in> set step_names}"

text \<open>Every branch of the classification succeeds or fails with an error of the list.\<close>

definition listed :: "(string, 'a) res \<Rightarrow> bool" where
  "listed r \<longleftrightarrow> (\<forall>e. r = Inl e \<longrightarrow> e \<in> set classification_errors)"

lemma listed_intros:
  "listed x \<Longrightarrow> listed y \<Longrightarrow> listed (if b then x else y)"
  "listed (Inr z)"
  "listed r \<Longrightarrow> (\<And>a. listed (f a)) \<Longrightarrow> listed (rbind r f)"
  "listed x \<Longrightarrow> (\<And>a. listed (g a)) \<Longrightarrow> listed (case m of None \<Rightarrow> x | Some a \<Rightarrow> g a)"
  "(\<And>a b. listed (h a b)) \<Longrightarrow> listed (case p of (a, b) \<Rightarrow> h a b)"
  by (auto simp: listed_def rbind_Inl_iff split: option.split prod.split)

lemma listed_texts:
  "listed (Inl ''storage: invalid SQLite DSN'')" "listed (Inl ''storage: invalid SQLite path'')"
  "listed (Inl ''storage: unsupported DSN'')" "listed (Inl ''storage: invalid PostgreSQL DSN'')"
  "listed (Inl ''storage: invalid MySQL DSN'')"
  by (simp_all add: listed_def classification_errors_def)

lemma normalize_sqlite_listed: "listed (normalize_sqlite_url L v)"
  unfolding normalize_sqlite_url_def Let_def by (intro listed_intros listed_texts)

lemma normalize_mysql_listed: "listed (normalize_mysql_url L v)"
  unfolding normalize_mysql_url_def Let_def by (intro listed_intros listed_texts)

lemma classify_sqlite_listed: "listed (classify_sqlite_dsn L H v opts)"
  unfolding classify_sqlite_dsn_def Let_def by (intro listed_intros listed_texts normalize_sqlite_listed)

lemma classify_errors: "classify_dsn L H dsn opts = Inl e \<Longrightarrow> e \<in> set classification_errors"
proof -
  have "listed (classify_dsn L H dsn opts)"
    unfolding classify_dsn_def Let_def by (intro listed_intros listed_texts classify_sqlite_listed normalize_mysql_listed)
  then show "classify_dsn L H dsn opts = Inl e \<Longrightarrow> ?thesis" by (simp add: listed_def)
qed

lemma storage_error_listed:
  "\<not> ca_context c \<Longrightarrow> name \<in> set step_names \<Longrightarrow> storage_error d name c \<in> open_errors"
  unfolding open_errors_def storage_error_def Let_def by auto

text \<open>
  No DSN and no text of a driver is told when a store cannot be opened: the error is one of a fixed list,
  whatever the DSN is and whatever the operating system and the driver say, as long as they do not report
  the end of the request.
\<close>

theorem opening_reveals_no_dsn:
  assumes "\<And>c cause. op_mkdir D c = Some cause \<or> op_open D c = Some cause \<or> op_ping D c = Some cause
      \<or> op_migrate D c = Some cause \<or> op_prune D c = Some cause \<Longrightarrow> \<not> ca_context cause"
    and "open_store L H D dsn opts = (Inl e, closed)"
  shows "e \<in> open_errors"
proof (cases "classify_dsn L H dsn (normalized opts)")
  case (Inl f)
  with assms(2) have "f = e" by (simp add: open_store_def Let_def)
  with classify_errors [OF Inl] show ?thesis by (simp add: open_errors_def)
next
  case (Inr c)
  from Inr assms(2) consider x where "op_mkdir D c = Some x" "e = storage_error (cd_dialect c) ''create data directory'' x"
    | x where "op_open D c = Some x" "e = storage_error (cd_dialect c) ''open'' x"
    | x where "op_ping D c = Some x" "e = storage_error (cd_dialect c) ''ping'' x"
    | x where "op_migrate D c = Some x" "e = storage_error (cd_dialect c) ''migrate'' x"
    | x where "op_prune D c = Some x" "e = storage_error (cd_dialect c) ''prune'' x"
    by (simp add: open_store_def Let_def split: option.splits if_splits)
  then show ?thesis
    using assms(1) [of c] by cases (simp_all add: storage_error_listed step_names_def)
qed

lemma new_key: "cd_key (new_classified_dsn L d driver v path) =
    dl_digest L (dialect_name (cd_dialect (new_classified_dsn L d driver v path)) @ [CHR 0x00] @ cd_value (new_classified_dsn L d driver v path))"
  by (simp add: new_classified_dsn_def)

text \<open>Every branch of the classification fails or builds its result in one way.\<close>

definition classifies :: "dsn_lib \<Rightarrow> (string, classified_dsn) res \<Rightarrow> bool" where
  "classifies L r \<longleftrightarrow> (\<forall>c. r = Inr c \<longrightarrow> (\<exists>d driver v path. c = new_classified_dsn L d driver v path))"

lemma built_intros:
  "classifies L x \<Longrightarrow> classifies L y \<Longrightarrow> classifies L (if b then x else y)"
  "classifies L (Inl e)"
  "classifies L (Inr (new_classified_dsn L d driver v path))"
  "(\<And>x. classifies L (f x)) \<Longrightarrow> classifies L (rbind r f)"
  "classifies L x \<Longrightarrow> (\<And>a. classifies L (f a)) \<Longrightarrow> classifies L (case m of None \<Rightarrow> x | Some a \<Rightarrow> f a)"
  by (auto simp: classifies_def rbind_Inr_iff split: option.split)

lemma classify_sqlite_built: "classifies L (classify_sqlite_dsn L H v opts)"
proof -
  have "classifies L (case p of (v, path) \<Rightarrow> case add_sqlite_pragmas L v of None \<Rightarrow> Inl ''storage: invalid SQLite DSN''
      | Some v \<Rightarrow> Inr (new_classified_dsn L Sqlite ''sqlite'' v path))" for p
    unfolding split_beta by (intro built_intros)
  then show ?thesis unfolding classify_sqlite_dsn_def Let_def by (rule built_intros(4))
qed

lemma classify_built: "classifies L (classify_dsn L H v opts)"
  unfolding classify_dsn_def Let_def by (intro built_intros classify_sqlite_built)

lemma classified_key:
  "classify_dsn L H dsn opts = Inr c \<Longrightarrow> cd_key c = dl_digest L (dialect_name (cd_dialect c) @ [CHR 0x00] @ cd_value c)"
  using classify_built [of L H dsn opts] new_key unfolding classifies_def by metis

lemma dialect_plain: "CHR 0x00 \<notin> set (dialect_name d)"
  by (cases d) simp_all

lemma dialect_name_inj: "dialect_name d = dialect_name d' \<Longrightarrow> d = d'"
  by (cases d; cases d') simp_all

lemma split_at_nul: "a @ CHR 0x00 # v = b @ CHR 0x00 # w \<Longrightarrow> CHR 0x00 \<notin> set a \<Longrightarrow> CHR 0x00 \<notin> set b \<Longrightarrow> a = b \<and> v = w"
proof (induction a arbitrary: b)
  case Nil
  then show ?case by (cases b) auto
next
  case (Cons x a)
  then show ?case by (cases b) auto
qed

text \<open>
  Two DSNs are given the same store exactly when they name the same kind of database with the same normal
  form, however they are written.
\<close>

theorem shared_store_iff:
  assumes "inj (dl_digest L)" and "classify_dsn L H a opts = Inr c" and "classify_dsn L H b opts = Inr d"
  shows "cd_key c = cd_key d \<longleftrightarrow> cd_dialect c = cd_dialect d \<and> cd_value c = cd_value d"
proof
  assume "cd_key c = cd_key d"
  then have "dialect_name (cd_dialect c) @ CHR 0x00 # cd_value c = dialect_name (cd_dialect d) @ CHR 0x00 # cd_value d"
    using classified_key [OF assms(2)] classified_key [OF assms(3)] injD [OF assms(1)] by simp
  from split_at_nul [OF this dialect_plain dialect_plain] dialect_name_inj
  show "cd_dialect c = cd_dialect d \<and> cd_value c = cd_value d" by blast
qed (simp add: classified_key [OF assms(2)] classified_key [OF assms(3)])

text \<open>A library that knows no URL, and takes every keyword DSN of PostgreSQL and every DSN of MySQL.\<close>

definition plain_lib :: dsn_lib where
  "plain_lib = \<lparr>dl_lower = map lower_byte, dl_parse_url = (\<lambda>s. None), dl_url_string = u_path, dl_escaped_path = u_path,
     dl_path_unescape = Some, dl_query_of = (\<lambda>u. []), dl_query_encode = (\<lambda>q. []), dl_abs_path = Some,
     dl_is_abs = (\<lambda>s. False), dl_join_path = concat, dl_to_slash = id, dl_postgres_ok = (\<lambda>s. True),
     dl_mysql_parse = (\<lambda>s. Some \<lparr>my_user = [], my_password = [], my_net = [], my_addr = [], my_dbname = s, my_params = None\<rparr>),
     dl_mysql_format = my_dbname, dl_digest = id\<rparr>"

definition plain_host :: host where
  "plain_host = \<lparr>ho_os = ''linux'', ho_xdg_data = [], ho_home = None, ho_config = None, ho_temp = ''/tmp''\<rparr>"

definition refusing :: open_steps where
  "refusing = \<lparr>op_mkdir = (\<lambda>c. None), op_open = (\<lambda>c. None),
     op_ping = (\<lambda>c. Some \<lparr>ca_text = ''password secret refused'', ca_context = False\<rparr>), op_migrate = (\<lambda>c. None), op_prune = (\<lambda>c. None)\<rparr>"

definition plain_options :: options where
  "plain_options = \<lparr>opt_data_directory = [], opt_event_ttl = 0, opt_max_event_bytes = 0, opt_max_open_conns = 0,
     opt_max_idle_conns = 0, opt_conn_max_lifetime = 0\<rparr>"

lemma plain_postgres:
  "classify_dsn plain_lib plain_host ''host=db password=secret'' opts
    = Inr (new_classified_dsn plain_lib Postgres ''pgx'' ''host=db password=secret'' [])"
  "classify_dsn plain_lib plain_host '' host=db password=secret '' opts
    = Inr (new_classified_dsn plain_lib Postgres ''pgx'' ''host=db password=secret'' [])"
proof -
  have t: "trim_space ''host=db password=secret'' = ''host=db password=secret''"
    "trim_space '' host=db password=secret '' = ''host=db password=secret''" "trim_space ''host'' = ''host''"
    by code_simp+
  have "looks_like_postgres_keyword_dsn plain_lib ''host=db password=secret''"
    by (simp add: looks_like_postgres_keyword_dsn_def t postgres_keywords_def plain_lib_def lower_byte_def)
  then show "classify_dsn plain_lib plain_host ''host=db password=secret'' opts
    = Inr (new_classified_dsn plain_lib Postgres ''pgx'' ''host=db password=secret'' [])"
    "classify_dsn plain_lib plain_host '' host=db password=secret '' opts
    = Inr (new_classified_dsn plain_lib Postgres ''pgx'' ''host=db password=secret'' [])"
    by (simp_all add: classify_dsn_def t Let_def) (simp_all add: plain_lib_def lower_byte_def)
qed

theorem opening_reveals_no_dsn_witness: "''storage: postgres ping failed'' \<in> open_errors"
proof (rule opening_reveals_no_dsn)
  show "\<not> ca_context cause" if "op_mkdir refusing c = Some cause \<or> op_open refusing c = Some cause \<or> op_ping refusing c = Some cause
      \<or> op_migrate refusing c = Some cause \<or> op_prune refusing c = Some cause" for c cause
    using that by (auto simp: refusing_def)
  show "open_store plain_lib plain_host refusing ''host=db password=secret'' plain_options
      = (Inl ''storage: postgres ping failed'', True)"
    by (simp add: open_store_def plain_postgres Let_def refusing_def storage_error_def new_classified_dsn_def)
qed

theorem shared_store_iff_witness:
  "cd_key (new_classified_dsn plain_lib Postgres ''pgx'' ''host=db password=secret'' [])
      = cd_key (new_classified_dsn plain_lib Postgres ''pgx'' ''host=db password=secret'' [])
    \<longleftrightarrow> cd_dialect (new_classified_dsn plain_lib Postgres ''pgx'' ''host=db password=secret'' [])
        = cd_dialect (new_classified_dsn plain_lib Postgres ''pgx'' ''host=db password=secret'' [])
      \<and> cd_value (new_classified_dsn plain_lib Postgres ''pgx'' ''host=db password=secret'' [])
        = cd_value (new_classified_dsn plain_lib Postgres ''pgx'' ''host=db password=secret'' [])"
  by (rule shared_store_iff [OF _ plain_postgres]) (simp add: plain_lib_def)

end
