(* ===== verification/Sql.thy ===== *)
theory Sql
  imports Dsn Event_Store
begin

text \<open>
  What depends on the dialect in the event log: which errors of a driver are lost races that a transaction is
  tried again for (\<open>storage/eventstore_sqlite.go\<close>, \<open>eventstore_mysql.go\<close>, \<open>eventstore_postgres.go\<close>), and the
  placeholders of a statement (\<open>bind\<close> of \<open>storage/eventstore.go\<close>).
\<close>

section \<open>Lost races\<close>

text \<open>
  The errors of the drivers in the chain of a wrapped error, the outermost first; \<open>errors.As\<close> finds the first one
  of its type.
\<close>

datatype driver_error = Sqlite_error int | Postgres_error string | Mysql_error nat

fun first_sqlite :: "driver_error list \<Rightarrow> int option" where
  "first_sqlite [] = None"
| "first_sqlite (Sqlite_error c # es) = Some c"
| "first_sqlite (e # es) = first_sqlite es"

fun first_postgres :: "driver_error list \<Rightarrow> string option" where
  "first_postgres [] = None"
| "first_postgres (Postgres_error c # es) = Some c"
| "first_postgres (e # es) = first_postgres es"

fun first_mysql :: "driver_error list \<Rightarrow> nat option" where
  "first_mysql [] = None"
| "first_mysql (Mysql_error c # es) = Some c"
| "first_mysql (e # es) = first_mysql es"

definition is_sqlite_retryable :: "driver_error list \<Rightarrow> bool" where
  "is_sqlite_retryable es = (case first_sqlite es of None \<Rightarrow> False | Some c \<Rightarrow> c mod 256 = 5 \<or> c mod 256 = 6)"

definition is_postgres_retryable :: "driver_error list \<Rightarrow> bool" where
  "is_postgres_retryable es = (case first_postgres es of None \<Rightarrow> False | Some c \<Rightarrow> c = ''40001'' \<or> c = ''40P01'')"

definition is_mysql_retryable :: "driver_error list \<Rightarrow> bool" where
  "is_mysql_retryable es = (case first_mysql es of None \<Rightarrow> False | Some c \<Rightarrow> c = 1205 \<or> c = 1206 \<or> c = 1213)"

fun retryable :: "dialect \<Rightarrow> driver_error list \<Rightarrow> bool" where
  "retryable Postgres es = is_postgres_retryable es"
| "retryable Mysql es = is_mysql_retryable es"
| "retryable Sqlite es = is_sqlite_retryable es"

text \<open>
  A transaction whose attempts fail with errors that are not lost races of its dialect is not tried again; one that
  loses a race less than five times in a row succeeds as if it had been alone.
\<close>

lemma other_errors_not_retried:
  assumes "fault 0 = Some es" and "\<not> retryable d es"
  shows "run_transaction fault (retryable d) cancelled operation 0 db = Inl (Database es)"
  using assms by (simp add: run_transaction.simps)

lemma lost_races_retried:
  assumes "\<forall>k<n. \<exists>es. fault k = Some es \<and> retryable d es" and "fault n = None" and "n < 5"
    and "\<forall>k. \<not> cancelled k" and "m \<le> n"
  shows "run_transaction fault (retryable d) cancelled operation m db =
    (case operation db of Inl e \<Rightarrow> Inl (Operation e) | Inr db' \<Rightarrow> Inr db')"
  using assms(5)
proof (induction "n - m" arbitrary: m)
  case 0
  then show ?case using assms(2) by (simp add: run_transaction.simps)
next
  case (Suc k)
  then have "m < n" by simp
  with assms(1) obtain es where "fault m = Some es" "retryable d es" by blast
  moreover have "run_transaction fault (retryable d) cancelled operation (m + 1) db =
      (case operation db of Inl e \<Rightarrow> Inl (Operation e) | Inr db' \<Rightarrow> Inr db')"
    using Suc \<open>m < n\<close> by (intro Suc.hyps(1)) simp_all
  ultimately show ?case
    using \<open>m < n\<close> assms(3,4) by (simp add: run_transaction.simps [of fault _ _ _ m])
qed

section \<open>Placeholders\<close>

text \<open>\<open>strconv.Itoa\<close> for the numbers of parameters.\<close>

function decimal :: "nat \<Rightarrow> string" where
  "decimal n = (if n < 10 then [char_of (48 + n)] else decimal (n div 10) @ [char_of (48 + n mod 10)])"
  by pat_completeness auto
termination by (relation "measure id") auto

declare decimal.simps [simp del]

fun bind_from :: "nat \<Rightarrow> string \<Rightarrow> string" where
  "bind_from k [] = []"
| "bind_from k (c # s) =
     (if c = CHR ''?'' then CHR ''$'' # decimal k @ bind_from (k + 1) s else c # bind_from k s)"

definition bind :: "dialect \<Rightarrow> string \<Rightarrow> string" where
  "bind d query = (if d \<noteq> Postgres then query else bind_from 1 query)"

text \<open>How PostgreSQL reads a number: the parameters of a statement are numbered from one in their order.\<close>

definition digits_value :: "string \<Rightarrow> nat" where
  "digits_value s = fold (\<lambda>c n. 10 * n + (of_char c - 48)) s 0"

lemma digits_value_decimal: "digits_value (decimal n) = n"
proof (induction n rule: decimal.induct)
  case (1 n)
  show ?case
  proof (cases "n < 10")
    case True
    then show ?thesis by (simp add: decimal.simps [of n] digits_value_def)
  next
    case False
    with 1 have "digits_value (decimal (n div 10)) = n div 10" by simp
    with False show ?thesis
      by (simp add: decimal.simps [of n] digits_value_def)
  qed
qed

lemma bind_from_plain: "CHR ''?'' \<notin> set s \<Longrightarrow> bind_from k (s @ t) = s @ bind_from k t"
  by (induction s) auto

lemma bind_from_next:
  "CHR ''?'' \<notin> set s \<Longrightarrow> bind_from k (s @ CHR ''?'' # t) = s @ CHR ''$'' # decimal k @ bind_from (k + 1) t"
  by (simp add: bind_from_plain)

text \<open>The \<open>i\<close>-th placeholder, counted from zero, becomes the number \<open>k + i\<close>; the text between them stays.\<close>

lemma bind_from_pieces:
  assumes "\<forall>p\<in>set pieces. CHR ''?'' \<notin> set p" and "CHR ''?'' \<notin> set last_piece"
  shows "bind_from k (concat (map (\<lambda>p. p @ [CHR ''?'']) pieces) @ last_piece) =
    concat (map (\<lambda>(i, p). p @ CHR ''$'' # decimal i) (zip [k..<k + length pieces] pieces)) @ last_piece"
  using assms(1)
proof (induction pieces arbitrary: k)
  case Nil
  then show ?case using bind_from_plain [OF assms(2), of k "[]"] by simp
next
  case (Cons p pieces)
  have "[k..<k + length (p # pieces)] = k # [k + 1..<(k + 1) + length pieces]" by (simp add: upt_rec)
  with Cons bind_from_next [of p k] show ?case by simp
qed

end
