(* ===== verification/Stores.thy ===== *)
theory Stores
  imports Event_Store
begin

text \<open>
  The stores behind the event log: \<open>storage/registry.go\<close> opens one store per database and owns it, and
  \<open>storage/event_adapter.go\<close> binds every session to the store its first stream was opened in. Both run
  their callers' operations outside their locks, so the critical sections are steps.
\<close>

section \<open>The registry of stores\<close>

text \<open>
  The store an entry opened is named by the entry's index. \<open>'k\<close> is the key a DSN is classified under.
\<close>

record reg_entry =
  ge_ready :: bool
  ge_store :: bool

record 'k store_registry =
  sg_entries :: "('k \<times> nat) list"
  sg_heap :: "reg_entry list"
  sg_closed :: bool

datatype got = Registry_closed | Wait_entry nat | Open_entry nat

text \<open>\<open>Get\<close> up to the point where it waits for an entry or opens the store of a new one.\<close>

definition get_store :: "'k \<Rightarrow> 'k store_registry \<Rightarrow> 'k store_registry \<times> got" where
  "get_store k g =
     (if sg_closed g then (g, Registry_closed)
      else case map_of (sg_entries g) k of
             Some i \<Rightarrow> (g, Wait_entry i)
           | None \<Rightarrow>
             let i = length (sg_heap g)
             in (g\<lparr>sg_entries := (k, i) # sg_entries g,
                   sg_heap := sg_heap g @ [\<lparr>ge_ready = False, ge_store = False\<rparr>]\<rparr>, Open_entry i))"

definition store_opened :: "'k \<Rightarrow> nat \<Rightarrow> bool \<Rightarrow> 'k store_registry \<Rightarrow> 'k store_registry" where
  "store_opened k i ok g =
     (let g = g\<lparr>sg_heap := (sg_heap g)[i := \<lparr>ge_ready = True, ge_store = ok\<rparr>]\<rparr>
      in if ok then g else g\<lparr>sg_entries := filter (\<lambda>(k', j). k' \<noteq> k) (sg_entries g)\<rparr>)"

text \<open>\<open>Close\<close> takes the entries, then waits for each and closes its store.\<close>

definition close_stores :: "'k store_registry \<Rightarrow> 'k store_registry \<times> nat list" where
  "close_stores g = (if sg_closed g then (g, []) else (g\<lparr>sg_closed := True\<rparr>, map snd (sg_entries g)))"

record 'k stores_world =
  rw_registry :: "'k store_registry"
  rw_opening :: "('k \<times> nat) list"
  rw_closing :: "nat list"
  rw_closed :: "nat list"

datatype 'k store_act = Get_store 'k | Store_opened 'k nat bool | Close_stores | Close_entry nat

definition store_next :: "'k stores_world \<Rightarrow> 'k store_act \<Rightarrow> 'k stores_world option" where
  "store_next w a =
     (case a of
        Get_store k \<Rightarrow>
          (case get_store k (rw_registry w) of
             (g, Open_entry i) \<Rightarrow> Some (w\<lparr>rw_registry := g, rw_opening := (k, i) # rw_opening w\<rparr>)
           | (g, r) \<Rightarrow> Some (w\<lparr>rw_registry := g\<rparr>))
      | Store_opened k i ok \<Rightarrow>
          if (k, i) \<in> set (rw_opening w)
          then Some (w\<lparr>rw_registry := store_opened k i ok (rw_registry w), rw_opening := remove1 (k, i) (rw_opening w)\<rparr>)
          else None
      | Close_stores \<Rightarrow>
          (case close_stores (rw_registry w) of
             (g, is) \<Rightarrow> Some (w\<lparr>rw_registry := g, rw_closing := rw_closing w @ is\<rparr>))
      | Close_entry i \<Rightarrow>
          if i \<in> set (rw_closing w) \<and> ge_ready (sg_heap (rw_registry w) ! i)
          then Some (w\<lparr>rw_closing := remove1 i (rw_closing w),
                       rw_closed := (if ge_store (sg_heap (rw_registry w) ! i) then i # rw_closed w else rw_closed w)\<rparr>)
          else None)"

definition stores_start :: "'k stores_world \<Rightarrow> bool" where
  "stores_start w \<longleftrightarrow>
     w = \<lparr>rw_registry = \<lparr>sg_entries = [], sg_heap = [], sg_closed = False\<rparr>, rw_opening = [], rw_closing = [], rw_closed = []\<rparr>"

definition stores_moves :: "'k stores_world \<Rightarrow> 'k store_act \<Rightarrow> 'k stores_world \<Rightarrow> bool" where
  "stores_moves w a v \<longleftrightarrow> store_next w a = Some v"

text \<open>
  The invariant: entries have distinct keys and stores, and what is being opened is an entry that is not
  ready; before \<open>Close\<close> every open store belongs to an entry, after it every store is still to be closed or
  was closed once.
\<close>

abbreviation opening_stores :: "'k stores_world \<Rightarrow> nat set" where
  "opening_stores w \<equiv> snd ` set (rw_opening w)"

abbreviation entry_stores :: "'k stores_world \<Rightarrow> nat set" where
  "entry_stores w \<equiv> snd ` set (sg_entries (rw_registry w))"

definition entries_ok :: "'k stores_world \<Rightarrow> bool" where
  "entries_ok w \<longleftrightarrow> distinct (map fst (sg_entries (rw_registry w))) \<and> distinct (map snd (sg_entries (rw_registry w)))
     \<and> distinct (map snd (rw_opening w)) \<and> set (rw_opening w) \<subseteq> set (sg_entries (rw_registry w))
     \<and> entry_stores w \<subseteq> {..<length (sg_heap (rw_registry w))}"

definition heap_ok :: "'k stores_world \<Rightarrow> bool" where
  "heap_ok w \<longleftrightarrow> (\<forall>i<length (sg_heap (rw_registry w)).
     (ge_ready (sg_heap (rw_registry w) ! i) \<longleftrightarrow> i \<notin> opening_stores w)
     \<and> (ge_store (sg_heap (rw_registry w) ! i) \<longrightarrow> i \<notin> opening_stores w))"

definition open_ok :: "'k stores_world \<Rightarrow> bool" where
  "open_ok w \<longleftrightarrow> rw_closing w = [] \<and> rw_closed w = []
     \<and> (\<forall>i<length (sg_heap (rw_registry w)). ge_store (sg_heap (rw_registry w) ! i) \<longrightarrow> i \<in> entry_stores w)"

definition closed_ok :: "'k stores_world \<Rightarrow> bool" where
  "closed_ok w \<longleftrightarrow> distinct (rw_closing w @ rw_closed w)
     \<and> set (rw_closing w @ rw_closed w) \<subseteq> {..<length (sg_heap (rw_registry w))}
     \<and> opening_stores w \<subseteq> set (rw_closing w) \<and> (\<forall>i\<in>set (rw_closed w). ge_store (sg_heap (rw_registry w) ! i))
     \<and> (\<forall>i<length (sg_heap (rw_registry w)). ge_store (sg_heap (rw_registry w) ! i) \<longrightarrow> i \<in> set (rw_closing w @ rw_closed w))"

definition stores_ok :: "'k stores_world \<Rightarrow> bool" where
  "stores_ok w \<longleftrightarrow> entries_ok w \<and> heap_ok w
     \<and> (if sg_closed (rw_registry w) then closed_ok w else open_ok w)"

lemma stores_ok_get:
  assumes ok: "stores_ok w" and new: "\<not> sg_closed (rw_registry w)" "map_of (sg_entries (rw_registry w)) k = None"
  shows "stores_ok (w\<lparr>rw_registry := (rw_registry w)\<lparr>sg_entries := (k, length (sg_heap (rw_registry w))) # sg_entries (rw_registry w),
             sg_heap := sg_heap (rw_registry w) @ [\<lparr>ge_ready = False, ge_store = False\<rparr>]\<rparr>,
           rw_opening := (k, length (sg_heap (rw_registry w))) # rw_opening w\<rparr>)" (is "stores_ok ?v")
proof -
  let ?n = "length (sg_heap (rw_registry w))" and ?e = "sg_entries (rw_registry w)"
  from ok new(1) have e: "entries_ok w" and h: "heap_ok w" and own: "open_ok w" by (simp_all add: stores_ok_def)
  have key: "k \<notin> fst ` set ?e" using new(2) by (simp add: map_of_eq_None_iff)
  have lt: "entry_stores w \<subseteq> {..<?n}" and sub: "set (rw_opening w) \<subseteq> set ?e" using e by (simp_all add: entries_ok_def)
  have fresh: "?n \<notin> entry_stores w" using lt by blast
  have fresh_open: "?n \<notin> opening_stores w" using fresh sub by (meson image_mono subsetD)
  have v: "rw_opening ?v = (k, ?n) # rw_opening w" "sg_entries (rw_registry ?v) = (k, ?n) # ?e"
    "length (sg_heap (rw_registry ?v)) = Suc ?n" "sg_closed (rw_registry ?v) \<longleftrightarrow> False" "rw_closing ?v = rw_closing w"
    "rw_closed ?v = rw_closed w" using new(1) by simp_all
  have "entries_ok ?v"
    using e key fresh fresh_open sub lt unfolding entries_ok_def v by auto
  moreover have "heap_ok ?v"
    using h fresh_open unfolding heap_ok_def v by (auto simp: nth_append less_Suc_eq)
  moreover have "open_ok ?v"
    using own unfolding open_ok_def v by (auto simp: nth_append less_Suc_eq)
  ultimately show ?thesis by (simp add: stores_ok_def new(1))
qed

lemma distinct_snd_unique: "distinct (map snd xs) \<Longrightarrow> (a, i) \<in> set xs \<Longrightarrow> (b, i) \<in> set xs \<Longrightarrow> a = b"
  by (induction xs) force+

lemma remove1_snd:
  assumes "distinct (map snd xs)" and "(k, i) \<in> set xs"
  shows "snd ` set (remove1 (k, i) xs) = snd ` set xs - {i}" and "distinct (map snd (remove1 (k, i) xs))"
    and "set (remove1 (k, i) xs) = set xs - {(k, i)}"
proof -
  show r: "set (remove1 (k, i) xs) = set xs - {(k, i)}"
    using assms(1) by (simp add: distinct_map)
  have "inj_on snd (set xs)" using assms(1) by (simp add: distinct_map)
  from inj_on_image_set_diff [OF this, of "set xs" "{(k, i)}"] assms(2)
  show "snd ` set (remove1 (k, i) xs) = snd ` set xs - {i}" by (simp add: r)
  show "distinct (map snd (remove1 (k, i) xs))"
    using assms(1) by (simp add: distinct_map inj_on_diff)
qed

lemma stores_ok_opened:
  assumes ok: "stores_ok w" and i: "(k, i) \<in> set (rw_opening w)"
  shows "stores_ok (w\<lparr>rw_registry := store_opened k i success (rw_registry w), rw_opening := remove1 (k, i) (rw_opening w)\<rparr>)"
    (is "stores_ok ?v")
proof -
  let ?g = "rw_registry w" and ?g' = "store_opened k i success (rw_registry w)"
  from ok have e: "entries_ok w" and h: "heap_ok w" by (simp_all add: stores_ok_def)
  have d: "distinct (map snd (rw_opening w))" "distinct (map fst (sg_entries ?g))" "distinct (map snd (sg_entries ?g))"
    and sub: "set (rw_opening w) \<subseteq> set (sg_entries ?g)" and lt: "entry_stores w \<subseteq> {..<length (sg_heap ?g)}"
    using e by (simp_all add: entries_ok_def)
  have i': "(k, i) \<in> set (sg_entries ?g)" using i sub by blast
  then have lt_i: "i < length (sg_heap ?g)" using lt by force
  have i_open: "i \<in> opening_stores w" using i by force
  note r = remove1_snd [OF d(1) i]
  have same_key: "k' = k \<longleftrightarrow> j = i" if "(k', j) \<in> set (sg_entries ?g)" for k' j
    using that i' d(2,3) by (metis distinct_snd_unique eq_key_imp_eq_value)
  have entries: "set (sg_entries ?g') = {p \<in> set (sg_entries ?g). success \<or> snd p \<noteq> i}"
    by (auto simp: store_opened_def Let_def dest: same_key)
  have sorted: "distinct (map fst (sg_entries ?g'))" "distinct (map snd (sg_entries ?g'))"
    using d(2,3) by (auto simp: store_opened_def Let_def distinct_map_filter)
  have heap: "length (sg_heap ?g') = length (sg_heap ?g)" "sg_closed ?g' = sg_closed ?g"
    "sg_heap ?g' ! j = (if j = i then \<lparr>ge_ready = True, ge_store = success\<rparr> else sg_heap ?g ! j)" for j
    using lt_i by (auto simp: store_opened_def Let_def)
  have v: "rw_registry ?v = ?g'" "rw_opening ?v = remove1 (k, i) (rw_opening w)" "rw_closing ?v = rw_closing w"
    "rw_closed ?v = rw_closed w" by simp_all
  have "entries_ok ?v"
    unfolding entries_ok_def v heap r(3)
  proof (intro conjI sorted r(2))
    show "set (rw_opening w) - {(k, i)} \<subseteq> set (sg_entries ?g')"
      using sub same_key entries by auto
    show "snd ` set (sg_entries ?g') \<subseteq> {..<length (sg_heap ?g)}" using lt entries by auto
  qed
  moreover have "heap_ok ?v"
    using h unfolding heap_ok_def v heap r(1) by auto
  moreover have "closed_ok ?v" if "sg_closed ?g"
  proof -
    have c: "closed_ok w" using ok that by (simp add: stores_ok_def)
    then have "i \<in> set (rw_closing w)" "i \<notin> set (rw_closed w)"
      using i_open by (auto simp: closed_ok_def)
    with c show ?thesis unfolding closed_ok_def v heap r(1) by auto
  qed
  moreover have "open_ok ?v" if "\<not> sg_closed ?g"
  proof -
    have o: "open_ok w" using ok that by (simp add: stores_ok_def)
    have "j \<in> snd ` set (sg_entries ?g')"
      if "j < length (sg_heap ?g)" "ge_store (sg_heap ?g' ! j)" for j
    proof (cases "j = i")
      case True
      with that(2) have "success" by (simp add: heap)
      with True i' entries show ?thesis by force
    next
      case False
      with that o have "j \<in> entry_stores w" by (simp add: heap open_ok_def)
      with False entries show ?thesis by force
    qed
    with o show ?thesis unfolding open_ok_def v heap(1) by blast
  qed
  ultimately show ?thesis by (simp add: stores_ok_def heap(2))
qed

lemma stores_ok_close:
  assumes ok: "stores_ok w" and "\<not> sg_closed (rw_registry w)"
  shows "stores_ok (w\<lparr>rw_registry := (rw_registry w)\<lparr>sg_closed := True\<rparr>, rw_closing := map snd (sg_entries (rw_registry w))\<rparr>)"
    (is "stores_ok ?v")
proof -
  let ?g = "rw_registry w"
  from assms have e: "entries_ok w" and h: "heap_ok w" and own: "open_ok w" by (simp_all add: stores_ok_def)
  have v: "sg_entries (rw_registry ?v) = sg_entries ?g" "sg_heap (rw_registry ?v) = sg_heap ?g" "rw_opening ?v = rw_opening w"
    "rw_closing ?v = map snd (sg_entries ?g)" "rw_closed ?v = []" "sg_closed (rw_registry ?v)"
    using own by (simp_all add: open_ok_def)
  have "opening_stores w \<subseteq> entry_stores w" using e by (auto simp: entries_ok_def)
  with e own have "closed_ok ?v" unfolding closed_ok_def v by (simp add: entries_ok_def open_ok_def)
  moreover have "entries_ok ?v" using e unfolding entries_ok_def v .
  moreover have "heap_ok ?v" using h unfolding heap_ok_def v .
  ultimately show ?thesis by (simp add: stores_ok_def)
qed

lemma stores_ok_close_entry:
  assumes ok: "stores_ok w" and i: "i \<in> set (rw_closing w)" "ge_ready (sg_heap (rw_registry w) ! i)"
  shows "stores_ok (w\<lparr>rw_closing := remove1 i (rw_closing w),
       rw_closed := (if ge_store (sg_heap (rw_registry w) ! i) then i # rw_closed w else rw_closed w)\<rparr>)"
    (is "stores_ok ?v")
proof -
  have closed: "sg_closed (rw_registry w)" using ok i(1) by (auto simp: stores_ok_def open_ok_def split: if_splits)
  with ok have e: "entries_ok w" and h: "heap_ok w" and c: "closed_ok w" by (simp_all add: stores_ok_def)
  have v: "rw_registry ?v = rw_registry w" "rw_opening ?v = rw_opening w" "rw_closing ?v = remove1 i (rw_closing w)"
    "rw_closed ?v = (if ge_store (sg_heap (rw_registry w) ! i) then i # rw_closed w else rw_closed w)" by simp_all
  have r: "set (remove1 i (rw_closing w)) = set (rw_closing w) - {i}" "distinct (remove1 i (rw_closing w))"
    using c by (simp_all add: closed_ok_def)
  have "i < length (sg_heap (rw_registry w))" using c i(1) by (auto simp: closed_ok_def)
  with h i(2) have "i \<notin> opening_stores w" by (simp add: heap_ok_def)
  with c r i(1) have "closed_ok ?v" unfolding closed_ok_def v by (auto simp: r)
  moreover have "entries_ok ?v" using e unfolding entries_ok_def v .
  moreover have "heap_ok ?v" using h unfolding heap_ok_def v .
  ultimately show ?thesis using closed by (simp add: stores_ok_def)
qed

lemma stores_ok_next:
  assumes ok: "stores_ok w" and v: "store_next w a = Some v"
  shows "stores_ok v"
proof (cases a)
  case (Get_store k)
  consider "sg_closed (rw_registry w)" | i where "map_of (sg_entries (rw_registry w)) k = Some i" "\<not> sg_closed (rw_registry w)"
    | "\<not> sg_closed (rw_registry w)" "map_of (sg_entries (rw_registry w)) k = None" by fastforce
  then show ?thesis
  proof cases
    case 3
    with v Get_store stores_ok_get [OF ok 3] show ?thesis by (simp add: store_next_def get_store_def Let_def)
  qed (use v Get_store ok in \<open>auto simp: store_next_def get_store_def\<close>)
next
  case (Store_opened k i success)
  with v stores_ok_opened [OF ok, of k i success] show ?thesis by (simp add: store_next_def split: if_splits)
next
  case Close_stores
  show ?thesis
  proof (cases "sg_closed (rw_registry w)")
    case True
    with v Close_stores ok show ?thesis by (simp add: store_next_def close_stores_def)
  next
    case False
    then have "rw_closing w = []" using ok by (simp add: stores_ok_def open_ok_def)
    with False v Close_stores stores_ok_close [OF ok False] show ?thesis by (simp add: store_next_def close_stores_def)
  qed
next
  case (Close_entry i)
  with v stores_ok_close_entry [OF ok, of i] show ?thesis by (simp add: store_next_def split: if_splits)
qed

interpretation sm: invariant_machine stores_start stores_moves stores_ok
proof unfold_locales
  show "stores_ok w" if "stores_start w" for w :: "'k stores_world"
    using that by (simp add: stores_start_def stores_ok_def entries_ok_def heap_ok_def open_ok_def)
  show "stores_ok v" if "stores_ok w" "stores_moves w a v" for w v :: "'k stores_world" and a
    using that(2) unfolding stores_moves_def by (rule stores_ok_next [OF that(1)])
qed

text \<open>
  C34: The registry of stores owns what it opens: two databases never share a store and one database never
  has two, and once \<open>Close\<close> has returned and nothing is being opened, every store that was opened has been
  closed exactly once, however opening and closing overlapped.
\<close>

theorem stores_closed_once:
  assumes "reach stores_start stores_moves w"
  shows "distinct (map fst (sg_entries (rw_registry w))) \<and> distinct (map snd (sg_entries (rw_registry w)))
    \<and> (sg_closed (rw_registry w) \<and> rw_opening w = [] \<and> rw_closing w = [] \<longrightarrow>
        distinct (rw_closed w)
        \<and> set (rw_closed w) = {i. i < length (sg_heap (rw_registry w)) \<and> ge_store (sg_heap (rw_registry w) ! i)})"
proof -
  from sm.reach_inv [OF assms] have ok: "stores_ok w" .
  have "set (rw_closed w) = {i. i < length (sg_heap (rw_registry w)) \<and> ge_store (sg_heap (rw_registry w) ! i)}"
    if "closed_ok w" "rw_closing w = []"
    using that unfolding closed_ok_def by auto
  moreover have "distinct (rw_closed w)" if "closed_ok w" using that by (simp add: closed_ok_def)
  ultimately show ?thesis using ok by (auto simp: stores_ok_def entries_ok_def)
qed

definition sample_stores :: "string stores_world option" where
  "sample_stores = play store_next
     \<lparr>rw_registry = \<lparr>sg_entries = [], sg_heap = [], sg_closed = False\<rparr>, rw_opening = [], rw_closing = [], rw_closed = []\<rparr>
     [Get_store ''a'', Get_store ''b'', Get_store ''a'', Store_opened ''b'' 1 False, Close_stores, Store_opened ''a'' 0 True,
      Close_entry 0]"

theorem stores_closed_once_witness:
  "sg_closed (rw_registry (the sample_stores)) \<and> rw_closed (the sample_stores) = [0] \<and> distinct (rw_closed (the sample_stores))
    \<and> set (rw_closed (the sample_stores)) =
        {i. i < length (sg_heap (rw_registry (the sample_stores))) \<and> ge_store (sg_heap (rw_registry (the sample_stores)) ! i)}"
proof -
  have run: "sample_stores \<noteq> None" "sg_closed (rw_registry (the sample_stores))" "rw_opening (the sample_stores) = []"
    "rw_closing (the sample_stores) = []" "rw_closed (the sample_stores) = [0]"
    by code_simp+
  then have "play store_next
     \<lparr>rw_registry = \<lparr>sg_entries = [], sg_heap = [], sg_closed = False\<rparr>, rw_opening = [], rw_closing = [], rw_closed = []\<rparr>
     [Get_store ''a'', Get_store ''b'', Get_store ''a'', Store_opened ''b'' 1 False, Close_stores, Store_opened ''a'' 0 True,
      Close_entry 0] = Some (the sample_stores)"
    unfolding sample_stores_def by simp
  then have "reach stores_start stores_moves (the sample_stores)"
    by (rule play_reach [OF reach_init, rotated 2]) (simp_all add: stores_start_def stores_moves_def)
  from stores_closed_once [OF this] run show ?thesis by blast
qed

section \<open>The store of a session\<close>

text \<open>
  \<open>EventAdapter\<close>: a map from sessions to stores under a lock. \<open>Open\<close> looks the session up (and asks the registry
  for the store of a new one) in a first critical section, opens the stream in the store, and takes its
  binding back when that failed. \<open>got\<close> is what the registry returned.
\<close>

type_synonym bindings = "string \<Rightarrow> nat option"

definition open_bind :: "string \<Rightarrow> nat option \<Rightarrow> bindings \<Rightarrow> (nat \<times> bool) option \<times> bindings" where
  "open_bind sid got m =
     (case m sid of
        Some store \<Rightarrow> (Some (store, False), m)
      | None \<Rightarrow> (case got of None \<Rightarrow> (None, m) | Some store \<Rightarrow> (Some (store, True), m(sid \<mapsto> store))))"

definition open_finish :: "string \<Rightarrow> nat \<Rightarrow> bool \<Rightarrow> bool \<Rightarrow> bindings \<Rightarrow> bindings" where
  "open_finish sid store created ok m = (if \<not> ok \<and> created \<and> m sid = Some store then m(sid := None) else m)"

definition append_target :: "string \<Rightarrow> bindings \<Rightarrow> nat option" where
  "append_target sid m = m sid"

definition after_target :: "string \<Rightarrow> bindings \<Rightarrow> nat option" where
  "after_target sid m = m sid"

definition release_session :: "string \<Rightarrow> nat \<Rightarrow> bool \<Rightarrow> bindings \<Rightarrow> bindings" where
  "release_session sid store ok m = (if ok \<and> m sid = Some store then m(sid := None) else m)"

text \<open>
  The adapter with the calls in progress. \<open>opened\<close> are the streams that were opened, with their store;
  \<open>released\<close> the sessions whose binding was taken back.
\<close>

record adapter =
  ad_bindings :: bindings
  ad_opens :: "(nat \<times> string \<times> nat \<times> bool) list"
  ad_closes :: "(nat \<times> string \<times> nat) list"
  ad_opened :: "(string \<times> nat) list"
  ad_released :: "string list"

datatype adapter_act = Open_bind nat string "nat option" | Open_finish nat string nat bool bool
  | Close_lookup nat string | Close_finish nat string nat bool

definition adapter_next :: "adapter \<Rightarrow> adapter_act \<Rightarrow> adapter option" where
  "adapter_next w a =
     (case a of
        Open_bind c sid got \<Rightarrow>
          (case open_bind sid got (ad_bindings w) of
             (None, m) \<Rightarrow> Some w
           | (Some (store, created), m) \<Rightarrow>
               Some (w\<lparr>ad_bindings := m, ad_opens := (c, sid, store, created) # ad_opens w\<rparr>))
      | Open_finish c sid store created ok \<Rightarrow>
          if (c, sid, store, created) \<notin> set (ad_opens w) then None
          else let m = open_finish sid store created ok (ad_bindings w)
            in Some (w\<lparr>ad_bindings := m, ad_opens := remove1 (c, sid, store, created) (ad_opens w),
                       ad_opened := (if ok then (sid, store) # ad_opened w else ad_opened w),
                       ad_released := (if m sid \<noteq> ad_bindings w sid then sid # ad_released w else ad_released w)\<rparr>)
      | Close_lookup c sid \<Rightarrow>
          (case ad_bindings w sid of
             None \<Rightarrow> Some w
           | Some store \<Rightarrow> Some (w\<lparr>ad_closes := (c, sid, store) # ad_closes w\<rparr>))
      | Close_finish c sid store ok \<Rightarrow>
          if (c, sid, store) \<notin> set (ad_closes w) then None
          else let m = release_session sid store ok (ad_bindings w)
            in Some (w\<lparr>ad_bindings := m, ad_closes := remove1 (c, sid, store) (ad_closes w),
                       ad_released := (if m sid \<noteq> ad_bindings w sid then sid # ad_released w else ad_released w)\<rparr>))"

definition no_sessions :: adapter where
  "no_sessions = \<lparr>ad_bindings = Map.empty, ad_opens = [], ad_closes = [], ad_opened = [], ad_released = []\<rparr>"

definition adapter_start :: "adapter \<Rightarrow> bool" where
  "adapter_start w \<longleftrightarrow> w = no_sessions"

definition adapter_moves :: "adapter \<Rightarrow> adapter_act \<Rightarrow> adapter \<Rightarrow> bool" where
  "adapter_moves w a v \<longleftrightarrow> adapter_next w a = Some v"

definition adapter_ok :: "adapter \<Rightarrow> bool" where
  "adapter_ok w \<longleftrightarrow>
     (\<forall>(sid, store)\<in>set (ad_opened w). sid \<notin> set (ad_released w) \<longrightarrow> ad_bindings w sid = Some store)
   \<and> (\<forall>(c, sid, store, created)\<in>set (ad_opens w). sid \<notin> set (ad_released w) \<longrightarrow> ad_bindings w sid = Some store)"

lemma adapter_okD:
  assumes "adapter_ok w" and "sid \<notin> set (ad_released w)"
  shows "(sid, store) \<in> set (ad_opened w) \<Longrightarrow> ad_bindings w sid = Some store"
    and "(c, sid, store, created) \<in> set (ad_opens w) \<Longrightarrow> ad_bindings w sid = Some store"
  using assms unfolding adapter_ok_def by blast+

lemma adapter_okI:
  assumes "\<And>sid store. (sid, store) \<in> set (ad_opened w) \<Longrightarrow> sid \<notin> set (ad_released w) \<Longrightarrow> ad_bindings w sid = Some store"
    and "\<And>c sid store created. (c, sid, store, created) \<in> set (ad_opens w) \<Longrightarrow> sid \<notin> set (ad_released w)
      \<Longrightarrow> ad_bindings w sid = Some store"
  shows "adapter_ok w"
  using assms unfolding adapter_ok_def by blast

lemma adapter_ok_next:
  assumes ok: "adapter_ok w" and v: "adapter_next w a = Some v"
  shows "adapter_ok v"
proof (cases a)
  case (Open_bind c sid got)
  show ?thesis
  proof (cases "fst (open_bind sid got (ad_bindings w))")
    case None
    with v Open_bind have "v = w" by (simp add: adapter_next_def split_beta)
    with ok show ?thesis by simp
  next
    case (Some p)
    obtain store created where p: "p = (store, created)" by (cases p)
    define m where "m = snd (open_bind sid got (ad_bindings w))"
    have v': "v = w\<lparr>ad_bindings := m, ad_opens := (c, sid, store, created) # ad_opens w\<rparr>"
      using v Open_bind Some p by (simp add: adapter_next_def split_beta m_def)
    have m: "m sid = Some store" "ad_bindings w x = Some y \<Longrightarrow> m x = Some y" for x y
      using Some p by (auto simp: m_def open_bind_def split: option.splits)
    show ?thesis
      by (rule adapter_okI) (auto simp: v' m intro: m(2) adapter_okD [OF ok])
  qed
next
  case (Open_finish c sid store created success)
  define m where "m = open_finish sid store created success (ad_bindings w)"
  have i: "(c, sid, store, created) \<in> set (ad_opens w)"
    and v': "v = w\<lparr>ad_bindings := m, ad_opens := remove1 (c, sid, store, created) (ad_opens w),
                       ad_opened := (if success then (sid, store) # ad_opened w else ad_opened w),
                       ad_released := (if m sid \<noteq> ad_bindings w sid then sid # ad_released w else ad_released w)\<rparr>"
    using v Open_finish by (simp_all add: adapter_next_def Let_def m_def split: if_splits)
  have f: "ad_bindings v = m" "ad_opens v = remove1 (c, sid, store, created) (ad_opens w)"
    "set (ad_opened v) \<subseteq> insert (sid, store) (set (ad_opened w))"
    "ad_released v = (if m sid \<noteq> ad_bindings w sid then sid # ad_released w else ad_released w)"
    by (auto simp: v')
  have rel: "m x = ad_bindings w x" "x \<notin> set (ad_released w)" if "x \<notin> set (ad_released v)" for x
    using that unfolding f(4) by (auto simp: m_def open_finish_def split: if_splits)
  show ?thesis
  proof (rule adapter_okI)
    fix x y assume o: "(x, y) \<in> set (ad_opened v)" and x: "x \<notin> set (ad_released v)"
    from o f(3) have "(x, y) = (sid, store) \<or> (x, y) \<in> set (ad_opened w)" by blast
    then show "ad_bindings v x = Some y"
      unfolding f(1) rel(1) [OF x] using adapter_okD [OF ok rel(2) [OF x]] i by blast
  next
    fix d x y z assume o: "(d, x, y, z) \<in> set (ad_opens v)" and x: "x \<notin> set (ad_released v)"
    from o have "(d, x, y, z) \<in> set (ad_opens w)" unfolding f(2) by (meson notin_set_remove1)
    then show "ad_bindings v x = Some y"
      unfolding f(1) rel(1) [OF x] by (rule adapter_okD(2) [OF ok rel(2) [OF x]])
  qed
next
  case (Close_lookup c sid)
  with v ok show ?thesis by (auto simp: adapter_next_def adapter_ok_def split: option.splits)
next
  case (Close_finish c sid store success)
  define m where "m = release_session sid store success (ad_bindings w)"
  have v': "v = w\<lparr>ad_bindings := m, ad_closes := remove1 (c, sid, store) (ad_closes w),
                       ad_released := (if m sid \<noteq> ad_bindings w sid then sid # ad_released w else ad_released w)\<rparr>"
    using v Close_finish by (simp add: adapter_next_def Let_def m_def split: if_splits)
  have f: "ad_bindings v = m" "ad_opens v = ad_opens w" "ad_opened v = ad_opened w"
    "ad_released v = (if m sid \<noteq> ad_bindings w sid then sid # ad_released w else ad_released w)"
    by (simp_all add: v')
  have rel: "m x = ad_bindings w x" "x \<notin> set (ad_released w)" if "x \<notin> set (ad_released v)" for x
    using that unfolding f(4) by (auto simp: m_def release_session_def split: if_splits)
  show ?thesis
    by (rule adapter_okI; unfold f(1-3)) (use rel adapter_okD [OF ok] in metis)+
qed

interpretation ea: invariant_machine adapter_start adapter_moves adapter_ok
proof unfold_locales
  show "adapter_ok w" if "adapter_start w" for w using that by (simp add: adapter_start_def adapter_ok_def no_sessions_def)
  show "adapter_ok v" if "adapter_ok w" "adapter_moves w a v" for w v a
    using that(2) unfolding adapter_moves_def by (rule adapter_ok_next [OF that(1)])
qed

text \<open>
  However the requests of a session overlap, as long as its binding was not taken back, what is appended
  to it and replayed from it goes to the one store in which its streams were opened.
\<close>

theorem session_stays_with_store:
  assumes "reach adapter_start adapter_moves w" and "(sid, store) \<in> set (ad_opened w)" and "sid \<notin> set (ad_released w)"
  shows "append_target sid (ad_bindings w) = Some store \<and> after_target sid (ad_bindings w) = Some store"
  using adapter_okD(1) [OF ea.reach_inv [OF assms(1)] assms(3,2)] by (simp add: append_target_def after_target_def)

definition sample_adapter :: "adapter option" where
  "sample_adapter = play adapter_next no_sessions
     [Open_bind 0 ''s'' (Some 7), Open_bind 1 ''s'' (Some 8), Open_finish 1 ''s'' 7 False True, Open_finish 0 ''s'' 7 True True]"

theorem session_stays_with_store_witness:
  "append_target ''s'' (ad_bindings (the sample_adapter)) = Some 7 \<and> after_target ''s'' (ad_bindings (the sample_adapter)) = Some 7"
proof (rule session_stays_with_store)
  have s: "list_ex (\<lambda>p. p = (''s'', 7)) (ad_opened (the sample_adapter))" "sample_adapter \<noteq> None"
    "list_all (\<lambda>x. x \<noteq> ''s'') (ad_released (the sample_adapter))" by code_simp+
  from s(1,3) show "(''s'', 7) \<in> set (ad_opened (the sample_adapter))" "''s'' \<notin> set (ad_released (the sample_adapter))"
    by (auto simp: list_ex_iff list_all_iff)
  have "play adapter_next no_sessions [Open_bind 0 ''s'' (Some 7), Open_bind 1 ''s'' (Some 8),
      Open_finish 1 ''s'' 7 False True, Open_finish 0 ''s'' 7 True True] = Some (the sample_adapter)"
    using s(2) unfolding sample_adapter_def by simp
  then show "reach adapter_start adapter_moves (the sample_adapter)"
    by (rule play_reach [OF reach_init, rotated 2]) (simp_all add: adapter_start_def adapter_moves_def)
qed

text \<open>The adapter while no session is closed: only \<open>Open\<close> runs.\<close>

definition opening_next :: "adapter \<Rightarrow> adapter_act \<Rightarrow> adapter option" where
  "opening_next w a =
     (case a of Close_lookup _ _ \<Rightarrow> None | Close_finish _ _ _ _ \<Rightarrow> None | _ \<Rightarrow> adapter_next w a)"

definition opening_moves :: "adapter \<Rightarrow> adapter_act \<Rightarrow> adapter \<Rightarrow> bool" where
  "opening_moves w a v \<longleftrightarrow> opening_next w a = Some v"

lemma binding_lost:
  assumes "adapter_moves w a v" and "ad_bindings w sid = Some store" and "ad_bindings v sid \<noteq> Some store"
  shows "\<exists>c. a = Open_finish c sid store True False \<or> a = Close_finish c sid store True"
  using assms
  by (cases a)
    (auto simp: adapter_moves_def adapter_next_def open_bind_def open_finish_def release_session_def Let_def
      split: if_splits option.splits)

text \<open>
  C35: The exception, for any session and any two stores: there is a reachable state, without any session ever being
  closed, in which a stream of the session has been opened in its store and the session is bound to it, and
  there the request that created the binding fails to open its own stream and takes the binding back. What is
  appended to the session then has no store, and the next request binds the session to the other store.
  Besides a successful \<open>Close\<close> of the session this is the only step that ever takes a binding away.
\<close>

theorem failed_open_unbinds_session:
  "(\<exists>w c v u. reach adapter_start opening_moves w \<and> (sid, store) \<in> set (ad_opened w)
      \<and> append_target sid (ad_bindings w) = Some store
      \<and> opening_moves w (Open_finish c sid store True False) v
      \<and> (sid, store) \<in> set (ad_opened v) \<and> append_target sid (ad_bindings v) = None
      \<and> opening_moves v (Open_bind c sid (Some other)) u \<and> append_target sid (ad_bindings u) = Some other)
   \<and> (\<forall>w a v. reach adapter_start adapter_moves w \<and> adapter_moves w a v
      \<and> append_target sid (ad_bindings w) = Some store \<and> append_target sid (ad_bindings v) \<noteq> Some store
      \<longrightarrow> (\<exists>c. a = Open_finish c sid store True False \<or> a = Close_finish c sid store True))"
proof -
  define w where "w = \<lparr>ad_bindings = [sid \<mapsto> store], ad_opens = [(0, sid, store, True)], ad_closes = [],
    ad_opened = [(sid, store)], ad_released = []\<rparr>"
  define v where "v = \<lparr>ad_bindings = Map.empty(sid := None), ad_opens = [], ad_closes = [],
    ad_opened = [(sid, store)], ad_released = [sid]\<rparr>"
  have "play opening_next no_sessions
      [Open_bind 0 sid (Some store), Open_bind 1 sid None, Open_finish 1 sid store False True] = Some w"
    by (simp add: opening_next_def adapter_next_def no_sessions_def open_bind_def open_finish_def w_def)
  then have "reach adapter_start opening_moves w"
    by (rule play_reach [OF reach_init, rotated 2]) (simp_all add: adapter_start_def opening_moves_def)
  moreover have "opening_moves w (Open_finish 0 sid store True False) v"
    by (simp add: opening_moves_def opening_next_def adapter_next_def open_finish_def w_def v_def Let_def)
  moreover have "opening_moves v (Open_bind 0 sid (Some other))
      (v\<lparr>ad_bindings := [sid \<mapsto> other], ad_opens := [(0, sid, other, True)]\<rparr>)"
    by (simp add: opening_moves_def opening_next_def adapter_next_def open_bind_def v_def)
  ultimately have "\<exists>w c v u. reach adapter_start opening_moves w \<and> (sid, store) \<in> set (ad_opened w)
      \<and> append_target sid (ad_bindings w) = Some store
      \<and> opening_moves w (Open_finish c sid store True False) v
      \<and> (sid, store) \<in> set (ad_opened v) \<and> append_target sid (ad_bindings v) = None
      \<and> opening_moves v (Open_bind c sid (Some other)) u \<and> append_target sid (ad_bindings u) = Some other"
    by (fastforce simp: append_target_def w_def v_def)
  moreover have "\<exists>c. a = Open_finish c sid store True False \<or> a = Close_finish c sid store True"
    if "adapter_moves w' a v'" "append_target sid (ad_bindings w') = Some store"
      "append_target sid (ad_bindings v') \<noteq> Some store" for w' a v'
    using binding_lost [OF that(1)] that(2,3) by (simp add: append_target_def)
  ultimately show ?thesis by blast
qed

text \<open>A first request that fails in a session in which nothing was opened.\<close>

theorem failed_open_unbinds_session_witness:
  "append_target ''s'' (ad_bindings (the (play adapter_next no_sessions [Open_bind 0 ''s'' (Some 7)]))) = Some 7
    \<and> (\<exists>c. Open_finish 0 ''s'' 7 True False = Open_finish c ''s'' 7 True False
         \<or> Open_finish 0 ''s'' 7 True False = Close_finish c ''s'' 7 True)"
proof -
  define w where "w = the (play adapter_next no_sessions [Open_bind 0 ''s'' (Some 7)])"
  define v where "v = the (adapter_next w (Open_finish 0 ''s'' 7 True False))"
  have p: "play adapter_next no_sessions [Open_bind 0 ''s'' (Some 7)] = Some w"
    by (simp add: w_def adapter_next_def no_sessions_def open_bind_def)
  have "reach adapter_start adapter_moves w"
    by (rule play_reach [OF reach_init _ p]) (simp_all add: adapter_start_def adapter_moves_def)
  moreover have "adapter_moves w (Open_finish 0 ''s'' 7 True False) v" "append_target ''s'' (ad_bindings w) = Some 7"
    "append_target ''s'' (ad_bindings v) \<noteq> Some 7"
    by (simp_all add: v_def w_def adapter_moves_def adapter_next_def no_sessions_def open_bind_def open_finish_def
        append_target_def Let_def)
  ultimately have "\<exists>c. Open_finish 0 ''s'' 7 True False = Open_finish c ''s'' 7 True False
      \<or> Open_finish 0 ''s'' 7 True False = Close_finish c ''s'' 7 True"
    using failed_open_unbinds_session [of "''s''" 7 8] by blast
  with \<open>append_target ''s'' (ad_bindings w) = Some 7\<close> show ?thesis unfolding w_def by blast
qed

end
