(* ===== verification/Index_Life.thy ===== *)
theory Index_Life
  imports Search_Index
begin

text \<open>
  The life of a search index in \<open>toolsearch/search.go\<close>: what is put into it (\<open>buildIndex\<close>), and the worker that
  builds it in the background (\<open>Start\<close>, \<open>run\<close>, \<open>publish\<close>, \<open>Stop\<close>, \<open>await\<close>), side by side with the callers of the
  other methods. bleve is a parameter: what it answers to a batch.
\<close>

section \<open>What is indexed\<close>

text \<open>
  \<open>buildIndex\<close>: \<open>create\<close> and \<open>commit\<close> are bleve's errors, \<open>add\<close> its error for one document, \<open>expired k\<close> the state of
  the context before document \<open>k\<close>. The result is the batch, or an error; an index that was created and is
  not returned is closed: \<open>left_open\<close> counts the others.
\<close>

datatype build_error = Create_failed | Context_expired | Add_failed string | Commit_failed

fun index_batch ::
    "(string \<Rightarrow> string) \<Rightarrow> (nat \<Rightarrow> bool) \<Rightarrow> (document \<Rightarrow> bool) \<Rightarrow> nat \<Rightarrow> document list \<Rightarrow> (string \<times> (string \<times> string) list) list
       \<Rightarrow> (build_error, (string \<times> (string \<times> string) list) list) res" where
  "index_batch to_lower expired add_fails k [] batch = Inr batch"
| "index_batch to_lower expired add_fails k (d # ds) batch =
     (if expired k then Inl Context_expired
      else if add_fails d then Inl (Add_failed (doc_exposed_name d))
      else index_batch to_lower expired add_fails (Suc k) ds (batch @ [(doc_exposed_name d, indexed_fields to_lower d)]))"

definition build_index ::
    "(string \<Rightarrow> string) \<Rightarrow> bool \<Rightarrow> (nat \<Rightarrow> bool) \<Rightarrow> (document \<Rightarrow> bool) \<Rightarrow> bool \<Rightarrow> document list
       \<Rightarrow> (build_error, (string \<times> (string \<times> string) list) list) res \<times> nat" where
  "build_index to_lower create_fails expired add_fails commit_fails docs =
     (if create_fails then (Inl Create_failed, 0)
      else (case index_batch to_lower expired add_fails 0 docs [] of
              Inl e \<Rightarrow> (Inl e, 0)
            | Inr batch \<Rightarrow> if commit_fails then (Inl Commit_failed, 0) else (Inr batch, 1)))"

lemma index_batch_all:
  "index_batch to_lower expired add_fails k docs batch = Inr b
    \<Longrightarrow> b = batch @ map (\<lambda>d. (doc_exposed_name d, indexed_fields to_lower d)) docs"
  by (induction to_lower expired add_fails k docs batch rule: index_batch.induct) (simp_all split: if_splits)

section \<open>The worker\<close>

datatype worker = No_worker | Loop_head | Attempting | Built | Publishing | Waiting_retry | Worker_ended

text \<open>
  Durations are nanoseconds. \<open>cancel\<close> says that \<open>Start\<close> has stored its cancel function. An index is named by the
  attempt that built it.
\<close>

record index_life =
  il_started :: bool
  il_cancel :: bool
  il_cancelled :: bool
  il_worker :: worker
  il_ready :: bool
  il_stopped :: bool
  il_index :: "nat option"
  il_attempts :: nat
  il_delay :: int
  il_built :: "nat list"
  il_closed :: "nat list"

definition new_life :: "int \<Rightarrow> index_life" where
  "new_life retry_delay = \<lparr>il_started = False, il_cancel = False, il_cancelled = False, il_worker = No_worker, il_ready = False,
     il_stopped = False, il_index = None, il_attempts = 0, il_delay = retry_delay, il_built = [], il_closed = []\<rparr>"

definition start_index_worker :: "index_life \<Rightarrow> index_life" where
  "start_index_worker w = (if il_started w then w else w\<lparr>il_started := True, il_cancel := True, il_worker := Loop_head\<rparr>)"

definition stop_index_worker :: "index_life \<Rightarrow> index_life" where
  "stop_index_worker w = (if il_cancel w then w\<lparr>il_cancelled := True\<rparr> else w)"

text \<open>The deferred calls of \<open>run\<close>: the context is cancelled and \<open>stopped\<close> closed.\<close>

definition end_worker :: "index_life \<Rightarrow> index_life" where
  "end_worker w = w\<lparr>il_worker := Worker_ended, il_cancelled := True, il_stopped := True\<rparr>"

definition publish_index :: "index_life \<Rightarrow> index_life" where
  "publish_index w = w\<lparr>il_index := Some (il_attempts w), il_ready := True\<rparr>"

definition max_delay :: int where
  "max_delay = 30 * 1000000000"

datatype life_act = Start_index | Stop_index | Parent_done | Worker_loop | Build_returns bool | Worker_checks | Worker_publishes
  | Retry_due

definition life_next :: "index_life \<Rightarrow> life_act \<Rightarrow> index_life option" where
  "life_next w a =
     (case a of
        Start_index \<Rightarrow> Some (start_index_worker w)
      | Stop_index \<Rightarrow> Some (stop_index_worker w)
      | Parent_done \<Rightarrow> if il_started w then Some (w\<lparr>il_cancelled := True\<rparr>) else None
      | Worker_loop \<Rightarrow>
          if il_worker w \<noteq> Loop_head then None
          else if il_cancelled w then Some (end_worker w)
          else Some (w\<lparr>il_worker := Attempting, il_attempts := il_attempts w + 1\<rparr>)
      | Build_returns ok \<Rightarrow>
          if il_worker w \<noteq> Attempting then None
          else if ok then Some (w\<lparr>il_worker := Built, il_built := il_attempts w # il_built w\<rparr>)
          else if il_cancelled w then Some (end_worker w)
          else Some (w\<lparr>il_worker := Waiting_retry\<rparr>)
      | Worker_checks \<Rightarrow>
          if il_worker w \<noteq> Built then None
          else if il_cancelled w then Some (end_worker (w\<lparr>il_closed := il_attempts w # il_closed w\<rparr>))
          else Some (w\<lparr>il_worker := Publishing\<rparr>)
      | Worker_publishes \<Rightarrow> if il_worker w \<noteq> Publishing then None else Some (end_worker (publish_index w))
      | Retry_due \<Rightarrow>
          if il_worker w \<noteq> Waiting_retry then None
          else if il_cancelled w then Some (end_worker w)
          else Some (w\<lparr>il_worker := Loop_head, il_delay := min (il_delay w * 2) max_delay\<rparr>))"

text \<open>
  \<open>await\<close> as one of its cases is taken: \<open>None\<close> while all channels block. When several are open Go picks one; \<open>pick\<close>
  lists them in the order it prefers them in.
\<close>

datatype await_case = Ready_channel | Stopped_channel | Timeout_channel | Context_channel
datatype await_reply = Await_ok | Await_not_ready | Await_context

definition await_open :: "index_life \<Rightarrow> bool \<Rightarrow> bool \<Rightarrow> await_case \<Rightarrow> bool" where
  "await_open w timeout expired c =
     (case c of Ready_channel \<Rightarrow> il_ready w | Stopped_channel \<Rightarrow> il_stopped w | Timeout_channel \<Rightarrow> timeout
      | Context_channel \<Rightarrow> expired)"

definition await_index :: "index_life \<Rightarrow> bool \<Rightarrow> bool \<Rightarrow> await_case list \<Rightarrow> await_reply option" where
  "await_index w timeout expired pick =
     (case find (await_open w timeout expired) pick of
        None \<Rightarrow> None
      | Some Ready_channel \<Rightarrow> Some Await_ok
      | Some Stopped_channel \<Rightarrow> Some (if il_ready w then Await_ok else Await_not_ready)
      | Some Timeout_channel \<Rightarrow> Some Await_not_ready
      | Some Context_channel \<Rightarrow> Some Await_context)"

definition life_start :: "int \<Rightarrow> index_life \<Rightarrow> bool" where
  "life_start d w \<longleftrightarrow> w = new_life d"

definition life_moves :: "index_life \<Rightarrow> life_act \<Rightarrow> index_life \<Rightarrow> bool" where
  "life_moves w a v \<longleftrightarrow> life_next w a = Some v"

text \<open>
  The invariant: an index that was built is in the worker's hands, published or closed, and exactly one of
  these; \<open>ready\<close> is closed when the index is published, \<open>stopped\<close> when the worker has ended, neither twice.
\<close>

definition hands_ok :: "index_life \<Rightarrow> bool" where
  "hands_ok w \<longleftrightarrow>
     (if il_worker w = Worker_ended
      then il_built w = (case il_index w of Some n \<Rightarrow> [n] | None \<Rightarrow> []) @ il_closed w \<and> length (il_built w) \<le> 1
      else il_index w = None \<and> il_closed w = []
        \<and> il_built w = (if il_worker w = Built \<or> il_worker w = Publishing then [il_attempts w] else []))"

definition life_ok :: "index_life \<Rightarrow> bool" where
  "life_ok w \<longleftrightarrow> (il_started w \<longleftrightarrow> il_worker w \<noteq> No_worker) \<and> (il_stopped w \<longleftrightarrow> il_worker w = Worker_ended)
     \<and> (il_ready w \<longleftrightarrow> il_index w \<noteq> None) \<and> hands_ok w"

lemma life_ok_next:
  assumes "life_ok w" and "life_next w a = Some v"
  shows "life_ok v"
  using assms
  by (cases a; simp add: life_ok_def hands_ok_def life_next_def start_index_worker_def stop_index_worker_def end_worker_def
      publish_index_def split: if_splits; force)

interpretation il: invariant_machine "life_start d" life_moves life_ok for d
proof unfold_locales
  show "life_ok w" if "life_start d w" for w using that by (simp add: life_start_def life_ok_def hands_ok_def new_life_def)
  show "life_ok v" if "life_ok w" "life_moves w a v" for w v a
    using that(2) unfolding life_moves_def by (rule life_ok_next [OF that(1)])
qed

text \<open>
  C37: Of all attempts at most one index is ever built, and it is not lost: when the worker has ended it was
  published or closed, never both; the channels are closed once, and whoever waits then gets an answer at
  once, a positive one exactly when an index was published.
\<close>

theorem built_index_not_lost:
  assumes "reach (life_start d) life_moves w" and "il_worker w = Worker_ended"
    and "set pick = {Ready_channel, Stopped_channel, Timeout_channel, Context_channel}"
  shows "il_built w = (case il_index w of Some n \<Rightarrow> [n] | None \<Rightarrow> []) @ il_closed w \<and> length (il_built w) \<le> 1
    \<and> await_index w False False pick = Some (if il_index w \<noteq> None then Await_ok else Await_not_ready)"
proof -
  from il.reach_inv [OF assms(1)] have ok: "life_ok w" .
  then have h: "hands_ok w" and "il_stopped w \<longleftrightarrow> il_worker w = Worker_ended" and r: "il_ready w \<longleftrightarrow> il_index w \<noteq> None"
    by (simp_all add: life_ok_def)
  with assms(2) have s: "il_stopped w" by simp
  have b: "il_built w = (case il_index w of Some n \<Rightarrow> [n] | None \<Rightarrow> []) @ il_closed w \<and> length (il_built w) \<le> 1"
    using h unfolding hands_ok_def assms(2) simp_thms if_True .
  have "find (await_open w False False) pick \<noteq> None"
  proof -
    have "Stopped_channel \<in> set pick" unfolding assms(3) by simp
    moreover have "await_open w False False Stopped_channel" using s by (simp add: await_open_def)
    ultimately show ?thesis unfolding find_None_iff by blast
  qed
  then obtain c where c: "find (await_open w False False) pick = Some c" by auto
  then have "await_open w False False c" by (auto simp: find_Some_iff)
  with c r have "await_index w False False pick = Some (if il_index w \<noteq> None then Await_ok else Await_not_ready)"
    by (cases c) (auto simp: await_index_def await_open_def)
  with b show ?thesis by blast
qed

definition sample_life :: "index_life option" where
  "sample_life = play life_next (new_life 1000000000)
     [Start_index, Worker_loop, Build_returns False, Retry_due, Worker_loop, Build_returns True, Worker_checks, Stop_index,
      Worker_publishes]"

theorem built_index_not_lost_witness:
  "il_built (the sample_life) = (case il_index (the sample_life) of Some n \<Rightarrow> [n] | None \<Rightarrow> []) @ il_closed (the sample_life)
    \<and> length (il_built (the sample_life)) \<le> 1
    \<and> await_index (the sample_life) False False [Timeout_channel, Stopped_channel, Context_channel, Ready_channel]
      = Some (if il_index (the sample_life) \<noteq> None then Await_ok else Await_not_ready)"
proof (rule built_index_not_lost [where d = 1000000000])
  have s: "sample_life \<noteq> None" "il_worker (the sample_life) = Worker_ended"
    by (simp_all add: sample_life_def life_next_def new_life_def start_index_worker_def stop_index_worker_def end_worker_def
        publish_index_def)
  show "il_worker (the sample_life) = Worker_ended" by (rule s(2))
  have "play life_next (new_life 1000000000) [Start_index, Worker_loop, Build_returns False, Retry_due, Worker_loop,
      Build_returns True, Worker_checks, Stop_index, Worker_publishes] = Some (the sample_life)"
    using s(1) unfolding sample_life_def by simp
  then show "reach (life_start 1000000000) life_moves (the sample_life)"
    by (rule play_reach [OF reach_init, rotated 2]) (simp_all add: life_start_def life_moves_def)
  show "set [Timeout_channel, Stopped_channel, Context_channel, Ready_channel]
      = {Ready_channel, Stopped_channel, Timeout_channel, Context_channel}" by auto
qed

end
