(* ===== verification/Discovery.thy ===== *)
theory Discovery
  imports Compiled Authorization
begin

text \<open>
  \<open>discoverComponents\<close> of \<open>catalog/compiler.go\<close>: a few workers take the components of a configuration from
  a common counter and discover them at the same time. The steps are the turns of the workers: taking the
  next component under the lock, and returning from a discovery, in any interleaving.
\<close>

section \<open>Outcomes\<close>

datatype discovery_failure = Discover_failed go_error | Nil_result string | Invalid_component compile_error
  | Challenged "auth_error list" | Parent_cancelled string

text \<open>What \<open>Discover\<close> returned.\<close>

type_synonym discovered = "go_error option \<times> features option"

record slot =
  sl_features :: "features option"
  sl_pending :: bool
  sl_err :: "auth_error list"

text \<open>The challenges of a component, which name it and its URL.\<close>

definition captured_challenges :: "server \<Rightarrow> discovered \<Rightarrow> auth_error list" where
  "captured_challenges server d =
     map (\<lambda>ch. ch\<lparr>ae_component := srv_name server, ae_url := srv_url server\<rparr>) (authorization_errors (fst d))"

text \<open>The body of the loop once \<open>Discover\<close> returned: the failure that cancels, or what goes into the slot.\<close>

definition settle ::
    "('t, 'v) uri_lib \<Rightarrow> bool \<Rightarrow> server \<Rightarrow> string \<Rightarrow> discovered \<Rightarrow> (discovery_failure, slot) res" where
  "settle L defer_authorization server pre d =
     (if length (captured_challenges server d) > 0
      then Inr \<lparr>sl_features = Some no_features, sl_pending = True,
                sl_err = (if defer_authorization then [] else captured_challenges server d)\<rparr>
      else (case fst d of
              Some err \<Rightarrow> Inl (Discover_failed err)
            | None \<Rightarrow>
              (case snd d of
                 None \<Rightarrow> Inl (Nil_result (srv_name server))
               | Some feats \<Rightarrow>
                 (case validate_component L server pre feats of
                    Inl err \<Rightarrow> Inl (Invalid_component err)
                  | Inr _ \<Rightarrow> Inr \<lparr>sl_features = Some feats, sl_pending = False, sl_err = []\<rparr>))))"

section \<open>The workers\<close>

record workers =
  wk_next :: nat
  wk_idle :: nat
  wk_running :: "nat list"
  wk_results :: "slot option list"
  wk_cause :: "discovery_failure option"

definition max_parallel_discoveries :: nat where
  "max_parallel_discoveries = 8"

datatype worker_act = Take_next | Discovered nat discovered | Cancel_from_parent string

text \<open>Only the first cause of a cancellation counts.\<close>

definition cancel_with :: "discovery_failure \<Rightarrow> workers \<Rightarrow> workers" where
  "cancel_with e w = (case wk_cause w of None \<Rightarrow> w\<lparr>wk_cause := Some e\<rparr> | Some c \<Rightarrow> w)"

text \<open>The turn of the loop under the lock: the worker ends, or takes a component.\<close>

definition take_next :: "server list \<Rightarrow> workers \<Rightarrow> workers" where
  "take_next servers w =
     (if wk_cause w \<noteq> None \<or> wk_next w \<ge> length servers then w\<lparr>wk_idle := wk_idle w - 1\<rparr>
      else w\<lparr>wk_idle := wk_idle w - 1, wk_running := wk_next w # wk_running w, wk_next := wk_next w + 1\<rparr>)"

text \<open>
  The rest of the turn, once the discovery of component \<open>i\<close> returned: on a failure the context is
  cancelled and the worker ends, otherwise the slot is filled and the worker goes on.
\<close>

definition discovery_returned ::
    "('t, 'v) uri_lib \<Rightarrow> bool \<Rightarrow> server list \<Rightarrow> string list \<Rightarrow> nat \<Rightarrow> discovered \<Rightarrow> workers \<Rightarrow> workers" where
  "discovery_returned L defer_authorization servers pres i d w =
     (let w = w\<lparr>wk_running := remove1 i (wk_running w)\<rparr>
      in case settle L defer_authorization (servers ! i) (pres ! i) d of
           Inl e \<Rightarrow> cancel_with e w
         | Inr s \<Rightarrow> w\<lparr>wk_results := (wk_results w)[i := Some s], wk_idle := wk_idle w + 1\<rparr>)"

definition start_workers :: "server list \<Rightarrow> workers" where
  "start_workers servers =
     \<lparr>wk_next = 0, wk_idle = min (length servers) max_parallel_discoveries, wk_running = [],
      wk_results = replicate (length servers) None, wk_cause = None\<rparr>"

definition worker_next ::
    "('t, 'v) uri_lib \<Rightarrow> bool \<Rightarrow> server list \<Rightarrow> string list \<Rightarrow> workers \<Rightarrow> worker_act \<Rightarrow> workers option" where
  "worker_next L defer_authorization servers pres w a =
     (case a of
        Take_next \<Rightarrow> if wk_idle w > 0 then Some (take_next servers w) else None
      | Discovered i d \<Rightarrow> if i \<in> set (wk_running w)
          then Some (discovery_returned L defer_authorization servers pres i d w) else None
      | Cancel_from_parent msg \<Rightarrow> if servers = [] then None else Some (cancel_with (Parent_cancelled msg) w))"

definition workers_done :: "workers \<Rightarrow> bool" where
  "workers_done w \<longleftrightarrow> wk_idle w = 0 \<and> wk_running w = []"

text \<open>After \<open>workers.Wait()\<close>: the cause, the challenges of all components joined, or the results.\<close>

definition slot_errors :: "slot option list \<Rightarrow> auth_error list" where
  "slot_errors slots = concat (map (\<lambda>s. case s of None \<Rightarrow> [] | Some s \<Rightarrow> sl_err s) slots)"

definition slot_result :: "slot option \<Rightarrow> discovery_result" where
  "slot_result s = (case s of
     None \<Rightarrow> \<lparr>dr_features = no_features, dr_pending = False\<rparr>
   | Some s \<Rightarrow> \<lparr>dr_features = (case sl_features s of None \<Rightarrow> no_features | Some f \<Rightarrow> f), dr_pending = sl_pending s\<rparr>)"

definition discovery_outcome :: "workers \<Rightarrow> (discovery_failure, discovery_result list) res" where
  "discovery_outcome w =
     (case wk_cause w of
        Some e \<Rightarrow> Inl e
      | None \<Rightarrow> if slot_errors (wk_results w) = [] then Inr (map slot_result (wk_results w))
                else Inl (Challenged (slot_errors (wk_results w))))"

section \<open>The specification: one component after the other\<close>

text \<open>\<open>disc i\<close> is what the discovery of component \<open>i\<close> returns when nobody cancels it.\<close>

definition settled ::
    "('t, 'v) uri_lib \<Rightarrow> bool \<Rightarrow> server list \<Rightarrow> string list \<Rightarrow> (nat \<Rightarrow> discovered) \<Rightarrow> nat \<Rightarrow> (discovery_failure, slot) res" where
  "settled L defer_authorization servers pres disc i = settle L defer_authorization (servers ! i) (pres ! i) (disc i)"

definition sequential_discovery ::
    "('t, 'v) uri_lib \<Rightarrow> bool \<Rightarrow> server list \<Rightarrow> string list \<Rightarrow> (nat \<Rightarrow> discovered)
       \<Rightarrow> (discovery_failure, discovery_result list) res" where
  "sequential_discovery L defer_authorization servers pres disc =
     (let outs = map (settled L defer_authorization servers pres disc) [0..<length servers];
          slots = map (\<lambda>out. Some (projr out)) outs
      in case find isl outs of
           Some out \<Rightarrow> Inl (projl out)
         | None \<Rightarrow> if slot_errors slots = [] then Inr (map slot_result slots) else Inl (Challenged (slot_errors slots)))"

text \<open>
  The runs of the workers. A component whose discovery was not cancelled returns what it would return
  alone, a cancelled one may return anything. The caller's context may end at any time
  (\<open>Cancel_from_parent\<close>); \<open>schedule\<close> are the runs where it does not.
\<close>

definition answers_as :: "(nat \<Rightarrow> discovered) \<Rightarrow> workers \<Rightarrow> worker_act \<Rightarrow> bool" where
  "answers_as disc w a \<longleftrightarrow> (case a of
     Discovered i d \<Rightarrow> wk_cause w \<noteq> None \<or> d = disc i | Take_next \<Rightarrow> True | Cancel_from_parent msg \<Rightarrow> True)"

fun interleaving ::
    "('t, 'v) uri_lib \<Rightarrow> bool \<Rightarrow> server list \<Rightarrow> string list \<Rightarrow> (nat \<Rightarrow> discovered) \<Rightarrow> workers \<Rightarrow> worker_act list
       \<Rightarrow> workers option" where
  "interleaving L defer_authorization servers pres disc w [] = Some w"
| "interleaving L defer_authorization servers pres disc w (a # as) =
     (if \<not> answers_as disc w a then None
      else case worker_next L defer_authorization servers pres w a of
             None \<Rightarrow> None
           | Some v \<Rightarrow> interleaving L defer_authorization servers pres disc v as)"

definition runs_as :: "(nat \<Rightarrow> discovered) \<Rightarrow> workers \<Rightarrow> worker_act \<Rightarrow> bool" where
  "runs_as disc w a \<longleftrightarrow> (case a of
     Discovered i d \<Rightarrow> wk_cause w \<noteq> None \<or> d = disc i | Take_next \<Rightarrow> True | Cancel_from_parent msg \<Rightarrow> False)"

fun schedule ::
    "('t, 'v) uri_lib \<Rightarrow> bool \<Rightarrow> server list \<Rightarrow> string list \<Rightarrow> (nat \<Rightarrow> discovered) \<Rightarrow> workers \<Rightarrow> worker_act list
       \<Rightarrow> workers option" where
  "schedule L defer_authorization servers pres disc w [] = Some w"
| "schedule L defer_authorization servers pres disc w (a # as) =
     (if \<not> runs_as disc w a then None
      else case worker_next L defer_authorization servers pres w a of
             None \<Rightarrow> None
           | Some v \<Rightarrow> schedule L defer_authorization servers pres disc v as)"

lemma schedule_interleaving:
  "schedule L da servers pres disc w as = Some v \<Longrightarrow> interleaving L da servers pres disc w as = Some v"
  by (induction as arbitrary: w) (auto simp: runs_as_def answers_as_def split: if_splits option.splits worker_act.splits)

section \<open>Every schedule gives the specified result\<close>

definition slots_settled ::
    "('t, 'v) uri_lib \<Rightarrow> bool \<Rightarrow> server list \<Rightarrow> string list \<Rightarrow> (nat \<Rightarrow> discovered) \<Rightarrow> workers \<Rightarrow> bool" where
  "slots_settled L defer_authorization servers pres disc w \<longleftrightarrow>
     (\<forall>i<wk_next w. i \<notin> set (wk_running w) \<longrightarrow>
        (\<exists>s. settled L defer_authorization servers pres disc i = Inr s \<and> wk_results w ! i = Some s))
     \<and> (wk_next w < length servers \<longrightarrow> wk_idle w > 0 \<or> wk_running w \<noteq> [])"

text \<open>The cause of a cancellation is a failure of a component, or the end \<open>M\<close> of the caller's context.\<close>

definition workers_ok ::
    "string set \<Rightarrow> ('t, 'v) uri_lib \<Rightarrow> bool \<Rightarrow> server list \<Rightarrow> string list \<Rightarrow> (nat \<Rightarrow> discovered) \<Rightarrow> workers \<Rightarrow> bool" where
  "workers_ok M L defer_authorization servers pres disc w \<longleftrightarrow>
     length (wk_results w) = length servers \<and> wk_next w \<le> length servers \<and> distinct (wk_running w)
     \<and> (\<forall>i\<in>set (wk_running w). i < wk_next w)
     \<and> wk_idle w + length (wk_running w) \<le> min (length servers) max_parallel_discoveries
     \<and> (case wk_cause w of
          None \<Rightarrow> slots_settled L defer_authorization servers pres disc w
        | Some e \<Rightarrow> e \<in> Parent_cancelled ` M
            \<or> (\<exists>i<length servers. settled L defer_authorization servers pres disc i = Inl e))"

lemma workers_ok_start: "workers_ok M L defer_authorization servers pres disc (start_workers servers)"
  by (auto simp: workers_ok_def start_workers_def slots_settled_def max_parallel_discoveries_def)

lemma workers_ok_take:
  assumes "workers_ok M L da servers pres disc w" and "wk_idle w > 0"
  shows "workers_ok M L da servers pres disc (take_next servers w)"
  using assms
  by (auto simp: workers_ok_def take_next_def slots_settled_def less_Suc_eq split: option.splits)

lemma workers_ok_returned:
  assumes "workers_ok M L da servers pres disc w" and "i \<in> set (wk_running w)"
    and "wk_cause w \<noteq> None \<or> d = disc i"
  shows "workers_ok M L da servers pres disc (discovery_returned L da servers pres i d w)"
proof (cases "settle L da (servers ! i) (pres ! i) d")
  case (Inl e)
  have "i < length servers" using assms(1,2) by (auto simp: workers_ok_def)
  with Inl assms show ?thesis
    by (auto simp: workers_ok_def discovery_returned_def cancel_with_def settled_def length_remove1
        dest: notin_set_remove1 split: option.splits)
next
  case (Inr s)
  have i: "i < length (wk_results w)" "i < wk_next w" using assms(1,2) by (auto simp: workers_ok_def)
  have "Suc (wk_idle w + (length (wk_running w) - Suc 0)) = wk_idle w + length (wk_running w)"
    using assms(2) by (cases "wk_running w") auto
  with Inr assms i show ?thesis
    by (auto simp: workers_ok_def discovery_returned_def settled_def length_remove1 slots_settled_def nth_list_update
        split: option.splits)
qed

lemma workers_ok_cancel:
  assumes "workers_ok M L da servers pres disc w" and "msg \<in> M"
  shows "workers_ok M L da servers pres disc (cancel_with (Parent_cancelled msg) w)"
  using assms by (auto simp: workers_ok_def cancel_with_def split: option.splits)

lemma workers_ok_interleaving:
  "interleaving L da servers pres disc w as = Some v \<Longrightarrow> workers_ok M L da servers pres disc w
     \<Longrightarrow> {msg. Cancel_from_parent msg \<in> set as} \<subseteq> M \<Longrightarrow> workers_ok M L da servers pres disc v"
proof (induction as arbitrary: w)
  case (Cons a as)
  from Cons.prems(1) obtain u where u: "answers_as disc w a" "worker_next L da servers pres w a = Some u"
    "interleaving L da servers pres disc u as = Some v"
    by (auto split: if_splits option.splits)
  have "workers_ok M L da servers pres disc u"
    using u(1,2) Cons.prems(2,3) workers_ok_take [of M L da servers pres disc w]
      workers_ok_returned [of M L da servers pres disc w] workers_ok_cancel [of M L da servers pres disc w]
    by (cases a) (auto simp: worker_next_def answers_as_def split: if_splits)
  with Cons.IH [OF u(3)] Cons.prems(3) show ?case by auto
qed simp

lemma sequential_succeeds:
  assumes "\<And>i. i < length servers \<Longrightarrow> \<exists>s. settled L da servers pres disc i = Inr s \<and> slots ! i = Some s"
    and "length slots = length servers"
  shows "sequential_discovery L da servers pres disc
    = (if slot_errors slots = [] then Inr (map slot_result slots) else Inl (Challenged (slot_errors slots)))"
proof -
  let ?outs = "map (settled L da servers pres disc) [0..<length servers]"
  have "find isl ?outs = None" using assms(1) by (fastforce simp: find_None_iff)
  moreover have "map (\<lambda>out. Some (projr out)) ?outs = slots"
    using assms by (intro nth_equalityI) (auto dest!: assms(1))
  ultimately show ?thesis by (simp add: sequential_discovery_def Let_def)
qed

text \<open>
  C23: Whatever the order in which the workers run and the discoveries return, and whenever the caller's
  context ends: when discovery succeeds, its result is the one of discovering the components one after
  the other, in the order of the configuration. When it fails, either the caller's context ended and
  that is the error, or the error is the failure of one of the components (with several failing ones,
  which of them depends on the order), or no component failed and the error joins every challenge of
  every component in the order of the configuration, as it does one after the other.
\<close>

theorem discovery_schedule_free:
  assumes "interleaving L defer_authorization servers pres disc (start_workers servers) as = Some w" and "workers_done w"
  shows "case discovery_outcome w of
      Inr results \<Rightarrow> sequential_discovery L defer_authorization servers pres disc = Inr results
    | Inl e \<Rightarrow> (\<exists>msg. e = Parent_cancelled msg \<and> Cancel_from_parent msg \<in> set as)
        \<or> (\<exists>i<length servers. settled L defer_authorization servers pres disc i = Inl e)
        \<or> (\<exists>challenges. e = Challenged challenges)
           \<and> sequential_discovery L defer_authorization servers pres disc = Inl e"
proof -
  let ?S = "settled L defer_authorization servers pres disc"
  note ok = workers_ok_interleaving [OF assms(1) workers_ok_start subset_refl, unfolded workers_ok_def]
  show ?thesis
  proof (cases "wk_cause w")
    case (Some e)
    with ok show ?thesis by (auto simp: discovery_outcome_def)
  next
    case None
    with ok assms(2) have "wk_next w = length servers" and len: "length (wk_results w) = length servers"
      by (auto simp: workers_done_def slots_settled_def)
    with ok None assms(2) have "\<exists>s. ?S i = Inr s \<and> wk_results w ! i = Some s" if "i < length servers" for i
      using that by (auto simp: workers_done_def slots_settled_def)
    from sequential_succeeds [OF this len] None show ?thesis by (simp add: discovery_outcome_def)
  qed
qed

section \<open>Discovery ends\<close>

definition work_left :: "server list \<Rightarrow> workers \<Rightarrow> nat" where
  "work_left servers w = 3 * (length servers - wk_next w) + 2 * length (wk_running w) + wk_idle w"

lemma worker_next_decreases:
  assumes "worker_next L da servers pres w a = Some v" and "runs_as disc w a"
  shows "work_left servers v < work_left servers w"
proof (cases a)
  case (Discovered i d)
  with assms(1) have i: "i \<in> set (wk_running w)" and v: "v = discovery_returned L da servers pres i d w"
    by (auto simp: worker_next_def split: if_splits)
  have "length (wk_running w) = Suc (length (remove1 i (wk_running w)))"
    using i length_pos_if_in_set [OF i] by (simp add: length_remove1)
  then show ?thesis
    by (auto simp: v discovery_returned_def work_left_def cancel_with_def Let_def split: sum.split option.split)
qed (use assms in \<open>auto simp: worker_next_def take_next_def work_left_def runs_as_def split: if_splits\<close>)

lemma schedule_bounded:
  "schedule L da servers pres disc w as = Some v \<Longrightarrow> length as + work_left servers v \<le> work_left servers w"
proof (induction as arbitrary: w)
  case (Cons a as)
  then obtain u where "runs_as disc w a" "worker_next L da servers pres w a = Some u"
    "schedule L da servers pres disc u as = Some v"
    by (auto split: if_splits option.splits)
  with worker_next_decreases [of L da servers pres w a u disc] Cons.IH [of u] show ?case by simp
qed simp

text \<open>
  C24: Discovery ends under every schedule, within four turns per component, and until it has ended some
  worker can make its turn; at no time are more than eight components discovered at once.
\<close>

theorem discovery_terminates:
  assumes "schedule L defer_authorization servers pres disc (start_workers servers) as = Some w"
  shows "length as \<le> 4 * length servers \<and> length (wk_running w) \<le> 8
    \<and> (workers_done w \<or> (\<exists>a. runs_as disc w a \<and> worker_next L defer_authorization servers pres w a \<noteq> None))"
proof -
  have "work_left servers (start_workers servers) \<le> 4 * length servers"
    by (simp add: work_left_def start_workers_def)
  with schedule_bounded [OF assms] have "length as \<le> 4 * length servers" by linarith
  moreover have "length (wk_running w) \<le> 8"
    using workers_ok_interleaving [OF schedule_interleaving [OF assms] workers_ok_start subset_refl]
    by (simp add: workers_ok_def max_parallel_discoveries_def)
  moreover have "\<exists>a. runs_as disc w a \<and> worker_next L defer_authorization servers pres w a \<noteq> None"
    if "\<not> workers_done w"
  proof (cases "wk_idle w > 0")
    case True
    then have "runs_as disc w Take_next \<and> worker_next L defer_authorization servers pres w Take_next \<noteq> None"
      by (simp add: runs_as_def worker_next_def)
    then show ?thesis by blast
  next
    case False
    with that have "wk_running w \<noteq> []" by (simp add: workers_done_def)
    then obtain i where "i \<in> set (wk_running w)" using list.set_sel(1) by blast
    then have "runs_as disc w (Discovered i (disc i))
        \<and> worker_next L defer_authorization servers pres w (Discovered i (disc i)) \<noteq> None"
      by (simp add: runs_as_def worker_next_def)
    then show ?thesis by blast
  qed
  ultimately show ?thesis by blast
qed

section \<open>Witnesses\<close>

text \<open>Two components; the second wants an authorization and answers first.\<close>

definition two_servers :: "server list" where
  "two_servers = [plain_server ''a'', plain_server ''b'']"

definition two_discovered :: "nat \<Rightarrow> discovered" where
  "two_discovered i =
     (if i = 0 then (None, Some no_features)
      else (Some (Other_error ''discover'' (Some (Joined [Some (Auth_error (Some (bare_error 401)))]))), None))"

definition two_acts :: "worker_act list" where
  "two_acts = [Take_next, Take_next, Discovered 1 (two_discovered 1), Take_next, Discovered 0 (two_discovered 0), Take_next]"

definition two_end :: workers where
  "two_end = \<lparr>wk_next = 2, wk_idle = 0, wk_running = [],
     wk_results = [Some \<lparr>sl_features = Some no_features, sl_pending = False, sl_err = []\<rparr>,
       Some \<lparr>sl_features = Some no_features, sl_pending = True, sl_err = []\<rparr>], wk_cause = None\<rparr>"

lemma two_run: "schedule sample_uris True two_servers [''a'', ''b''] two_discovered (start_workers two_servers) two_acts = Some two_end"
  by code_simp

theorem discovery_schedule_free_witness:
  "discovery_outcome two_end
     = Inr [\<lparr>dr_features = no_features, dr_pending = False\<rparr>, \<lparr>dr_features = no_features, dr_pending = True\<rparr>]
   \<and> sequential_discovery sample_uris True two_servers [''a'', ''b''] two_discovered = discovery_outcome two_end"
proof -
  have d: "workers_done two_end" by (simp add: two_end_def workers_done_def)
  have "discovery_outcome two_end
     = Inr [\<lparr>dr_features = no_features, dr_pending = False\<rparr>, \<lparr>dr_features = no_features, dr_pending = True\<rparr>]"
    by (simp add: discovery_outcome_def two_end_def slot_errors_def slot_result_def)
  with discovery_schedule_free [OF schedule_interleaving [OF two_run] d] show ?thesis by simp
qed

theorem discovery_terminates_witness: "length two_acts \<le> 4 * length two_servers"
  using discovery_terminates [OF two_run] by blast

end
