(* ===== verification/Http_Activity.thy ===== *)
theory Http_Activity
  imports Config_Bridge
begin

text \<open>
  Which transport serves an HTTP request (\<open>http_dispatch.go\<close>), and the count of the requests a stateful
  session has in flight (\<open>http_activity.go\<close>), which keeps the processes of its components from idling out.
  The counts are taken under a lock, but \<open>trackHTTPActivity\<close> passes them on outside it, so they are steps
  of their own.
\<close>

section \<open>Dispatch\<close>

definition current_protocol_version :: string where
  "current_protocol_version = ''2026-07-28''"

text \<open>A decoded message: its method, and its protocol version if that is a text.\<close>

type_synonym message = "string \<times> string option"

text \<open>\<open>decode_list\<close> and \<open>decode_one\<close> are \<open>json.Unmarshal\<close> into the slice and into the struct.\<close>

definition request_is_stateless ::
    "(string \<Rightarrow> message list option) \<Rightarrow> (string \<Rightarrow> message option) \<Rightarrow> http_request \<Rightarrow> bool" where
  "request_is_stateless decode_list decode_one r =
     (if hr_method r \<noteq> ''POST'' then False
      else if header_get (hr_header r) ''Mcp-Protocol-Version'' \<ge> current_protocol_version then True
      else if header_get (hr_header r) ''Mcp-Session-Id'' \<noteq> [] then False
      else (case hr_body r of
              None \<Rightarrow> False
            | Some body \<Rightarrow>
              (case (if body \<noteq> [] \<and> hd body = CHR ''['' then decode_list body
                     else map_option (\<lambda>m. [m]) (decode_one body)) of
                 None \<Rightarrow> False
               | Some messages \<Rightarrow> list_ex (\<lambda>(method, version). method = ''server/discover''
                     \<or> (case version of None \<Rightarrow> [] | Some v \<Rightarrow> v) \<ge> current_protocol_version) messages)))"

lemma session_requests_stateful:
  assumes "header_get (hr_header r) ''Mcp-Session-Id'' \<noteq> []"
    and "header_get (hr_header r) ''Mcp-Protocol-Version'' < current_protocol_version"
  shows "\<not> request_is_stateless decode_list decode_one r"
proof -
  have "\<not> current_protocol_version \<le> header_get (hr_header r) ''Mcp-Protocol-Version''"
    using assms(2) by (simp only: not_le)
  with assms(1) show ?thesis by (simp add: request_is_stateless_def)
qed

section \<open>The counts\<close>

record 's activity =
  ac_active :: "string \<Rightarrow> nat"
  ac_sessions :: "string \<Rightarrow> 's option"
  ac_watchers :: nat

definition activity_begin :: "string \<Rightarrow> 's activity \<Rightarrow> 's activity \<times> nat" where
  "activity_begin sid ac =
     (if sid = [] then (ac, 0)
      else let ac = ac\<lparr>ac_active := (ac_active ac)(sid := ac_active ac sid + 1)\<rparr> in (ac, ac_active ac sid))"

definition activity_end :: "string \<Rightarrow> 's activity \<Rightarrow> 's activity \<times> nat" where
  "activity_end sid ac =
     (if sid = [] then (ac, 0)
      else let ac = (if ac_active ac sid > 1 then ac\<lparr>ac_active := (ac_active ac)(sid := ac_active ac sid - 1)\<rparr>
                     else ac\<lparr>ac_active := (ac_active ac)(sid := 0)\<rparr>)
           in (ac, ac_active ac sid))"

text \<open>\<open>bind\<close>: also whether a watcher of the session starts. A session without an ID is not bound.\<close>

definition activity_bind :: "string \<Rightarrow> 's \<Rightarrow> 's activity \<Rightarrow> 's activity \<times> nat \<times> bool" where
  "activity_bind sid s ac =
     (if sid = [] then (ac, 0, False)
      else let fresh = (ac_sessions ac sid \<noteq> Some s)
           in (ac\<lparr>ac_sessions := (ac_sessions ac)(sid \<mapsto> s),
                  ac_watchers := (if fresh then ac_watchers ac + 1 else ac_watchers ac)\<rparr>,
               ac_active ac sid, fresh))"

text \<open>What the watcher does when the session has ended.\<close>

definition activity_unwatch :: "string \<Rightarrow> 's \<Rightarrow> 's activity \<Rightarrow> 's activity" where
  "activity_unwatch sid s ac =
     ac\<lparr>ac_sessions := (if ac_sessions ac sid = Some s then (ac_sessions ac)(sid := None) else ac_sessions ac),
        ac_watchers := ac_watchers ac - 1\<rparr>"

section \<open>Requests in flight\<close>

text \<open>
  A stateful request: it counted itself and has a number to pass on, or passed it on; or it has left the
  count and has the new number to pass on. \<open>aw_told\<close> is what the runtimes of a session were told last
  (\<open>SetFrontendActivity\<close>). Binding a session and passing on its count is one step here.
\<close>

datatype request_phase = Counted nat | Serving | is_left: Left nat

record 's activity_world =
  aw_activity :: "'s activity"
  aw_requests :: "(nat \<times> string \<times> request_phase) list"
  aw_watching :: "(string \<times> 's) list"
  aw_told :: "'s \<Rightarrow> nat"

datatype 's activity_act = Arrive nat string | Tell_begin nat | Bind nat 's | Finish nat | Tell_end nat
  | Session_ended string 's

definition set_phase :: "nat \<Rightarrow> request_phase \<Rightarrow> 's activity_world \<Rightarrow> 's activity_world" where
  "set_phase i p w = w\<lparr>aw_requests := map (\<lambda>(j, sid, q). if j = i then (j, sid, p) else (j, sid, q)) (aw_requests w)\<rparr>"

definition tell :: "'s option \<Rightarrow> nat \<Rightarrow> 's activity_world \<Rightarrow> 's activity_world" where
  "tell session n w = (case session of None \<Rightarrow> w | Some s \<Rightarrow> w\<lparr>aw_told := (aw_told w)(s := n)\<rparr>)"

definition activity_next :: "'s activity_world \<Rightarrow> 's activity_act \<Rightarrow> 's activity_world option" where
  "activity_next w a =
     (case a of
        Arrive i sid \<Rightarrow>
          if i \<in> fst ` set (aw_requests w) then None
          else (let (ac, n) = activity_begin sid (aw_activity w)
                in Some (w\<lparr>aw_activity := ac, aw_requests := (i, sid, Counted n) # aw_requests w\<rparr>))
      | Tell_begin i \<Rightarrow>
          (case map_of (aw_requests w) i of
             Some (sid, Counted n) \<Rightarrow> Some (set_phase i Serving (tell (ac_sessions (aw_activity w) sid) n w))
           | _ \<Rightarrow> None)
      | Bind i s \<Rightarrow>
          (case map_of (aw_requests w) i of
             Some (sid, Serving) \<Rightarrow>
               (let (ac, n, fresh) = activity_bind sid s (aw_activity w)
                in Some (tell (Some s) n (w\<lparr>aw_activity := ac,
                     aw_watching := (if fresh then (sid, s) # aw_watching w else aw_watching w)\<rparr>)))
           | _ \<Rightarrow> None)
      | Finish i \<Rightarrow>
          (case map_of (aw_requests w) i of
             Some (sid, Serving) \<Rightarrow>
               (let (ac, n) = activity_end sid (aw_activity w)
                in Some (set_phase i (Left n) (w\<lparr>aw_activity := ac\<rparr>)))
           | _ \<Rightarrow> None)
      | Tell_end i \<Rightarrow>
          (case map_of (aw_requests w) i of
             Some (sid, Left n) \<Rightarrow>
               Some ((tell (ac_sessions (aw_activity w) sid) n w)
                 \<lparr>aw_requests := filter (\<lambda>(j, x). j \<noteq> i) (aw_requests w)\<rparr>)
           | _ \<Rightarrow> None)
      | Session_ended sid s \<Rightarrow>
          if (sid, s) \<in> set (aw_watching w)
          then Some (w\<lparr>aw_activity := activity_unwatch sid s (aw_activity w),
                       aw_watching := remove1 (sid, s) (aw_watching w)\<rparr>)
          else None)"

definition activity_start :: "'s activity_world \<Rightarrow> bool" where
  "activity_start w \<longleftrightarrow> aw_activity w = \<lparr>ac_active = (\<lambda>_. 0), ac_sessions = (\<lambda>_. None), ac_watchers = 0\<rparr>
     \<and> aw_requests w = [] \<and> aw_watching w = [] \<and> aw_told w = (\<lambda>_. 0)"

definition activity_step :: "'s activity_world \<Rightarrow> 's activity_act \<Rightarrow> 's activity_world \<Rightarrow> bool" where
  "activity_step w a v \<longleftrightarrow> activity_next w a = Some v"

text \<open>The requests of a session that have not left the count.\<close>

definition in_flight :: "string \<Rightarrow> 's activity_world \<Rightarrow> nat" where
  "in_flight sid w = length (filter (\<lambda>(i, sid', p). sid' = sid \<and> \<not> is_left p) (aw_requests w))"

definition activity_ok :: "'s activity_world \<Rightarrow> bool" where
  "activity_ok w \<longleftrightarrow> distinct (map fst (aw_requests w))
     \<and> (\<forall>sid. ac_active (aw_activity w) sid = (if sid = [] then 0 else in_flight sid w))
     \<and> ac_watchers (aw_activity w) = length (aw_watching w)"

definition counts :: "string \<Rightarrow> nat \<times> string \<times> request_phase \<Rightarrow> bool" where
  "counts sid x \<longleftrightarrow> (case x of (i, sid', p) \<Rightarrow> sid' = sid \<and> \<not> is_left p)"

lemma counts_simp [simp]: "counts k (i, sid, p) \<longleftrightarrow> sid = k \<and> \<not> is_left p"
  by (simp add: counts_def)

lemma in_flight_counts: "in_flight sid w = length (filter (counts sid) (aw_requests w))"
  by (simp add: in_flight_def counts_def [abs_def])

definition phase_to :: "nat \<Rightarrow> request_phase \<Rightarrow> nat \<times> string \<times> request_phase \<Rightarrow> nat \<times> string \<times> request_phase" where
  "phase_to i p x = (case x of (j, sid, q) \<Rightarrow> if j = i then (j, sid, p) else (j, sid, q))"

lemma phase_to_fst [simp]: "fst (phase_to i p x) = fst x"
  by (simp add: phase_to_def split: prod.split)

lemma set_phase_eq: "set_phase i p w = w\<lparr>aw_requests := map (phase_to i p) (aw_requests w)\<rparr>"
  by (simp add: set_phase_def phase_to_def [abs_def])

lemma filter_phase_to:
  assumes "distinct (map fst xs)" and "map_of xs i = Some (sid, q)" and "\<not> is_left q"
  shows "length (filter (counts k) (map (phase_to i p) xs)) =
    (if k = sid \<and> is_left p then length (filter (counts k) xs) - 1 else length (filter (counts k) xs))
    \<and> (k = sid \<longrightarrow> length (filter (counts k) xs) > 0)"
  using assms
proof (induction xs)
  case (Cons x xs)
  obtain j sid' q' where x: "x = (j, sid', q')" by (cases x)
  show ?case
  proof (cases "j = i")
    case True
    have "phase_to i p y = y" if "y \<in> set xs" for y
    proof -
      have "fst y \<noteq> i" using Cons.prems(1) that True x by force
      then show ?thesis by (cases y) (simp add: phase_to_def)
    qed
    then have rest: "map (phase_to i p) xs = xs" by (simp add: map_idI)
    from True x Cons.prems(2) have same: "sid' = sid" "q' = q" by simp_all
    have step: "map (phase_to i p) (x # xs) = (i, sid, p) # xs" by (simp add: rest) (simp add: x True same phase_to_def)
    show ?thesis
      unfolding step unfolding x same using Cons.prems(3) by auto
  next
    case False
    with x Cons.prems have "map_of xs i = Some (sid, q)" "distinct (map fst xs)" by simp_all
    note ih = Cons.IH [OF this(2,1) Cons.prems(3)]
    from False have "phase_to i p x = x" by (simp add: x phase_to_def)
    with ih show ?thesis by (cases "counts k x") auto
  qed
qed simp

lemma counts_remove:
  assumes "distinct (map fst xs)" and "map_of xs i = Some (sid, Left n)"
  shows "filter (counts k) (filter (\<lambda>(j, x). j \<noteq> i) xs) = filter (counts k) xs"
proof -
  have "(i, sid, Left n) \<in> set xs" by (rule map_of_SomeD [OF assms(2)])
  then have "y = (i, sid, Left n)" if "y \<in> set xs" "fst y = i" for y
    using assms(1) that by (metis distinct_map inj_onD fst_conv)
  then have "\<not> counts k y" if "y \<in> set xs" "fst y = i" for y using that by (force simp: counts_def)
  then have "filter (\<lambda>y. fst y \<noteq> i \<and> counts k y) xs = filter (counts k) xs"
    by (intro filter_cong) auto
  then show ?thesis by (simp add: filter_filter case_prod_beta)
qed

lemma tell_simps [simp]: "aw_activity (tell s n w) = aw_activity w" "aw_requests (tell s n w) = aw_requests w"
  "aw_watching (tell s n w) = aw_watching w"
  by (simp_all add: tell_def split: option.split)

lemma activity_okI:
  assumes "distinct (map fst (aw_requests w))"
    and "\<And>sid. ac_active (aw_activity w) sid = (if sid = [] then 0 else length (filter (counts sid) (aw_requests w)))"
    and "ac_watchers (aw_activity w) = length (aw_watching w)"
  shows "activity_ok w"
  using assms by (simp add: activity_ok_def in_flight_counts)

lemma activity_okD:
  assumes "activity_ok w"
  shows "distinct (map fst (aw_requests w))"
    and "ac_active (aw_activity w) sid = (if sid = [] then 0 else length (filter (counts sid) (aw_requests w)))"
    and "ac_watchers (aw_activity w) = length (aw_watching w)"
  using assms by (simp_all add: activity_ok_def in_flight_counts)

lemma activity_ok_next:
  assumes ok: "activity_ok w" and v: "activity_next w a = Some v"
  shows "activity_ok v"
proof (cases a)
  case (Arrive i sid)
  obtain ac n where b: "activity_begin sid (aw_activity w) = (ac, n)" by (cases "activity_begin sid (aw_activity w)")
  with v Arrive have p: "i \<notin> fst ` set (aw_requests w)"
    "v = w\<lparr>aw_activity := ac, aw_requests := (i, sid, Counted n) # aw_requests w\<rparr>"
    by (auto simp: activity_next_def split: if_splits)
  have "ac_active ac k = (if k = sid \<and> sid \<noteq> [] then ac_active (aw_activity w) k + 1 else ac_active (aw_activity w) k)"
    "ac_watchers ac = ac_watchers (aw_activity w)" for k
    using b by (auto simp: activity_begin_def Let_def split: if_splits)
  then show ?thesis
    using p activity_okD [OF ok] by (intro activity_okI) (auto simp: counts_def)
next
  case (Tell_begin i)
  with v obtain sid n where p: "map_of (aw_requests w) i = Some (sid, Counted n)"
    "v = set_phase i Serving (tell (ac_sessions (aw_activity w) sid) n w)"
    by (auto simp: activity_next_def split: option.splits request_phase.splits)
  show ?thesis
    using p activity_okD [OF ok] filter_phase_to [OF activity_okD(1) [OF ok] p(1)]
    by (intro activity_okI) (auto simp: set_phase_eq comp_def)
next
  case (Bind i s)
  then obtain sid where sid: "map_of (aw_requests w) i = Some (sid, Serving)"
    using v by (auto simp: activity_next_def split: option.splits request_phase.splits)
  obtain ac n f where b: "activity_bind sid s (aw_activity w) = (ac, n, f)" by (cases "activity_bind sid s (aw_activity w)")
  with v Bind sid have p: "v = tell (Some s) n (w\<lparr>aw_activity := ac,
      aw_watching := (if f then (sid, s) # aw_watching w else aw_watching w)\<rparr>)"
    by (simp add: activity_next_def)
  have "ac_active ac = ac_active (aw_activity w)"
    "ac_watchers ac = (if f then ac_watchers (aw_activity w) + 1 else ac_watchers (aw_activity w))"
    using b by (auto simp: activity_bind_def Let_def split: if_splits)
  then show ?thesis using p activity_okD [OF ok] by (intro activity_okI) auto
next
  case (Finish i)
  then obtain sid where sid: "map_of (aw_requests w) i = Some (sid, Serving)"
    using v by (auto simp: activity_next_def split: option.splits request_phase.splits)
  obtain ac n where b: "activity_end sid (aw_activity w) = (ac, n)" by (cases "activity_end sid (aw_activity w)")
  with v Finish sid have p: "v = set_phase i (Left n) (w\<lparr>aw_activity := ac\<rparr>)"
    by (simp add: activity_next_def)
  have "ac_active ac k = (if k = sid \<and> sid \<noteq> [] then ac_active (aw_activity w) k - 1 else ac_active (aw_activity w) k)"
    "ac_watchers ac = ac_watchers (aw_activity w)" for k
    using b by (auto simp: activity_end_def Let_def split: if_splits)
  then show ?thesis
    using p activity_okD [OF ok] filter_phase_to [OF activity_okD(1) [OF ok] sid]
    by (intro activity_okI) (auto simp: set_phase_eq comp_def)
next
  case (Tell_end i)
  with v obtain sid n where p: "map_of (aw_requests w) i = Some (sid, Left n)"
    "v = (tell (ac_sessions (aw_activity w) sid) n w)\<lparr>aw_requests := filter (\<lambda>(j, x). j \<noteq> i) (aw_requests w)\<rparr>"
    by (auto simp: activity_next_def split: option.splits request_phase.splits)
  show ?thesis
    using p activity_okD [OF ok] counts_remove [OF activity_okD(1) [OF ok] p(1)]
    by (intro activity_okI) (auto simp: distinct_map_filter)
next
  case (Session_ended sid s)
  with v have p: "(sid, s) \<in> set (aw_watching w)" "v = w\<lparr>aw_activity := activity_unwatch sid s (aw_activity w),
      aw_watching := remove1 (sid, s) (aw_watching w)\<rparr>"
    by (auto simp: activity_next_def split: if_splits)
  then show ?thesis using activity_okD [OF ok]
    by (intro activity_okI) (auto simp: activity_unwatch_def length_remove1)
qed

interpretation am: invariant_machine activity_start activity_step activity_ok
proof unfold_locales
  show "activity_ok w" if "activity_start w" for w :: "'s activity_world"
    using that by (simp add: activity_start_def activity_ok_def in_flight_def)
  show "activity_ok v" if "activity_ok w" "activity_step w a v" for w v :: "'s activity_world" and a
    using that(2) unfolding activity_step_def by (rule activity_ok_next [OF that(1)])
qed

text \<open>
  The count of a session is always the number of its requests that have begun and not ended, and the
  watcher count the number of sessions still watched; a request without a session is never counted.
\<close>

theorem activity_counts_requests:
  assumes "reach activity_start activity_step w"
  shows "ac_active (aw_activity w) sid = (if sid = [] then 0 else in_flight sid w)
    \<and> ac_watchers (aw_activity w) = length (aw_watching w)"
  using am.reach_inv [OF assms] by (simp add: activity_ok_def)

text \<open>Two requests of one session that end at the same time.\<close>

definition activity_nothing :: "nat activity_world" where
  "activity_nothing = \<lparr>aw_activity = \<lparr>ac_active = (\<lambda>_. 0), ac_sessions = (\<lambda>_. None), ac_watchers = 0\<rparr>,
     aw_requests = [], aw_watching = [], aw_told = (\<lambda>_. 0)\<rparr>"

definition late_report :: "nat activity_act list" where
  "late_report = [Arrive 1 ''s'', Tell_begin 1, Bind 1 7, Arrive 2 ''s'', Tell_begin 2, Finish 1, Finish 2, Tell_end 2, Tell_end 1]"

definition late_reported :: "nat activity_world" where
  "late_reported = the (play activity_next activity_nothing late_report)"

lemma late_report_reached: "reach activity_start activity_step late_reported"
proof -
  have "play activity_next activity_nothing late_report \<noteq> None" by code_simp
  then have "play activity_next activity_nothing late_report = Some late_reported"
    by (auto simp: late_reported_def)
  then show ?thesis
    by (rule play_reach [OF reach_init, rotated 2])
      (simp_all add: activity_start_def activity_nothing_def activity_step_def)
qed

theorem activity_counts_requests_witness: "ac_active (aw_activity late_reported) ''s'' = 0"
proof -
  have "in_flight ''s'' late_reported = 0" by code_simp
  with activity_counts_requests [OF late_report_reached, of "''s''"] show ?thesis by simp
qed

text \<open>
  The numbers are passed on outside the lock and can arrive in the wrong order: after every request of
  a session has ended, its runtimes can have been told last that one is active, so their processes do not
  idle out until the session makes another request or ends.
\<close>

theorem stale_activity_reported:
  "\<exists>w. reach activity_start activity_step w \<and> aw_requests w = [] \<and> ac_active (aw_activity w) ''s'' = 0
     \<and> ac_sessions (aw_activity w) ''s'' = Some (7 :: nat) \<and> aw_told w 7 = 1"
proof -
  have "aw_requests late_reported = [] \<and> ac_active (aw_activity late_reported) ''s'' = 0
     \<and> ac_sessions (aw_activity late_reported) ''s'' = Some 7 \<and> aw_told late_reported 7 = 1"
    by code_simp
  with late_report_reached show ?thesis by blast
qed

end
