(* ===== verification/Pool.thy ===== *)
theory Pool
  imports Component_Types "HOL-Library.AList" "HOL-Library.Multiset" "HOL-Library.Word"
begin

text \<open>
  The pool of the connected component sessions of \<open>component/pool.go\<close>, and the choice of the transport
  of a component (\<open>component/factory.go\<close>). The entries the pool allocates are the list \<open>p_heap\<close>, a
  pointer to an entry is its position there; the Go map \<open>entries\<close> is an association list.

  Every stretch of code under the lock \<open>p.mu\<close> is a function on the record \<open>pool\<close>. The step relation
  interleaves them with what happens outside the lock: opening a runtime, waiting for another caller
  to open it, closing one. The fields of \<open>pool_world\<close> other than the pool say which goroutine is
  where, and record the runtimes that were opened and closed.
\<close>

section \<open>The pool and its critical sections\<close>

record 'f pool_key =
  key_frontend :: 'f
  key_fingerprint :: string
  key_component :: string

record 'r pool_entry =
  ent_ready :: bool
  ent_runtime :: "'r option"
  ent_err :: bool
  ent_refs :: int

record ('f, 'r) pool =
  p_heap :: "'r pool_entry list"
  p_entries :: "('f pool_key \<times> nat) list"
  p_watched :: "'f list"
  p_closed :: bool
  p_cleanup_err :: "string option"
  p_cleanup_failures :: "64 word"

definition new_pool :: "('f, 'r) pool" where
  "new_pool = \<lparr>p_heap = [], p_entries = [], p_watched = [], p_closed = False, p_cleanup_err = None,
     p_cleanup_failures = 0\<rparr>"

definition update_entry :: "nat \<Rightarrow> ('r pool_entry \<Rightarrow> 'r pool_entry) \<Rightarrow> ('f, 'r) pool \<Rightarrow> ('f, 'r) pool" where
  "update_entry i f p = p\<lparr>p_heap := (p_heap p)[i := f (p_heap p ! i)]\<rparr>"

text \<open>
  The first critical section of \<open>Acquire\<close>: an error, an entry to wait for, or a new entry the caller
  has to open; \<open>frontend\<close> is \<open>None\<close> for a nil session. The first entry of a session starts the
  goroutine that waits for the end of the session.
\<close>

datatype 'f pool_acquire = Nil_frontend | Pool_closed | Join "'f pool_key" nat | Open_entry "'f pool_key" nat

definition acquire_begin ::
    "'f option \<Rightarrow> string \<Rightarrow> string \<Rightarrow> ('f, 'r) pool \<Rightarrow> ('f, 'r) pool \<times> 'f pool_acquire" where
  "acquire_begin frontend fingerprint component p =
     (case frontend of
        None \<Rightarrow> (p, Nil_frontend)
      | Some f \<Rightarrow>
          let key = \<lparr>key_frontend = f, key_fingerprint = fingerprint, key_component = component\<rparr>
          in if p_closed p then (p, Pool_closed)
             else case map_of (p_entries p) key of
                    Some i \<Rightarrow> (update_entry i (\<lambda>e. e\<lparr>ent_refs := ent_refs e + 1\<rparr>) p, Join key i)
                  | None \<Rightarrow>
                      let i = length (p_heap p)
                      in (p\<lparr>p_heap := p_heap p @ [\<lparr>ent_ready = False, ent_runtime = None, ent_err = False, ent_refs = 1\<rparr>],
                            p_entries := AList.update key i (p_entries p),
                            p_watched := (if f \<in> set (p_watched p) then p_watched p else f # p_watched p)\<rparr>,
                          Open_entry key i))"

definition release_entry :: "'f pool_key \<Rightarrow> nat \<Rightarrow> ('f, 'r) pool \<Rightarrow> ('f, 'r) pool" where
  "release_entry key i p =
     (if map_of (p_entries p) key = Some i \<and> ent_refs (p_heap p ! i) > 0
      then update_entry i (\<lambda>e. e\<lparr>ent_refs := ent_refs e - 1\<rparr>) p else p)"

text \<open>
  The second critical section of the caller that opens the entry; \<open>None\<close>: \<open>OpenRuntime\<close> failed. The
  failing caller deletes whatever entry the key has now.
\<close>

definition open_finished :: "'f pool_key \<Rightarrow> nat \<Rightarrow> 'r option \<Rightarrow> ('f, 'r) pool \<Rightarrow> ('f, 'r) pool" where
  "open_finished key i result p =
     (let p = update_entry i (\<lambda>e. e\<lparr>ent_runtime := result, ent_err := (result = None), ent_ready := True\<rparr>) p
      in if result = None then release_entry key i (p\<lparr>p_entries := AList.delete key (p_entries p)\<rparr>) else p)"

text \<open>What a caller that joined the entry gets when it is ready: its runtime or its error.\<close>

definition join_ready :: "'f pool_key \<Rightarrow> nat \<Rightarrow> ('f, 'r) pool \<Rightarrow> ('f, 'r) pool \<times> 'r option" where
  "join_ready key i p =
     (if ent_err (p_heap p ! i) then (release_entry key i p, None) else (p, ent_runtime (p_heap p ! i)))"

text \<open>\<open>SetFrontendActivity\<close>: the runtimes that are told, those of ready entries that can be.\<close>

definition activity_runtimes :: "('r \<Rightarrow> bool) \<Rightarrow> 'f option \<Rightarrow> ('f, 'r) pool \<Rightarrow> 'r list" where
  "activity_runtimes takes_activity frontend p =
     (case frontend of
        None \<Rightarrow> []
      | Some f \<Rightarrow> concat (map (\<lambda>(key, i).
          if key_frontend key = f \<and> ent_ready (p_heap p ! i)
          then filter takes_activity (opt_list (ent_runtime (p_heap p ! i))) else []) (p_entries p)))"

text \<open>\<open>closeSession\<close> and \<open>Close\<close> take entries out of the map and close them outside the lock.\<close>

definition close_session :: "'f \<Rightarrow> ('f, 'r) pool \<Rightarrow> ('f, 'r) pool \<times> nat list" where
  "close_session f p =
     (let p = p\<lparr>p_watched := removeAll f (p_watched p)\<rparr>
      in if p_closed p then (p, [])
         else (p\<lparr>p_entries := filter (\<lambda>(k, i). key_frontend k \<noteq> f) (p_entries p)\<rparr>,
               map snd (filter (\<lambda>(k, i). key_frontend k = f) (p_entries p))))"

definition cleanup_failed :: "string \<Rightarrow> ('f, 'r) pool \<Rightarrow> ('f, 'r) pool" where
  "cleanup_failed err p = p\<lparr>p_cleanup_err := Some err, p_cleanup_failures := p_cleanup_failures p + 1\<rparr>"

definition close_pool :: "('f, 'r) pool \<Rightarrow> ('f, 'r) pool \<times> nat list" where
  "close_pool p =
     (if p_closed p then (p, [])
      else (p\<lparr>p_closed := True, p_entries := []\<rparr>, map snd (p_entries p)))"

text \<open>The errors joined in the result of \<open>Close\<close>, after its own closing loop collected \<open>errs\<close>.\<close>

definition close_result :: "string list \<Rightarrow> ('f, 'r) pool \<Rightarrow> (string + 64 word \<times> string) list" where
  "close_result errs p =
     map Inl errs @ (case p_cleanup_err p of None \<Rightarrow> [] | Some e \<Rightarrow> [Inr (p_cleanup_failures p, e)])"

section \<open>Interleavings\<close>

record ('f, 'r) pool_world =
  pl :: "('f, 'r) pool"
  pw_opening :: "('f pool_key \<times> nat) list"
  pw_joining :: "('f pool_key \<times> nat) list"
  using_entry :: "('f pool_key \<times> nat) list"
  collected :: "(nat \<times> bool) list"
  pw_errors :: "string list"
  pw_opened :: "'r list"
  pw_shut :: "'r list"
  gone :: "'f list"

text \<open>
  \<open>collected\<close> holds the entries taken out of the map that are still to be closed, marked whether a
  session's end or \<open>Close\<close> took them; \<open>gone\<close> the sessions whose end the pool has seen. Nothing in the
  pool keeps an operation from calling \<open>Acquire\<close> for such a session, so \<open>pool_step\<close> allows it; \<open>timely\<close>
  below names the actions that do not.
\<close>

datatype ('f, 'r) pool_action = Acquire "'f option" string string | Opened_entry "'f pool_key" nat "'r option"
  | Joined "'f pool_key" nat | Join_cancelled "'f pool_key" nat | Release_entry "'f pool_key" nat
  | Session_end 'f | Close_pool | Close_entry nat bool "string option"

fun acquire_world :: "'f pool_acquire \<Rightarrow> ('f, 'r) pool_world \<Rightarrow> ('f, 'r) pool_world" where
  "acquire_world (Join k i) w = w\<lparr>pw_joining := (k, i) # pw_joining w\<rparr>"
| "acquire_world (Open_entry k i) w = w\<lparr>pw_opening := (k, i) # pw_opening w\<rparr>"
| "acquire_world _ w = w"

definition pool_init :: "('f, 'r) pool_world \<Rightarrow> bool" where
  "pool_init w \<longleftrightarrow> w = \<lparr>pl = new_pool, pw_opening = [], pw_joining = [], using_entry = [], collected = [],
     pw_errors = [], pw_opened = [], pw_shut = [], gone = []\<rparr>"

inductive pool_step :: "('f, 'r) pool_world \<Rightarrow> ('f, 'r) pool_action \<Rightarrow> ('f, 'r) pool_world \<Rightarrow> bool" where
  pool_acquire: "acquire_begin f fp c (pl w) = (p, a) \<Longrightarrow>
    pool_step w (Acquire f fp c) (acquire_world a (w\<lparr>pl := p\<rparr>))"
| pool_opened: "(k, i) \<in> set (pw_opening w) \<Longrightarrow> set_option result \<inter> set (pw_opened w) = {} \<Longrightarrow>
    pool_step w (Opened_entry k i result)
      (w\<lparr>pl := open_finished k i result (pl w), pw_opening := remove1 (k, i) (pw_opening w),
         using_entry := (if result = None then using_entry w else (k, i) # using_entry w),
         pw_opened := opt_list result @ pw_opened w\<rparr>)"
| pool_joined: "(k, i) \<in> set (pw_joining w) \<Longrightarrow> ent_ready (p_heap (pl w) ! i) \<Longrightarrow>
    join_ready k i (pl w) = (p, r) \<Longrightarrow>
    pool_step w (Joined k i)
      (w\<lparr>pl := p, pw_joining := remove1 (k, i) (pw_joining w),
         using_entry := (if r = None then using_entry w else (k, i) # using_entry w)\<rparr>)"
| pool_join_cancelled: "(k, i) \<in> set (pw_joining w) \<Longrightarrow>
    pool_step w (Join_cancelled k i)
      (w\<lparr>pl := release_entry k i (pl w), pw_joining := remove1 (k, i) (pw_joining w)\<rparr>)"
| pool_release: "(k, i) \<in> set (using_entry w) \<Longrightarrow>
    pool_step w (Release_entry k i)
      (w\<lparr>pl := release_entry k i (pl w), using_entry := remove1 (k, i) (using_entry w)\<rparr>)"
| pool_session_end: "f \<in> set (p_watched (pl w)) \<Longrightarrow> close_session f (pl w) = (p, is) \<Longrightarrow>
    pool_step w (Session_end f)
      (w\<lparr>pl := p, collected := map (\<lambda>i. (i, True)) is @ collected w, gone := f # gone w\<rparr>)"
| pool_close: "close_pool (pl w) = (p, is) \<Longrightarrow>
    pool_step w Close_pool (w\<lparr>pl := p, collected := map (\<lambda>i. (i, False)) is @ collected w\<rparr>)"
| pool_close_entry: "(i, by_session) \<in> set (collected w) \<Longrightarrow> ent_ready (p_heap (pl w) ! i) \<Longrightarrow>
    (ent_runtime (p_heap (pl w) ! i) = None \<longrightarrow> err = None) \<Longrightarrow>
    pool_step w (Close_entry i by_session err)
      (w\<lparr>pl := (case err of Some e \<Rightarrow> if by_session then cleanup_failed e (pl w) else pl w | None \<Rightarrow> pl w),
         collected := remove1 (i, by_session) (collected w),
         pw_errors := (if by_session then pw_errors w else pw_errors w @ opt_list err),
         pw_shut := opt_list (ent_runtime (p_heap (pl w) ! i)) @ pw_shut w\<rparr>)"

text \<open>
  The runs in which no operation acquires a component for a session after the pool saw its end. This is
  a condition on the callers, not a guard of the pool: an operation that was already running when its
  session ended may still come to \<open>Acquire\<close>.
\<close>

definition timely :: "('f, 'r) pool_world \<Rightarrow> ('f, 'r) pool_action \<Rightarrow> bool" where
  "timely w a \<longleftrightarrow> (case a of Acquire f fp c \<Rightarrow> set_option f \<inter> set (gone w) = {} | _ \<Rightarrow> True)"

definition timely_step :: "('f, 'r) pool_world \<Rightarrow> ('f, 'r) pool_action \<Rightarrow> ('f, 'r) pool_world \<Rightarrow> bool" where
  "timely_step w a w' \<longleftrightarrow> timely w a \<and> pool_step w a w'"

section \<open>The invariant\<close>

text \<open>The entry of a key is the one in the map, or the session ended or the pool was closed since.\<close>

definition keyed :: "('f, 'r) pool_world \<Rightarrow> 'f pool_key \<Rightarrow> nat \<Rightarrow> bool" where
  "keyed w k i \<longleftrightarrow> map_of (p_entries (pl w)) k = Some i
     \<or> map_of (p_entries (pl w)) k = None \<and> (key_frontend k \<in> set (gone w) \<or> p_closed (pl w))"

text \<open>The entries somebody is still to close, and the runtimes in them.\<close>

definition owned :: "('f, 'r) pool_world \<Rightarrow> nat list" where
  "owned w = map snd (p_entries (pl w)) @ map fst (collected w)"

definition held :: "('f, 'r) pool \<Rightarrow> nat multiset \<Rightarrow> 'r multiset" where
  "held p M = (\<Sum>i\<in>#M. mset (opt_list (ent_runtime (p_heap p ! i))))"

definition map_ok :: "('f, 'r) pool_world \<Rightarrow> bool" where
  "map_ok w \<longleftrightarrow> distinct (map fst (p_entries (pl w))) \<and> distinct (owned w)
     \<and> (\<forall>i\<in>set (owned w). i < length (p_heap (pl w)))
     \<and> (p_closed (pl w) \<longrightarrow> p_entries (pl w) = [])
     \<and> (\<forall>k\<in>fst ` set (p_entries (pl w)). key_frontend k \<notin> set (gone w))"

definition opening_ok :: "('f, 'r) pool_world \<Rightarrow> bool" where
  "opening_ok w \<longleftrightarrow> distinct (map snd (pw_opening w))
     \<and> (\<forall>(k, i)\<in>set (pw_opening w). \<not> ent_ready (p_heap (pl w) ! i) \<and> ent_runtime (p_heap (pl w) ! i) = None
          \<and> keyed w k i \<and> i \<in> set (owned w))"

definition using_ok :: "('f, 'r) pool_world \<Rightarrow> bool" where
  "using_ok w \<longleftrightarrow>
     (\<forall>(k, i)\<in>set (pw_joining w). i < length (p_heap (pl w))
        \<and> (ent_ready (p_heap (pl w) ! i) \<and> ent_err (p_heap (pl w) ! i) \<or> keyed w k i))
     \<and> (\<forall>(k, i)\<in>set (using_entry w). i < length (p_heap (pl w)) \<and> ent_ready (p_heap (pl w) ! i)
          \<and> ent_runtime (p_heap (pl w) ! i) \<noteq> None \<and> keyed w k i)
     \<and> (\<forall>i<length (p_heap (pl w)). ent_err (p_heap (pl w) ! i)
          = (ent_ready (p_heap (pl w) ! i) \<and> ent_runtime (p_heap (pl w) ! i) = None))"

definition books_ok :: "('f, 'r) pool_world \<Rightarrow> bool" where
  "books_ok w \<longleftrightarrow> distinct (pw_opened w)
     \<and> mset (pw_opened w) = mset (pw_shut w) + held (pl w) (mset (owned w))"

definition pool_ok :: "('f, 'r) pool_world \<Rightarrow> bool" where
  "pool_ok w \<longleftrightarrow> map_ok w \<and> opening_ok w \<and> using_ok w \<and> books_ok w"

lemmas pool_oks = map_ok_def opening_ok_def using_ok_def books_ok_def

lemma map_okI:
  assumes "distinct (map fst (p_entries (pl w)))" and "distinct (owned w)"
    and "\<And>i. i \<in> set (owned w) \<Longrightarrow> i < length (p_heap (pl w))"
    and "p_closed (pl w) \<Longrightarrow> p_entries (pl w) = []"
    and "\<And>k. k \<in> fst ` set (p_entries (pl w)) \<Longrightarrow> key_frontend k \<notin> set (gone w)"
  shows "map_ok w"
  using assms unfolding map_ok_def by blast

lemma opening_okI:
  assumes "distinct (map snd (pw_opening w))"
    and "\<And>k i. (k, i) \<in> set (pw_opening w) \<Longrightarrow> \<not> ent_ready (p_heap (pl w) ! i)
       \<and> ent_runtime (p_heap (pl w) ! i) = None \<and> keyed w k i \<and> i \<in> set (owned w)"
  shows "opening_ok w"
  using assms unfolding opening_ok_def by blast

lemma using_okI:
  assumes "\<And>k i. (k, i) \<in> set (pw_joining w) \<Longrightarrow> i < length (p_heap (pl w))
       \<and> (ent_ready (p_heap (pl w) ! i) \<and> ent_err (p_heap (pl w) ! i) \<or> keyed w k i)"
    and "\<And>k i. (k, i) \<in> set (using_entry w) \<Longrightarrow> i < length (p_heap (pl w)) \<and> ent_ready (p_heap (pl w) ! i)
       \<and> ent_runtime (p_heap (pl w) ! i) \<noteq> None \<and> keyed w k i"
    and "\<And>i. i < length (p_heap (pl w)) \<Longrightarrow> ent_err (p_heap (pl w) ! i)
       = (ent_ready (p_heap (pl w) ! i) \<and> ent_runtime (p_heap (pl w) ! i) = None)"
  shows "using_ok w"
  using assms unfolding using_ok_def by blast

lemma opening_entry:
  "pool_ok w \<Longrightarrow> (k, i) \<in> set (pw_opening w) \<Longrightarrow> \<not> ent_ready (p_heap (pl w) ! i)
     \<and> ent_runtime (p_heap (pl w) ! i) = None \<and> keyed w k i \<and> i \<in> set (owned w)"
  unfolding pool_ok_def opening_ok_def by blast

lemma joining_entry:
  "pool_ok w \<Longrightarrow> (k, i) \<in> set (pw_joining w) \<Longrightarrow> i < length (p_heap (pl w))
     \<and> (ent_ready (p_heap (pl w) ! i) \<and> ent_err (p_heap (pl w) ! i) \<or> keyed w k i)"
  unfolding pool_ok_def using_ok_def by blast

lemma used_entry:
  "pool_ok w \<Longrightarrow> (k, i) \<in> set (using_entry w) \<Longrightarrow> i < length (p_heap (pl w)) \<and> ent_ready (p_heap (pl w) ! i)
     \<and> ent_runtime (p_heap (pl w) ! i) \<noteq> None \<and> keyed w k i"
  unfolding pool_ok_def using_ok_def by blast

lemma err_entry:
  "pool_ok w \<Longrightarrow> i < length (p_heap (pl w)) \<Longrightarrow> ent_err (p_heap (pl w) ! i)
     = (ent_ready (p_heap (pl w) ! i) \<and> ent_runtime (p_heap (pl w) ! i) = None)"
  unfolding pool_ok_def using_ok_def by blast

lemma owned_entry: "pool_ok w \<Longrightarrow> i \<in> set (owned w) \<Longrightarrow> i < length (p_heap (pl w))"
  unfolding pool_ok_def map_ok_def by blast

text \<open>Releasing an entry only changes a reference count.\<close>

lemma nth_update_self: "g (f (xs ! j)) = g (xs ! j) \<Longrightarrow> g (xs[j := f (xs ! j)] ! i) = g (xs ! i)"
  by (cases "i = j"; cases "j < length xs") (auto simp: list_update_beyond)

lemma update_entry_fields [simp]:
  "p_entries (update_entry i f p) = p_entries p" "p_closed (update_entry i f p) = p_closed p"
  "p_watched (update_entry i f p) = p_watched p"
  "length (p_heap (update_entry i f p)) = length (p_heap p)"
  by (simp_all add: update_entry_def)

lemma update_refs [simp]:
  "ent_ready (p_heap (update_entry i (\<lambda>e. e\<lparr>ent_refs := h e\<rparr>) p) ! j) = ent_ready (p_heap p ! j)"
  "ent_runtime (p_heap (update_entry i (\<lambda>e. e\<lparr>ent_refs := h e\<rparr>) p) ! j) = ent_runtime (p_heap p ! j)"
  "ent_err (p_heap (update_entry i (\<lambda>e. e\<lparr>ent_refs := h e\<rparr>) p) ! j) = ent_err (p_heap p ! j)"
  by (simp_all add: update_entry_def nth_update_self)

lemma release_entry_fields [simp]:
  "p_entries (release_entry k i p) = p_entries p" "p_closed (release_entry k i p) = p_closed p"
  "p_watched (release_entry k i p) = p_watched p"
  "length (p_heap (release_entry k i p)) = length (p_heap p)"
  "ent_ready (p_heap (release_entry k i p) ! j) = ent_ready (p_heap p ! j)"
  "ent_runtime (p_heap (release_entry k i p) ! j) = ent_runtime (p_heap p ! j)"
  "ent_err (p_heap (release_entry k i p) ! j) = ent_err (p_heap p ! j)"
  by (simp_all add: release_entry_def)

lemma held_simps [simp]:
  "held p {#} = {#}" "held p (add_mset i M) = mset (opt_list (ent_runtime (p_heap p ! i))) + held p M"
  "held p (M + N) = held p M + held p N"
  by (simp_all add: held_def)

lemma held_cong:
  "(\<And>i. i \<in># M \<Longrightarrow> ent_runtime (p_heap p ! i) = ent_runtime (p_heap q ! i)) \<Longrightarrow> held p M = held q M"
  unfolding held_def by (intro arg_cong [of _ _ sum_mset] image_mset_cong) simp

lemma update_absent: "map_of al k = None \<Longrightarrow> AList.update k v al = al @ [(k, v)]"
  by (induction al) (auto split: if_splits)

definition refs_only :: "('f, 'r) pool \<Rightarrow> ('f, 'r) pool \<Rightarrow> bool" where
  "refs_only p q \<longleftrightarrow> p_entries q = p_entries p \<and> p_closed q = p_closed p
     \<and> length (p_heap q) = length (p_heap p)
     \<and> (\<forall>j. ent_ready (p_heap q ! j) = ent_ready (p_heap p ! j)
          \<and> ent_runtime (p_heap q ! j) = ent_runtime (p_heap p ! j)
          \<and> ent_err (p_heap q ! j) = ent_err (p_heap p ! j))"

lemma refs_only_release [simp]: "refs_only p (release_entry k i p)"
  by (simp add: refs_only_def)

lemma refs_only_update [simp]: "refs_only p (update_entry i (\<lambda>e. e\<lparr>ent_refs := h e\<rparr>) p)"
  by (simp add: refs_only_def)

lemma refs_only_refl [simp]: "refs_only p p"
  by (simp add: refs_only_def)

lemma refs_only_cleanup [simp]: "refs_only p (cleanup_failed e p)"
  by (simp add: refs_only_def cleanup_failed_def)

lemma refs_only_ok:
  assumes "refs_only (pl w) p" and "pool_ok w"
  shows "pool_ok (w\<lparr>pl := p\<rparr>)"
proof -
  have "held p M = held (pl w) M" for M
    using assms(1) by (intro held_cong) (simp add: refs_only_def)
  moreover have "keyed (w\<lparr>pl := p\<rparr>) = keyed w"
    using assms(1) by (intro ext) (simp add: keyed_def refs_only_def)
  moreover have "owned (w\<lparr>pl := p\<rparr>) = owned w"
    using assms(1) by (simp add: owned_def refs_only_def)
  ultimately show ?thesis
    using assms by (simp add: pool_ok_def pool_oks refs_only_def)
qed

lemma joining_ok:
  assumes "pool_ok w" and "\<And>k i. (k, i) \<in> set js \<Longrightarrow> (k, i) \<in> set (pw_joining w)
     \<or> i < length (p_heap (pl w)) \<and> keyed w k i"
    and "\<And>k i. (k, i) \<in> set us \<Longrightarrow> (k, i) \<in> set (using_entry w)
     \<or> i < length (p_heap (pl w)) \<and> ent_ready (p_heap (pl w) ! i) \<and> ent_runtime (p_heap (pl w) ! i) \<noteq> None \<and> keyed w k i"
  shows "pool_ok (w\<lparr>pw_joining := js, using_entry := us\<rparr>)"
proof -
  have "keyed (w\<lparr>pw_joining := js, using_entry := us\<rparr>) = keyed w"
    by (intro ext) (simp add: keyed_def)
  moreover have "owned (w\<lparr>pw_joining := js, using_entry := us\<rparr>) = owned w"
    by (simp add: owned_def)
  moreover have "using_ok (w\<lparr>pw_joining := js, using_entry := us\<rparr>)"
    using assms calculation by (fastforce simp: pool_ok_def using_ok_def)
  ultimately show ?thesis using assms(1) by (simp add: pool_ok_def pool_oks)
qed

lemma keyed_gone: "keyed w k i \<Longrightarrow> keyed (w\<lparr>gone := f # gone w\<rparr>) k i"
  by (auto simp: keyed_def)

lemma pool_ok_join:
  assumes "pool_ok w" and "map_of (p_entries (pl w)) k = Some i" and "refs_only (pl w) p"
  shows "pool_ok (w\<lparr>pl := p, pw_joining := (k, i) # pw_joining w\<rparr>)"
proof -
  let ?w = "w\<lparr>pl := p\<rparr>"
  have "i \<in> set (owned w)"
    using assms(2) by (force simp: owned_def dest: map_of_SomeD)
  then have "i < length (p_heap (pl w))" using assms(1) by (simp add: pool_ok_def map_ok_def)
  then have "pool_ok (?w\<lparr>pw_joining := (k, i) # pw_joining ?w, using_entry := using_entry ?w\<rparr>)"
    using assms(2,3) by (intro joining_ok refs_only_ok assms) (auto simp: refs_only_def keyed_def)
  then show ?thesis by simp
qed

lemma pool_ok_open:
  assumes ok: "pool_ok w" and absent: "map_of (p_entries (pl w)) k = None"
    and live: "\<not> p_closed (pl w)" and here: "key_frontend k \<notin> set (gone w)"
    and p: "p_heap p = p_heap (pl w) @ [\<lparr>ent_ready = False, ent_runtime = None, ent_err = False, ent_refs = 1\<rparr>]"
      "p_entries p = AList.update k (length (p_heap (pl w))) (p_entries (pl w))" "p_closed p = p_closed (pl w)"
  shows "pool_ok (w\<lparr>pl := p, pw_opening := (k, length (p_heap (pl w))) # pw_opening w\<rparr>)"
    (is "pool_ok ?v")
proof -
  let ?n = "length (p_heap (pl w))"
  have e: "p_entries p = p_entries (pl w) @ [(k, ?n)]"
    using p(2) absent by (simp add: update_absent)
  have lt: "i < ?n" if "i \<in> set (owned w)" for i
    using ok that by (simp add: pool_ok_def map_ok_def)
  have old: "p_heap p ! i = p_heap (pl w) ! i" if "i < ?n" for i
    using that p(1) by (simp add: nth_append)
  have len: "length (p_heap p) = Suc ?n" using p(1) by simp
  have new: "\<not> ent_ready (p_heap p ! ?n)" "ent_runtime (p_heap p ! ?n) = None" "\<not> ent_err (p_heap p ! ?n)"
    using p(1) by simp_all
  have kd: "keyed ?v k' i" if "keyed w k' i" for k' i
  proof (cases "k' = k")
    case True
    then show ?thesis using that absent live here by (simp add: keyed_def)
  next
    case False
    with that p(3) show ?thesis by (auto simp: keyed_def e map_add_def split: option.splits)
  qed
  have kn: "keyed ?v k ?n" using absent by (simp add: keyed_def e map_add_def)
  have ow: "mset (owned ?v) = add_mset ?n (mset (owned w))"
    by (simp add: owned_def e)
  then have own: "set (owned ?v) = insert ?n (set (owned w))"
    by (metis set_mset_add_mset_insert set_mset_mset)
  have "distinct (owned ?v) \<longleftrightarrow> distinct (?n # owned w)"
    by (rule mset_eq_imp_distinct_iff) (simp add: ow)
  then have "map_ok ?v"
    using ok lt here own p(1) absent
    by (auto simp: pool_ok_def map_ok_def e live p(3) map_of_None_iff intro: less_SucI)
  moreover have "opening_ok ?v"
  proof -
    have "?n \<notin> snd ` set (pw_opening w)"
      by (metis imageE less_irrefl lt ok opening_entry prod.collapse)
    moreover have "distinct (map snd (pw_opening w))" using ok by (simp add: pool_ok_def opening_ok_def)
    ultimately show ?thesis
      by (intro opening_okI) (auto simp: old lt new kn kd own dest: opening_entry [OF ok])
  qed
  moreover have "using_ok ?v"
    by (rule using_okI)
      (auto simp: old new kd len less_Suc_eq dest: joining_entry [OF ok] used_entry [OF ok] err_entry [OF ok])
  moreover have "books_ok ?v"
  proof -
    have "held p (mset (owned w)) = held (pl w) (mset (owned w))"
      by (rule held_cong) (simp add: lt old)
    then show ?thesis using ok ow new by (simp add: pool_ok_def books_ok_def)
  qed
  ultimately show ?thesis by (simp add: pool_ok_def)
qed

lemma entry_unique:
  "distinct (map snd xs) \<Longrightarrow> (k, i) \<in> set xs \<Longrightarrow> (k', i) \<in> set (remove1 (k, i) xs) \<Longrightarrow> False"
  by (induction xs) (auto split: if_splits simp: rev_image_eqI)

lemma distinct_snd_remove1: "distinct (map snd xs) \<Longrightarrow> distinct (map snd (remove1 x xs))"
  by (induction xs) (use set_remove1_subset in fastforce)+

lemma mset_delete:
  "distinct (map fst al) \<Longrightarrow> map_of al k = Some i \<Longrightarrow>
     mset (map snd al) = add_mset i (mset (map snd (AList.delete k al)))"
proof (induction al)
  case (Cons x al)
  show ?case
  proof (cases "fst x = k")
    case True
    with Cons.prems have "AList.delete k al = al"
      by (intro AList.delete_id) auto
    with True Cons.prems show ?thesis by (cases x) auto
  next
    case False
    with Cons show ?thesis by (cases x) auto
  qed
qed simp

lemma pool_ok_opened:
  assumes ok: "pool_ok w" and ki: "(k, i) \<in> set (pw_opening w)" and fresh: "r \<notin> set (pw_opened w)"
  shows "pool_ok (w\<lparr>pl := open_finished k i (Some r) (pl w), pw_opening := remove1 (k, i) (pw_opening w),
     using_entry := (k, i) # using_entry w, pw_opened := r # pw_opened w\<rparr>)" (is "pool_ok ?v")
proof -
  let ?p = "open_finished k i (Some r) (pl w)"
  note entry = opening_entry [OF ok ki]
  have lt: "i < length (p_heap (pl w))" using ok entry owned_entry by blast
  have f: "p_entries ?p = p_entries (pl w)" "p_closed ?p = p_closed (pl w)"
    "length (p_heap ?p) = length (p_heap (pl w))"
    by (simp_all add: open_finished_def)
  have at: "ent_ready (p_heap ?p ! i)" "ent_runtime (p_heap ?p ! i) = Some r" "\<not> ent_err (p_heap ?p ! i)"
    using lt by (simp_all add: open_finished_def update_entry_def)
  have other: "p_heap ?p ! j = p_heap (pl w) ! j" if "j \<noteq> i" for j
    using that by (simp add: open_finished_def update_entry_def)
  have kd: "keyed ?v = keyed w" by (intro ext) (simp add: keyed_def f)
  have own: "owned ?v = owned w" by (simp add: owned_def f)
  have "map_ok ?v" using ok by (simp add: pool_ok_def map_ok_def f own)
  moreover have "opening_ok ?v"
  proof -
    have d: "distinct (map snd (pw_opening w))" using ok by (simp add: pool_ok_def opening_ok_def)
    show ?thesis
    proof (rule opening_okI)
      fix k' j assume "(k', j) \<in> set (pw_opening ?v)"
      then have mem: "(k', j) \<in> set (remove1 (k, i) (pw_opening w))" by simp
      then have "j \<noteq> i" using entry_unique [OF d ki] by blast
      with opening_entry [OF ok subsetD [OF set_remove1_subset mem]]
      show "\<not> ent_ready (p_heap (pl ?v) ! j) \<and> ent_runtime (p_heap (pl ?v) ! j) = None
          \<and> keyed ?v k' j \<and> j \<in> set (owned ?v)"
        by (simp add: kd own other)
    qed (simp add: distinct_snd_remove1 d)
  qed
  moreover have "using_ok ?v"
  proof (rule using_okI)
    show "j < length (p_heap (pl ?v)) \<and> (ent_ready (p_heap (pl ?v) ! j) \<and> ent_err (p_heap (pl ?v) ! j) \<or> keyed ?v k' j)"
      if "(k', j) \<in> set (pw_joining ?v)" for k' j
      using joining_entry [OF ok, of k' j] that entry by (cases "j = i") (auto simp: f kd other)
    show "j < length (p_heap (pl ?v)) \<and> ent_ready (p_heap (pl ?v) ! j)
        \<and> ent_runtime (p_heap (pl ?v) ! j) \<noteq> None \<and> keyed ?v k' j"
      if "(k', j) \<in> set (using_entry ?v)" for k' j
      using used_entry [OF ok, of k' j] that entry lt at
      by (cases "j = i") (auto simp: f kd other)
    show "ent_err (p_heap (pl ?v) ! j) = (ent_ready (p_heap (pl ?v) ! j) \<and> ent_runtime (p_heap (pl ?v) ! j) = None)"
      if "j < length (p_heap (pl ?v))" for j
      using err_entry [OF ok, of j] that at by (cases "j = i") (auto simp: f other)
  qed
  moreover have "books_ok ?v"
  proof -
    from entry obtain M where M: "mset (owned w) = add_mset i M"
      by (metis in_multiset_in_set insert_DiffM set_mset_mset)
    have "i \<notin># M"
    proof
      assume "i \<in># M"
      then have "count (mset (owned w)) i > 1" using M by simp
      then show False using ok by (simp add: pool_ok_def map_ok_def distinct_count_atmost_1 split: if_splits)
    qed
    then have "held ?p M = held (pl w) M" by (intro held_cong) (metis other)
    then show ?thesis
      using ok fresh at(2) entry by (simp add: pool_ok_def books_ok_def own M)
  qed
  ultimately show ?thesis by (simp add: pool_ok_def)
qed

text \<open>
  A failed open takes the entry out of the map, where its key still leads to it (or to nothing):
  nobody else holds an entry of this key.
\<close>

lemma pool_ok_failed:
  assumes ok: "pool_ok w" and ki: "(k, i) \<in> set (pw_opening w)"
  shows "pool_ok (w\<lparr>pl := open_finished k i None (pl w), pw_opening := remove1 (k, i) (pw_opening w)\<rparr>)"
    (is "pool_ok ?v")
proof -
  let ?p = "open_finished k i None (pl w)"
  note entry = opening_entry [OF ok ki]
  have lt: "i < length (p_heap (pl w))" using ok entry owned_entry by blast
  have f: "p_entries ?p = AList.delete k (p_entries (pl w))" "p_closed ?p = p_closed (pl w)"
    "length (p_heap ?p) = length (p_heap (pl w))"
    by (simp_all add: open_finished_def)
  have rt: "ent_runtime (p_heap ?p ! j) = ent_runtime (p_heap (pl w) ! j)" for j
    using entry lt by (cases "j = i") (simp_all add: open_finished_def update_entry_def)
  have at: "ent_ready (p_heap ?p ! i)" "ent_err (p_heap ?p ! i)"
    using lt by (simp_all add: open_finished_def update_entry_def)
  have other: "ent_ready (p_heap ?p ! j) = ent_ready (p_heap (pl w) ! j)"
      "ent_err (p_heap ?p ! j) = ent_err (p_heap (pl w) ! j)" if "j \<noteq> i" for j
    using that by (simp_all add: open_finished_def update_entry_def)
  have lookup: "map_of (p_entries ?p) = (map_of (p_entries (pl w)))(k := None)"
    by (simp add: f(1) delete_conv')
  have kd: "keyed ?v k' j" if "keyed w k' j" "j \<noteq> i" for k' j
  proof (cases "k' = k")
    case True
    with that entry show ?thesis by (auto simp: keyed_def lookup f(2))
  next
    case False
    with that show ?thesis by (simp add: keyed_def lookup f(2))
  qed
  have own: "mset (owned w) = mset (owned ?v) \<or> mset (owned w) = add_mset i (mset (owned ?v))"
  proof (cases "map_of (p_entries (pl w)) k")
    case None
    then show ?thesis by (simp add: owned_def f(1) AList.delete_id map_of_None_iff)
  next
    case (Some j)
    with entry have "j = i" by (simp add: keyed_def)
    with Some mset_delete [of "p_entries (pl w)" k i] ok
    show ?thesis by (simp add: owned_def f(1) pool_ok_def map_ok_def)
  qed
  then have own_set: "set (owned ?v) \<subseteq> set (owned w)" "set (owned w) - {i} \<subseteq> set (owned ?v)"
    by (auto simp flip: set_mset_mset)
  have "map_ok ?v"
  proof -
    have "distinct (owned ?v)"
    proof -
      have "distinct (owned w)" using ok by (simp add: pool_ok_def map_ok_def)
      with own mset_eq_imp_distinct_iff [of "owned w" "owned ?v"] mset_eq_imp_distinct_iff [of "owned w" "i # owned ?v"]
      show ?thesis by auto
    qed
    moreover have "fst ` set (p_entries ?p) \<subseteq> fst ` set (p_entries (pl w))"
      unfolding f(1) by (rule AList.dom_delete_subset)
    then have "key_frontend k' \<notin> set (gone w)" if "k' \<in> fst ` set (p_entries ?p)" for k'
      using that ok unfolding pool_ok_def map_ok_def by blast
    moreover have "distinct (map fst (p_entries ?p))" and "p_closed ?p \<longrightarrow> p_entries ?p = []"
      using ok by (simp_all add: pool_ok_def map_ok_def f AList.distinct_delete)
    ultimately show ?thesis
      using owned_entry [OF ok] own_set(1) by (intro map_okI) (auto simp: f(3))
  qed
  moreover have "opening_ok ?v"
  proof -
    have d: "distinct (map snd (pw_opening w))" using ok by (simp add: pool_ok_def opening_ok_def)
    show ?thesis
    proof (rule opening_okI)
      fix k' j assume "(k', j) \<in> set (pw_opening ?v)"
      then have mem: "(k', j) \<in> set (remove1 (k, i) (pw_opening w))" by simp
      then have "j \<noteq> i" using entry_unique [OF d ki] by blast
      with opening_entry [OF ok subsetD [OF set_remove1_subset mem]] kd own_set
      show "\<not> ent_ready (p_heap (pl ?v) ! j) \<and> ent_runtime (p_heap (pl ?v) ! j) = None
          \<and> keyed ?v k' j \<and> j \<in> set (owned ?v)"
        by (auto simp: other rt)
    qed (simp add: distinct_snd_remove1 d)
  qed
  moreover have "using_ok ?v"
  proof (rule using_okI)
    show "j < length (p_heap (pl ?v)) \<and> (ent_ready (p_heap (pl ?v) ! j) \<and> ent_err (p_heap (pl ?v) ! j) \<or> keyed ?v k' j)"
      if "(k', j) \<in> set (pw_joining ?v)" for k' j
      using joining_entry [OF ok, of k' j] that at kd [of k' j] by (cases "j = i") (auto simp: f other)
    show "j < length (p_heap (pl ?v)) \<and> ent_ready (p_heap (pl ?v) ! j)
        \<and> ent_runtime (p_heap (pl ?v) ! j) \<noteq> None \<and> keyed ?v k' j"
      if "(k', j) \<in> set (using_entry ?v)" for k' j
      using used_entry [OF ok, of k' j] that entry kd [of k' j] by (cases "j = i") (auto simp: f other rt)
    show "ent_err (p_heap (pl ?v) ! j) = (ent_ready (p_heap (pl ?v) ! j) \<and> ent_runtime (p_heap (pl ?v) ! j) = None)"
      if "j < length (p_heap (pl ?v))" for j
      using err_entry [OF ok, of j] that at entry by (cases "j = i") (auto simp: f other rt)
  qed
  moreover have "books_ok ?v"
  proof -
    have "held ?p M = held (pl w) M" for M by (intro held_cong) (simp add: rt)
    with own entry ok show ?thesis by (auto simp: pool_ok_def books_ok_def)
  qed
  ultimately show ?thesis by (simp add: pool_ok_def)
qed

lemma map_of_filter_key:
  "map_of (filter (\<lambda>(k, i). P k) xs) k = (if P k then map_of xs k else None)"
  by (induction xs) auto

lemma mset_filter_split:
  "mset (map snd xs) = mset (map snd (filter (\<lambda>(k, i). P k) xs)) + mset (map snd (filter (\<lambda>(k, i). \<not> P k) xs))"
  by (induction xs) (auto split: prod.splits)

text \<open>Both ends of a session and \<open>Close\<close> move entries from the map to those that are to be closed.\<close>

lemma pool_ok_collect:
  assumes ok: "pool_ok w" and h: "p_heap p = p_heap (pl w)"
    and e: "p_entries p = filter (\<lambda>(k, i). P k) (p_entries (pl w))"
    and ids: "map fst cs = map snd (filter (\<lambda>(k, i). \<not> P k) (p_entries (pl w)))"
    and c: "p_closed (pl w) \<Longrightarrow> p_closed p" "p_closed p \<Longrightarrow> p_entries p = []"
    and g: "set (gone w) \<subseteq> set gs"
    and out: "\<And>k. \<not> P k \<Longrightarrow> key_frontend k \<in> set gs \<or> p_closed p"
    and inn: "\<And>k. P k \<Longrightarrow> key_frontend k \<in> set gs \<Longrightarrow> key_frontend k \<in> set (gone w)"
  shows "pool_ok (w\<lparr>pl := p, collected := cs @ collected w, gone := gs\<rparr>)" (is "pool_ok ?v")
proof -
  have own: "mset (owned ?v) = mset (owned w)"
    using mset_filter_split [of "p_entries (pl w)" P] ids by (simp add: owned_def e flip: mset_map)
  then have own_set: "set (owned ?v) = set (owned w)" by (metis set_mset_mset)
  have kd: "keyed ?v k i" if "keyed w k i" for k i
    using that out [of k] c(1) g by (auto simp: keyed_def e map_of_filter_key)
  have "map_ok ?v"
  proof (rule map_okI)
    show "distinct (map fst (p_entries (pl ?v)))"
      using ok by (simp add: pool_ok_def map_ok_def e distinct_map_filter)
    show "distinct (owned ?v)"
      using ok mset_eq_imp_distinct_iff [OF own] by (simp add: pool_ok_def map_ok_def)
    show "i < length (p_heap (pl ?v))" if "i \<in> set (owned ?v)" for i
      using owned_entry [OF ok, of i] that by (simp add: own_set h)
    show "p_entries (pl ?v) = []" if "p_closed (pl ?v)" using c(2) that by simp
    show "key_frontend k \<notin> set (gone ?v)" if k: "k \<in> fst ` set (p_entries (pl ?v))" for k
    proof
      assume "key_frontend k \<in> set (gone ?v)"
      with k inn [of k] have "key_frontend k \<in> set (gone w)" "k \<in> fst ` set (p_entries (pl w))"
        by (auto simp: e)
      then show False using ok unfolding pool_ok_def map_ok_def by blast
    qed
  qed
  moreover have "opening_ok ?v"
    using ok opening_entry [OF ok]
    by (intro opening_okI) (auto simp: h own_set kd pool_ok_def opening_ok_def)
  moreover have "using_ok ?v"
    by (rule using_okI) (auto simp: h kd dest: joining_entry [OF ok] used_entry [OF ok] err_entry [OF ok])
  moreover have "books_ok ?v"
    using ok own by (simp add: pool_ok_def books_ok_def held_def h)
  ultimately show ?thesis by (simp add: pool_ok_def)
qed

lemma pool_ok_session_end:
  assumes "pool_ok w" and "close_session f (pl w) = (p, is)"
  shows "pool_ok (w\<lparr>pl := p, collected := map (\<lambda>i. (i, True)) is @ collected w, gone := f # gone w\<rparr>)"
proof (rule pool_ok_collect [OF assms(1), where P = "\<lambda>k. key_frontend k \<noteq> f"])
  have none: "p_closed (pl w) \<Longrightarrow> p_entries (pl w) = []"
    using assms(1) by (simp add: pool_ok_def map_ok_def)
  show "p_heap p = p_heap (pl w)"
    using assms(2) by (auto simp: close_session_def Let_def split: if_splits)
  show "p_entries p = filter (\<lambda>(k, i). key_frontend k \<noteq> f) (p_entries (pl w))"
    using assms(2) none by (auto simp: close_session_def Let_def split: if_splits)
  show "map fst (map (\<lambda>i. (i, True)) is) = map snd (filter (\<lambda>(k, i). \<not> key_frontend k \<noteq> f) (p_entries (pl w)))"
    using assms(2) none by (auto simp: close_session_def Let_def comp_def split: if_splits)
  show "p_closed (pl w) \<Longrightarrow> p_closed p" "p_closed p \<Longrightarrow> p_entries p = []"
    using assms(2) none by (auto simp: close_session_def Let_def split: if_splits)
qed auto

lemma pool_ok_close:
  assumes "pool_ok w" and "close_pool (pl w) = (p, is)"
  shows "pool_ok (w\<lparr>pl := p, collected := map (\<lambda>i. (i, False)) is @ collected w\<rparr>)"
proof -
  have none: "p_closed (pl w) \<Longrightarrow> p_entries (pl w) = []"
    using assms(1) by (simp add: pool_ok_def map_ok_def)
  have "pool_ok (w\<lparr>pl := p, collected := map (\<lambda>i. (i, False)) is @ collected w, gone := gone w\<rparr>)"
    using assms(2) none
    by (intro pool_ok_collect [OF assms(1), where P = "\<lambda>k. False"])
      (auto simp: close_pool_def comp_def case_prod_unfold split: if_splits)
  then show ?thesis by simp
qed

lemma mset_fst_remove1:
  "(i, s) \<in> set xs \<Longrightarrow> mset (map fst xs) = add_mset i (mset (map fst (remove1 (i, s) xs)))"
  by (induction xs) auto

lemma pool_ok_close_entry:
  assumes ok: "pool_ok w" and c: "(i, s) \<in> set (collected w)"
    and ready: "ent_ready (p_heap (pl w) ! i)"
  shows "pool_ok (w\<lparr>collected := remove1 (i, s) (collected w), pw_errors := es,
     pw_shut := opt_list (ent_runtime (p_heap (pl w) ! i)) @ pw_shut w\<rparr>)" (is "pool_ok ?v")
proof -
  have kd: "keyed ?v = keyed w" by (intro ext) (simp add: keyed_def)
  have "mset (map fst (collected w)) = add_mset i (mset (map fst (remove1 (i, s) (collected w))))"
    using c by (rule mset_fst_remove1)
  then have own: "mset (owned w) = add_mset i (mset (owned ?v))"
    by (simp add: owned_def)
  then have d: "distinct (i # owned ?v)"
    using ok mset_eq_imp_distinct_iff [of "owned w" "i # owned ?v"] by (simp add: pool_ok_def map_ok_def)
  have own_set: "set (owned w) = insert i (set (owned ?v))"
    using own by (metis set_mset_add_mset_insert set_mset_mset)
  have "map_ok ?v"
    using ok d own_set by (auto simp: pool_ok_def map_ok_def)
  moreover have "opening_ok ?v"
  proof -
    have "j \<noteq> i" if "(k, j) \<in> set (pw_opening w)" for k j
      using opening_entry [OF ok that] ready by auto
    with ok own_set opening_entry [OF ok] show ?thesis
      by (intro opening_okI) (auto simp: kd pool_ok_def opening_ok_def)
  qed
  moreover have "using_ok ?v"
    by (rule using_okI) (auto simp: kd dest: joining_entry [OF ok] used_entry [OF ok] err_entry [OF ok])
  moreover have "books_ok ?v"
    using ok own by (simp add: pool_ok_def books_ok_def)
  ultimately show ?thesis by (simp add: pool_ok_def)
qed

lemma pool_ok_init: "pool_init w \<Longrightarrow> pool_ok w"
  by (simp add: pool_init_def pool_ok_def pool_oks new_pool_def owned_def)

lemma acquire_join:
  "acquire_begin f fp c p = (q, Join k i) \<Longrightarrow> map_of (p_entries p) k = Some i \<and> refs_only p q"
  by (auto simp: acquire_begin_def Let_def split: option.splits if_splits)

lemma acquire_open:
  "acquire_begin f fp c p = (q, Open_entry k i) \<Longrightarrow>
     map_of (p_entries p) k = None \<and> \<not> p_closed p \<and> f = Some (key_frontend k) \<and> i = length (p_heap p)
     \<and> p_heap q = p_heap p @ [\<lparr>ent_ready = False, ent_runtime = None, ent_err = False, ent_refs = 1\<rparr>]
     \<and> p_entries q = AList.update k i (p_entries p) \<and> p_closed q = p_closed p"
  by (auto simp: acquire_begin_def Let_def split: option.splits if_splits)

lemma acquire_refused:
  "acquire_begin f fp c p = (q, Nil_frontend) \<Longrightarrow> q = p"
  "acquire_begin f fp c p = (q, Pool_closed) \<Longrightarrow> q = p"
  by (auto simp: acquire_begin_def Let_def split: option.splits if_splits)

lemma pool_ok_step:
  assumes ok: "pool_ok w" and timely: "timely w act" and step: "pool_step w act w'"
  shows "pool_ok w'"
  using step
proof cases
  case (pool_acquire f fp c p a)
  show ?thesis
  proof (cases a)
    case Nil_frontend
    with pool_acquire ok acquire_refused(1) [of f fp c "pl w" p] show ?thesis by simp
  next
    case Pool_closed
    with pool_acquire ok acquire_refused(2) [of f fp c "pl w" p] show ?thesis by simp
  next
    case (Join k i)
    with pool_acquire(3) have "map_of (p_entries (pl w)) k = Some i" "refs_only (pl w) p"
      by (auto dest: acquire_join)
    from pool_ok_join [OF ok this] Join pool_acquire(2) show ?thesis by simp
  next
    case (Open_entry k i)
    with pool_acquire(3) have o: "map_of (p_entries (pl w)) k = None" "\<not> p_closed (pl w)" "f = Some (key_frontend k)"
      "i = length (p_heap (pl w))"
      "p_heap p = p_heap (pl w) @ [\<lparr>ent_ready = False, ent_runtime = None, ent_err = False, ent_refs = 1\<rparr>]"
      "p_entries p = AList.update k (length (p_heap (pl w))) (p_entries (pl w))" "p_closed p = p_closed (pl w)"
      by (auto dest: acquire_open)
    have "key_frontend k \<notin> set (gone w)" using timely pool_acquire(1) o(3) by (simp add: timely_def)
    from pool_ok_open [OF ok o(1,2) this o(5-7)] o(4) Open_entry pool_acquire(2) show ?thesis by simp
  qed
next
  case (pool_opened k i result)
  then show ?thesis
    using pool_ok_failed [OF ok pool_opened(3)] pool_ok_opened [OF ok pool_opened(3)]
    by (cases result) simp_all
next
  case (pool_joined k i p r)
  have refs: "refs_only (pl w) p" using pool_joined(5) by (auto simp: join_ready_def split: if_splits)
  have "pool_ok (w\<lparr>pl := p, pw_joining := remove1 (k, i) (pw_joining w),
      using_entry := (if r = None then using_entry w else (k, i) # using_entry w)\<rparr>)"
    (is "pool_ok ?v")
  proof -
    let ?u = "w\<lparr>pl := p\<rparr>"
    have ok': "pool_ok ?u" by (rule refs_only_ok [OF refs ok])
    have j: "(k, i) \<in> set (pw_joining ?u)" "ent_ready (p_heap (pl ?u) ! i)"
      using pool_joined(3,4) refs by (simp_all add: refs_only_def)
    have some: "\<not> ent_err (p_heap (pl ?u) ! i)" if "r \<noteq> None"
    proof -
      have "\<not> ent_err (p_heap (pl w) ! i)"
        using that pool_joined(5) by (auto simp: join_ready_def split: if_splits)
      then show ?thesis using refs by (simp add: refs_only_def)
    qed
    have "ent_runtime (p_heap (pl ?u) ! i) \<noteq> None \<and> keyed ?u k i" if "r \<noteq> None"
      using some [OF that] j joining_entry [OF ok' j(1)] err_entry [OF ok', of i] by auto
    then show ?thesis
      using j joining_entry [OF ok' j(1)]
      by (intro joining_ok [OF ok'])
        (auto split: if_split_asm dest: subsetD [OF set_remove1_subset])
  qed
  then show ?thesis using pool_joined(2) by simp
next
  case (pool_join_cancelled k i)
  let ?u = "w\<lparr>pl := release_entry k i (pl w)\<rparr>"
  have "pool_ok (?u\<lparr>pw_joining := remove1 (k, i) (pw_joining ?u), using_entry := using_entry ?u\<rparr>)"
    using set_remove1_subset [of "(k, i)" "pw_joining w"] by (intro joining_ok refs_only_ok ok) auto
  then show ?thesis using pool_join_cancelled(2) by simp
next
  case (pool_release k i)
  let ?u = "w\<lparr>pl := release_entry k i (pl w)\<rparr>"
  have "pool_ok (?u\<lparr>pw_joining := pw_joining ?u, using_entry := remove1 (k, i) (using_entry ?u)\<rparr>)"
    using set_remove1_subset [of "(k, i)" "using_entry w"] by (intro joining_ok refs_only_ok ok) auto
  then show ?thesis using pool_release(2) by simp
next
  case (pool_session_end f p "is")
  then show ?thesis using pool_ok_session_end [OF ok] by simp
next
  case (pool_close p "is")
  then show ?thesis using pool_ok_close [OF ok] by simp
next
  case (pool_close_entry i s err)
  let ?p = "case err of Some e \<Rightarrow> if s then cleanup_failed e (pl w) else pl w | None \<Rightarrow> pl w"
  have "refs_only (pl w) ?p" by (simp split: option.split)
  then have ok': "pool_ok (w\<lparr>pl := ?p\<rparr>)" by (rule refs_only_ok [OF _ ok])
  have heap: "p_heap ?p = p_heap (pl w)" by (simp add: cleanup_failed_def split: option.split)
  show ?thesis
    using pool_ok_close_entry [OF ok', of i s "if s then pw_errors w else pw_errors w @ opt_list err"]
      pool_close_entry(3,4)
    unfolding pool_close_entry(2) by (simp add: heap split del: if_split)
qed

interpretation pm: invariant_machine pool_init timely_step pool_ok
  by unfold_locales (auto simp: timely_step_def intro: pool_ok_init pool_ok_step)

section \<open>Executable steps\<close>

fun pool_next :: "('f, 'r) pool_world \<Rightarrow> ('f, 'r) pool_action \<Rightarrow> ('f, 'r) pool_world option" where
  "pool_next w (Acquire f fp c) =
     (case acquire_begin f fp c (pl w) of (p, a) \<Rightarrow> Some (acquire_world a (w\<lparr>pl := p\<rparr>)))"
| "pool_next w (Opened_entry k i result) =
     (if (k, i) \<in> set (pw_opening w) \<and> set_option result \<inter> set (pw_opened w) = {}
      then Some (w\<lparr>pl := open_finished k i result (pl w), pw_opening := remove1 (k, i) (pw_opening w),
         using_entry := (if result = None then using_entry w else (k, i) # using_entry w),
         pw_opened := opt_list result @ pw_opened w\<rparr>) else None)"
| "pool_next w (Joined k i) =
     (if (k, i) \<in> set (pw_joining w) \<and> ent_ready (p_heap (pl w) ! i)
      then (case join_ready k i (pl w) of (p, r) \<Rightarrow>
        Some (w\<lparr>pl := p, pw_joining := remove1 (k, i) (pw_joining w),
          using_entry := (if r = None then using_entry w else (k, i) # using_entry w)\<rparr>)) else None)"
| "pool_next w (Join_cancelled k i) =
     (if (k, i) \<in> set (pw_joining w)
      then Some (w\<lparr>pl := release_entry k i (pl w), pw_joining := remove1 (k, i) (pw_joining w)\<rparr>) else None)"
| "pool_next w (Release_entry k i) =
     (if (k, i) \<in> set (using_entry w)
      then Some (w\<lparr>pl := release_entry k i (pl w), using_entry := remove1 (k, i) (using_entry w)\<rparr>) else None)"
| "pool_next w (Session_end f) =
     (if f \<in> set (p_watched (pl w))
      then (case close_session f (pl w) of (p, is) \<Rightarrow>
        Some (w\<lparr>pl := p, collected := map (\<lambda>i. (i, True)) is @ collected w, gone := f # gone w\<rparr>)) else None)"
| "pool_next w Close_pool =
     (case close_pool (pl w) of (p, is) \<Rightarrow>
        Some (w\<lparr>pl := p, collected := map (\<lambda>i. (i, False)) is @ collected w\<rparr>))"
| "pool_next w (Close_entry i s err) =
     (if (i, s) \<in> set (collected w) \<and> ent_ready (p_heap (pl w) ! i)
         \<and> (ent_runtime (p_heap (pl w) ! i) = None \<longrightarrow> err = None)
      then Some (w\<lparr>pl := (case err of Some e \<Rightarrow> if s then cleanup_failed e (pl w) else pl w | None \<Rightarrow> pl w),
         collected := remove1 (i, s) (collected w),
         pw_errors := (if s then pw_errors w else pw_errors w @ opt_list err),
         pw_shut := opt_list (ent_runtime (p_heap (pl w) ! i)) @ pw_shut w\<rparr>) else None)"

lemma if_Some_iff: "(if b then Some x else None) = Some y \<longleftrightarrow> b \<and> y = x"
  by auto

lemma pool_next_step:
  assumes "pool_next w a = Some w'"
  shows "pool_step w a w'"
proof (cases a)
  case (Acquire f fp c)
  obtain p b where b: "acquire_begin f fp c (pl w) = (p, b)" by (cases "acquire_begin f fp c (pl w)")
  with assms Acquire have "w' = acquire_world b (w\<lparr>pl := p\<rparr>)"
    by simp
  with pool_acquire [of f fp c w p b] b show ?thesis by (simp only: Acquire)
next
  case (Opened_entry k i result)
  with assms have "(k, i) \<in> set (pw_opening w)" "set_option result \<inter> set (pw_opened w) = {}"
    "w' = w\<lparr>pl := open_finished k i result (pl w), pw_opening := remove1 (k, i) (pw_opening w),
         using_entry := (if result = None then using_entry w else (k, i) # using_entry w),
         pw_opened := opt_list result @ pw_opened w\<rparr>"
    by (simp_all only: pool_next.simps if_Some_iff)
  with pool_opened [of k i w result] show ?thesis by (simp only: Opened_entry)
next
  case (Joined k i)
  obtain p r where j: "join_ready k i (pl w) = (p, r)" by (cases "join_ready k i (pl w)")
  with assms Joined have "(k, i) \<in> set (pw_joining w)" "ent_ready (p_heap (pl w) ! i)"
    "w' = w\<lparr>pl := p, pw_joining := remove1 (k, i) (pw_joining w),
          using_entry := (if r = None then using_entry w else (k, i) # using_entry w)\<rparr>"
    by (simp_all only: pool_next.simps if_Some_iff prod.case)
  with pool_joined [of k i w p r] j show ?thesis by (simp only: Joined)
next
  case (Join_cancelled k i)
  with assms show ?thesis by (auto simp: if_Some_iff intro: pool_join_cancelled)
next
  case (Release_entry k i)
  with assms show ?thesis by (auto simp: if_Some_iff intro: pool_release)
next
  case (Session_end f)
  obtain p ids where c: "close_session f (pl w) = (p, ids)" by (cases "close_session f (pl w)")
  with assms Session_end have "f \<in> set (p_watched (pl w))"
    "w' = w\<lparr>pl := p, collected := map (\<lambda>i. (i, True)) ids @ collected w, gone := f # gone w\<rparr>"
    by (simp_all only: pool_next.simps if_Some_iff prod.case)
  with pool_session_end [of f w p ids] c show ?thesis by (simp only: Session_end)
next
  case Close_pool
  with assms show ?thesis by (cases "close_pool (pl w)") (auto intro: pool_close)
next
  case (Close_entry i s err)
  with assms have c: "(i, s) \<in> set (collected w)" "ent_ready (p_heap (pl w) ! i)"
    "ent_runtime (p_heap (pl w) ! i) = None \<Longrightarrow> err = None"
    "w' = w\<lparr>pl := (case err of Some e \<Rightarrow> if s then cleanup_failed e (pl w) else pl w | None \<Rightarrow> pl w),
         collected := remove1 (i, s) (collected w),
         pw_errors := (if s then pw_errors w else pw_errors w @ opt_list err),
         pw_shut := opt_list (ent_runtime (p_heap (pl w) ! i)) @ pw_shut w\<rparr>"
    by (simp_all only: pool_next.simps if_Some_iff simp_thms)
  show ?thesis unfolding Close_entry c(4) by (rule pool_close_entry) (use c(1-3) in blast)+
qed

definition empty_world :: "(nat, nat) pool_world" where
  "empty_world = \<lparr>pl = new_pool, pw_opening = [], pw_joining = [], using_entry = [], collected = [],
     pw_errors = [], pw_opened = [], pw_shut = [], gone = []\<rparr>"

lemma play_pool: "play pool_next empty_world as = Some w \<Longrightarrow> reach pool_init pool_step w"
  by (rule play_reach [OF reach_init pool_next_step]) (simp_all add: pool_init_def empty_world_def)

definition timely_next :: "('f, 'r) pool_world \<Rightarrow> ('f, 'r) pool_action \<Rightarrow> ('f, 'r) pool_world option" where
  "timely_next w a = (if timely w a then pool_next w a else None)"

lemma timely_next_step: "timely_next w a = Some w' \<Longrightarrow> timely_step w a w'"
  by (simp add: timely_next_def timely_step_def pool_next_step split: if_splits)

lemma play_timely: "play timely_next empty_world as = Some w \<Longrightarrow> reach pool_init timely_step w"
  by (rule play_reach [OF reach_init timely_next_step]) (simp_all add: pool_init_def empty_world_def)

lemmas pool_ops = acquire_begin_def release_entry_def open_finished_def join_ready_def close_session_def
  close_pool_def update_entry_def new_pool_def empty_world_def cleanup_failed_def Let_def timely_next_def timely_def

section \<open>Properties\<close>

text \<open>
  C15: one runtime serves a component of a live session. Let no operation reach \<open>Acquire\<close> for a
  session after the pool saw its end. Then two operations that hold the pool's release
  functions for the same session, configuration and component, while the session has not ended and
  the pool is open, use the same runtime; it was opened by the factory and has not been closed.
\<close>

theorem pool_shares_live_runtime:
  assumes "reach pool_init timely_step w"
    and "(k, i) \<in> set (using_entry w)" and "(k, j) \<in> set (using_entry w)"
    and "key_frontend k \<notin> set (gone w)" and "\<not> p_closed (pl w)"
  shows "i = j \<and> (\<exists>r. ent_runtime (p_heap (pl w) ! i) = Some r \<and> r \<in> set (pw_opened w) \<and> r \<notin> set (pw_shut w))"
proof
  note ok = pm.reach_inv [OF assms(1)]
  have i: "map_of (p_entries (pl w)) k = Some i" "map_of (p_entries (pl w)) k = Some j"
    using used_entry [OF ok assms(2)] used_entry [OF ok assms(3)] assms(4,5) by (simp_all add: keyed_def)
  then show "i = j" by simp
  obtain r where r: "ent_runtime (p_heap (pl w) ! i) = Some r"
    using used_entry [OF ok assms(2)] by auto
  have "i \<in># mset (owned w)" using map_of_SomeD [OF i(1)] by (force simp: owned_def)
  then obtain M where "mset (owned w) = add_mset i M" by (metis insert_DiffM)
  then have books: "mset (pw_opened w) = add_mset r (mset (pw_shut w) + held (pl w) M)"
    using ok r by (simp add: pool_ok_def books_ok_def)
  then have opened: "r \<in># mset (pw_opened w)" by simp
  have "count (mset (pw_opened w)) r \<le> 1"
    using ok unfolding pool_ok_def books_ok_def distinct_count_atmost_1 by (metis le_refl zero_le)
  then have "count (mset (pw_shut w)) r = 0" using books by simp
  then have "r \<notin> set (pw_shut w)" by (simp add: count_eq_zero_iff)
  with opened r show "\<exists>r. ent_runtime (p_heap (pl w) ! i) = Some r \<and> r \<in> set (pw_opened w) \<and> r \<notin> set (pw_shut w)"
    by simp
qed

definition key_a :: "nat pool_key" where
  "key_a = \<lparr>key_frontend = 1, key_fingerprint = ''f'', key_component = ''c''\<rparr>"

definition shared_world :: "(nat, nat) pool_world" where
  "shared_world = the (play timely_next empty_world
     [Acquire (Some 1) ''f'' ''c'', Acquire (Some 1) ''f'' ''c'', Opened_entry key_a 0 (Some 7), Joined key_a 0])"

theorem pool_shares_live_runtime_witness:
  "using_entry shared_world = [(key_a, 0), (key_a, 0)]
   \<and> (\<exists>r. ent_runtime (p_heap (pl shared_world) ! 0) = Some r \<and> r \<in> set (pw_opened shared_world)
        \<and> r \<notin> set (pw_shut shared_world))"
proof -
  have p: "play timely_next empty_world
     [Acquire (Some 1) ''f'' ''c'', Acquire (Some 1) ''f'' ''c'', Opened_entry key_a 0 (Some 7), Joined key_a 0]
     = Some shared_world"
    unfolding shared_world_def by (simp add: pool_ops key_a_def)
  have "using_entry shared_world = [(key_a, 0), (key_a, 0)]" "gone shared_world = []" "\<not> p_closed (pl shared_world)"
    unfolding shared_world_def by (simp_all add: pool_ops key_a_def)
  with pool_shares_live_runtime [OF play_timely [OF p], of key_a 0 0] show ?thesis by simp
qed

text \<open>
  C16: the pool closes everything it opened, when no operation reaches \<open>Acquire\<close> for a session after
  the pool saw its end (\<open>timely_step\<close>): once the pool is closed and the entries taken out of its map have
  been closed, every runtime the factory ever returned has been closed exactly once. C17 shows that the
  proviso is needed: the code does not enforce it, and without it a runtime may be left open.
\<close>

theorem pool_closes_every_runtime:
  assumes "reach pool_init timely_step w" and "p_closed (pl w)" and "collected w = []"
  shows "distinct (pw_shut w) \<and> set (pw_shut w) = set (pw_opened w)"
proof -
  note ok = pm.reach_inv [OF assms(1)]
  have "owned w = []" using ok assms(2,3) by (simp add: pool_ok_def map_ok_def owned_def)
  then have "mset (pw_shut w) = mset (pw_opened w)" "distinct (pw_opened w)"
    using ok by (simp_all add: pool_ok_def books_ok_def)
  then show ?thesis using mset_eq_setD mset_eq_imp_distinct_iff by blast
qed

definition closed_world :: "(nat, nat) pool_world" where
  "closed_world = the (play timely_next empty_world
     [Acquire (Some 1) ''f'' ''c'', Acquire (Some 1) ''f'' ''d'', Opened_entry key_a 0 (Some 7), Session_end 1, Close_pool,
      Opened_entry (key_a\<lparr>key_component := ''d''\<rparr>) 1 (Some 8), Close_entry 1 True None, Close_entry 0 True (Some ''failed'')])"

theorem pool_closes_every_runtime_witness:
  "set (pw_shut closed_world) = {7, 8} \<and> distinct (pw_shut closed_world) \<and> set (pw_shut closed_world) = set (pw_opened closed_world)"
proof -
  have p: "play timely_next empty_world
     [Acquire (Some 1) ''f'' ''c'', Acquire (Some 1) ''f'' ''d'', Opened_entry key_a 0 (Some 7), Session_end 1, Close_pool,
      Opened_entry (key_a\<lparr>key_component := ''d''\<rparr>) 1 (Some 8), Close_entry 1 True None, Close_entry 0 True (Some ''failed'')]
     = Some closed_world"
    unfolding closed_world_def by (simp add: pool_ops key_a_def)
  have "set (pw_shut closed_world) = {7, 8}" "collected closed_world = []" "p_closed (pl closed_world)"
    unfolding closed_world_def by (simp_all add: pool_ops key_a_def)
  with pool_closes_every_runtime [OF play_timely [OF p]] show ?thesis by simp
qed

text \<open>
  C17: without that proviso a runtime leaks. An operation that acquires a component after the pool saw the
  end of its session makes a new entry under the same key; when the open that the session's end was
  waiting for then fails, its caller deletes the new entry from the map, and the runtime opened for it
  is never closed - neither by the end of the session nor by \<open>Close\<close>.
\<close>

definition leaking_run :: "(nat, nat) pool_action list" where
  "leaking_run = [Acquire (Some 1) ''f'' ''c'', Session_end 1, Acquire (Some 1) ''f'' ''c'',
     Opened_entry key_a 0 None, Close_entry 0 True None, Opened_entry key_a 1 (Some 5), Release_entry key_a 1,
     Session_end 1, Close_pool]"

theorem late_acquire_leaks:
  "\<exists>w :: (nat, nat) pool_world. reach pool_init pool_step w \<and> p_closed (pl w) \<and> collected w = [] \<and> pw_opening w = []
     \<and> pw_joining w = [] \<and> using_entry w = [] \<and> pw_opened w = [5] \<and> pw_shut w = []"
proof -
  define w where "w = the (play pool_next empty_world leaking_run)"
  have p: "play pool_next empty_world leaking_run = Some w"
    unfolding w_def by (simp add: leaking_run_def pool_ops key_a_def)
  have "p_closed (pl w)" "collected w = []" "pw_opening w = []" "pw_joining w = []" "using_entry w = []"
    "pw_opened w = [5]" "pw_shut w = []"
    unfolding w_def by (simp_all add: leaking_run_def pool_ops key_a_def)
  then show ?thesis using play_pool [OF p] by (intro exI [of _ w] conjI) simp_all
qed

end
