(* ===== verification/Registry.thy ===== *)
theory Registry
  imports Component_Types "HOL-Library.AList" "HOL-Library.Multiset"
begin

text \<open>
  The registry of compiled catalogs, \<open>catalog/registry.go\<close>: one entry per configuration fingerprint,
  compiled on first use, refreshed when a component announces a change. Each stretch of code under
  the lock \<open>r.mu\<close> is a function on the record \<open>registry\<close>; the step relation interleaves them with
  the compilations, the waiting on channels and the timers, which run outside the lock.

  Entries are allocated in the list \<open>rg_heap\<close> and the Go map points into it. Three fields of an entry are
  not in the code: \<open>re_key\<close>, the fingerprint it was stored under (its timers are closures over it),
  \<open>re_armed\<close>, whether its timer will fire, and \<open>re_asked\<close>, the time of the last change announced to it. A
  channel is a number; closing one appends it to \<open>rg_closed_chans\<close>, so that closing a channel twice, a
  panic in Go, is a duplicate there.

  The model knows two things of a catalog: when its compilation started (\<open>sn_ticket\<close>, a count of the
  compilations started before) and whether it waits for authorization. A fingerprint is the digest of
  the whole configuration (\<open>Fingerprint\<close>): the argument \<open>conf\<close> is the configuration behind one.
\<close>

section \<open>The registry and its critical sections\<close>

record snapshot =
  sn_ticket :: nat
  sn_pending :: bool

text \<open>The failure of a compilation, with or without an authorization challenge; a cancelled context.\<close>

datatype registry_error = Compile_failed bool | Registry_cancelled | Catalog_unavailable

record registry_entry =
  re_ready :: bool
  re_catalog :: "snapshot option"
  re_err :: "registry_error option"
  re_config :: config
  re_refreshing :: bool
  re_pending :: bool
  re_timer :: bool
  re_callbacks :: "nat list"
  re_stale :: bool
  re_refresh_done :: "nat option"
  re_key :: string
  re_armed :: bool
  re_asked :: nat

record registry =
  rg_heap :: "registry_entry list"
  rg_entries :: "(string \<times> nat) list"
  rg_closed :: bool
  rg_next_chan :: nat
  rg_closed_chans :: "nat list"
  rg_started :: "nat list"
  rg_stopped :: "nat list"

definition new_registry :: registry where
  "new_registry = \<lparr>rg_heap = [], rg_entries = [], rg_closed = False, rg_next_chan = 0,
     rg_closed_chans = [], rg_started = [], rg_stopped = []\<rparr>"

abbreviation entry_at :: "registry \<Rightarrow> nat \<Rightarrow> registry_entry" where
  "entry_at r i \<equiv> rg_heap r ! i"

definition set_entry :: "nat \<Rightarrow> registry_entry \<Rightarrow> registry \<Rightarrow> registry" where
  "set_entry i e r = r\<lparr>rg_heap := (rg_heap r)[i := e]\<rparr>"

definition start_index :: "snapshot \<Rightarrow> registry \<Rightarrow> registry" where
  "start_index c r = r\<lparr>rg_started := sn_ticket c # rg_started r\<rparr>"

definition stop_index :: "snapshot option \<Rightarrow> registry \<Rightarrow> registry" where
  "stop_index c r = r\<lparr>rg_stopped := map sn_ticket (opt_list c) @ rg_stopped r\<rparr>"

text \<open>\<open>close(entry.refreshDone); entry.refreshDone = nil\<close>, when it is not nil.\<close>

definition close_refresh_done :: "nat \<Rightarrow> registry \<Rightarrow> registry" where
  "close_refresh_done i r =
     set_entry i ((entry_at r i)\<lparr>re_refresh_done := None\<rparr>)
       (r\<lparr>rg_closed_chans := opt_list (re_refresh_done (entry_at r i)) @ rg_closed_chans r\<rparr>)"

text \<open>\<open>if entry.refreshDone == nil { entry.refreshDone = make(chan struct{}) }\<close>\<close>

definition make_refresh_done :: "nat \<Rightarrow> registry \<Rightarrow> registry" where
  "make_refresh_done i r =
     (case re_refresh_done (entry_at r i) of
        Some c \<Rightarrow> r
      | None \<Rightarrow> set_entry i ((entry_at r i)\<lparr>re_refresh_done := Some (rg_next_chan r)\<rparr>)
                 (r\<lparr>rg_next_chan := rg_next_chan r + 1\<rparr>))"

definition new_entry :: "string \<Rightarrow> config \<Rightarrow> registry_entry" where
  "new_entry fp cfg = \<lparr>re_ready = False, re_catalog = None, re_err = None, re_config = cfg,
     re_refreshing = False, re_pending = False, re_timer = False, re_callbacks = [], re_stale = False,
     re_refresh_done = None, re_key = fp, re_armed = False, re_asked = 0\<rparr>"

definition allocate :: "string \<Rightarrow> registry_entry \<Rightarrow> registry \<Rightarrow> registry" where
  "allocate fp e r = r\<lparr>rg_heap := rg_heap r @ [e], rg_entries := AList.update fp (length (rg_heap r)) (rg_entries r)\<rparr>"

text \<open>\<open>entryForConfig\<close>: the entry and whether the caller created it and compiles it.\<close>

definition entry_for_config :: "string \<Rightarrow> config \<Rightarrow> registry \<Rightarrow> registry \<times> nat \<times> bool" where
  "entry_for_config fp cfg r =
     (case map_of (rg_entries r) fp of
        Some i \<Rightarrow> (r, i, False)
      | None \<Rightarrow> (allocate fp (new_entry fp cfg) r, length (rg_heap r), True))"

text \<open>What a compilation returned.\<close>

type_synonym compiled = "registry_error + snapshot"

fun snapshot_of :: "compiled \<Rightarrow> snapshot option" where
  "snapshot_of (Inr c) = Some c"
| "snapshot_of (Inl e) = None"

fun error_of :: "compiled \<Rightarrow> registry_error option" where
  "error_of (Inl e) = Some e"
| "error_of (Inr c) = None"

definition not_cacheable :: "compiled \<Rightarrow> bool" where
  "not_cacheable result = (case result of Inl e \<Rightarrow> True | Inr c \<Rightarrow> sn_pending c)"

text \<open>The end of \<open>Get\<close> of the caller that created the entry.\<close>

definition first_compiled :: "string \<Rightarrow> nat \<Rightarrow> compiled \<Rightarrow> registry \<Rightarrow> registry" where
  "first_compiled fp i result r =
     (let r = set_entry i ((entry_at r i)\<lparr>re_catalog := snapshot_of result, re_err := error_of result\<rparr>) r;
          r = (if map_of (rg_entries r) fp = Some i \<and> not_cacheable result
               then r\<lparr>rg_entries := AList.delete fp (rg_entries r)\<rparr> else r);
          r = (case result of Inr c \<Rightarrow> if rg_closed r then r else start_index c r | Inl e \<Rightarrow> r)
      in set_entry i ((entry_at r i)\<lparr>re_ready := True\<rparr>) r)"

text \<open>\<open>Cached\<close>, after the fingerprint.\<close>

definition cached :: "string \<Rightarrow> registry \<Rightarrow> snapshot option" where
  "cached fp r =
     (case map_of (rg_entries r) fp of
        None \<Rightarrow> None
      | Some i \<Rightarrow>
          let e = entry_at r i
          in if rg_closed r \<or> re_stale e \<or> re_err e \<noteq> None \<or> \<not> re_ready e then None
             else case re_catalog e of None \<Rightarrow> None | Some c \<Rightarrow> if sn_pending c then None else Some c)"

text \<open>
  The two critical sections of \<open>waitForCatalog\<close>: after the entry is ready, and after the channel of a
  refresh was closed.
\<close>

datatype waited = Found "snapshot option" | Wait_failed registry_error | Wait_for nat

definition wait_enter :: "nat \<Rightarrow> bool \<Rightarrow> registry \<Rightarrow> registry \<times> waited" where
  "wait_enter i tool_search r =
     (let e = entry_at r i
      in case re_err e of
           Some err \<Rightarrow> (r, Wait_failed err)
         | None \<Rightarrow>
             if \<not> re_stale e \<or> \<not> tool_search then (r, Found (re_catalog e))
             else if rg_closed r then (r, Wait_failed Registry_cancelled)
             else
               let r = make_refresh_done i r; e = entry_at r i;
                   r = (if \<not> re_refreshing e \<and> \<not> re_timer e
                        then set_entry i (e\<lparr>re_timer := True, re_armed := True\<rparr>) r else r)
               in (r, Wait_for (the (re_refresh_done (entry_at r i)))))"

definition wait_done :: "string \<Rightarrow> registry \<Rightarrow> waited" where
  "wait_done fp r =
     (case map_of (rg_entries r) fp of
        None \<Rightarrow> Wait_failed Catalog_unavailable
      | Some i \<Rightarrow>
          if re_stale (entry_at r i) then Wait_failed Catalog_unavailable
          else case re_err (entry_at r i) of Some err \<Rightarrow> Wait_failed err | None \<Rightarrow> Found (re_catalog (entry_at r i)))"

text \<open>\<open>Get\<close> compiles again when what it found is a challenge or a catalog that waits for authorization.\<close>

fun must_retry :: "waited \<Rightarrow> bool" where
  "must_retry (Wait_failed (Compile_failed challenge)) = challenge"
| "must_retry (Wait_failed e) = False"
| "must_retry (Found (Some c)) = sn_pending c"
| "must_retry (Found None) = False"
| "must_retry (Wait_for c) = False"

definition publish :: "string \<Rightarrow> config \<Rightarrow> snapshot \<Rightarrow> registry \<Rightarrow> registry" where
  "publish fp cfg c r =
     (if rg_closed r then r
      else let r = start_index c r
           in if sn_pending c \<or> map_of (rg_entries r) fp \<noteq> None then r
              else allocate fp ((new_entry fp cfg)\<lparr>re_ready := True, re_catalog := Some c\<rparr>) r)"

section \<open>Refreshes\<close>

text \<open>The loop of \<open>Refresh\<close> for a configuration with tool search: what it found in the map.\<close>

datatype refresh_begun = Refresh_cancelled | No_entry | Wait_first nat | Wait_refresh nat | Begun nat

definition refresh_begin :: "string \<Rightarrow> registry \<Rightarrow> registry \<times> refresh_begun" where
  "refresh_begin fp r =
     (if rg_closed r then (r, Refresh_cancelled)
      else case map_of (rg_entries r) fp of
             None \<Rightarrow> (r, No_entry)
           | Some i \<Rightarrow>
               if \<not> re_ready (entry_at r i) then (r, Wait_first i)
               else case re_refresh_done (entry_at r i) of
                      Some c \<Rightarrow> (r, Wait_refresh c)
                    | None \<Rightarrow>
                        let r = set_entry i ((entry_at r i)\<lparr>re_stale := True, re_refreshing := True\<rparr>) r
                        in (make_refresh_done i r, Begun i))"

definition arm_refresh :: "nat \<Rightarrow> registry \<Rightarrow> registry" where
  "arm_refresh i r = set_entry i ((entry_at r i)\<lparr>re_timer := True, re_armed := True\<rparr>) r"

definition finish_refresh :: "nat \<Rightarrow> compiled \<Rightarrow> registry \<Rightarrow> registry" where
  "finish_refresh i result r =
     (let r = (case result of
                 Inl err \<Rightarrow> r
               | Inr c \<Rightarrow>
                   let r = start_index c r; old = re_catalog (entry_at r i);
                       r = set_entry i ((entry_at r i)\<lparr>re_catalog := Some c, re_err := None\<rparr>) r
                   in stop_index old r);
          pending = re_pending (entry_at r i);
          r = set_entry i ((entry_at r i)\<lparr>re_refreshing := False, re_pending := False\<rparr>) r;
          r = (if cfg_tool_search (re_config (entry_at r i))
               then let r = set_entry i ((entry_at r i)\<lparr>re_stale := (pending \<or> error_of result \<noteq> None)\<rparr>) r
                    in if pending then r else close_refresh_done i r
               else r)
      in if pending \<and> \<not> rg_closed r then arm_refresh i r else r)"

text \<open>
  The end of \<open>Refresh\<close>: with tool search and an entry it finishes the refresh of that entry, otherwise a
  failure marks the entry stale and a success replaces the entry.
\<close>

definition refresh_end :: "string \<Rightarrow> config \<Rightarrow> nat option \<Rightarrow> compiled \<Rightarrow> registry \<Rightarrow> registry" where
  "refresh_end fp cfg current result r =
     (if cfg_tool_search cfg \<and> current \<noteq> None
      then (if rg_closed r then r else finish_refresh (the current) result r)
      else case result of
             Inl err \<Rightarrow>
               (case map_of (rg_entries r) fp of
                  Some i \<Rightarrow> if cfg_tool_search cfg then set_entry i ((entry_at r i)\<lparr>re_stale := True\<rparr>) r else r
                | None \<Rightarrow> r)
           | Inr c \<Rightarrow>
               let r = start_index c r; old = map_of (rg_entries r) fp;
                   r = allocate fp ((new_entry fp cfg)\<lparr>re_ready := True, re_catalog := Some c\<rparr>) r
               in case old of None \<Rightarrow> r | Some i \<Rightarrow> stop_index (re_catalog (entry_at r i)) (close_refresh_done i r))"

definition has_server :: "string \<Rightarrow> config \<Rightarrow> bool" where
  "has_server name cfg \<longleftrightarrow> list_ex (\<lambda>s. srv_name s = name) (cfg_servers cfg)"

definition invalidate_entry :: "string \<Rightarrow> string \<times> nat \<Rightarrow> registry \<Rightarrow> registry" where
  "invalidate_entry name fi r =
     (let i = snd fi
      in if has_server name (re_config (entry_at r i))
         then let r = stop_index (re_catalog (entry_at r i)) (r\<lparr>rg_entries := AList.delete (fst fi) (rg_entries r)\<rparr>);
                  r = set_entry i ((entry_at r i)\<lparr>re_armed := False\<rparr>) r
              in close_refresh_done i r
         else r)"

definition invalidate_component :: "string \<Rightarrow> registry \<Rightarrow> registry" where
  "invalidate_component name r = fold (invalidate_entry name) (rg_entries r) r"

definition request_refresh :: "string \<Rightarrow> nat option \<Rightarrow> registry \<Rightarrow> registry" where
  "request_refresh fp callback r =
     (case map_of (rg_entries r) fp of
        None \<Rightarrow> r
      | Some i \<Rightarrow>
          if rg_closed r then r
          else
            let r = set_entry i ((entry_at r i)\<lparr>re_callbacks := re_callbacks (entry_at r i) @ opt_list callback\<rparr>) r;
                r = (if cfg_tool_search (re_config (entry_at r i))
                     then make_refresh_done i (set_entry i ((entry_at r i)\<lparr>re_stale := True\<rparr>) r) else r)
            in if re_refreshing (entry_at r i) then set_entry i ((entry_at r i)\<lparr>re_pending := True\<rparr>) r
               else arm_refresh i r)"

text \<open>\<open>runRefresh\<close>: its two critical sections; the second also says whether the refresh was installed.\<close>

definition run_refresh_begin :: "string \<Rightarrow> registry \<Rightarrow> registry \<times> (nat \<times> nat list) option" where
  "run_refresh_begin fp r =
     (case map_of (rg_entries r) fp of
        None \<Rightarrow> (r, None)
      | Some i \<Rightarrow>
          if rg_closed r \<or> re_refreshing (entry_at r i) then (r, None)
          else (set_entry i ((entry_at r i)\<lparr>re_timer := False, re_refreshing := True, re_pending := False,
                  re_callbacks := []\<rparr>) r,
                Some (i, re_callbacks (entry_at r i))))"

definition run_refresh_end :: "string \<Rightarrow> nat \<Rightarrow> compiled \<Rightarrow> registry \<Rightarrow> registry" where
  "run_refresh_end fp i result r =
     (if map_of (rg_entries r) fp \<noteq> Some i then r else finish_refresh i result r)"

definition close_registry_entry :: "string \<times> nat \<Rightarrow> registry \<Rightarrow> registry" where
  "close_registry_entry fi r =
     (let i = snd fi; r = close_refresh_done i (stop_index (re_catalog (entry_at r i)) r)
      in set_entry i ((entry_at r i)\<lparr>re_timer := False, re_armed := False\<rparr>) r)"

definition close_registry :: "registry \<Rightarrow> registry" where
  "close_registry r = fold close_registry_entry (rg_entries r) (r\<lparr>rg_closed := True\<rparr>)"

section \<open>Interleavings\<close>

text \<open>
  A compilation in flight carries its ticket, the value of \<open>clock\<close> when it started. The lists of a
  world say which goroutine is where: compiling an entry it created, waiting for an entry to be ready
  or for a refresh, compiling again, inside \<open>Refresh\<close> or \<open>runRefresh\<close>.
\<close>

record registry_world =
  rw :: registry
  clock :: nat
  creating :: "(string \<times> nat \<times> nat) list"
  ready_waiters :: "(string \<times> nat) list"
  done_waiters :: "(string \<times> nat) list"
  retrying :: "(string \<times> nat) list"
  refreshes :: "(string \<times> nat option \<times> nat) list"
  running :: "(string \<times> nat \<times> nat \<times> nat list) list"
  requested :: "nat list"
  called :: "(nat \<times> bool) list"

datatype compile_outcome = Compiled_ok bool | Compile_error bool

fun outcome :: "nat \<Rightarrow> compile_outcome \<Rightarrow> compiled" where
  "outcome t (Compiled_ok pending) = Inr \<lparr>sn_ticket = t, sn_pending = pending\<rparr>"
| "outcome t (Compile_error challenge) = Inl (Compile_failed challenge)"

datatype registry_action = Get string | First_compiled string nat nat compile_outcome
  | Ready_seen string nat | Ready_abandoned string nat | Done_seen string nat | Done_abandoned string nat
  | Retried string nat compile_outcome | Refresh string | Refreshed string "nat option" nat compile_outcome
  | Invalidate string | Request string "nat option" | Timer nat
  | Ran string nat nat "nat list" compile_outcome | Close_registry

definition guarded :: "bool \<Rightarrow> 'a \<Rightarrow> 'a option" where
  "guarded b x = (if b then Some x else None)"

text \<open>A request of \<open>Get\<close> that met another caller's challenge or pending catalog compiles for itself.\<close>

definition after_wait :: "string \<Rightarrow> waited \<Rightarrow> registry_world \<Rightarrow> registry_world" where
  "after_wait fp result w =
     (case result of
        Wait_for c \<Rightarrow> w\<lparr>done_waiters := (fp, c) # done_waiters w\<rparr>
      | _ \<Rightarrow> if must_retry result then w\<lparr>retrying := (fp, clock w) # retrying w, clock := clock w + 1\<rparr> else w)"

fun registry_act :: "(string \<Rightarrow> config) \<Rightarrow> registry_world \<Rightarrow> registry_action \<Rightarrow> registry_world option" where
  "registry_act conf w (Get fp) =
     (case entry_for_config fp (conf fp) (rw w) of
        (r, i, True) \<Rightarrow> Some (w\<lparr>rw := r, creating := (fp, i, clock w) # creating w, clock := clock w + 1\<rparr>)
      | (r, i, False) \<Rightarrow> Some (w\<lparr>ready_waiters := (fp, i) # ready_waiters w\<rparr>))"
| "registry_act conf w (First_compiled fp i t res) =
     guarded ((fp, i, t) \<in> set (creating w))
       (w\<lparr>rw := first_compiled fp i (outcome t res) (rw w), creating := remove1 (fp, i, t) (creating w)\<rparr>)"
| "registry_act conf w (Ready_seen fp i) =
     guarded ((fp, i) \<in> set (ready_waiters w) \<and> re_ready (entry_at (rw w) i))
       (case wait_enter i (cfg_tool_search (conf fp)) (rw w) of
          (r, res) \<Rightarrow> after_wait fp res (w\<lparr>rw := r, ready_waiters := remove1 (fp, i) (ready_waiters w)\<rparr>))"
| "registry_act conf w (Ready_abandoned fp i) =
     Some (w\<lparr>ready_waiters := remove1 (fp, i) (ready_waiters w)\<rparr>)"
| "registry_act conf w (Done_seen fp c) =
     guarded ((fp, c) \<in> set (done_waiters w) \<and> c \<in> set (rg_closed_chans (rw w)))
       (after_wait fp (wait_done fp (rw w)) (w\<lparr>done_waiters := remove1 (fp, c) (done_waiters w)\<rparr>))"
| "registry_act conf w (Done_abandoned fp c) =
     Some (w\<lparr>done_waiters := remove1 (fp, c) (done_waiters w)\<rparr>)"
| "registry_act conf w (Retried fp t res) =
     guarded ((fp, t) \<in> set (retrying w))
       (w\<lparr>rw := (case outcome t res of Inr c \<Rightarrow> publish fp (conf fp) c (rw w) | Inl e \<Rightarrow> rw w),
          retrying := remove1 (fp, t) (retrying w)\<rparr>)"
| "registry_act conf w (Refresh fp) =
     (if cfg_tool_search (conf fp)
      then (case refresh_begin fp (rw w) of
              (r, Begun i) \<Rightarrow> Some (w\<lparr>rw := r, refreshes := (fp, Some i, clock w) # refreshes w, clock := clock w + 1\<rparr>)
            | (r, No_entry) \<Rightarrow> Some (w\<lparr>refreshes := (fp, None, clock w) # refreshes w, clock := clock w + 1\<rparr>)
            | (r, _) \<Rightarrow> Some w)
      else Some (w\<lparr>refreshes := (fp, None, clock w) # refreshes w, clock := clock w + 1\<rparr>))"
| "registry_act conf w (Refreshed fp current t res) =
     guarded ((fp, current, t) \<in> set (refreshes w))
       (w\<lparr>rw := refresh_end fp (conf fp) current (outcome t res) (rw w),
          refreshes := remove1 (fp, current, t) (refreshes w)\<rparr>)"
| "registry_act conf w (Invalidate name) = Some (w\<lparr>rw := invalidate_component name (rw w)\<rparr>)"
| "registry_act conf w (Request fp callback) =
     (let r = request_refresh fp callback (rw w);
          r = (case map_of (rg_entries r) fp of
                 Some i \<Rightarrow> set_entry i ((entry_at r i)\<lparr>re_asked := clock w\<rparr>) r | None \<Rightarrow> r)
      in Some (w\<lparr>rw := r, requested := opt_list callback @ requested w\<rparr>))"
| "registry_act conf w (Timer i) =
     guarded (i < length (rg_heap (rw w)) \<and> re_armed (entry_at (rw w) i))
       (let fp = re_key (entry_at (rw w) i) in
        case run_refresh_begin fp (set_entry i ((entry_at (rw w) i)\<lparr>re_armed := False\<rparr>) (rw w)) of
          (r, None) \<Rightarrow> w\<lparr>rw := r\<rparr>
        | (r, Some (j, cbs)) \<Rightarrow> w\<lparr>rw := r, running := (fp, j, clock w, cbs) # running w, clock := clock w + 1\<rparr>)"
| "registry_act conf w (Ran fp i t cbs res) =
     guarded ((fp, i, t, cbs) \<in> set (running w))
       (w\<lparr>rw := run_refresh_end fp i (outcome t res) (rw w), running := remove1 (fp, i, t, cbs) (running w),
          called := map (\<lambda>cb. (cb, error_of (outcome t res) = None)) cbs @ called w\<rparr>)"
| "registry_act conf w Close_registry = Some (w\<lparr>rw := close_registry (rw w)\<rparr>)"

definition registry_step :: "(string \<Rightarrow> config) \<Rightarrow> registry_world \<Rightarrow> registry_action \<Rightarrow> registry_world \<Rightarrow> bool" where
  "registry_step conf w a w' \<longleftrightarrow> registry_act conf w a = Some w'"

text \<open>
  The calm actions. None of this is a guard of the registry, and the runs above do not have it: a change
  is announced only to an entry that is ready (or to no entry), and for configurations with tool
  search \<open>Refresh\<close> is called only when there is an entry, and none of their components is invalidated.
  \<open>calm_step\<close> is the step relation cut down to these actions.
\<close>

definition calm_action :: "(string \<Rightarrow> config) \<Rightarrow> registry_world \<Rightarrow> registry_action \<Rightarrow> bool" where
  "calm_action conf w a =
     (case a of
        Request fp cb \<Rightarrow>
          (case map_of (rg_entries (rw w)) fp of Some i \<Rightarrow> re_ready (entry_at (rw w) i) | None \<Rightarrow> True)
      | Refresh fp \<Rightarrow> cfg_tool_search (conf fp) \<longrightarrow> map_of (rg_entries (rw w)) fp \<noteq> None
      | Invalidate name \<Rightarrow> list_all (\<lambda>(fp, i). \<not> (cfg_tool_search (conf fp) \<and> has_server name (conf fp))) (rg_entries (rw w))
      | _ \<Rightarrow> True)"

definition calm_step :: "(string \<Rightarrow> config) \<Rightarrow> registry_world \<Rightarrow> registry_action \<Rightarrow> registry_world \<Rightarrow> bool" where
  "calm_step conf w a w' \<longleftrightarrow> calm_action conf w a \<and> registry_step conf w a w'"

definition calm_next :: "(string \<Rightarrow> config) \<Rightarrow> registry_world \<Rightarrow> registry_action \<Rightarrow> registry_world option" where
  "calm_next conf w a = (if calm_action conf w a then registry_act conf w a else None)"

definition registry_start :: registry_world where
  "registry_start = \<lparr>rw = new_registry, clock = 0, creating = [], ready_waiters = [], done_waiters = [],
     retrying = [], refreshes = [], running = [], requested = [], called = []\<rparr>"

definition registry_init :: "registry_world \<Rightarrow> bool" where
  "registry_init w \<longleftrightarrow> w = registry_start"

section \<open>Entries keep their key\<close>

text \<open>\<open>grows r r'\<close>: no operation removes an entry from the heap or changes its key or configuration.\<close>

definition grows :: "registry \<Rightarrow> registry \<Rightarrow> bool" where
  "grows r r' \<longleftrightarrow> length (rg_heap r) \<le> length (rg_heap r')
     \<and> (\<forall>i<length (rg_heap r). re_key (entry_at r' i) = re_key (entry_at r i)
          \<and> re_config (entry_at r' i) = re_config (entry_at r i))"

lemma grows_refl [simp]: "grows r r"
  by (simp add: grows_def)

lemma grows_trans: "grows r s \<Longrightarrow> grows s t \<Longrightarrow> grows r t"
  unfolding grows_def by (metis le_trans less_le_trans)

lemma set_entry_simps [simp]:
  "rg_entries (set_entry i e r) = rg_entries r" "rg_closed (set_entry i e r) = rg_closed r"
  "rg_closed_chans (set_entry i e r) = rg_closed_chans r" "rg_next_chan (set_entry i e r) = rg_next_chan r"
  "length (rg_heap (set_entry i e r)) = length (rg_heap r)"
  "rg_heap (set_entry i e r) = (rg_heap r)[i := e]"
  by (simp_all add: set_entry_def)

lemma index_simps [simp]:
  "rg_entries (start_index c r) = rg_entries r" "rg_closed (start_index c r) = rg_closed r"
  "rg_closed_chans (start_index c r) = rg_closed_chans r" "rg_next_chan (start_index c r) = rg_next_chan r"
  "rg_heap (start_index c r) = rg_heap r"
  "rg_entries (stop_index d r) = rg_entries r" "rg_closed (stop_index d r) = rg_closed r"
  "rg_closed_chans (stop_index d r) = rg_closed_chans r" "rg_next_chan (stop_index d r) = rg_next_chan r"
  "rg_heap (stop_index d r) = rg_heap r"
  by (simp_all add: start_index_def stop_index_def)

text \<open>
  \<open>changes r i e r'\<close>: the operation that led from \<open>r\<close> to \<open>r'\<close> changed at most the entry \<open>i\<close>, to \<open>e\<close>, and closed
  the channels it removed.
\<close>

definition changes :: "registry \<Rightarrow> nat \<Rightarrow> registry_entry \<Rightarrow> registry \<Rightarrow> bool" where
  "changes r i e r' \<longleftrightarrow> i < length (rg_heap r) \<and> rg_heap r' = (rg_heap r)[i := e] \<and> rg_entries r' = rg_entries r
     \<and> rg_closed r' = rg_closed r
     \<and> set (rg_closed_chans r) \<subseteq> set (rg_closed_chans r')
     \<and> (\<forall>c. re_refresh_done (entry_at r i) = Some c \<longrightarrow> re_refresh_done e = Some c \<or> c \<in> set (rg_closed_chans r'))
     \<and> re_key e = re_key (entry_at r i) \<and> re_config e = re_config (entry_at r i)"

lemma changes_grows: "changes r i e r' \<Longrightarrow> grows r r'"
  by (auto simp: changes_def grows_def nth_list_update)

lemma changes_refl: "i < length (rg_heap r) \<Longrightarrow> changes r i (entry_at r i) r"
  by (simp add: changes_def)

lemma update_equal: "e = e' \<Longrightarrow> xs[i := e] = xs[i := e']"
  by simp

lemma update_same: "e = xs ! i \<Longrightarrow> xs = xs[i := e]"
  by simp

definition finished_entry :: "compiled \<Rightarrow> bool \<Rightarrow> registry_entry \<Rightarrow> registry_entry" where
  "finished_entry result closed e =
     (let e = (case result of Inr c \<Rightarrow> e\<lparr>re_catalog := Some c, re_err := None\<rparr> | Inl err \<Rightarrow> e);
          pending = re_pending e; e = e\<lparr>re_refreshing := False, re_pending := False\<rparr>;
          e = (if cfg_tool_search (re_config e)
               then e\<lparr>re_stale := (pending \<or> error_of result \<noteq> None),
                       re_refresh_done := (if pending then re_refresh_done e else None)\<rparr> else e)
      in if pending \<and> \<not> closed then e\<lparr>re_timer := True, re_armed := True\<rparr> else e)"

lemma finish_refresh_changes:
  assumes "i < length (rg_heap r)"
  shows "changes r i (finished_entry result (rg_closed r) (entry_at r i)) (finish_refresh i result r)"
  using assms
  by (cases result)
    (auto simp: changes_def finish_refresh_def finished_entry_def close_refresh_done_def arm_refresh_def
       Let_def split: if_split intro!: update_equal update_same registry_entry.equality)

definition requested_entry :: "nat option \<Rightarrow> nat \<Rightarrow> nat \<Rightarrow> registry_entry \<Rightarrow> registry_entry" where
  "requested_entry callback now chan e =
     (let e = e\<lparr>re_callbacks := re_callbacks e @ opt_list callback, re_asked := now\<rparr>;
          e = (if cfg_tool_search (re_config e)
               then e\<lparr>re_stale := True,
                       re_refresh_done := Some (case re_refresh_done e of None \<Rightarrow> chan | Some c \<Rightarrow> c)\<rparr> else e)
      in if re_refreshing e then e\<lparr>re_pending := True\<rparr> else e\<lparr>re_timer := True, re_armed := True\<rparr>)"

lemma request_refresh_changes:
  assumes "map_of (rg_entries r) fp = Some i" and "i < length (rg_heap r)" and "\<not> rg_closed r"
  shows "changes r i (requested_entry callback now (rg_next_chan r) (entry_at r i))
     (set_entry i ((entry_at (request_refresh fp callback r) i)\<lparr>re_asked := now\<rparr>) (request_refresh fp callback r))"
  using assms
  by (auto simp: changes_def request_refresh_def requested_entry_def make_refresh_done_def arm_refresh_def
       Let_def split: option.splits intro!: update_equal update_same registry_entry.equality)

definition waited_entry :: "nat \<Rightarrow> registry_entry \<Rightarrow> registry_entry" where
  "waited_entry chan e =
     (let e = e\<lparr>re_refresh_done := Some (case re_refresh_done e of None \<Rightarrow> chan | Some c \<Rightarrow> c)\<rparr>
      in if \<not> re_refreshing e \<and> \<not> re_timer e then e\<lparr>re_timer := True, re_armed := True\<rparr> else e)"

lemma wait_enter_changes:
  assumes "wait_enter i tool_search r = (r', res)" and "i < length (rg_heap r)"
  shows "changes r i
      (if re_err (entry_at r i) = None \<and> re_stale (entry_at r i) \<and> tool_search \<and> \<not> rg_closed r
       then waited_entry (rg_next_chan r) (entry_at r i)
       else entry_at r i) r'"
  using assms
  by (auto simp: changes_def wait_enter_def waited_entry_def make_refresh_done_def Let_def split: option.splits if_splits
       intro!: update_equal update_same registry_entry.equality)

lemma refresh_begin_changes:
  assumes "refresh_begin fp r = (r', Begun i)" and "i < length (rg_heap r)"
  shows "map_of (rg_entries r) fp = Some i \<and> \<not> rg_closed r \<and> re_ready (entry_at r i)
     \<and> re_refresh_done (entry_at r i) = None
     \<and> changes r i ((entry_at r i)\<lparr>re_stale := True, re_refreshing := True, re_refresh_done := Some (rg_next_chan r)\<rparr>) r'"
  using assms
  by (auto simp: changes_def refresh_begin_def make_refresh_done_def Let_def split: option.splits if_splits
       intro!: update_equal update_same registry_entry.equality)

lemma refresh_begin_other:
  "refresh_begin fp r = (r', b) \<Longrightarrow> (\<And>i. b \<noteq> Begun i) \<Longrightarrow> r' = r"
  by (auto simp: refresh_begin_def Let_def split: option.splits if_splits)

text \<open>The start of a refresh by a timer of the entry that is current.\<close>

lemma run_refresh_begin_changes:
  assumes "run_refresh_begin fp r = (r', Some (j, cbs))" and "j < length (rg_heap r)"
  shows "map_of (rg_entries r) fp = Some j \<and> \<not> rg_closed r \<and> \<not> re_refreshing (entry_at r j)
     \<and> changes r j ((entry_at r j)\<lparr>re_timer := False, re_refreshing := True, re_pending := False, re_callbacks := []\<rparr>) r'"
  using assms
  by (auto simp: changes_def run_refresh_begin_def split: option.splits if_splits)

lemma run_refresh_begin_other: "run_refresh_begin fp r = (r', None) \<Longrightarrow> r' = r"
  by (auto simp: run_refresh_begin_def split: option.splits if_splits)

lemma close_refresh_done_changes:
  "i < length (rg_heap r) \<Longrightarrow> changes r i ((entry_at r i)\<lparr>re_refresh_done := None\<rparr>) (close_refresh_done i r)"
  by (auto simp: changes_def close_refresh_done_def)

definition key_at :: "registry \<Rightarrow> string \<Rightarrow> nat \<Rightarrow> bool" where
  "key_at r fp i \<longleftrightarrow> i < length (rg_heap r) \<and> re_key (entry_at r i) = fp"

lemma key_at_grows: "grows r r' \<Longrightarrow> key_at r fp i \<Longrightarrow> key_at r' fp i"
  by (auto simp: grows_def key_at_def)

text \<open>Every entry somebody refers to is in the heap, under the fingerprint it is referred to by.\<close>

definition heap_keys :: "(string \<Rightarrow> config) \<Rightarrow> registry \<Rightarrow> bool" where
  "heap_keys conf r \<longleftrightarrow> (\<forall>fp i. (fp, i) \<in> set (rg_entries r) \<longrightarrow> key_at r fp i)
     \<and> (\<forall>i<length (rg_heap r). re_config (entry_at r i) = conf (re_key (entry_at r i)))"

definition keys_ok :: "(string \<Rightarrow> config) \<Rightarrow> registry_world \<Rightarrow> bool" where
  "keys_ok conf w \<longleftrightarrow> heap_keys conf (rw w)
     \<and> (\<forall>(fp, i, t) \<in> set (creating w). key_at (rw w) fp i)
     \<and> distinct (map (fst \<circ> snd) (creating w))
     \<and> (\<forall>(fp, i) \<in> set (ready_waiters w). key_at (rw w) fp i)
     \<and> (\<forall>(fp, i, t, cbs) \<in> set (running w). key_at (rw w) fp i)
     \<and> (\<forall>(fp, cur, t) \<in> set (refreshes w). \<forall>i. cur = Some i \<longrightarrow> key_at (rw w) fp i \<and> cfg_tool_search (conf fp))"

lemma heap_keys_lookup: "heap_keys conf r \<Longrightarrow> map_of (rg_entries r) fp = Some i \<Longrightarrow> key_at r fp i"
  by (simp add: heap_keys_def map_of_SomeD)

lemma heap_keys_same:
  assumes "heap_keys conf r" and "grows r r'" and "length (rg_heap r') = length (rg_heap r)"
    and "set (rg_entries r') \<subseteq> set (rg_entries r)"
  shows "heap_keys conf r'"
proof -
  have "i < length (rg_heap r') \<and> re_key (entry_at r' i) = fp" if "(fp, i) \<in> set (rg_entries r')" for fp i
    using assms that by (auto simp: heap_keys_def grows_def key_at_def)
  moreover have "re_config (entry_at r' i) = conf (re_key (entry_at r' i))" if "i < length (rg_heap r')" for i
    using assms that by (simp add: heap_keys_def grows_def)
  ultimately show ?thesis unfolding heap_keys_def key_at_def by blast
qed

lemma set_update: "set (AList.update k v al) \<subseteq> insert (k, v) (set al)"
  by (induction al) auto

lemma set_delete: "set (AList.delete k al) \<subseteq> set al"
  by (induction al) auto

lemma changes_length: "changes r i e r' \<Longrightarrow> length (rg_heap r') = length (rg_heap r)"
  by (simp add: changes_def)

lemma heap_keys_changes: "heap_keys conf r \<Longrightarrow> changes r i e r' \<Longrightarrow> heap_keys conf r'"
  by (rule heap_keys_same) (auto simp: changes_grows changes_length changes_def)

lemma heap_keys_allocate:
  assumes "heap_keys conf r" and "re_key e = fp" and "re_config e = conf fp"
  shows "heap_keys conf (allocate fp e r)"
  using assms set_update [of fp "length (rg_heap r)" "rg_entries r"]
  by (auto simp: heap_keys_def allocate_def key_at_def nth_append less_Suc_eq)

lemma allocate_grows: "grows r (allocate fp e r)"
  by (auto simp: grows_def allocate_def nth_append)

lemma allocate_simps [simp]:
  "rg_closed (allocate fp e r) = rg_closed r" "rg_closed_chans (allocate fp e r) = rg_closed_chans r"
  "rg_heap (allocate fp e r) = rg_heap r @ [e]"
  "map_of (rg_entries (allocate fp e r)) = (map_of (rg_entries r))(fp \<mapsto> length (rg_heap r))"
  by (simp_all add: allocate_def update_conv')

lemma new_entry_simps [simp]: "re_key (new_entry fp cfg) = fp" "re_config (new_entry fp cfg) = cfg"
  by (simp_all add: new_entry_def)

lemma first_compiled_heap:
  assumes "i < length (rg_heap r)"
  shows "rg_heap (first_compiled fp i result r) = (rg_heap r)[i := (entry_at r i)\<lparr>re_catalog := snapshot_of result,
      re_err := error_of result, re_ready := True\<rparr>]"
    and "rg_closed (first_compiled fp i result r) = rg_closed r"
    and "rg_closed_chans (first_compiled fp i result r) = rg_closed_chans r"
    and "set (rg_entries (first_compiled fp i result r)) \<subseteq> set (rg_entries r)"
    and "map_of (rg_entries (first_compiled fp i result r)) =
      (if map_of (rg_entries r) fp = Some i \<and> not_cacheable result then (map_of (rg_entries r))(fp := None)
       else map_of (rg_entries r))"
  using assms set_delete [of fp "rg_entries r"]
  by (auto simp: first_compiled_def Let_def delete_conv' split: sum.splits intro!: update_equal registry_entry.equality)

lemma first_compiled_grows: "i < length (rg_heap r) \<Longrightarrow> grows r (first_compiled fp i result r)"
  by (simp add: grows_def first_compiled_heap nth_list_update)

lemma heap_keys_first_compiled:
  assumes "heap_keys conf r" and "i < length (rg_heap r)"
  shows "heap_keys conf (first_compiled fp i result r)"
  using assms(1) first_compiled_grows [OF assms(2)]
  by (rule heap_keys_same) (use assms(2) first_compiled_heap in auto)

lemma publish_grows: "grows r (publish fp cfg c r)"
  by (auto simp: publish_def Let_def grows_def nth_append)

lemma heap_keys_publish:
  assumes "heap_keys conf r"
  shows "heap_keys conf (publish fp (conf fp) c r)"
proof -
  have "heap_keys conf (start_index c r)"
    using assms by (simp add: heap_keys_def key_at_def)
  with assms show ?thesis by (simp add: publish_def Let_def heap_keys_allocate)
qed

section \<open>Operations on entries without tool search\<close>

text \<open>They leave the entries with tool search alone.\<close>

definition search_same :: "(string \<Rightarrow> config) \<Rightarrow> registry \<Rightarrow> registry \<Rightarrow> bool" where
  "search_same conf r r' \<longleftrightarrow> grows r r' \<and> heap_keys conf r'
     \<and> set (rg_closed_chans r) \<subseteq> set (rg_closed_chans r')
     \<and> (\<forall>i<length (rg_heap r). cfg_tool_search (conf (re_key (entry_at r i))) \<longrightarrow> entry_at r' i = entry_at r i)
     \<and> (\<forall>i<length (rg_heap r'). length (rg_heap r) \<le> i \<longrightarrow> \<not> cfg_tool_search (conf (re_key (entry_at r' i))))
     \<and> (\<forall>fp. cfg_tool_search (conf fp) \<longrightarrow> map_of (rg_entries r') fp = map_of (rg_entries r) fp)"

lemma search_same_refl: "heap_keys conf r \<Longrightarrow> search_same conf r r"
  by (simp add: search_same_def)

lemma search_same_trans: "search_same conf r s \<Longrightarrow> search_same conf s t \<Longrightarrow> search_same conf r t"
  unfolding search_same_def grows_def by (smt (verit) dual_order.trans less_le_trans not_le)

lemma changes_search_same:
  assumes "heap_keys conf r" and "changes r i e r'" and "\<not> cfg_tool_search (conf (re_key (entry_at r i)))"
  shows "search_same conf r r'"
  using assms heap_keys_changes [OF assms(1,2)] changes_grows [OF assms(2)]
  by (auto simp: search_same_def changes_def nth_list_update)

lemma changes_same_entry:
  assumes "heap_keys conf r" and "changes r i (entry_at r i) r'"
  shows "search_same conf r r'"
  using assms heap_keys_changes [OF assms] changes_grows [OF assms(2)]
  by (auto simp: search_same_def changes_def)

lemma allocate_search_same:
  assumes "heap_keys conf r" and "re_key e = fp" and "re_config e = conf fp" and "\<not> cfg_tool_search (conf fp)"
  shows "search_same conf r (allocate fp e r)"
  using assms heap_keys_allocate [OF assms(1-3)] allocate_grows [of r fp e]
  by (auto simp: search_same_def nth_append less_Suc_eq)

lemma first_compiled_search_same:
  assumes "heap_keys conf r" and "key_at r fp i" and "\<not> cfg_tool_search (conf fp)"
  shows "search_same conf r (first_compiled fp i result r)"
  using assms heap_keys_first_compiled [OF assms(1), of i fp result] first_compiled_grows [of i r fp result]
  by (auto simp: search_same_def key_at_def first_compiled_heap nth_list_update)

lemma index_search_same:
  assumes "heap_keys conf r"
  shows "search_same conf r (start_index c r)" and "search_same conf r (stop_index d r)"
  using assms by (simp_all add: search_same_def grows_def heap_keys_def key_at_def)

lemma search_same_keys: "search_same conf r r' \<Longrightarrow> heap_keys conf r'"
  by (simp add: search_same_def)

lemma search_same_key_at: "search_same conf r r' \<Longrightarrow> key_at r fp i \<Longrightarrow> key_at r' fp i"
  by (auto simp: search_same_def intro: key_at_grows)

lemma close_refresh_done_search_same:
  assumes "heap_keys conf r" and "key_at r fp i" and "\<not> cfg_tool_search (conf fp)"
  shows "search_same conf r (close_refresh_done i r)"
  using assms by (intro changes_search_same [OF _ close_refresh_done_changes]) (auto simp: key_at_def)

lemma refresh_end_search_same:
  assumes keys: "heap_keys conf r" and s: "\<not> cfg_tool_search (conf fp)"
  shows "search_same conf r (refresh_end fp (conf fp) current result r)"
proof (cases result)
  case (Inl err)
  with s keys show ?thesis by (simp add: refresh_end_def search_same_refl split: option.split)
next
  case (Inr c)
  let ?e = "(new_entry fp (conf fp))\<lparr>re_ready := True, re_catalog := Some c\<rparr>"
  let ?r1 = "start_index c r" and ?r2 = "allocate fp ?e (start_index c r)"
  have s1: "search_same conf r ?r1" by (rule index_search_same [OF keys])
  have s2: "search_same conf ?r1 ?r2"
    by (rule allocate_search_same [OF search_same_keys [OF s1]]) (simp_all add: s)
  show ?thesis
  proof (cases "map_of (rg_entries r) fp")
    case None
    with Inr s search_same_trans [OF s1 s2] show ?thesis by (simp add: refresh_end_def Let_def)
  next
    case (Some i)
    with keys have "key_at r fp i" by (rule heap_keys_lookup)
    then have "key_at ?r2 fp i" using search_same_key_at [OF s2 search_same_key_at [OF s1]] by simp
    then have s3: "search_same conf ?r2 (close_refresh_done i ?r2)"
      by (rule close_refresh_done_search_same [OF search_same_keys [OF s2] _ s])
    have s4: "search_same conf (close_refresh_done i ?r2) (stop_index d (close_refresh_done i ?r2))" for d
      by (rule index_search_same [OF search_same_keys [OF s3]])
    have "search_same conf r (stop_index d (close_refresh_done i ?r2))" for d
      using search_same_trans [OF s1 search_same_trans [OF s2 search_same_trans [OF s3 s4]]] .
    with Inr Some s show ?thesis by (simp add: refresh_end_def Let_def)
  qed
qed

lemma invalidate_entry_search_same:
  assumes keys: "heap_keys conf r" and k: "key_at r fp i" and s: "\<not> (cfg_tool_search (conf fp) \<and> has_server name (conf fp))"
  shows "search_same conf r (invalidate_entry name (fp, i) r)"
proof (cases "has_server name (conf fp)")
  case False
  with keys k show ?thesis by (simp add: invalidate_entry_def heap_keys_def key_at_def search_same_refl)
next
  case True
  with s have s': "\<not> cfg_tool_search (conf fp)" by simp
  let ?r1 = "r\<lparr>rg_entries := AList.delete fp (rg_entries r)\<rparr>"
  have s1: "search_same conf r ?r1"
    using keys s' set_delete [of fp "rg_entries r"]
    by (auto simp: search_same_def grows_def heap_keys_def key_at_def delete_conv')
  let ?r2 = "stop_index (re_catalog (entry_at ?r1 i)) ?r1"
  have s2: "search_same conf ?r1 ?r2" by (rule index_search_same [OF search_same_keys [OF s1]])
  have k2: "key_at ?r2 fp i" using search_same_key_at [OF s2 search_same_key_at [OF s1 k]] .
  let ?r3 = "set_entry i ((entry_at ?r2 i)\<lparr>re_armed := False\<rparr>) ?r2"
  have s3: "search_same conf ?r2 ?r3"
    by (rule changes_search_same [OF search_same_keys [OF s2], of i "(entry_at ?r2 i)\<lparr>re_armed := False\<rparr>"])
      (use k2 s' in \<open>auto simp: changes_def key_at_def\<close>)
  have s4: "search_same conf ?r3 (close_refresh_done i ?r3)"
    by (rule close_refresh_done_search_same [OF search_same_keys [OF s3] search_same_key_at [OF s3 k2] s'])
  have "re_config (entry_at r i) = conf fp" using keys k by (simp add: heap_keys_def key_at_def)
  with True search_same_trans [OF s1 search_same_trans [OF s2 search_same_trans [OF s3 s4]]]
  show ?thesis by (simp add: invalidate_entry_def Let_def)
qed

lemma invalidate_search_same:
  assumes "heap_keys conf r" and "list_all (\<lambda>(fp, i). key_at r fp i) fis"
    and "list_all (\<lambda>(fp, i). \<not> (cfg_tool_search (conf fp) \<and> has_server name (conf fp))) fis"
  shows "search_same conf r (fold (invalidate_entry name) fis r)"
  using assms
proof (induction fis arbitrary: r)
  case (Cons fi fis)
  obtain fp i where fi: "fi = (fp, i)" by (cases fi)
  have s: "search_same conf r (invalidate_entry name fi r)"
    unfolding fi by (rule invalidate_entry_search_same) (use Cons.prems fi in auto)
  have "list_all (\<lambda>(fp, i). key_at (invalidate_entry name fi r) fp i) fis"
    using Cons.prems(2) search_same_key_at [OF s] by (auto simp: list_all_iff)
  from search_same_trans [OF s Cons.IH [OF search_same_keys [OF s] this]] Cons.prems(3)
  show ?case by simp
qed (simp add: search_same_refl)

section \<open>The invariant of the entries with tool search\<close>

text \<open>
  \<open>cur\<close> says whether the entry is the current one of its fingerprint. Somebody waits for a refresh exactly
  when one is in flight or a timer will start one; the catalog of an entry that is not stale was
  compiled after the last change announced to it.
\<close>

definition entry_ok :: "bool \<Rightarrow> registry_entry \<Rightarrow> bool" where
  "entry_ok cur e \<longleftrightarrow>
     (re_refresh_done e \<noteq> None \<longleftrightarrow> re_refreshing e \<or> re_timer e)
     \<and> (re_armed e \<longleftrightarrow> re_timer e) \<and> (re_timer e \<longrightarrow> \<not> re_refreshing e) \<and> (re_pending e \<longrightarrow> re_refreshing e)
     \<and> (\<not> re_ready e \<longrightarrow> \<not> re_refreshing e \<and> \<not> re_timer e \<and> \<not> re_stale e \<and> re_asked e = 0 \<and> re_err e = None)
     \<and> (re_refreshing e \<or> re_timer e \<or> re_stale e \<longrightarrow> cur) \<and> (re_err e \<noteq> None \<longrightarrow> \<not> cur)
     \<and> (re_ready e \<and> \<not> re_stale e \<and> re_err e = None \<longrightarrow> (\<exists>c. re_catalog e = Some c \<and> re_asked e \<le> sn_ticket c))"

definition searching :: "(string \<Rightarrow> config) \<Rightarrow> registry \<Rightarrow> nat \<Rightarrow> bool" where
  "searching conf r i \<longleftrightarrow> i < length (rg_heap r) \<and> cfg_tool_search (conf (re_key (entry_at r i)))"

definition current :: "registry \<Rightarrow> nat \<Rightarrow> bool" where
  "current r i \<longleftrightarrow> map_of (rg_entries r) (re_key (entry_at r i)) = Some i"

definition flight_ids :: "registry_world \<Rightarrow> nat multiset" where
  "flight_ids w = mset (map (fst \<circ> snd) (running w)) + mset (concat (map (opt_list \<circ> fst \<circ> snd) (refreshes w)))"

definition waiter_ok :: "(string \<Rightarrow> config) \<Rightarrow> registry \<Rightarrow> string \<Rightarrow> nat \<Rightarrow> bool" where
  "waiter_ok conf r fp c \<longleftrightarrow> cfg_tool_search (conf fp)
     \<and> (\<exists>i. map_of (rg_entries r) fp = Some i \<and> re_ready (entry_at r i)
          \<and> (c \<in> set (rg_closed_chans r) \<or> re_refresh_done (entry_at r i) = Some c))"

definition flight_ok :: "registry_world \<Rightarrow> nat \<Rightarrow> nat \<Rightarrow> bool" where
  "flight_ok w i t \<longleftrightarrow> t < clock w \<and> (re_pending (entry_at (rw w) i) \<or> re_asked (entry_at (rw w) i) \<le> t)"

definition search_ok :: "(string \<Rightarrow> config) \<Rightarrow> registry_world \<Rightarrow> bool" where
  "search_ok conf w \<longleftrightarrow>
     (\<forall>i. searching conf (rw w) i \<longrightarrow> entry_ok (current (rw w) i) (entry_at (rw w) i)
        \<and> re_asked (entry_at (rw w) i) \<le> clock w)
     \<and> (\<forall>i. searching conf (rw w) i \<longrightarrow> count (flight_ids w) i = (if re_refreshing (entry_at (rw w) i) then 1 else 0))
     \<and> (\<forall>fp i t. (fp, i, t) \<in> set (creating w) \<longrightarrow> cfg_tool_search (conf fp) \<longrightarrow> \<not> re_ready (entry_at (rw w) i))
     \<and> (\<forall>fp c. (fp, c) \<in> set (done_waiters w) \<longrightarrow> waiter_ok conf (rw w) fp c)
     \<and> (\<forall>fp cur t. (fp, cur, t) \<in> set (refreshes w) \<longrightarrow> cfg_tool_search (conf fp) \<longrightarrow> cur \<noteq> None \<and> flight_ok w (the cur) t)
     \<and> (\<forall>fp i t cbs. (fp, i, t, cbs) \<in> set (running w) \<longrightarrow> cfg_tool_search (conf fp) \<longrightarrow> flight_ok w i t)"

lemma search_okI:
  assumes "\<And>i. searching conf (rw w) i \<Longrightarrow> entry_ok (current (rw w) i) (entry_at (rw w) i)"
    and "\<And>i. searching conf (rw w) i \<Longrightarrow> re_asked (entry_at (rw w) i) \<le> clock w"
    and "\<And>i. searching conf (rw w) i \<Longrightarrow> count (flight_ids w) i = (if re_refreshing (entry_at (rw w) i) then 1 else 0)"
    and "\<And>fp i t. (fp, i, t) \<in> set (creating w) \<Longrightarrow> cfg_tool_search (conf fp) \<Longrightarrow> \<not> re_ready (entry_at (rw w) i)"
    and "\<And>fp c. (fp, c) \<in> set (done_waiters w) \<Longrightarrow> waiter_ok conf (rw w) fp c"
    and "\<And>fp cur t. (fp, cur, t) \<in> set (refreshes w) \<Longrightarrow> cfg_tool_search (conf fp) \<Longrightarrow> cur \<noteq> None \<and> flight_ok w (the cur) t"
    and "\<And>fp i t cbs. (fp, i, t, cbs) \<in> set (running w) \<Longrightarrow> cfg_tool_search (conf fp) \<Longrightarrow> flight_ok w i t"
  shows "search_ok conf w"
  using assms unfolding search_ok_def by blast

lemma search_okD:
  assumes "search_ok conf w"
  shows "searching conf (rw w) i \<Longrightarrow> entry_ok (current (rw w) i) (entry_at (rw w) i)"
    and "searching conf (rw w) i \<Longrightarrow> count (flight_ids w) i = (if re_refreshing (entry_at (rw w) i) then 1 else 0)"
    and "(fp, i, t) \<in> set (creating w) \<Longrightarrow> cfg_tool_search (conf fp) \<Longrightarrow> \<not> re_ready (entry_at (rw w) i)"
    and "(fp, c) \<in> set (done_waiters w) \<Longrightarrow> waiter_ok conf (rw w) fp c"
    and "(fp, cur, t) \<in> set (refreshes w) \<Longrightarrow> cfg_tool_search (conf fp) \<Longrightarrow> cur \<noteq> None \<and> flight_ok w (the cur) t"
    and "(fp, i, t, cbs) \<in> set (running w) \<Longrightarrow> cfg_tool_search (conf fp) \<Longrightarrow> flight_ok w i t"
    and "searching conf (rw w) i \<Longrightarrow> re_asked (entry_at (rw w) i) \<le> clock w"
  using assms unfolding search_ok_def by blast+

lemma keys_okD:
  assumes "keys_ok conf w"
  shows "heap_keys conf (rw w)"
    and "(fp, i, t) \<in> set (creating w) \<Longrightarrow> key_at (rw w) fp i"
    and "(fp, i) \<in> set (ready_waiters w) \<Longrightarrow> key_at (rw w) fp i"
    and "(fp, i, t, cbs) \<in> set (running w) \<Longrightarrow> key_at (rw w) fp i"
    and "(fp, Some i, t) \<in> set (refreshes w) \<Longrightarrow> key_at (rw w) fp i"
    and "(fp, Some i, t) \<in> set (refreshes w) \<Longrightarrow> cfg_tool_search (conf fp)"
    and "distinct (map (fst \<circ> snd) (creating w))"
  using assms unfolding keys_ok_def by blast+

lemma keys_okI:
  assumes "heap_keys conf (rw w)"
    and "\<And>fp i t. (fp, i, t) \<in> set (creating w) \<Longrightarrow> key_at (rw w) fp i"
    and "distinct (map (fst \<circ> snd) (creating w))"
    and "\<And>fp i. (fp, i) \<in> set (ready_waiters w) \<Longrightarrow> key_at (rw w) fp i"
    and "\<And>fp i t cbs. (fp, i, t, cbs) \<in> set (running w) \<Longrightarrow> key_at (rw w) fp i"
    and "\<And>fp i t. (fp, Some i, t) \<in> set (refreshes w) \<Longrightarrow> key_at (rw w) fp i \<and> cfg_tool_search (conf fp)"
  shows "keys_ok conf w"
  using assms unfolding keys_ok_def by blast

lemma keys_ok_grows:
  assumes ok: "keys_ok conf w" and g: "grows (rw w) (rw w')" and h: "heap_keys conf (rw w')"
    and c: "\<And>fp i t. (fp, i, t) \<in> set (creating w') \<Longrightarrow> (fp, i, t) \<in> set (creating w) \<or> key_at (rw w') fp i"
    and d: "distinct (map (fst \<circ> snd) (creating w'))"
    and rdy: "\<And>fp i. (fp, i) \<in> set (ready_waiters w') \<Longrightarrow> (fp, i) \<in> set (ready_waiters w) \<or> key_at (rw w') fp i"
    and run: "\<And>fp i t cbs. (fp, i, t, cbs) \<in> set (running w') \<Longrightarrow> (fp, i, t, cbs) \<in> set (running w) \<or> key_at (rw w') fp i"
    and ref: "\<And>fp i t. (fp, Some i, t) \<in> set (refreshes w') \<Longrightarrow>
      (fp, Some i, t) \<in> set (refreshes w) \<or> key_at (rw w') fp i \<and> cfg_tool_search (conf fp)"
  shows "keys_ok conf w'"
proof (rule keys_okI [OF h])
  show "key_at (rw w') fp i" if "(fp, i, t) \<in> set (creating w')" for fp i t
    using c [OF that] keys_okD(2) [OF ok] key_at_grows [OF g] by blast
  show "key_at (rw w') fp i" if "(fp, i) \<in> set (ready_waiters w')" for fp i
    using rdy [OF that] keys_okD(3) [OF ok] key_at_grows [OF g] by blast
  show "key_at (rw w') fp i" if "(fp, i, t, cbs) \<in> set (running w')" for fp i t cbs
    using run [OF that] keys_okD(4) [OF ok] key_at_grows [OF g] by blast
  show "key_at (rw w') fp i \<and> cfg_tool_search (conf fp)" if "(fp, Some i, t) \<in> set (refreshes w')" for fp i t
    using ref [OF that] keys_okD(5,6) [OF ok] key_at_grows [OF g] by blast
qed (rule d)

text \<open>A step that leaves the entries with tool search alone keeps the invariant.\<close>

lemma search_ok_same:
  assumes ok: "search_ok conf w" and keys: "keys_ok conf w" and same: "search_same conf (rw w) (rw w')"
    and c: "\<And>fp i t. (fp, i, t) \<in> set (creating w') \<Longrightarrow> cfg_tool_search (conf fp) \<Longrightarrow> (fp, i, t) \<in> set (creating w)"
    and d: "\<And>fp c. (fp, c) \<in> set (done_waiters w') \<Longrightarrow> (fp, c) \<in> set (done_waiters w)"
    and ref: "\<And>fp cur t. (fp, cur, t) \<in> set (refreshes w') \<Longrightarrow> cfg_tool_search (conf fp) \<Longrightarrow> (fp, cur, t) \<in> set (refreshes w)"
    and run: "\<And>fp i t cbs. (fp, i, t, cbs) \<in> set (running w') \<Longrightarrow> cfg_tool_search (conf fp) \<Longrightarrow> (fp, i, t, cbs) \<in> set (running w)"
    and clk: "clock w \<le> clock w'"
    and fl: "\<And>i. searching conf (rw w) i \<Longrightarrow> count (flight_ids w') i = count (flight_ids w) i"
  shows "search_ok conf w'"
proof -
  have old: "searching conf (rw w) i \<and> entry_at (rw w') i = entry_at (rw w) i \<and> current (rw w') i = current (rw w) i"
    if s: "searching conf (rw w') i" for i
  proof (cases "i < length (rg_heap (rw w))")
    case True
    have "re_key (entry_at (rw w') i) = re_key (entry_at (rw w) i)"
      using True same by (simp add: search_same_def grows_def)
    with s True have "searching conf (rw w) i" by (simp add: searching_def)
    with same show ?thesis by (auto simp: searching_def search_same_def current_def)
  next
    case False
    with s same show ?thesis by (auto simp: searching_def search_same_def)
  qed
  have same_entry: "entry_at (rw w') i = entry_at (rw w) i" if "key_at (rw w) fp i" "cfg_tool_search (conf fp)" for fp i
    using that same by (auto simp: key_at_def search_same_def)
  have wait: "waiter_ok conf (rw w') fp c" if "waiter_ok conf (rw w) fp c" for fp c
    using that same heap_keys_lookup [OF keys_okD(1) [OF keys], of fp] same_entry
    by (auto simp: waiter_ok_def search_same_def)
  have flight: "flight_ok w' i t" if "flight_ok w i t" "key_at (rw w) fp i" "cfg_tool_search (conf fp)" for i t fp
    using that clk same_entry by (auto simp: flight_ok_def)
  show ?thesis
  proof (rule search_okI)
    show "entry_ok (current (rw w') i) (entry_at (rw w') i)" if "searching conf (rw w') i" for i
      using search_okD(1) [OF ok] old [OF that] by simp
    show "re_asked (entry_at (rw w') i) \<le> clock w'" if "searching conf (rw w') i" for i
      using search_okD(7) [OF ok, of i] old [OF that] clk by simp
    show "count (flight_ids w') i = (if re_refreshing (entry_at (rw w') i) then 1 else 0)"
      if "searching conf (rw w') i" for i
      using search_okD(2) [OF ok] old [OF that] fl by simp
    show "\<not> re_ready (entry_at (rw w') i)" if "(fp, i, t) \<in> set (creating w')" "cfg_tool_search (conf fp)" for fp i t
      using c [OF that] that(2) search_okD(3) [OF ok] same_entry keys_okD(2) [OF keys] by metis
    show "waiter_ok conf (rw w') fp c" if "(fp, c) \<in> set (done_waiters w')" for fp c
      using d [OF that] search_okD(4) [OF ok] wait by blast
    show "cur \<noteq> None \<and> flight_ok w' (the cur) t"
      if "(fp, cur, t) \<in> set (refreshes w')" "cfg_tool_search (conf fp)" for fp cur t
    proof -
      have m: "(fp, cur, t) \<in> set (refreshes w)" by (rule ref [OF that])
      from search_okD(5) [OF ok m that(2)] obtain i where i: "cur = Some i" "flight_ok w i t" by auto
      with keys_okD(5) [OF keys, of fp i t] m flight [of i t fp] that(2) show ?thesis by simp
    qed
    show "flight_ok w' i t" if "(fp, i, t, cbs) \<in> set (running w')" "cfg_tool_search (conf fp)" for fp i t cbs
      using run [OF that] that(2) search_okD(6) [OF ok] flight keys_okD(4) [OF keys] by blast
  qed
qed

text \<open>A step that changes one entry with tool search.\<close>

lemma search_ok_changes:
  assumes ok: "search_ok conf w" and keys: "keys_ok conf w" and ch: "changes (rw w) i e (rw w')"
    and s: "cfg_tool_search (conf (re_key (entry_at (rw w) i)))"
    and e: "entry_ok (current (rw w) i) e" "re_ready e = re_ready (entry_at (rw w) i)" "re_asked e \<le> clock w'"
    and c: "\<And>fp j t. (fp, j, t) \<in> set (creating w') \<Longrightarrow> (fp, j, t) \<in> set (creating w)"
    and d: "\<And>fp c. (fp, c) \<in> set (done_waiters w') \<Longrightarrow> (fp, c) \<in> set (done_waiters w) \<or> waiter_ok conf (rw w') fp c"
    and ref: "\<And>fp cur t. (fp, cur, t) \<in> set (refreshes w') \<Longrightarrow> cfg_tool_search (conf fp) \<Longrightarrow>
      (fp, cur, t) \<in> set (refreshes w) \<and> cur \<noteq> Some i \<or> cur = Some i \<and> flight_ok w' i t"
    and run: "\<And>fp j t cbs. (fp, j, t, cbs) \<in> set (running w') \<Longrightarrow> cfg_tool_search (conf fp) \<Longrightarrow>
      (fp, j, t, cbs) \<in> set (running w) \<and> j \<noteq> i \<or> j = i \<and> flight_ok w' i t"
    and clk: "clock w \<le> clock w'"
    and fl: "\<And>j. j \<noteq> i \<Longrightarrow> count (flight_ids w') j = count (flight_ids w) j"
    and fi: "count (flight_ids w') i = (if re_refreshing e then 1 else 0)"
  shows "search_ok conf w'"
proof -
  have lt: "i < length (rg_heap (rw w))" and heap: "rg_heap (rw w') = (rg_heap (rw w))[i := e]"
    and ents: "rg_entries (rw w') = rg_entries (rw w)" and ek: "re_key e = re_key (entry_at (rw w) i)"
    using ch by (simp_all add: changes_def)
  have at: "entry_at (rw w') i = e" "\<And>j. j \<noteq> i \<Longrightarrow> entry_at (rw w') j = entry_at (rw w) j"
    using lt by (simp_all add: heap)
  have cur: "current (rw w') j = current (rw w) j" for j
    by (cases "j = i") (simp_all add: current_def ents at ek)
  have srch: "searching conf (rw w) j" if "searching conf (rw w') j" for j
    using that by (cases "j = i") (simp_all add: searching_def heap lt ek)
  have wait: "waiter_ok conf (rw w') fp c" if "waiter_ok conf (rw w) fp c" for fp c
    using that ch at e(2) by (cases "map_of (rg_entries (rw w)) fp = Some i") (auto simp: waiter_ok_def changes_def)
  have flight: "flight_ok w' j t" if "flight_ok w j t" "j \<noteq> i" for j t
    using that clk by (simp add: flight_ok_def at(2))
  show ?thesis
  proof (rule search_okI)
    show "entry_ok (current (rw w') j) (entry_at (rw w') j)" if "searching conf (rw w') j" for j
      using search_okD(1) [OF ok srch [OF that]] e(1) by (cases "j = i") (simp_all add: cur at)
    show "re_asked (entry_at (rw w') j) \<le> clock w'" if "searching conf (rw w') j" for j
      using search_okD(7) [OF ok srch [OF that]] e(3) clk by (cases "j = i") (simp_all add: at)
    show "count (flight_ids w') j = (if re_refreshing (entry_at (rw w') j) then 1 else 0)"
      if "searching conf (rw w') j" for j
      using search_okD(2) [OF ok srch [OF that]] fl [of j] fi by (cases "j = i") (simp_all add: at)
    show "\<not> re_ready (entry_at (rw w') j)" if "(fp, j, t) \<in> set (creating w')" "cfg_tool_search (conf fp)" for fp j t
      using search_okD(3) [OF ok c [OF that(1)] that(2)] e(2) by (cases "j = i") (simp_all add: at)
    show "waiter_ok conf (rw w') fp c" if "(fp, c) \<in> set (done_waiters w')" for fp c
      using d [OF that] search_okD(4) [OF ok] wait by blast
    show "k \<noteq> None \<and> flight_ok w' (the k) t"
      if "(fp, k, t) \<in> set (refreshes w')" "cfg_tool_search (conf fp)" for fp k t
      using ref [OF that] that(2) search_okD(5) [OF ok, of fp k t] flight by (cases k) auto
    show "flight_ok w' j t" if "(fp, j, t, cbs) \<in> set (running w')" "cfg_tool_search (conf fp)" for fp j t cbs
      using run [OF that] that(2) search_okD(6) [OF ok, of fp j t cbs] flight by auto
  qed
qed

text \<open>The operations keep \<open>entry_ok\<close>.\<close>

lemma entry_ok_finished:
  assumes "entry_ok cur e" and "re_refreshing e" and "cfg_tool_search (re_config e)"
    and "re_pending e \<or> re_asked e \<le> t"
  shows "entry_ok cur (finished_entry (outcome t res) False e)"
  using assms by (cases res) (auto simp: entry_ok_def finished_entry_def Let_def)

lemma entry_ok_requested:
  assumes "entry_ok True e" and "cfg_tool_search (re_config e)" and "re_ready e"
  shows "entry_ok True (requested_entry callback now chan e)"
  using assms by (auto simp: entry_ok_def requested_entry_def Let_def)

lemma entry_ok_waited:
  assumes "entry_ok cur e" and "re_stale e"
  shows "entry_ok cur (waited_entry chan e)"
  using assms by (auto simp: entry_ok_def waited_entry_def Let_def)

lemma waited_entry_fields [simp]:
  "re_refresh_done (waited_entry chan e) = Some (case re_refresh_done e of None \<Rightarrow> chan | Some c \<Rightarrow> c)"
  "re_ready (waited_entry chan e) = re_ready e" "re_refreshing (waited_entry chan e) = re_refreshing e"
  "re_pending (waited_entry chan e) = re_pending e" "re_asked (waited_entry chan e) = re_asked e"
  by (simp_all add: waited_entry_def Let_def)

lemma entry_ok_begun:
  assumes "entry_ok True e" and "re_ready e" and "re_refresh_done e = None"
  shows "entry_ok True (e\<lparr>re_stale := True, re_refreshing := True, re_refresh_done := Some c\<rparr>)"
  using assms by (auto simp: entry_ok_def)

lemma entry_ok_fired:
  assumes "entry_ok True e" and "re_timer e"
  shows "entry_ok True (e\<lparr>re_armed := False, re_timer := False, re_refreshing := True, re_pending := False,
      re_callbacks := []\<rparr>)"
  using assms by (auto simp: entry_ok_def)

lemma flights_key:
  assumes "keys_ok conf w" and "i \<in># flight_ids w"
  shows "i < length (rg_heap (rw w))"
proof -
  from assms(2) consider (run) fp t cbs where "(fp, i, t, cbs) \<in> set (running w)"
    | (ref) fp t where "(fp, Some i, t) \<in> set (refreshes w)"
    by (force simp: flight_ids_def)
  then show ?thesis
    by cases (use keys_okD(4,5) [OF assms(1)] in \<open>auto simp: key_at_def\<close>)
qed

lemma search_ok_allocate:
  assumes ok: "search_ok conf w" and keys: "keys_ok conf w"
    and r: "rw w' = allocate fp e r" "rg_heap r = rg_heap (rw w)" "rg_entries r = rg_entries (rw w)"
      "rg_closed_chans r = rg_closed_chans (rw w)"
    and absent: "map_of (rg_entries (rw w)) fp = None"
    and e: "entry_ok True e" "re_key e = fp" "\<not> re_refreshing e" "re_asked e = 0"
    and c: "\<And>fp j t. (fp, j, t) \<in> set (creating w') \<Longrightarrow>
      (fp, j, t) \<in> set (creating w) \<or> j = length (rg_heap (rw w)) \<and> \<not> re_ready e"
    and l: "done_waiters w' = done_waiters w" "refreshes w' = refreshes w" "running w' = running w"
    and clk: "clock w \<le> clock w'"
  shows "search_ok conf w'"
proof -
  let ?n = "length (rg_heap (rw w))"
  have heap: "rg_heap (rw w') = rg_heap (rw w) @ [e]" by (simp add: r)
  have at: "entry_at (rw w') ?n = e" "\<And>j. j < ?n \<Longrightarrow> entry_at (rw w') j = entry_at (rw w) j"
    by (simp_all add: heap nth_append)
  have look: "map_of (rg_entries (rw w')) = (map_of (rg_entries (rw w)))(fp \<mapsto> ?n)" by (simp add: r)
  have cur: "current (rw w') j = current (rw w) j" if "j < ?n" for j
    using that absent by (auto simp: current_def look at)
  have curn: "current (rw w') ?n" by (simp add: current_def look at e(2))
  have fi: "flight_ids w' = flight_ids w" by (simp add: flight_ids_def l)
  have wait: "waiter_ok conf (rw w') g d" if "waiter_ok conf (rw w) g d" for g d
    using that absent heap_keys_lookup [OF keys_okD(1) [OF keys], of g]
    by (auto simp: waiter_ok_def look r key_at_def nth_append)
  have flight: "flight_ok w' j t" if "flight_ok w j t" "key_at (rw w) g j" for j t g
    using that clk by (auto simp: flight_ok_def at key_at_def)
  have srch: "j = ?n \<or> j < ?n \<and> searching conf (rw w) j" if "searching conf (rw w') j" for j
    using that by (auto simp: searching_def heap nth_append less_Suc_eq)
  show ?thesis
  proof (rule search_okI)
    show "entry_ok (current (rw w') j) (entry_at (rw w') j)" if "searching conf (rw w') j" for j
      using srch [OF that] search_okD(1) [OF ok] e(1) by (auto simp: cur curn at)
    show "re_asked (entry_at (rw w') j) \<le> clock w'" if "searching conf (rw w') j" for j
      using srch [OF that] search_okD(7) [OF ok, of j] e(4) clk by (cases "j = ?n") (simp_all add: at)
    show "count (flight_ids w') j = (if re_refreshing (entry_at (rw w') j) then 1 else 0)"
      if "searching conf (rw w') j" for j
    proof (cases "j = ?n")
      case True
      have "?n \<notin># flight_ids w" using flights_key [OF keys] by blast
      with True e(3) show ?thesis by (simp add: fi at not_in_iff)
    next
      case False
      with srch [OF that] search_okD(2) [OF ok, of j] show ?thesis by (simp add: fi at)
    qed
    show "\<not> re_ready (entry_at (rw w') j)" if "(g, j, t) \<in> set (creating w')" "cfg_tool_search (conf g)" for g j t
      using c [OF that(1)] search_okD(3) [OF ok, of g j t] keys_okD(2) [OF keys, of g j t] that(2)
      by (auto simp: at key_at_def)
    show "waiter_ok conf (rw w') g d" if "(g, d) \<in> set (done_waiters w')" for g d
      using that search_okD(4) [OF ok] wait by (simp add: l)
    show "k \<noteq> None \<and> flight_ok w' (the k) t"
      if "(g, k, t) \<in> set (refreshes w')" "cfg_tool_search (conf g)" for g k t
      using that search_okD(5) [OF ok, of g k t] keys_okD(5) [OF keys, of g] flight [of "the k" t g]
      by (auto simp: l)
    show "flight_ok w' j t" if "(g, j, t, cbs) \<in> set (running w')" "cfg_tool_search (conf g)" for g j t cbs
      using that search_okD(6) [OF ok, of g j t cbs] keys_okD(4) [OF keys, of g j t cbs] flight [of j t g]
      by (simp add: l)
  qed
qed

lemma creating_unique:
  assumes "distinct (map (fst \<circ> snd) cs)" and "(fp, i, t) \<in> set cs" and "(fp', i, t') \<in> set (remove1 (fp, i, t) cs)"
  shows False
  using assms by (induction cs) (force split: if_splits)+

lemma entry_ok_first:
  assumes "entry_ok cur e" and "\<not> re_ready e" and "error_of (outcome t res) \<noteq> None \<Longrightarrow> \<not> cur'"
  shows "entry_ok cur' (e\<lparr>re_catalog := snapshot_of (outcome t res), re_err := error_of (outcome t res), re_ready := True\<rparr>)"
  using assms by (cases res) (auto simp: entry_ok_def)

lemma search_ok_first:
  assumes ok: "search_ok conf w" and keys: "keys_ok conf w" and x: "(fp, i, t) \<in> set (creating w)"
    and s: "cfg_tool_search (conf fp)"
  shows "search_ok conf (w\<lparr>rw := first_compiled fp i (outcome t res) (rw w), creating := remove1 (fp, i, t) (creating w)\<rparr>)"
    (is "search_ok conf ?w'")
proof -
  let ?r' = "first_compiled fp i (outcome t res) (rw w)"
  let ?r = "rw w" and ?e = "entry_at (rw w) i"
  have k: "key_at ?r fp i" by (rule keys_okD(2) [OF keys x])
  then have lt: "i < length (rg_heap ?r)" and key: "re_key ?e = fp" by (simp_all add: key_at_def)
  note h = first_compiled_heap [OF lt, of fp "outcome t res"]
  have nr: "\<not> re_ready ?e" by (rule search_okD(3) [OF ok x s])
  have si: "searching conf ?r i" using lt key s by (simp add: searching_def)
  have eok: "entry_ok (current ?r i) ?e" by (rule search_okD(1) [OF ok si])
  have at: "entry_at (?r') i = ?e\<lparr>re_catalog := snapshot_of (outcome t res), re_err := error_of (outcome t res), re_ready := True\<rparr>"
    "\<And>j. j \<noteq> i \<Longrightarrow> entry_at (?r') j = entry_at ?r j"
    using lt by (simp_all add: h)
  have keyj: "re_key (entry_at (?r') j) = re_key (entry_at ?r j)" for j
    using at by (cases "j = i") simp_all
  have cur: "current (?r') j = current ?r j" if "j \<noteq> i" for j
    using that keyj [of j] by (auto simp: current_def h)
  have curi: "error_of (outcome t res) \<noteq> None \<Longrightarrow> \<not> current (?r') i"
    using h(5) keyj [of i] key by (cases res) (simp_all add: current_def not_cacheable_def)
  have fi: "flight_ids ?w' = flight_ids w" by (simp add: flight_ids_def)
  have wait: "waiter_ok conf (?r') g d" if "waiter_ok conf ?r g d" for g d
  proof (cases "map_of (rg_entries ?r) g = Some i")
    case True
    with eok nr that show ?thesis by (auto simp: waiter_ok_def h entry_ok_def)
  next
    case False
    with that at(2) show ?thesis by (auto simp: waiter_ok_def h)
  qed
  have flight: "flight_ok ?w' j u = flight_ok w j u" for j u
    using at by (cases "j = i") (simp_all add: flight_ok_def)
  have srch: "searching conf (?r') j = searching conf ?r j" for j
    using keyj [of j] by (simp add: searching_def h)
  show ?thesis
  proof (rule search_okI)
    show "entry_ok (current (rw ?w') j) (entry_at (rw ?w') j)" if sj: "searching conf (rw ?w') j" for j
    proof (cases "j = i")
      case True
      with entry_ok_first [OF eok nr curi] at(1) show ?thesis by simp
    next
      case False
      with search_okD(1) [OF ok, of j] sj srch [of j] cur [of j] show ?thesis by (simp add: at(2))
    qed
    show "re_asked (entry_at (rw ?w') j) \<le> clock ?w'" if "searching conf (rw ?w') j" for j
      using that srch [of j] search_okD(7) [OF ok, of j] at by (cases "j = i") simp_all
    show "count (flight_ids ?w') j = (if re_refreshing (entry_at (rw ?w') j) then 1 else 0)"
      if "searching conf (rw ?w') j" for j
      using that search_okD(2) [OF ok, of j] at by (cases "j = i") (simp_all add: fi srch)
    show "\<not> re_ready (entry_at (rw ?w') j)" if "(g, j, u) \<in> set (creating ?w')" "cfg_tool_search (conf g)" for g j u
    proof -
      have mem: "(g, j, u) \<in> set (remove1 (fp, i, t) (creating w))" using that(1) by simp
      then have "j \<noteq> i" using creating_unique [OF keys_okD(7) [OF keys] x] by blast
      with search_okD(3) [OF ok subsetD [OF set_remove1_subset mem] that(2)] show ?thesis by (simp add: at(2))
    qed
    show "waiter_ok conf (rw ?w') g d" if "(g, d) \<in> set (done_waiters ?w')" for g d
      using that search_okD(4) [OF ok] wait by simp
    show "k \<noteq> None \<and> flight_ok ?w' (the k) u"
      if "(g, k, u) \<in> set (refreshes ?w')" "cfg_tool_search (conf g)" for g k u
      using that search_okD(5) [OF ok, of g k u] by (simp add: flight)
    show "flight_ok ?w' j u" if "(g, j, u, cbs) \<in> set (running ?w')" "cfg_tool_search (conf g)" for g j u cbs
      using that search_okD(6) [OF ok, of g j u cbs] by (simp add: flight)
  qed
qed

section \<open>The steps keep the invariant\<close>

text \<open>A step that changes the lists of goroutines only.\<close>

lemma lists_only:
  assumes "keys_ok conf w" and "search_ok conf w" and "rw w' = rw w" and "creating w' = creating w"
    and "set (ready_waiters w') \<subseteq> set (ready_waiters w)" and "set (done_waiters w') \<subseteq> set (done_waiters w)"
    and "refreshes w' = refreshes w" and "running w' = running w" and "clock w \<le> clock w'"
  shows "keys_ok conf w' \<and> search_ok conf w'"
proof
  show "keys_ok conf w'"
    using assms keys_okD(7) [OF assms(1)] keys_okD(1) [OF assms(1)]
    by (intro keys_ok_grows [OF assms(1)]) auto
  show "search_ok conf w'"
    using assms keys_okD(1) [OF assms(1)]
    by (intro search_ok_same [OF assms(2,1)]) (auto simp: search_same_refl flight_ids_def)
qed

lemma act_get:
  assumes keys: "keys_ok conf w" and ok: "search_ok conf w" and a: "registry_act conf w (Get fp) = Some w'"
  shows "keys_ok conf w' \<and> search_ok conf w'"
proof (cases "map_of (rg_entries (rw w)) fp")
  case (Some i)
  with a have w': "w' = w\<lparr>ready_waiters := (fp, i) # ready_waiters w\<rparr>" by (simp add: entry_for_config_def)
  have "key_at (rw w) fp i" by (rule heap_keys_lookup [OF keys_okD(1) [OF keys] Some])
  then have "keys_ok conf w'"
    using keys_okD(1,7) [OF keys] by (intro keys_ok_grows [OF keys]) (auto simp: w')
  moreover have "search_ok conf w'"
    using keys_okD(1) [OF keys] by (intro search_ok_same [OF ok keys]) (auto simp: w' search_same_refl flight_ids_def)
  ultimately show ?thesis by simp
next
  case None
  let ?n = "length (rg_heap (rw w))"
  from a None have w': "w' = w\<lparr>rw := allocate fp (new_entry fp (conf fp)) (rw w), creating := (fp, ?n, clock w) # creating w,
      clock := clock w + 1\<rparr>"
    by (simp add: entry_for_config_def)
  have hk: "heap_keys conf (rw w')"
    using heap_keys_allocate [OF keys_okD(1) [OF keys], of "new_entry fp (conf fp)" fp] by (simp add: w')
  have fresh: "?n \<notin> (fst \<circ> snd) ` set (creating w)"
    using keys_okD(2) [OF keys] by (fastforce simp: key_at_def)
  have kn: "key_at (rw w') fp ?n" by (simp add: w' key_at_def)
  have "keys_ok conf w'"
    using fresh keys_okD(7) [OF keys] kn
    by (intro keys_ok_grows [OF keys _ hk]) (auto simp: w' allocate_grows)
  moreover have "search_ok conf w'"
  proof (cases "cfg_tool_search (conf fp)")
    case True
    show ?thesis
      by (rule search_ok_allocate [OF ok keys, of w' fp "new_entry fp (conf fp)" "rw w"])
        (auto simp: w' None entry_ok_def new_entry_def)
  next
    case False
    have "search_same conf (rw w) (rw w')"
      using allocate_search_same [OF keys_okD(1) [OF keys] _ _ False, of "new_entry fp (conf fp)"] by (simp add: w')
    then show ?thesis using False by (intro search_ok_same [OF ok keys]) (auto simp: w' flight_ids_def)
  qed
  ultimately show ?thesis by simp
qed

lemma guarded_Some: "guarded b x = Some y \<longleftrightarrow> b \<and> y = x"
  by (auto simp: guarded_def)

lemma distinct_map_remove1: "distinct (map f xs) \<Longrightarrow> distinct (map f (remove1 x xs))"
  by (induction xs) (use set_remove1_subset in fastforce)+

lemma act_first:
  assumes keys: "keys_ok conf w" and ok: "search_ok conf w"
    and a: "registry_act conf w (First_compiled fp i t res) = Some w'"
  shows "keys_ok conf w' \<and> search_ok conf w'"
proof -
  from a have x: "(fp, i, t) \<in> set (creating w)"
    and w': "w' = w\<lparr>rw := first_compiled fp i (outcome t res) (rw w), creating := remove1 (fp, i, t) (creating w)\<rparr>"
    by (simp_all only: registry_act.simps guarded_Some)
  have k: "key_at (rw w) fp i" by (rule keys_okD(2) [OF keys x])
  then have lt: "i < length (rg_heap (rw w))" by (simp add: key_at_def)
  have sub: "set (remove1 (fp, i, t) (creating w)) \<subseteq> set (creating w)" by (rule set_remove1_subset)
  have "keys_ok conf w'"
    using heap_keys_first_compiled [OF keys_okD(1) [OF keys] lt] first_compiled_grows [OF lt] sub
      distinct_map_remove1 [OF keys_okD(7) [OF keys]]
    by (intro keys_ok_grows [OF keys]) (auto simp: w')
  moreover have "search_ok conf w'"
  proof (cases "cfg_tool_search (conf fp)")
    case True
    then show ?thesis unfolding w' by (rule search_ok_first [OF ok keys x])
  next
    case False
    from first_compiled_search_same [OF keys_okD(1) [OF keys] k False] sub
    show ?thesis by (intro search_ok_same [OF ok keys]) (auto simp: w' flight_ids_def)
  qed
  ultimately show ?thesis by simp
qed

lemma after_wait_fields [simp]:
  "rw (after_wait fp res w) = rw w" "creating (after_wait fp res w) = creating w"
  "ready_waiters (after_wait fp res w) = ready_waiters w" "refreshes (after_wait fp res w) = refreshes w"
  "running (after_wait fp res w) = running w" "clock w \<le> clock (after_wait fp res w)"
  "done_waiters (after_wait fp res w) = (case res of Wait_for c \<Rightarrow> [(fp, c)] | _ \<Rightarrow> []) @ done_waiters w"
  by (auto simp: after_wait_def split: waited.split)

lemma act_ready:
  assumes keys: "keys_ok conf w" and ok: "search_ok conf w" and live: "\<not> rg_closed (rw w)"
    and a: "registry_act conf w (Ready_seen fp i) = Some w'"
  shows "keys_ok conf w' \<and> search_ok conf w'"
proof -
  obtain r res where wait: "wait_enter i (cfg_tool_search (conf fp)) (rw w) = (r, res)" by fastforce
  with a have x: "(fp, i) \<in> set (ready_waiters w)" and rdy: "re_ready (entry_at (rw w) i)"
    and w': "w' = after_wait fp res (w\<lparr>rw := r, ready_waiters := remove1 (fp, i) (ready_waiters w)\<rparr>)"
    by (simp_all only: registry_act.simps guarded_Some prod.case)
  have k: "key_at (rw w) fp i" by (rule keys_okD(3) [OF keys x])
  then have lt: "i < length (rg_heap (rw w))" and key: "re_key (entry_at (rw w) i) = fp" by (simp_all add: key_at_def)
  let ?e = "entry_at (rw w) i"
  let ?stale = "re_err ?e = None \<and> re_stale ?e \<and> cfg_tool_search (conf fp)"
  note ch = wait_enter_changes [OF wait lt]
  have sub: "set (remove1 (fp, i) (ready_waiters w)) \<subseteq> set (ready_waiters w)" by (rule set_remove1_subset)
  have fl: "flight_ids w' = flight_ids w" and clk: "clock w \<le> clock w'"
    using after_wait_fields(6) [of "w\<lparr>rw := r, ready_waiters := remove1 (fp, i) (ready_waiters w)\<rparr>" fp res]
    by (simp_all add: w' flight_ids_def)
  have hk: "heap_keys conf r" by (rule heap_keys_changes [OF keys_okD(1) [OF keys] ch])
  have "keys_ok conf w'"
    using hk changes_grows [OF ch] sub keys_okD(7) [OF keys] by (intro keys_ok_grows [OF keys]) (auto simp: w')
  moreover have "search_ok conf w'"
  proof (cases ?stale)
    case False
    then have same: "changes (rw w) i ?e r" using ch by auto
    have "(case res of Wait_for c \<Rightarrow> [(fp, c)] | _ \<Rightarrow> []) = []"
      using wait False by (auto simp: wait_enter_def Let_def split: option.splits)
    then have dw: "done_waiters w' = done_waiters w" by (simp add: w')
    have ss: "search_same conf (rw w) (rw w')"
      using changes_same_entry [OF keys_okD(1) [OF keys] same] by (simp add: w')
    show ?thesis
      by (rule search_ok_same [OF ok keys ss]) (use clk in \<open>simp_all add: fl dw, simp_all add: w'\<close>)
  next
    case True
    let ?c = "case re_refresh_done ?e of None \<Rightarrow> rg_next_chan (rw w) | Some c \<Rightarrow> c"
    let ?e' = "waited_entry (rg_next_chan (rw w)) ?e"
    have ch': "changes (rw w) i ?e' (rw w')" using ch True live by (simp add: w')
    have s: "cfg_tool_search (conf (re_key ?e))" using True key by simp
    then have si: "searching conf (rw w) i" using lt by (simp add: searching_def)
    have eok: "entry_ok (current (rw w) i) ?e" by (rule search_okD(1) [OF ok si])
    have cur: "map_of (rg_entries (rw w)) fp = Some i"
      using eok True key by (simp add: entry_ok_def current_def)
    have at: "entry_at (rw w') i = ?e'" using ch' lt by (simp add: changes_def)
    have res: "res = Wait_for ?c"
      using wait True live lt
      by (auto simp: wait_enter_def make_refresh_done_def Let_def split: option.splits if_splits)
    have wok: "waiter_ok conf (rw w') fp ?c"
      using cur at True rdy ch' by (auto simp: waiter_ok_def changes_def)
    have fok: "flight_ok w' i u" if "flight_ok w i u" for u
      using that clk by (auto simp: flight_ok_def at)
    show ?thesis
    proof (rule search_ok_changes [OF ok keys ch' s])
      show "entry_ok (current (rw w) i) ?e'" by (rule entry_ok_waited [OF eok]) (use True in simp)
      show "(g, c) \<in> set (done_waiters w) \<or> waiter_ok conf (rw w') g c" if "(g, c) \<in> set (done_waiters w')" for g c
        using that wok by (auto simp: w' res)
      show "(g, cur, t) \<in> set (refreshes w) \<and> cur \<noteq> Some i \<or> cur = Some i \<and> flight_ok w' i t"
        if "(g, cur, t) \<in> set (refreshes w')" "cfg_tool_search (conf g)" for g cur t
        using that search_okD(5) [OF ok, of g cur t] fok by (cases "cur = Some i") (auto simp: w')
      show "(g, j, t, cbs) \<in> set (running w) \<and> j \<noteq> i \<or> j = i \<and> flight_ok w' i t"
        if "(g, j, t, cbs) \<in> set (running w')" "cfg_tool_search (conf g)" for g j t cbs
        using that search_okD(6) [OF ok, of g j t cbs] fok by (cases "j = i") (auto simp: w')
      show "count (flight_ids w') i = (if re_refreshing ?e' then 1 else 0)"
        using search_okD(2) [OF ok si] by (simp add: fl)
      show "count (flight_ids w') j = count (flight_ids w) j" if "j \<noteq> i" for j by (simp add: fl)
      show "re_asked ?e' \<le> clock w'" using search_okD(7) [OF ok si] clk by simp
    qed (use clk in \<open>simp_all add: w'\<close>)
  qed
  ultimately show ?thesis by simp
qed

lemma act_waiters:
  assumes keys: "keys_ok conf w" and ok: "search_ok conf w"
    and a: "registry_act conf w (Ready_abandoned fp i) = Some w' \<or> registry_act conf w (Done_abandoned fp c) = Some w'
      \<or> registry_act conf w (Done_seen fp c) = Some w'"
  shows "keys_ok conf w' \<and> search_ok conf w'"
proof -
  have not_wait: "(case wait_done fp r of Wait_for c \<Rightarrow> [(fp, c)] | _ \<Rightarrow> []) = []" for r
    by (simp add: wait_done_def split: option.split)
  let ?w = "w\<lparr>done_waiters := remove1 (fp, c) (done_waiters w)\<rparr>"
  from a consider "w' = w\<lparr>ready_waiters := remove1 (fp, i) (ready_waiters w)\<rparr>" | "w' = ?w"
    | "w' = after_wait fp (wait_done fp (rw w)) ?w"
    by (auto simp: guarded_Some)
  then show ?thesis
  proof cases
    case 3
    have "clock w \<le> clock w'" using after_wait_fields(6) [of ?w fp "wait_done fp (rw w)"] by (simp add: 3)
    then show ?thesis
      by (intro lists_only [OF keys ok]) (simp_all add: 3 not_wait set_remove1_subset)
  qed (intro lists_only [OF keys ok]; simp add: set_remove1_subset)+
qed

lemma act_retried:
  assumes keys: "keys_ok conf w" and ok: "search_ok conf w"
    and a: "registry_act conf w (Retried fp t res) = Some w'"
  shows "keys_ok conf w' \<and> search_ok conf w'"
proof -
  let ?u = "w\<lparr>retrying := remove1 (fp, t) (retrying w)\<rparr>"
  from a have w': "w' = w\<lparr>rw := (case outcome t res of Inr c \<Rightarrow> publish fp (conf fp) c (rw w) | Inl e \<Rightarrow> rw w),
      retrying := remove1 (fp, t) (retrying w)\<rparr>"
    by (simp_all only: registry_act.simps guarded_Some)
  show ?thesis
  proof (cases "outcome t res")
    case (Inl e)
    then show ?thesis by (intro lists_only [OF keys ok]) (simp_all add: w')
  next
    case (Inr c)
    let ?r = "start_index c (rw w)" and ?e = "(new_entry fp (conf fp))\<lparr>re_ready := True, re_catalog := Some c\<rparr>"
    have hk: "heap_keys conf (rw w')"
      using heap_keys_publish [OF keys_okD(1) [OF keys], of fp c] by (simp add: w' Inr)
    have g: "grows (rw w) (rw w')" using publish_grows by (simp add: w' Inr)
    have "keys_ok conf w'"
      using keys_okD(7) [OF keys] by (intro keys_ok_grows [OF keys g hk]) (auto simp: w')
    moreover have "search_ok conf w'"
    proof (cases "rg_closed (rw w) \<or> sn_pending c \<or> map_of (rg_entries (rw w)) fp \<noteq> None")
      case True
      then have "search_same conf (rw w) (rw w')"
        using keys_okD(1) [OF keys] index_search_same(1) [OF keys_okD(1) [OF keys]]
        by (auto simp: w' Inr publish_def Let_def search_same_refl)
      then show ?thesis by (intro search_ok_same [OF ok keys]) (auto simp: w' flight_ids_def)
    next
      case False
      then have rw': "rw w' = allocate fp ?e ?r" by (simp add: w' Inr publish_def Let_def)
      show ?thesis
        by (rule search_ok_allocate [OF ok keys rw'])
          (use False in \<open>auto simp: w' entry_ok_def new_entry_def\<close>)
    qed
    ultimately show ?thesis by simp
  qed
qed

lemma no_flight:
  assumes "count (flight_ids w) i = 0"
  shows "(g, Some i, t) \<notin> set (refreshes w)" and "(g, i, t, cbs) \<notin> set (running w)"
  using assms by (force simp: flight_ids_def count_eq_zero_iff)+

lemma in_flight:
  "(g, Some i, t) \<in> set (refreshes w) \<Longrightarrow> i \<in># flight_ids w"
  "(g, i, t, cbs) \<in> set (running w) \<Longrightarrow> i \<in># flight_ids w"
  by (force simp: flight_ids_def)+

lemma act_refresh:
  assumes keys: "keys_ok conf w" and ok: "search_ok conf w" and live: "\<not> rg_closed (rw w)"
    and calm: "calm_action conf w (Refresh fp)" and a: "registry_act conf w (Refresh fp) = Some w'"
  shows "keys_ok conf w' \<and> search_ok conf w'"
proof (cases "cfg_tool_search (conf fp)")
  case False
  with a have w': "w' = w\<lparr>refreshes := (fp, None, clock w) # refreshes w, clock := clock w + 1\<rparr>" by simp
  have "keys_ok conf w'"
    using keys_okD(1,7) [OF keys] by (intro keys_ok_grows [OF keys]) (auto simp: w')
  moreover have "search_ok conf w'"
    using False keys_okD(1) [OF keys]
    by (intro search_ok_same [OF ok keys]) (auto simp: w' search_same_refl flight_ids_def)
  ultimately show ?thesis by simp
next
  case s: True
  obtain r b where b: "refresh_begin fp (rw w) = (r, b)" by fastforce
  show ?thesis
  proof (cases "\<exists>i. b = Begun i")
    case False
    have "b \<noteq> No_entry"
      using b s calm live by (auto simp: refresh_begin_def calm_action_def Let_def split: option.splits if_splits)
    with False a b s have "w' = w" by (cases b) auto
    with keys ok show ?thesis by simp
  next
    case True
    then obtain i where i: "b = Begun i" by blast
    with a b s have w': "w' = w\<lparr>rw := r, refreshes := (fp, Some i, clock w) # refreshes w, clock := clock w + 1\<rparr>" by simp
    have map: "map_of (rg_entries (rw w)) fp = Some i"
      using b i by (auto simp: refresh_begin_def Let_def split: option.splits if_splits)
    have k: "key_at (rw w) fp i" by (rule heap_keys_lookup [OF keys_okD(1) [OF keys] map])
    then have lt: "i < length (rg_heap (rw w))" and key: "re_key (entry_at (rw w) i) = fp" by (simp_all add: key_at_def)
    let ?e = "entry_at (rw w) i"
    let ?e' = "?e\<lparr>re_stale := True, re_refreshing := True, re_refresh_done := Some (rg_next_chan (rw w))\<rparr>"
    from refresh_begin_changes [OF b [unfolded i] lt]
    have rdy: "re_ready ?e" and none: "re_refresh_done ?e = None" and ch: "changes (rw w) i ?e' (rw w')"
      by (simp_all add: w')
    have si: "searching conf (rw w) i" using lt key s by (simp add: searching_def)
    have cur: "current (rw w) i" by (simp add: current_def key map)
    have eok: "entry_ok True ?e" using search_okD(1) [OF ok si] cur by simp
    have nref: "\<not> re_refreshing ?e" "\<not> re_pending ?e" using eok none by (auto simp: entry_ok_def)
    have zero: "count (flight_ids w) i = 0" using search_okD(2) [OF ok si] nref by simp
    have at: "entry_at (rw w') i = ?e'" using ch lt by (simp add: changes_def)
    have hk: "heap_keys conf (rw w')" by (rule heap_keys_changes [OF keys_okD(1) [OF keys] ch])
    have "keys_ok conf w'"
      using keys_okD(7) [OF keys] k s changes_grows [OF ch]
      by (intro keys_ok_grows [OF keys _ hk]) (auto simp: w' intro: key_at_grows)
    moreover have "search_ok conf w'"
    proof (rule search_ok_changes [OF ok keys ch])
      show "cfg_tool_search (conf (re_key ?e))" using s key by simp
      show "entry_ok (current (rw w) i) ?e'" using entry_ok_begun [OF eok rdy none] cur by simp
      have asked: "re_asked ?e \<le> clock w" by (rule search_okD(7) [OF ok si])
      show "re_asked ?e' \<le> clock w'" using asked by (simp add: w')
      have "flight_ok w' i (clock w)" using asked by (simp add: flight_ok_def at) (simp add: w')
      then show "(g, k, t) \<in> set (refreshes w) \<and> k \<noteq> Some i \<or> k = Some i \<and> flight_ok w' i t"
        if "(g, k, t) \<in> set (refreshes w')" for g k t
        using that no_flight(1) [OF zero, of g t] by (auto simp: w')
      show "(g, j, t, cbs) \<in> set (running w) \<and> j \<noteq> i \<or> j = i \<and> flight_ok w' i t"
        if "(g, j, t, cbs) \<in> set (running w')" for g j t cbs
        using that no_flight(2) [OF zero, of g t cbs] by (auto simp: w')
    qed (use zero in \<open>simp_all add: w' flight_ids_def\<close>)
    ultimately show ?thesis by simp
  qed
qed

lemma concat_remove1:
  "x \<in> set xs \<Longrightarrow> mset (concat (map f xs)) = mset (f x) + mset (concat (map f (remove1 x xs)))"
  by (induction xs) auto

lemma flights_remove_refresh:
  "(fp, cur, t) \<in> set (refreshes w) \<Longrightarrow>
     flight_ids w = mset (opt_list cur) + flight_ids (w\<lparr>rw := r, refreshes := remove1 (fp, cur, t) (refreshes w)\<rparr>)"
  using concat_remove1 [of "(fp, cur, t)" "refreshes w" "opt_list \<circ> fst \<circ> snd"]
  by (simp add: flight_ids_def)

lemma flights_remove_run:
  "(fp, i, t, cbs) \<in> set (running w) \<Longrightarrow>
     flight_ids w = add_mset i (flight_ids (w\<lparr>rw := r, running := remove1 (fp, i, t, cbs) (running w), called := cs\<rparr>))"
proof -
  assume x: "(fp, i, t, cbs) \<in> set (running w)"
  have "mset (running w) = add_mset (fp, i, t, cbs) (mset (remove1 (fp, i, t, cbs) (running w)))"
    using x by simp
  from arg_cong [OF this, of "image_mset (fst \<circ> snd)"] show ?thesis
    unfolding flight_ids_def by (simp del: mset_remove1)
qed

text \<open>The end of a refresh of an entry with tool search, by \<open>Refresh\<close> or by \<open>runRefresh\<close>.\<close>

lemma finish_search_ok:
  assumes keys: "keys_ok conf w" and ok: "search_ok conf w" and live: "\<not> rg_closed (rw w)"
    and k: "key_at (rw w) fp i" and s: "cfg_tool_search (conf fp)" and fo: "flight_ok w i t"
    and rw': "rw w' = finish_refresh i (outcome t res) (rw w)"
    and fl: "flight_ids w = add_mset i (flight_ids w')"
    and l: "creating w' = creating w" "ready_waiters w' = ready_waiters w" "done_waiters w' = done_waiters w"
      "set (refreshes w') \<subseteq> set (refreshes w)" "set (running w') \<subseteq> set (running w)" "clock w' = clock w"
  shows "keys_ok conf w' \<and> search_ok conf w'"
proof -
  from k have lt: "i < length (rg_heap (rw w))" and key: "re_key (entry_at (rw w) i) = fp" by (simp_all add: key_at_def)
  let ?e = "entry_at (rw w) i" and ?e' = "finished_entry (outcome t res) False (entry_at (rw w) i)"
  have ch: "changes (rw w) i ?e' (rw w')"
    using finish_refresh_changes [OF lt] live by (simp add: rw')
  have si: "searching conf (rw w) i" using lt key s by (simp add: searching_def)
  have cnt: "count (flight_ids w) i = (if re_refreshing ?e then 1 else 0)" by (rule search_okD(2) [OF ok si])
  have ref: "re_refreshing ?e" using cnt fl by (auto split: if_splits)
  have zero: "count (flight_ids w') i = 0" using cnt ref fl by simp
  have cfg: "cfg_tool_search (re_config ?e)"
    using keys_okD(1) [OF keys] lt key s by (simp add: heap_keys_def)
  have nr: "\<not> re_refreshing ?e'" "re_ready ?e' = re_ready ?e" "re_asked ?e' = re_asked ?e"
    by (cases res; simp add: finished_entry_def Let_def)+
  have hk: "heap_keys conf (rw w')" by (rule heap_keys_changes [OF keys_okD(1) [OF keys] ch])
  have "keys_ok conf w'"
    using keys_okD(7) [OF keys] changes_grows [OF ch] l by (intro keys_ok_grows [OF keys _ hk]) auto
  moreover have "search_ok conf w'"
  proof (rule search_ok_changes [OF ok keys ch])
    show "cfg_tool_search (conf (re_key ?e))" using s key by simp
    show "entry_ok (current (rw w) i) ?e'"
      using fo by (intro entry_ok_finished search_okD(1) [OF ok si] ref cfg) (simp add: flight_ok_def)
    show "re_ready ?e' = re_ready ?e" by (rule nr)
    show "re_asked ?e' \<le> clock w'" using search_okD(7) [OF ok si] by (simp add: nr l)
    show "(g, c, u) \<in> set (refreshes w) \<and> c \<noteq> Some i \<or> c = Some i \<and> flight_ok w' i u"
      if "(g, c, u) \<in> set (refreshes w')" for g c u
      using that l(4) no_flight(1) [OF zero, of g u] by (cases "c = Some i") auto
    show "(g, j, u, cbs) \<in> set (running w) \<and> j \<noteq> i \<or> j = i \<and> flight_ok w' i u"
      if "(g, j, u, cbs) \<in> set (running w')" for g j u cbs
      using that l(5) no_flight(2) [OF zero, of g u cbs] by (cases "j = i") auto
    show "count (flight_ids w') i = (if re_refreshing ?e' then 1 else 0)" using zero nr by simp
  qed (simp_all add: l fl)
  ultimately show ?thesis by simp
qed

lemma act_refreshed:
  assumes keys: "keys_ok conf w" and ok: "search_ok conf w" and live: "\<not> rg_closed (rw w)"
    and a: "registry_act conf w (Refreshed fp cur t res) = Some w'"
  shows "keys_ok conf w' \<and> search_ok conf w'"
proof -
  from a have x: "(fp, cur, t) \<in> set (refreshes w)"
    and w': "w' = w\<lparr>rw := refresh_end fp (conf fp) cur (outcome t res) (rw w), refreshes := remove1 (fp, cur, t) (refreshes w)\<rparr>"
    by (simp_all only: registry_act.simps guarded_Some)
  have sub: "set (refreshes w') \<subseteq> set (refreshes w)" by (simp add: w' set_remove1_subset)
  show ?thesis
  proof (cases "cfg_tool_search (conf fp)")
    case True
    with search_okD(5) [OF ok x] obtain i where i: "cur = Some i" and fo: "flight_ok w i t" by auto
    have k: "key_at (rw w) fp i" using keys_okD(5) [OF keys, of fp i t] x i by simp
    show ?thesis
    proof (rule finish_search_ok [OF keys ok live k True fo])
      show "rw w' = finish_refresh i (outcome t res) (rw w)" using True i live by (simp add: w' refresh_end_def)
      show "flight_ids w = add_mset i (flight_ids w')"
        using flights_remove_refresh [OF x, of "rw w'"] by (simp add: w' i)
    qed (use sub in \<open>simp_all add: w'\<close>)
  next
    case False
    with keys_okD(6) [OF keys, of fp _ t] x have none: "cur = None" by (cases cur) auto
    have ss: "search_same conf (rw w) (rw w')"
      using refresh_end_search_same [OF keys_okD(1) [OF keys] False] by (simp add: w')
    have fl: "flight_ids w' = flight_ids w"
      using flights_remove_refresh [OF x, of "rw w'"] by (simp add: w' none)
    have "keys_ok conf w'"
      using ss sub keys_okD(7) [OF keys] by (intro keys_ok_grows [OF keys]) (auto simp: search_same_def w')
    moreover have "search_ok conf w'"
    proof (rule search_ok_same [OF ok keys ss])
      show "count (flight_ids w') i = count (flight_ids w) i" for i by (simp add: fl)
    qed (use sub in \<open>auto simp: w'\<close>)
    ultimately show ?thesis by simp
  qed
qed

lemma act_ran:
  assumes keys: "keys_ok conf w" and ok: "search_ok conf w" and live: "\<not> rg_closed (rw w)"
    and a: "registry_act conf w (Ran fp i t cbs res) = Some w'"
  shows "keys_ok conf w' \<and> search_ok conf w'"
proof -
  from a have x: "(fp, i, t, cbs) \<in> set (running w)"
    and w': "w' = w\<lparr>rw := run_refresh_end fp i (outcome t res) (rw w), running := remove1 (fp, i, t, cbs) (running w),
          called := map (\<lambda>cb. (cb, error_of (outcome t res) = None)) cbs @ called w\<rparr>"
    by (simp_all only: registry_act.simps guarded_Some)
  have sub: "set (running w') \<subseteq> set (running w)" by (simp add: w' set_remove1_subset)
  have fl: "flight_ids w = add_mset i (flight_ids w')"
    using flights_remove_run [OF x, of "called w'" "rw w'"] by (simp add: w')
  have k: "key_at (rw w) fp i" by (rule keys_okD(4) [OF keys x])
  then have lt: "i < length (rg_heap (rw w))" and key: "re_key (entry_at (rw w) i) = fp" by (simp_all add: key_at_def)
  show ?thesis
  proof (cases "cfg_tool_search (conf fp)")
    case True
    have si: "searching conf (rw w) i" using lt key True by (simp add: searching_def)
    have "re_refreshing (entry_at (rw w) i)" using search_okD(2) [OF ok si] fl by (auto split: if_splits)
    then have "map_of (rg_entries (rw w)) fp = Some i"
      using search_okD(1) [OF ok si] key by (simp add: entry_ok_def current_def)
    then have "rw w' = finish_refresh i (outcome t res) (rw w)" by (simp add: w' run_refresh_end_def)
    then show ?thesis
      using sub fl by (intro finish_search_ok [OF keys ok live k True search_okD(6) [OF ok x True]]) (auto simp: w')
  next
    case False
    have ss: "search_same conf (rw w) (rw w')"
      using changes_search_same [OF keys_okD(1) [OF keys] finish_refresh_changes [OF lt]] key False
        search_same_refl [OF keys_okD(1) [OF keys]]
      by (simp add: w' run_refresh_end_def)
    have "keys_ok conf w'"
      using ss sub keys_okD(7) [OF keys] by (intro keys_ok_grows [OF keys]) (auto simp: search_same_def w')
    moreover have "search_ok conf w'"
    proof (rule search_ok_same [OF ok keys ss])
      show "count (flight_ids w') j = count (flight_ids w) j" if "searching conf (rw w) j" for j
        using that False key by (cases "j = i") (auto simp: fl searching_def)
    qed (use sub in \<open>auto simp: w'\<close>)
    ultimately show ?thesis by simp
  qed
qed

lemma act_request:
  assumes keys: "keys_ok conf w" and ok: "search_ok conf w" and live: "\<not> rg_closed (rw w)"
    and calm: "calm_action conf w (Request fp cb)" and a: "registry_act conf w (Request fp cb) = Some w'"
  shows "keys_ok conf w' \<and> search_ok conf w'"
proof (cases "map_of (rg_entries (rw w)) fp")
  case None
  then have "request_refresh fp cb (rw w) = rw w" by (simp add: request_refresh_def)
  with a None have "w' = w\<lparr>requested := opt_list cb @ requested w\<rparr>" by (simp add: Let_def)
  then show ?thesis by (intro lists_only [OF keys ok]) simp_all
next
  case (Some i)
  have k: "key_at (rw w) fp i" by (rule heap_keys_lookup [OF keys_okD(1) [OF keys] Some])
  then have lt: "i < length (rg_heap (rw w))" and key: "re_key (entry_at (rw w) i) = fp" by (simp_all add: key_at_def)
  let ?e = "entry_at (rw w) i"
  let ?e' = "requested_entry cb (clock w) (rg_next_chan (rw w)) ?e"
  let ?r = "request_refresh fp cb (rw w)"
  have ch0: "changes (rw w) i ?e' (set_entry i ((entry_at ?r i)\<lparr>re_asked := clock w\<rparr>) ?r)"
    by (rule request_refresh_changes [OF Some lt live])
  then have "map_of (rg_entries ?r) fp = Some i" using Some by (simp add: changes_def)
  with a have w': "w' = w\<lparr>rw := set_entry i ((entry_at ?r i)\<lparr>re_asked := clock w\<rparr>) ?r, requested := opt_list cb @ requested w\<rparr>"
    by (simp add: Let_def)
  then have ch: "changes (rw w) i ?e' (rw w')" using ch0 by simp
  have hk: "heap_keys conf (rw w')" by (rule heap_keys_changes [OF keys_okD(1) [OF keys] ch])
  have fl: "flight_ids w' = flight_ids w" by (simp add: w' flight_ids_def)
  have "keys_ok conf w'"
    using keys_okD(7) [OF keys] changes_grows [OF ch] by (intro keys_ok_grows [OF keys _ hk]) (auto simp: w')
  moreover have "search_ok conf w'"
  proof (cases "cfg_tool_search (conf fp)")
    case False
    with key have "\<not> cfg_tool_search (conf (re_key ?e))" by simp
    from changes_search_same [OF keys_okD(1) [OF keys] ch this] show ?thesis
      by (rule search_ok_same [OF ok keys]) (simp_all add: fl, simp_all add: w')
  next
    case True
    have si: "searching conf (rw w) i" using lt key True by (simp add: searching_def)
    have cur: "current (rw w) i" by (simp add: current_def key Some)
    have cfg: "cfg_tool_search (re_config ?e)"
      using keys_okD(1) [OF keys] lt key True by (simp add: heap_keys_def)
    have rdy: "re_ready ?e" using calm Some by (simp add: calm_action_def)
    have e': "re_ready ?e' = re_ready ?e" "re_refreshing ?e' = re_refreshing ?e" "re_asked ?e' = clock w"
      "re_refreshing ?e \<Longrightarrow> re_pending ?e'"
      by (auto simp: requested_entry_def Let_def)
    have at: "entry_at (rw w') i = ?e'" using ch lt by (simp add: changes_def)
    have flight: "flight_ok w' i t" if "flight_ok w i t" "i \<in># flight_ids w" for t
    proof -
      have "clock w' = clock w" by (simp add: w')
      moreover have "count (flight_ids w) i \<noteq> 0" using that(2) by (simp add: count_eq_zero_iff)
      ultimately show ?thesis using that(1) search_okD(2) [OF ok si] e'(4) by (auto simp: flight_ok_def at split: if_splits)
    qed
    show ?thesis
    proof (rule search_ok_changes [OF ok keys ch])
      show "cfg_tool_search (conf (re_key ?e))" using True key by simp
      show "entry_ok (current (rw w) i) ?e'"
        using entry_ok_requested [OF _ cfg rdy] search_okD(1) [OF ok si] cur by simp
      show "(g, c, t) \<in> set (refreshes w) \<and> c \<noteq> Some i \<or> c = Some i \<and> flight_ok w' i t"
        if "(g, c, t) \<in> set (refreshes w')" "cfg_tool_search (conf g)" for g c t
        using that search_okD(5) [OF ok, of g c t] in_flight(1) [of g i t w] flight [of t]
        by (cases "c = Some i") (auto simp: w')
      show "(g, j, t, cbs) \<in> set (running w) \<and> j \<noteq> i \<or> j = i \<and> flight_ok w' i t"
        if "(g, j, t, cbs) \<in> set (running w')" "cfg_tool_search (conf g)" for g j t cbs
        using that search_okD(6) [OF ok, of g j t cbs] in_flight(2) [of g i t cbs w] flight [of t]
        by (cases "j = i") (auto simp: w')
      show "re_asked ?e' \<le> clock w'" by (simp add: e' w')
      show "count (flight_ids w') i = (if re_refreshing ?e' then 1 else 0)"
        using search_okD(2) [OF ok si] by (simp add: fl e')
      show "count (flight_ids w') j = count (flight_ids w) j" for j by (simp add: fl)
    qed (simp_all add: e' w')
  qed
  ultimately show ?thesis by simp
qed

lemma changes_trans: "changes r i d s \<Longrightarrow> changes s i e t \<Longrightarrow> changes r i e t"
  by (auto simp: changes_def)

lemma act_timer:
  assumes keys: "keys_ok conf w" and ok: "search_ok conf w" and live: "\<not> rg_closed (rw w)"
    and a: "registry_act conf w (Timer i) = Some w'"
  shows "keys_ok conf w' \<and> search_ok conf w'"
proof -
  let ?e = "entry_at (rw w) i" and ?fp = "re_key (entry_at (rw w) i)"
  let ?e1 = "?e\<lparr>re_armed := False\<rparr>" and ?r1 = "set_entry i (?e\<lparr>re_armed := False\<rparr>) (rw w)"
  obtain r x where b: "run_refresh_begin ?fp ?r1 = (r, x)" by fastforce
  from a b have lt: "i < length (rg_heap (rw w))" and armed: "re_armed ?e"
    and w': "w' = (case x of None \<Rightarrow> w\<lparr>rw := r\<rparr>
       | Some (j, cbs) \<Rightarrow> w\<lparr>rw := r, running := (?fp, j, clock w, cbs) # running w, clock := clock w + 1\<rparr>)"
    by (auto simp: guarded_Some Let_def split: option.splits)
  have ch1: "changes (rw w) i ?e1 ?r1" using lt by (simp add: changes_def)
  have hk1: "heap_keys conf ?r1" by (rule heap_keys_changes [OF keys_okD(1) [OF keys] ch1])
  have lookup: "map_of (rg_entries (rw w)) ?fp = Some j" if "x = Some (j, cbs)" for j cbs
    using b that by (auto simp: run_refresh_begin_def split: option.splits if_splits)
  have kj: "key_at (rw w) ?fp j" if "x = Some (j, cbs)" for j cbs
    by (rule heap_keys_lookup [OF keys_okD(1) [OF keys] lookup [OF that]])
  have chj: "changes ?r1 j ((entry_at ?r1 j)\<lparr>re_timer := False, re_refreshing := True, re_pending := False, re_callbacks := []\<rparr>) r"
    "\<not> re_refreshing (entry_at ?r1 j)"
    if "x = Some (j, cbs)" for j cbs
    using run_refresh_begin_changes [of ?fp ?r1 r j cbs] b that kj [OF that] by (simp_all add: key_at_def)
  have "heap_keys conf r \<and> grows ?r1 r"
  proof (cases x)
    case None
    with run_refresh_begin_other [of ?fp ?r1 r] b hk1 show ?thesis by simp
  next
    case (Some p)
    then obtain j cbs where p: "x = Some (j, cbs)" by (cases p) auto
    show ?thesis using heap_keys_changes [OF hk1 chj(1) [OF p]] changes_grows [OF chj(1) [OF p]] by blast
  qed
  then have hk: "heap_keys conf r" and g: "grows (rw w) r"
    using grows_trans [OF changes_grows [OF ch1]] by blast+
  have rw': "rw w' = r" by (simp add: w' split: option.split)
  have "keys_ok conf w'"
    using keys_okD(7) [OF keys] hk g kj key_at_grows [OF g]
    by (intro keys_ok_grows [OF keys]) (auto simp: rw' w' split: option.splits)
  moreover have "search_ok conf w'"
  proof (cases "cfg_tool_search (conf ?fp)")
    case False
    have s1: "search_same conf (rw w) ?r1" by (rule changes_search_same [OF keys_okD(1) [OF keys] ch1 False])
    have "search_same conf ?r1 r"
    proof (cases x)
      case None
      with b run_refresh_begin_other [of ?fp ?r1 r] hk1 show ?thesis by (simp add: search_same_refl)
    next
      case (Some p)
      then obtain j cbs where p: "x = Some (j, cbs)" by (cases p) auto
      have "re_key (entry_at ?r1 j) = ?fp"
        using kj [OF p] by (cases "j = i") (auto simp: key_at_def)
      then show ?thesis using changes_search_same [OF hk1 chj(1) [OF p]] False by simp
    qed
    with s1 have ss: "search_same conf (rw w) (rw w')" unfolding rw' by (rule search_same_trans)
    show ?thesis
    proof (rule search_ok_same [OF ok keys ss])
      show "count (flight_ids w') j = count (flight_ids w) j" if "searching conf (rw w) j" for j
      proof (cases x)
        case (Some p)
        then obtain k cbs where p: "x = Some (k, cbs)" by (cases p) auto
        have "k \<noteq> j" using kj [OF p] that False by (auto simp: key_at_def searching_def)
        with p show ?thesis by (simp add: w' flight_ids_def)
      qed (simp add: w' flight_ids_def)
    qed (use False in \<open>auto simp: w' split: option.splits\<close>)
  next
    case s: True
    have si: "searching conf (rw w) i" using lt s by (simp add: searching_def)
    have eok: "entry_ok (current (rw w) i) ?e" by (rule search_okD(1) [OF ok si])
    then have tm: "re_timer ?e" and nr: "\<not> re_refreshing ?e" and cur: "current (rw w) i"
      using armed by (auto simp: entry_ok_def)
    then have m: "map_of (rg_entries (rw w)) ?fp = Some i" by (simp add: current_def)
    with b live nr lt obtain cbs where x: "x = Some (i, cbs)" by (auto simp: run_refresh_begin_def)
    let ?e' = "?e\<lparr>re_armed := False, re_timer := False, re_refreshing := True, re_pending := False, re_callbacks := []\<rparr>"
    have ch: "changes (rw w) i ?e' (rw w')"
      unfolding rw' using changes_trans [OF ch1] chj(1) [OF x] lt by simp
    have zero: "count (flight_ids w) i = 0" using search_okD(2) [OF ok si] nr by simp
    have asked: "re_asked ?e \<le> clock w" by (rule search_okD(7) [OF ok si])
    have at: "entry_at (rw w') i = ?e'" using ch lt by (simp add: changes_def)
    have fo: "flight_ok w' i (clock w)" using asked by (simp add: flight_ok_def at) (simp add: w' x)
    show ?thesis
    proof (rule search_ok_changes [OF ok keys ch s])
      show "entry_ok (current (rw w) i) ?e'" using entry_ok_fired [OF _ tm] eok cur by simp
      show "re_asked ?e' \<le> clock w'" using asked by (simp add: w' x)
      show "(g, c, t) \<in> set (refreshes w) \<and> c \<noteq> Some i \<or> c = Some i \<and> flight_ok w' i t"
        if "(g, c, t) \<in> set (refreshes w')" for g c t
        using that no_flight(1) [OF zero, of g t] by (auto simp: w' x)
      show "(g, j, t, cbs) \<in> set (running w) \<and> j \<noteq> i \<or> j = i \<and> flight_ok w' i t"
        if "(g, j, t, cbs) \<in> set (running w')" for g j t cbs
        using that no_flight(2) [OF zero, of g t cbs] fo by (auto simp: w' x)
    qed (use zero in \<open>simp_all add: w' x flight_ids_def\<close>)
  qed
  ultimately show ?thesis by simp
qed

lemma act_invalidate:
  assumes keys: "keys_ok conf w" and ok: "search_ok conf w"
    and calm: "calm_action conf w (Invalidate name)" and a: "registry_act conf w (Invalidate name) = Some w'"
  shows "keys_ok conf w' \<and> search_ok conf w'"
proof -
  from a have w': "w' = w\<lparr>rw := invalidate_component name (rw w)\<rparr>" by simp
  have "list_all (\<lambda>(fp, i). key_at (rw w) fp i) (rg_entries (rw w))"
    using keys_okD(1) [OF keys] by (auto simp: heap_keys_def list_all_iff)
  then have ss: "search_same conf (rw w) (rw w')"
    using invalidate_search_same [OF keys_okD(1) [OF keys]] calm
    by (simp add: w' invalidate_component_def calm_action_def)
  have "keys_ok conf w'"
    using ss keys_okD(7) [OF keys] by (intro keys_ok_grows [OF keys]) (auto simp: search_same_def w')
  moreover have "search_ok conf w'"
    using ss by (rule search_ok_same [OF ok keys]) (simp_all add: w' flight_ids_def)
  ultimately show ?thesis by simp
qed

text \<open>A closed registry stays closed.\<close>

lemma rg_closed_simps [simp]:
  "rg_closed (make_refresh_done i r) = rg_closed r" "rg_closed (close_refresh_done i r) = rg_closed r"
  "rg_closed (arm_refresh i r) = rg_closed r" "rg_closed (finish_refresh i res r) = rg_closed r"
  "rg_closed (first_compiled fp i res r) = rg_closed r" "rg_closed (publish fp cfg c r) = rg_closed r"
  "rg_closed (request_refresh fp cb r) = rg_closed r" "rg_closed (refresh_end fp cfg cur res r) = rg_closed r"
  "rg_closed (run_refresh_end fp i res r) = rg_closed r" "rg_closed (invalidate_entry name fi r) = rg_closed r"
  by (auto simp: make_refresh_done_def close_refresh_done_def arm_refresh_def finish_refresh_def first_compiled_def
      publish_def request_refresh_def refresh_end_def run_refresh_end_def invalidate_entry_def Let_def
      split: option.splits sum.splits)

lemma closed_wait: "wait_enter i s r = (r', res) \<Longrightarrow> rg_closed r' = rg_closed r"
  by (auto simp: wait_enter_def Let_def split: option.splits if_splits)

lemma closed_begin: "refresh_begin fp r = (r', b) \<Longrightarrow> rg_closed r' = rg_closed r"
  by (auto simp: refresh_begin_def Let_def split: option.splits if_splits)

lemma closed_run: "run_refresh_begin fp r = (r', b) \<Longrightarrow> rg_closed r' = rg_closed r"
  by (auto simp: run_refresh_begin_def split: option.splits if_splits)

lemma closed_invalidate: "rg_closed (fold (invalidate_entry name) fis r) = rg_closed r"
  by (induction fis arbitrary: r) simp_all

lemma closed_close: "rg_closed r \<Longrightarrow> rg_closed (fold close_registry_entry fis r)"
  by (induction fis arbitrary: r) (simp_all add: close_registry_entry_def Let_def)

lemma closed_registry: "rg_closed (close_registry r)"
  by (simp add: close_registry_def closed_close)

lemma registry_act_closed:
  assumes "registry_act conf w a = Some w'" and "rg_closed (rw w)"
  shows "rg_closed (rw w')"
proof (cases a)
  case (Get fp)
  with assms show ?thesis by (auto simp: entry_for_config_def split: option.splits)
next
  case (Ready_seen fp i)
  obtain r res where e: "wait_enter i (cfg_tool_search (conf fp)) (rw w) = (r, res)" by fastforce
  with assms Ready_seen closed_wait [OF e] show ?thesis by (auto simp: guarded_Some)
next
  case (Refresh fp)
  obtain r b where e: "refresh_begin fp (rw w) = (r, b)" by fastforce
  with assms Refresh closed_begin [OF e] show ?thesis by (cases b) (auto split: if_splits)
next
  case (Timer i)
  let ?r1 = "set_entry i ((entry_at (rw w) i)\<lparr>re_armed := False\<rparr>) (rw w)"
  obtain r b where e: "run_refresh_begin (re_key (entry_at (rw w) i)) ?r1 = (r, b)" by fastforce
  with assms Timer closed_run [OF e] show ?thesis by (auto simp: guarded_Some Let_def split: option.splits)
qed (use assms in \<open>auto simp: guarded_Some Let_def closed_registry invalidate_component_def closed_invalidate
       split: option.splits sum.splits\<close>)

definition registry_ok :: "(string \<Rightarrow> config) \<Rightarrow> registry_world \<Rightarrow> bool" where
  "registry_ok conf w \<longleftrightarrow> rg_closed (rw w) \<or> keys_ok conf w \<and> search_ok conf w"

lemma registry_ok_init: "registry_init w \<Longrightarrow> registry_ok conf w"
  by (simp add: registry_init_def registry_ok_def registry_start_def keys_ok_def heap_keys_def new_registry_def
      search_ok_def searching_def)

lemma registry_ok_step:
  assumes ok: "registry_ok conf w" and step: "calm_step conf w a w'"
  shows "registry_ok conf w'"
proof -
  from step have calm: "calm_action conf w a" and act: "registry_act conf w a = Some w'"
    by (simp_all add: calm_step_def registry_step_def)
  show ?thesis
  proof (cases "rg_closed (rw w)")
    case True
    with registry_act_closed [OF act] show ?thesis by (simp add: registry_ok_def)
  next
    case live: False
    with ok have keys: "keys_ok conf w" and s: "search_ok conf w" by (simp_all add: registry_ok_def)
    consider "a = Close_registry" | "keys_ok conf w' \<and> search_ok conf w'"
    proof (cases a)
      case (Get fp)
      with act_get [OF keys s] calm act that(2) show ?thesis by blast
    next
      case (First_compiled fp i t res)
      with act_first [OF keys s] calm act that(2) show ?thesis by blast
    next
      case (Ready_seen fp i)
      with act_ready [OF keys s live] calm act that(2) show ?thesis by blast
    next
      case (Ready_abandoned fp i)
      with act_waiters [OF keys s, of fp i] calm act that(2) show ?thesis by blast
    next
      case (Done_seen fp c)
      with act_waiters [OF keys s, of fp _ _ c] calm act that(2) show ?thesis by blast
    next
      case (Done_abandoned fp c)
      with act_waiters [OF keys s, of fp _ _ c] calm act that(2) show ?thesis by blast
    next
      case (Retried fp t res)
      with act_retried [OF keys s] calm act that(2) show ?thesis by blast
    next
      case (Refresh fp)
      with act_refresh [OF keys s live] calm act that(2) show ?thesis by blast
    next
      case (Refreshed fp cur t res)
      with act_refreshed [OF keys s live] calm act that(2) show ?thesis by blast
    next
      case (Invalidate name)
      with act_invalidate [OF keys s] calm act that(2) show ?thesis by blast
    next
      case (Request fp cb)
      with act_request [OF keys s live] calm act that(2) show ?thesis by blast
    next
      case (Timer i)
      with act_timer [OF keys s live] calm act that(2) show ?thesis by blast
    next
      case (Ran fp i t cbs res)
      with act_ran [OF keys s live] calm act that(2) show ?thesis by blast
    next
      case Close_registry
      with that(1) show ?thesis by simp
    qed
    then show ?thesis
    proof cases
      case 1
      with act closed_registry show ?thesis by (auto simp: registry_ok_def)
    qed (simp add: registry_ok_def)
  qed
qed

interpretation rm: invariant_machine registry_init "calm_step conf" "registry_ok conf"
  by unfold_locales (auto intro: registry_ok_init registry_ok_step)

section \<open>Properties\<close>

lemma calm_ok:
  assumes "reach registry_init (calm_step conf) w" and "\<not> rg_closed (rw w)"
  shows "keys_ok conf w" and "search_ok conf w"
  using rm.reach_inv [OF assms(1)] assms(2) by (simp_all add: registry_ok_def)

lemma play_registry:
  assumes "play (registry_act conf) registry_start as = Some w"
  shows "reach registry_init (registry_step conf) w"
  by (rule play_reach [OF reach_init _ assms]) (simp_all add: registry_init_def registry_step_def)

lemma play_calm:
  assumes "play (calm_next conf) registry_start as = Some w"
  shows "reach registry_init (calm_step conf) w"
  by (rule play_reach [OF reach_init _ assms])
    (simp_all add: registry_init_def registry_step_def calm_step_def calm_next_def split: if_splits)

text \<open>
  C18: in the calm runs no request waits in vain. Let a change be announced only to an entry that is ready,
  and for configurations with tool search let no component be invalidated and \<open>Refresh\<close> be called only
  when there is an entry. Then, while the registry is open, a request that waits for the refresh of a
  stale catalog waits on a channel that is closed already, or on the channel of the current entry of
  its configuration, for which a refresh is in flight or a timer is armed that starts one. The code
  does not enforce the proviso, and \<open>waiter_left_behind\<close> shows a run outside it where a waiter is lost.
\<close>

theorem waiters_are_served:
  assumes "reach registry_init (calm_step conf) w" and "\<not> rg_closed (rw w)"
    and "(fp, c) \<in> set (done_waiters w)"
  shows "c \<in> set (rg_closed_chans (rw w))
    \<or> (\<exists>i. map_of (rg_entries (rw w)) fp = Some i \<and> re_refresh_done (entry_at (rw w) i) = Some c
         \<and> (re_armed (entry_at (rw w) i)
            \<or> (\<exists>t cbs. (fp, i, t, cbs) \<in> set (running w)) \<or> (\<exists>t. (fp, Some i, t) \<in> set (refreshes w))))"
proof (cases "c \<in> set (rg_closed_chans (rw w))")
  case False
  note keys = calm_ok(1) [OF assms(1,2)] and ok = calm_ok(2) [OF assms(1,2)]
  from search_okD(4) [OF ok assms(3)] False obtain i where s: "cfg_tool_search (conf fp)"
    and m: "map_of (rg_entries (rw w)) fp = Some i" and rd: "re_refresh_done (entry_at (rw w) i) = Some c"
    by (auto simp: waiter_ok_def)
  have k: "key_at (rw w) fp i" by (rule heap_keys_lookup [OF keys_okD(1) [OF keys] m])
  with s have si: "searching conf (rw w) i" by (auto simp: searching_def key_at_def)
  have "re_refreshing (entry_at (rw w) i) \<or> re_timer (entry_at (rw w) i)"
    using search_okD(1) [OF ok si] rd by (simp add: entry_ok_def)
  then show ?thesis
  proof
    assume "re_timer (entry_at (rw w) i)"
    with search_okD(1) [OF ok si] m rd show ?thesis by (auto simp: entry_ok_def)
  next
    assume "re_refreshing (entry_at (rw w) i)"
    then have "i \<in># flight_ids w" using search_okD(2) [OF ok si] by (simp add: count_greater_zero_iff [symmetric])
    then consider (run) g t cbs where "(g, i, t, cbs) \<in> set (running w)"
      | (ref) g t where "(g, Some i, t) \<in> set (refreshes w)"
      by (force simp: flight_ids_def)
    then show ?thesis
    proof cases
      case run
      with keys_okD(4) [OF keys run] k have "g = fp" by (simp add: key_at_def)
      with run m rd show ?thesis by blast
    next
      case ref
      with keys_okD(5) [OF keys ref] k have "g = fp" by (simp add: key_at_def)
      with ref m rd show ?thesis by blast
    qed
  qed
qed simp

text \<open>Configurations with tool search and one component.\<close>

definition search_conf :: "string \<Rightarrow> config" where
  "search_conf fp = \<lparr>cfg_request_scoped_discovery = False, cfg_name = [], cfg_version = [], cfg_tool_search = True,
     cfg_defer_authorization = False, cfg_listen = [], cfg_idle_timeout = 0,
     cfg_servers = [\<lparr>srv_discovery_method = [], srv_discovery_revision = [], srv_name = ''github'', srv_prefix = [],
       srv_url = ''u'', srv_headers = [], srv_passthrough_headers = [], srv_command = [], srv_args = [], srv_env = [],
       srv_working_directory = [], srv_timeout = 0, srv_tools = [], srv_disable_tools = False, srv_prompts = [],
       srv_resources = [], srv_resource_templates = []\<rparr>]\<rparr>"

definition plain_conf :: "string \<Rightarrow> config" where
  "plain_conf fp = (search_conf fp)\<lparr>cfg_tool_search := False\<rparr>"

lemmas registry_ops = calm_next_def calm_action_def registry_start_def new_registry_def entry_for_config_def
  allocate_def new_entry_def first_compiled_def set_entry_def start_index_def stop_index_def not_cacheable_def
  wait_enter_def wait_done_def make_refresh_done_def close_refresh_done_def arm_refresh_def finish_refresh_def
  refresh_begin_def refresh_end_def has_server_def invalidate_entry_def invalidate_component_def
  request_refresh_def run_refresh_begin_def run_refresh_end_def guarded_def after_wait_def Let_def
  search_conf_def plain_conf_def

definition waiting_run :: "registry_action list" where
  "waiting_run = [Get ''f'', First_compiled ''f'' 0 0 (Compiled_ok False), Request ''f'' (Some 7), Get ''f'', Ready_seen ''f'' 0]"

definition waiting_world :: registry_world where
  "waiting_world = the (play (calm_next search_conf) registry_start waiting_run)"

lemma waiting_play: "play (calm_next search_conf) registry_start waiting_run = Some waiting_world"
  unfolding waiting_world_def by (simp add: waiting_run_def registry_ops)

theorem waiters_are_served_witness:
  "(''f'', 0) \<in> set (done_waiters waiting_world) \<and> 0 \<notin> set (rg_closed_chans (rw waiting_world))
   \<and> (0 \<in> set (rg_closed_chans (rw waiting_world))
      \<or> (\<exists>i. map_of (rg_entries (rw waiting_world)) ''f'' = Some i \<and> re_refresh_done (entry_at (rw waiting_world) i) = Some 0
         \<and> (re_armed (entry_at (rw waiting_world) i)
            \<or> (\<exists>t cbs. (''f'', i, t, cbs) \<in> set (running waiting_world))
            \<or> (\<exists>t. (''f'', Some i, t) \<in> set (refreshes waiting_world)))))"
proof -
  have "\<not> rg_closed (rw waiting_world)" "(''f'', 0) \<in> set (done_waiters waiting_world)"
    "0 \<notin> set (rg_closed_chans (rw waiting_world))"
    unfolding waiting_world_def by (simp_all add: waiting_run_def registry_ops)
  with waiters_are_served [OF play_calm [OF waiting_play]] show ?thesis by blast
qed

text \<open>
  C19: in the calm runs a search never answers from before an announced change. Under the proviso of C18
  (a change is announced only to a ready entry; for configurations with tool search no component is
  invalidated and \<open>Refresh\<close> needs an entry), while the registry is open, whatever a configuration with
  tool search gets out of the cache - at once from a ready entry, or after waiting for a refresh - is
  a catalog whose compilation started after the last change announced to its entry. The code does not
  enforce the proviso, and \<open>first_compile_serves_stale_search\<close> shows a run outside it that serves an
  older catalog.
\<close>

theorem search_catalog_fresh:
  assumes "reach registry_init (calm_step conf) w" and "\<not> rg_closed (rw w)"
    and "cfg_tool_search (conf fp)" and "map_of (rg_entries (rw w)) fp = Some i" and "re_ready (entry_at (rw w) i)"
    and "snd (wait_enter i True (rw w)) = Found c \<or> wait_done fp (rw w) = Found c"
  shows "\<exists>s. c = Some s \<and> re_asked (entry_at (rw w) i) \<le> sn_ticket s"
proof -
  note keys = calm_ok(1) [OF assms(1,2)] and ok = calm_ok(2) [OF assms(1,2)]
  have k: "key_at (rw w) fp i" by (rule heap_keys_lookup [OF keys_okD(1) [OF keys] assms(4)])
  with assms(3) have si: "searching conf (rw w) i" by (auto simp: searching_def key_at_def)
  have "\<not> re_stale (entry_at (rw w) i)" "re_err (entry_at (rw w) i) = None" "c = re_catalog (entry_at (rw w) i)"
    using assms(2,4,6) by (auto simp: wait_enter_def wait_done_def Let_def split: option.splits if_splits)
  with search_okD(1) [OF ok si] assms(5) show ?thesis by (auto simp: entry_ok_def)
qed

definition refreshed_world :: registry_world where
  "refreshed_world = the (play (calm_next search_conf) registry_start
     (waiting_run @ [Timer 0, Ran ''f'' 0 1 [7] (Compiled_ok False)]))"

lemma refreshed_play: "play (calm_next search_conf) registry_start
     (waiting_run @ [Timer 0, Ran ''f'' 0 1 [7] (Compiled_ok False)]) = Some refreshed_world"
  unfolding refreshed_world_def by (simp add: waiting_run_def registry_ops)

theorem search_catalog_fresh_witness:
  "called refreshed_world = [(7, True)] \<and> wait_done ''f'' (rw refreshed_world) = Found (Some \<lparr>sn_ticket = 1, sn_pending = False\<rparr>)
   \<and> (\<exists>s. Some \<lparr>sn_ticket = 1, sn_pending = False\<rparr> = Some s \<and> re_asked (entry_at (rw refreshed_world) 0) \<le> sn_ticket s)"
proof -
  have f: "\<not> rg_closed (rw refreshed_world)" "cfg_tool_search (search_conf ''f'')"
    "map_of (rg_entries (rw refreshed_world)) ''f'' = Some 0" "re_ready (entry_at (rw refreshed_world) 0)"
    "called refreshed_world = [(7, True)]"
    "wait_done ''f'' (rw refreshed_world) = Found (Some \<lparr>sn_ticket = 1, sn_pending = False\<rparr>)"
    unfolding refreshed_world_def by (simp_all add: waiting_run_def registry_ops)
  show ?thesis
    using search_catalog_fresh [OF play_calm [OF refreshed_play] f(1-4) disjI2 [OF f(6)]] f(5,6) by blast
qed

text \<open>
  Two runs outside the calm ones. A request that found the entry stale and looks only after the entry
  was invalidated makes a channel on the dropped entry: nobody closes it, no armed timer is left, and
  the request waits until its own context ends. And a change announced while the first compilation is
  in flight is refreshed first and overwritten afterwards.
\<close>

lemma waiter_left_behind:
  "\<exists>w. reach registry_init (registry_step search_conf) w \<and> \<not> rg_closed (rw w)
     \<and> done_waiters w = [(''f'', 1)] \<and> 1 \<notin> set (rg_closed_chans (rw w))
     \<and> rg_entries (rw w) = [] \<and> running w = [] \<and> refreshes w = [] \<and> rg_heap (rw w) \<noteq> []
     \<and> list_all (\<lambda>e. \<not> re_armed e) (rg_heap (rw w))"
proof -
  let ?run = "[Get ''f'', First_compiled ''f'' 0 0 (Compiled_ok False), Get ''f'', Request ''f'' (Some 7),
     Invalidate ''github'', Ready_seen ''f'' 0]"
  define w where "w = the (play (registry_act search_conf) registry_start ?run)"
  have p: "play (registry_act search_conf) registry_start ?run = Some w"
    unfolding w_def by (simp add: registry_ops)
  have "\<not> rg_closed (rw w)" "done_waiters w = [(''f'', 1)]" "1 \<notin> set (rg_closed_chans (rw w))"
    "rg_entries (rw w) = []" "running w = []" "refreshes w = []" "rg_heap (rw w) \<noteq> []"
    "list_all (\<lambda>e. \<not> re_armed e) (rg_heap (rw w))"
    unfolding w_def by (simp_all add: registry_ops)
  with play_registry [OF p] show ?thesis by blast
qed

lemma first_compile_serves_stale_search:
  "\<exists>w. reach registry_init (registry_step search_conf) w \<and> \<not> rg_closed (rw w)
     \<and> map_of (rg_entries (rw w)) ''f'' = Some 0 \<and> re_ready (entry_at (rw w) 0) \<and> re_asked (entry_at (rw w) 0) = 1
     \<and> snd (wait_enter 0 True (rw w)) = Found (Some \<lparr>sn_ticket = 0, sn_pending = False\<rparr>)"
proof -
  let ?run = "[Get ''f'', Request ''f'' (Some 7), Timer 0, Ran ''f'' 0 1 [7] (Compiled_ok False),
     First_compiled ''f'' 0 0 (Compiled_ok False)]"
  define w where "w = the (play (registry_act search_conf) registry_start ?run)"
  have p: "play (registry_act search_conf) registry_start ?run = Some w"
    unfolding w_def by (simp add: registry_ops)
  have "\<not> rg_closed (rw w)" "map_of (rg_entries (rw w)) ''f'' = Some 0" "re_ready (entry_at (rw w) 0)"
    "re_asked (entry_at (rw w) 0) = 1"
    "snd (wait_enter 0 True (rw w)) = Found (Some \<lparr>sn_ticket = 0, sn_pending = False\<rparr>)"
    unfolding w_def by (simp_all add: registry_ops)
  with play_registry [OF p] show ?thesis by blast
qed

text \<open>
  a refresh can be lost to the first compilation. When a change is announced while the first compilation
  of the entry is in flight, the refresh installs the newer catalog and reports success to the
  listeners; then the first compilation ends and puts its older catalog over it. Nothing is in
  flight or armed any more, and the entry is not stale: the old catalog is served until the next
  change.
\<close>

theorem first_compile_overwrites_refresh:
  "\<exists>w. reach registry_init (registry_step plain_conf) w \<and> called w = [(7, True)]
     \<and> creating w = [] \<and> running w = [] \<and> refreshes w = []
     \<and> map_of (rg_entries (rw w)) ''f'' = Some 0 \<and> re_asked (entry_at (rw w) 0) = 1
     \<and> re_catalog (entry_at (rw w) 0) = Some \<lparr>sn_ticket = 0, sn_pending = False\<rparr>
     \<and> cached ''f'' (rw w) = Some \<lparr>sn_ticket = 0, sn_pending = False\<rparr> \<and> \<not> re_armed (entry_at (rw w) 0)"
proof -
  let ?run = "[Get ''f'', Request ''f'' (Some 7), Timer 0, Ran ''f'' 0 1 [7] (Compiled_ok False),
     First_compiled ''f'' 0 0 (Compiled_ok False)]"
  define w where "w = the (play (registry_act plain_conf) registry_start ?run)"
  have p: "play (registry_act plain_conf) registry_start ?run = Some w"
    unfolding w_def by (simp add: registry_ops)
  have "called w = [(7, True)]" "creating w = []" "running w = []" "refreshes w = []"
    "map_of (rg_entries (rw w)) ''f'' = Some 0" "re_asked (entry_at (rw w) 0) = 1"
    "re_catalog (entry_at (rw w) 0) = Some \<lparr>sn_ticket = 0, sn_pending = False\<rparr>"
    "cached ''f'' (rw w) = Some \<lparr>sn_ticket = 0, sn_pending = False\<rparr>" "\<not> re_armed (entry_at (rw w) 0)"
    unfolding w_def by (simp_all add: registry_ops cached_def)
  with play_registry [OF p] show ?thesis by blast
qed

text \<open>
  an announcement can be lost to an explicit refresh. \<open>Refresh\<close> of a configuration without tool search
  puts a new entry in the place of the one that holds the callbacks of an announced change; the timer
  refreshes the new entry, and the callbacks are never called.
\<close>

theorem explicit_refresh_loses_callback:
  "\<exists>w. reach registry_init (registry_step plain_conf) w \<and> requested w = [7] \<and> called w = []
     \<and> creating w = [] \<and> running w = [] \<and> refreshes w = [] \<and> map_of (rg_entries (rw w)) ''f'' = Some 1
     \<and> re_callbacks (entry_at (rw w) 1) = [] \<and> \<not> re_armed (entry_at (rw w) 0) \<and> \<not> re_armed (entry_at (rw w) 1)"
proof -
  let ?run = "[Get ''f'', First_compiled ''f'' 0 0 (Compiled_ok False), Refresh ''f'', Request ''f'' (Some 7),
     Refreshed ''f'' None 1 (Compiled_ok False), Timer 0, Ran ''f'' 1 2 [] (Compiled_ok False)]"
  define w where "w = the (play (registry_act plain_conf) registry_start ?run)"
  have p: "play (registry_act plain_conf) registry_start ?run = Some w"
    unfolding w_def by (simp add: registry_ops)
  have "requested w = [7]" "called w = []" "creating w = []" "running w = []" "refreshes w = []"
    "map_of (rg_entries (rw w)) ''f'' = Some 1" "re_callbacks (entry_at (rw w) 1) = []"
    "\<not> re_armed (entry_at (rw w) 0)" "\<not> re_armed (entry_at (rw w) 1)"
    unfolding w_def by (simp_all add: registry_ops)
  with play_registry [OF p] show ?thesis by blast
qed

text \<open>
  C20: a waiting request can wake up to a nil catalog. When the component is invalidated while a request waits
  for a refresh, its channel is closed and the entry dropped; if another request has created a new
  entry by the time it looks, it finds that entry not stale, without an error and without a catalog,
  and \<open>Get\<close> reads the pending authorizations of a nil catalog.
\<close>

theorem woken_waiter_finds_nil:
  "\<exists>w. reach registry_init (registry_step search_conf) w \<and> \<not> rg_closed (rw w)
     \<and> done_waiters w = [(''f'', 0)] \<and> 0 \<in> set (rg_closed_chans (rw w)) \<and> wait_done ''f'' (rw w) = Found None"
proof -
  let ?run = "waiting_run @ [Invalidate ''github'', Get ''f'']"
  define w where "w = the (play (registry_act search_conf) registry_start ?run)"
  have p: "play (registry_act search_conf) registry_start ?run = Some w"
    unfolding w_def by (simp add: waiting_run_def registry_ops)
  have "\<not> rg_closed (rw w)" "done_waiters w = [(''f'', 0)]" "0 \<in> set (rg_closed_chans (rw w))"
    "wait_done ''f'' (rw w) = Found None"
    unfolding w_def by (simp_all add: waiting_run_def registry_ops)
  with play_registry [OF p] show ?thesis by blast
qed

end
