(* ===== verification/Spec2Isabelle.thy ===== *)
theory Spec2Isabelle
  imports Shutdown Fingerprint Factories Sessions Sql Downstream Stdio Stores Dsn Notifications Server Index_Life Discovery Http_Activity Manager Pool Registry
begin

text \<open>
  A model of \<open>mmmcp\<close>, a composite MCP server: one frontend in front of several component servers, which are
  reached over HTTP or started as commands. All file names below are relative to \<open>src/\<close>.

  \<^bold>\<open>How the program works.\<close> The configuration (\<open>config/\<close>) names the components. For a configuration the compiler
  (\<open>catalog/compiler.go\<close>) discovers every component in parallel, gives each feature an exposed name or URI
  (\<open>namespace/\<close>) and freezes the result in an immutable catalog with routes back to the owners
  (\<open>catalog/catalog.go\<close>). The registry (\<open>catalog/registry.go\<close>) keeps one catalog per configuration and recompiles it
  when a component announces a change. A request comes in over HTTP or stdio (\<open>http.go\<close>, \<open>stdio.go\<close>), is bound to
  its configuration (\<open>http_config_bridge.go\<close>), finds its catalog, and is answered by the handlers (\<open>handler.go\<close>):
  lists are pages of the catalog, calls are resolved, forwarded to the owner, rewritten and translated to the
  protocol version of the frontend. Stateful frontends share component sessions in a pool (\<open>component/pool.go\<close>),
  whose commands a process manager retires when they are idle (\<open>component/stdio/manager.go\<close>). Events of resumable
  streams are logged in a database (\<open>storage/\<close>). Challenges of components that want authorization are collected
  and reported as one (\<open>component/authorization.go\<close>, \<open>http_authorization.go\<close>).

  \<^bold>\<open>Theories.\<close>
  \<^item> \<open>Prelude\<close>, \<open>Go_Lib\<close>: error results, Go's byte strings, JSON, state machines (\<open>reach\<close>, the locale
    \<open>invariant_machine\<close>, executable runs with \<open>play\<close>), the parts of Go's library that are used.
  \<^item> \<open>Config\<close>: \<open>config/\<close>. \<open>Component_Types\<close>: the data of \<open>component/component.go\<close>. \<open>Namespace\<close>: \<open>namespace/\<close>.
  \<^item> \<open>Tool_Search\<close>, \<open>Search_Index\<close>, \<open>Index_Life\<close>: \<open>toolsearch/search.go\<close>; the last one is the worker that builds an index
    beside its callers.
  \<^item> \<open>Catalog\<close>, \<open>Compiler\<close>, \<open>Compiled\<close>: the snapshot, its compilation, and what every compiled catalog satisfies.
    \<open>Discovery\<close>: the workers of the parallel discovery. \<open>Pagination\<close>, \<open>Rewrite\<close>, \<open>Tool_Calls\<close>, \<open>Request_Catalog\<close>: the other
    files of \<open>catalog/\<close> and \<open>request_catalog.go\<close>. \<open>Registry\<close>, \<open>Fingerprint\<close>: \<open>catalog/registry.go\<close>.
  \<^item> \<open>Authorization\<close>, \<open>Config_Bridge\<close>, \<open>Http_Activity\<close>, \<open>Translation\<close>, \<open>Handler\<close>, \<open>Notifications\<close>, \<open>Sessions\<close>, \<open>Server\<close>, \<open>Composite\<close>:
    the files of the root package.
  \<^item> \<open>Client\<close>, \<open>Downstream\<close>, \<open>Stdio\<close>, \<open>Factories\<close>, \<open>Manager\<close>, \<open>Pool\<close>: \<open>component/\<close> with its two transports.
  \<^item> \<open>Event_Store\<close>, \<open>Sql\<close>, \<open>Dsn\<close>, \<open>Stores\<close>: \<open>storage/\<close>.
  \<^item> \<open>Program\<close>, \<open>Shutdown\<close>: \<open>cmd/mmmcp/run.go\<close> and \<open>config/load.go\<close>.

  \<^bold>\<open>How code becomes definitions.\<close> Sequential code is a function whose branches are the code's, with errors as the
  left summand of a sum. Where goroutines share state, every stretch of code under a lock (or between two
  channel operations) is one function on a record with the fields of the struct, and a step function interleaves
  them in any order with what happens outside the locks; ghost fields, named as such, record what the
  properties speak of. The step relations forbid nothing the code allows; where a property holds only for some runs,
  a second relation (\<open>timely_step\<close> of the pool, \<open>calm_step\<close> of the registry, \<open>bound_in_flight\<close> of the server) names them,
  and a run outside it in which the property fails stands beside it. What Go leaves open, such as the order in which
  a map is visited, is an argument. The machines are \<open>Registry\<close>, \<open>Pool\<close>, \<open>Manager\<close>, \<open>Discovery\<close>, \<open>Http_Activity\<close>, \<open>Index_Life\<close>, the
  processes of \<open>Stdio\<close>, the two of \<open>Stores\<close>, \<open>Notifications\<close>, \<open>Sessions\<close>, \<open>Server\<close> and \<open>Shutdown\<close>; their invariants are
  interpretations of \<open>invariant_machine\<close> (the workers of \<open>Discovery\<close> have a direct
  induction). The contracts that several pieces of code share are locales with an interpretation for each of
  them: the feature loops of the compiler and the listings of a session. Code that is not in the repository is
  an argument: the MCP SDK (sessions, transports), bleve (the ranking), URI templates, the database drivers,
  YAML, and of Go's library JSON, URLs and hashing.

  \<^bold>\<open>What is shown.\<close>
  \<^item> What a client sees: the exposed identities are injective, lists are exactly what the components contribute,
    pages and search results cut one fixed order without gaps, every listed tool reaches its owner, and a URI in
    a result routes back (\<open>Namespace\<close>, \<open>Compiled\<close>, \<open>Pagination\<close>, \<open>Search_Index\<close>, \<open>Rewrite\<close>, \<open>Handler\<close>).
  \<^item> Who sees what: requests are isolated from each other, allow lists and pending authorizations are respected,
    headers and environments of components come from the configuration (\<open>Config_Bridge\<close>, \<open>Compiled\<close>, \<open>Downstream\<close>,
    \<open>Stdio\<close>), a pending authorization keeps every operation away from the components, and a policy check sees the call the
    frontend will make, over HTTP and on stdio (\<open>Composite\<close>).
  \<^item> Concurrency: what is opened is closed once, what is used is not retired, who waits is served and a search
    finds a fresh catalog (each under the conditions its theorem names), a successful discovery has the
    same result under every schedule, and shutdown waits only for what it stopped (\<open>Pool\<close>, \<open>Manager\<close>, \<open>Registry\<close>, \<open>Discovery\<close>, \<open>Stores\<close>, \<open>Index_Life\<close>, \<open>Server\<close>, \<open>Shutdown\<close>).
  \<^item> Refinement: the event log implements append-only histories, the process manager implements the life cycle
    of a process (\<open>Event_Store\<close>, \<open>Manager\<close>).
  \<^item> Round trips: challenges, cursors, parameter headers, rewritten URIs, statement parameters.
  \<^item> Schedules in which the code does not do what it means to are reachable states: \<open>late_acquire_leaks\<close>,
    \<open>woken_waiter_finds_nil\<close>, \<open>failed_open_unbinds_session\<close>, \<open>waiter_left_behind\<close>, \<open>first_compile_serves_stale_search\<close>,
    \<open>probe_outlives_close\<close>, \<open>late_session_outlives_close\<close>.

  \<^bold>\<open>Bounds.\<close> No definition of code takes fuel; only the client \<open>walk\<close> of \<open>Pagination\<close> that follows cursors does, and one request
  more than there are features is enough for it. Loops that end are recursion with a measure: a transaction is
  tried at most five times, discovery runs at most eight workers, a program run has at most fourteen steps beside
  cancellations. \<open>paginate\<close>, which a component can keep busy, is a partial function, and \<open>discovery_ends\<close> says when
  it has a value. The sum that ends a page wraps around at 64 bits, and so does the successor of the index from which a
  client replays a stream, which it chooses freely; the generation of the idle timer is a 64-bit word. The indices the
  event log gives out itself, its sizes and its times are integers, as they stay far below their width.

  \<^bold>\<open>Not modelled.\<close> \<open>options.go\<close> is a record without behaviour. The migrations are SQL files run by a library.
  \<open>component/stdio/clock.go\<close> wraps \<open>time.AfterFunc\<close>. The wiring of the SDK's servers in \<open>composite.go\<close> and \<open>http.go\<close>,
  \<open>main.go\<close>, logging, the test server and the scripts have no logic of their own. The Go memory model is not part
  of the model: code under a lock is atomic, and so are single reads and writes of atomic variables.
\<close>

end
